(* ===== verification/MqttPrelude.thy ===== *)
theory MqttPrelude
  imports Main "HOL-Library.Word" "HOL-Library.Monad_Syntax" "HOL-Library.Signed_Division"
begin

unbundle bit_operations_syntax

text \<open>
  Shared vocabulary of the development: bytes and byte strings, NUL-terminated C strings,
  the null-or-object values of C pointers, reads from a memory block at a cursor, and the
  completion codes every layer of the client returns. The generic lemmas on lists and words
  that several components need are here as well.

  Undefined behaviour is made explicit: a definition that can read outside its memory block
  returns an \<open>option\<close>, with \<open>None\<close> for the access outside the block.
\<close>

type_synonym byte = "8 word"
type_synonym bytes = "byte list"

text \<open>A pointer that is either \<open>NULL\<close> or points to an object.\<close>

datatype 'a cptr = NULL | Ptr 'a

section \<open>Completion codes\<close>

text \<open>\<open>Socket.h\<close>, \<open>SocketBuffer.h\<close>, \<open>Heap.h\<close> and \<open>MQTTClientPersistence.h\<close>.\<close>

abbreviation (input) TCPSOCKET_COMPLETE :: int where "TCPSOCKET_COMPLETE \<equiv> 0"
abbreviation (input) SOCKET_ERROR :: int where "SOCKET_ERROR \<equiv> -1"
abbreviation (input) TCPSOCKET_INTERRUPTED :: int where "TCPSOCKET_INTERRUPTED \<equiv> -22"

section \<open>Generic lemmas\<close>

named_theorems codec_simps \<open>lengths and readings of the byte-level writers\<close>

lemma of_nat_mod_256 [simp]: "(of_nat (n mod 256) :: byte) = of_nat n"
  by (simp add: word_of_nat_eq_iff take_bit_eq_mod)

section \<open>Memory blocks\<close>

text \<open>The bytes \<open>bs\<close> lie in the block \<open>mem\<close> at the cursor \<open>cur\<close>.\<close>

definition holds_at :: "bytes \<Rightarrow> nat \<Rightarrow> bytes \<Rightarrow> bool" where
  "holds_at mem cur bs \<longleftrightarrow> cur + length bs \<le> length mem \<and> take (length bs) (drop cur mem) = bs"

lemma holds_at_Nil [simp]: "holds_at mem cur [] \<longleftrightarrow> cur \<le> length mem"
  by (simp add: holds_at_def)

lemma holds_at_append [codec_simps]:
  "holds_at mem cur (xs @ ys) \<longleftrightarrow> holds_at mem cur xs \<and> holds_at mem (cur + length xs) ys"
proof -
  have "take (length xs + length ys) (drop cur mem)
      = take (length xs) (drop cur mem) @ take (length ys) (drop (cur + length xs) mem)"
    by (simp add: take_add add.commute)
  moreover have "length (take (length xs) (drop cur mem)) = length xs"
    if "cur + length xs \<le> length mem" using that by simp
  ultimately show ?thesis
    by (auto simp: holds_at_def append_eq_append_conv)
qed

lemma holds_at_Cons [codec_simps]:
  "holds_at mem cur (x # xs) \<longleftrightarrow> cur < length mem \<and> mem ! cur = x \<and> holds_at mem (Suc cur) xs"
  by (cases "cur < length mem")
    (auto simp: holds_at_def Cons_nth_drop_Suc [symmetric])

lemma holds_at_whole [simp]: "holds_at bs 0 bs"
  by (simp add: holds_at_def)

lemma holds_at_take: "holds_at mem cur bs \<Longrightarrow> take (length bs) (drop cur mem) = bs"
  by (simp add: holds_at_def)

lemma holds_at_bound: "holds_at mem cur bs \<Longrightarrow> cur + length bs \<le> length mem"
  by (simp add: holds_at_def)

lemma holds_at_prefix: "holds_at (pre @ bs @ post) (length pre) bs"
  by (simp add: holds_at_def)

section \<open>Bytes\<close>

lemma unat_byte_less: "unat (c :: byte) < 256"
  using unsigned_less [of c] by simp

lemma unat_and_127: "unat (c AND 127 :: byte) = unat c mod 128"
proof -
  have "(c AND 127 :: byte) = take_bit 7 c"
    by (simp add: take_bit_eq_mask mask_eq_exp_minus_1)
  then show ?thesis by (simp add: take_bit_eq_mod unat_mod_distrib)
qed

lemma bit_7_iff: "bit (c :: byte) 7 \<longleftrightarrow> 128 \<le> unat c"
proof -
  have "bit c 7 \<longleftrightarrow> bit (unat c) 7"
    by (simp add: bit_unsigned_iff)
  also have "\<dots> \<longleftrightarrow> odd (unat c div 128)"
    by (simp add: bit_iff_odd)
  also have "\<dots> \<longleftrightarrow> 128 \<le> unat c"
  proof (cases "128 \<le> unat c")
    case True
    then have "unat c div 128 = 1" using unat_byte_less [of c] by (intro div_nat_eqI) simp_all
    with True show ?thesis by simp
  qed simp
  finally show ?thesis .
qed

lemma and_128_iff: "(c AND 128 :: byte) = 0 \<longleftrightarrow> unat c < 128"
proof -
  have "(c AND 128 :: byte) = 0 \<longleftrightarrow> \<not> bit c 7"
    using and_exp_eq_0_iff_not_bit [of c 7] by simp
  then show ?thesis by (simp add: bit_7_iff not_le)
qed

lemma unat_of_nat_byte: "unat (of_nat x :: byte) = x mod 256"
  by (simp add: unat_of_nat)

lemma or_128: "x < 128 \<Longrightarrow> unat ((of_nat x OR 128) :: byte) = x + 128"
proof -
  assume x: "x < 128"
  have "\<not> bit (of_nat x :: byte) 7" using x by (simp add: bit_7_iff unat_of_nat_byte)
  then have "(of_nat x :: byte) AND 128 = 0" 
    using and_exp_eq_0_iff_not_bit [of "of_nat x :: byte" 7] by simp
  then have "(of_nat x OR 128 :: byte) = of_nat x + 128"
    by (simp add: disjunctive_add_eq_or)
  also have "\<dots> = of_nat (x + 128)" by simp
  finally show ?thesis using x by (simp add: unat_of_nat_byte del: of_nat_add)
qed

lemma ucast_byte: "(ucast (c :: byte) :: 'a :: len word) = of_nat (unat c)"
  by simp

lemma uint_of_int_byte: "uint (of_int i :: byte) = i mod 256"
  by (simp add: uint_word_of_int)

lemma sdiv_pos: "0 \<le> i \<Longrightarrow> 0 < k \<Longrightarrow> (i :: int) sdiv k = i div k"
  by (simp add: signed_divide_int_def sgn_if)

lemma smod_pos: "0 \<le> i \<Longrightarrow> 0 < k \<Longrightarrow> (i :: int) smod k = i mod k"
  by (cases "i = 0") (simp_all add: signed_modulo_int_def)

text \<open>The four digits of a number below \<open>2 ^ 32\<close> in base 256.\<close>

lemma digits4:
  assumes "0 \<le> (m::int)" "m < 4294967296"
  obtains a b c d r1 r2 where "m = 16777216 * a + 65536 * b + 256 * c + d"
    "a \<in> {0..<256}" "b \<in> {0..<256}" "c \<in> {0..<256}" "d \<in> {0..<256}"
    "m div 16777216 = a" "m mod 16777216 = r1" "r1 = 65536 * b + 256 * c + d"
    "r1 div 65536 = b" "r1 mod 65536 = r2" "r2 div 256 = c" "r2 mod 256 = d"
proof -
  define r1 where "r1 = m mod 16777216"
  define r2 where "r2 = r1 mod 65536"
  have r1: "0 \<le> r1" "r1 < 16777216" "m = 16777216 * (m div 16777216) + r1"
    unfolding r1_def by simp_all
  have r2: "0 \<le> r2" "r2 < 65536" "r1 = 65536 * (r1 div 65536) + r2"
    unfolding r2_def by simp_all
  have d: "r2 = 256 * (r2 div 256) + r2 mod 256" by simp
  have "0 \<le> m div 16777216" "m div 16777216 < 256" "0 \<le> r1 div 65536" "r1 div 65536 < 256"
    "0 \<le> r2 div 256" "r2 div 256 < 256" "0 \<le> r2 mod 256" "r2 mod 256 < 256"
    using assms r1(1,2) r2(1,2) by (auto simp: div_int_pos_iff)
  moreover have "r1 = 65536 * (r1 div 65536) + 256 * (r2 div 256) + r2 mod 256"
    using r2(3) d by linarith
  moreover have "m = 16777216 * (m div 16777216) + 65536 * (r1 div 65536) + 256 * (r2 div 256) + r2 mod 256"
    using r1(3) r2(3) d by linarith
  ultimately show thesis
    by (intro that [where a = "m div 16777216" and b = "r1 div 65536" and c = "r2 div 256"
          and d = "r2 mod 256" and ?r1.0 = r1 and ?r2.0 = r2])
      (simp_all only: atLeastLessThan_iff r1_def [symmetric] r2_def [symmetric])
qed

lemma ucast_of_int_byte: "ucast (of_int k :: byte) = (of_int (k mod 256) :: 32 word)"
  by (metis of_int_uint uint_of_int_byte)

lemma sdiv_neg: "i \<le> 0 \<Longrightarrow> 0 < k \<Longrightarrow> (i :: int) sdiv k = - ((- i) div k)"
  by (cases "i = 0") (simp_all add: signed_divide_int_def)

lemma smod_neg: "i \<le> 0 \<Longrightarrow> 0 < k \<Longrightarrow> (i :: int) smod k = - ((- i) mod k)"
  by (cases "i = 0") (simp_all add: signed_modulo_int_def)

lemma of_int_eq_0_32: "(of_int k :: 32 word) = 0 \<longleftrightarrow> k mod 4294967296 = 0"
  using word_of_int_eq_0_iff [where ?'a = 32, of k] by (simp add: dvd_eq_mod_eq_0)

lemma unat_of_int_byte: "unat (of_int k :: byte) = nat (k mod 256)"
  by (metis nat_uint_eq uint_of_int_byte)

lemma bit_of_int_byte: "bit (of_int k :: byte) n \<longleftrightarrow> n < 8 \<and> bit k n"
  by (simp add: bit_word_of_int_iff)

lemma bit_of_nat_byte: "bit (of_nat k :: byte) n \<longleftrightarrow> n < 8 \<and> bit k n"
  using bit_of_int_byte [of "int k"] by (simp add: bit_of_nat_iff)

lemma mod_exp_bits:
  "bit (k mod 2 :: int) n \<longleftrightarrow> n = 0 \<and> odd k"
  "bit (k mod 4 :: int) n \<longleftrightarrow> n < 2 \<and> bit k n"
  "bit (t mod 16 :: nat) n \<longleftrightarrow> n < 4 \<and> bit t n"
  using bit_take_bit_iff [of 1 k n] bit_take_bit_iff [of 2 k n] bit_take_bit_iff [of 4 t n]
  by (auto simp: take_bit_eq_mod bit_0)

lemma bit_nat_unat: "bit (unat (w :: byte)) n \<longleftrightarrow> bit w n"
  using bit_imp_le_length by (auto simp: bit_unsigned_iff)

end
