(* ===== verification/PacketCodec.thy ===== *)
theory PacketCodec
  imports MqttPrelude
begin

text \<open>
  The byte-level readers and writers of \<open>MqttC/MQTTPacket.c\<close>: variable byte integers
  (\<open>MQTTPacket_encode\<close>, \<open>MQTTPacket_decode\<close>, \<open>MQTTPacket_VBIdecode\<close>), two- and four-byte
  integers, length-delimited strings, and the bit fields of the fixed header byte.

  A writer that moves \<open>*pptr\<close> returns the bytes it writes. A reader takes the memory block
  \<open>mem\<close> and a cursor into it and returns the value with the moved cursor; \<open>None\<close> stands for a
  read outside the block.
\<close>

section \<open>The fixed header byte\<close>

text \<open>The \<open>Header\<close> union of \<open>MQTTPacket.h\<close> on a little-endian machine.\<close>

definition hdr_type :: "byte \<Rightarrow> nat" where
  "hdr_type h = unat (drop_bit 4 h)"

definition hdr_dup :: "byte \<Rightarrow> bool" where
  "hdr_dup h = bit h 3"

definition hdr_qos :: "byte \<Rightarrow> nat" where
  "hdr_qos h = unat (drop_bit 1 h AND 3)"

definition hdr_retain :: "byte \<Rightarrow> bool" where
  "hdr_retain h = bit h 0"

text \<open>Assignments to the four bit fields keep the low bits of each value.\<close>

definition mk_header :: "nat \<Rightarrow> int \<Rightarrow> int \<Rightarrow> int \<Rightarrow> byte" where
  "mk_header type dup qos retain =
     push_bit 4 (of_nat (type mod 16)) OR push_bit 3 (of_int (dup mod 2))
     OR push_bit 1 (of_int (qos mod 4)) OR of_int (retain mod 2)"

abbreviation (input) CONNECT :: nat where "CONNECT \<equiv> 1"
abbreviation (input) CONNACK :: nat where "CONNACK \<equiv> 2"
abbreviation (input) PUBLISH :: nat where "PUBLISH \<equiv> 3"
abbreviation (input) PUBACK :: nat where "PUBACK \<equiv> 4"
abbreviation (input) PUBREC :: nat where "PUBREC \<equiv> 5"
abbreviation (input) PUBREL :: nat where "PUBREL \<equiv> 6"
abbreviation (input) PUBCOMP :: nat where "PUBCOMP \<equiv> 7"
abbreviation (input) SUBSCRIBE :: nat where "SUBSCRIBE \<equiv> 8"
abbreviation (input) SUBACK :: nat where "SUBACK \<equiv> 9"
abbreviation (input) UNSUBSCRIBE :: nat where "UNSUBSCRIBE \<equiv> 10"
abbreviation (input) UNSUBACK :: nat where "UNSUBACK \<equiv> 11"
abbreviation (input) PINGREQ :: nat where "PINGREQ \<equiv> 12"
abbreviation (input) PINGRESP :: nat where "PINGRESP \<equiv> 13"
abbreviation (input) DISCONNECT :: nat where "DISCONNECT \<equiv> 14"
abbreviation (input) AUTH :: nat where "AUTH \<equiv> 15"

definition packet_names :: "string list" where
  "packet_names =
    [''RESERVED'', ''CONNECT'', ''CONNACK'', ''PUBLISH'', ''PUBACK'', ''PUBREC'', ''PUBREL'',
     ''PUBCOMP'', ''SUBSCRIBE'', ''SUBACK'', ''UNSUBSCRIBE'', ''UNSUBACK'',
     ''PINGREQ'', ''PINGRESP'', ''DISCONNECT'', ''AUTH'']"

definition MQTTPacket_name :: "int \<Rightarrow> string" where
  "MQTTPacket_name ptype =
     (if 0 \<le> ptype \<and> ptype \<le> int AUTH then packet_names ! nat ptype else ''UNKNOWN'')"

section \<open>Variable byte integers\<close>

text \<open>The \<open>do\<close>-loop of \<open>MQTTPacket_encode\<close>; its return code is the length of the result.\<close>

fun MQTTPacket_encode :: "nat \<Rightarrow> bytes" where
  "MQTTPacket_encode len =
     (let d = (of_nat (len mod 128) :: byte); rest = len div 128
      in if rest > 0 then (d OR 0x80) # MQTTPacket_encode rest else [d])"

declare MQTTPacket_encode.simps [simp del]

text \<open>
  \<open>MQTTPacket_decode\<close> reads from the network with \<open>WebSocket_getch\<close>, here the argument
  \<open>getch\<close>: it returns a completion code, the character and the new state of the connection.
  The loop counter \<open>len\<close> bounds the number of rounds by four.
\<close>

function MQTTPacket_decode_loop ::
    "('s \<Rightarrow> int \<times> byte \<times> 's) \<Rightarrow> nat \<Rightarrow> nat \<Rightarrow> nat \<Rightarrow> 's \<Rightarrow> int \<times> nat \<times> 's" where
  "MQTTPacket_decode_loop getch len multiplier val net =
     (if Suc len > 4 then (SOCKET_ERROR, val, net)
      else (case getch net of (rc, c, net') \<Rightarrow>
        if rc \<noteq> TCPSOCKET_COMPLETE then (rc, val, net')
        else (let val' = val + unat (c AND 127) * multiplier
              in if c AND 128 \<noteq> 0
                 then MQTTPacket_decode_loop getch (Suc len) (multiplier * 128) val' net'
                 else (rc, val', net'))))"
  by pat_completeness auto
termination
  by (relation "measure (\<lambda>(g, len, m, v, n). 5 - len)") auto

declare MQTTPacket_decode_loop.simps [simp del]

definition MQTTPacket_decode :: "('s \<Rightarrow> int \<times> byte \<times> 's) \<Rightarrow> 's \<Rightarrow> int \<times> nat \<times> 's" where
  "MQTTPacket_decode getch net = MQTTPacket_decode_loop getch 0 1 0 net"

text \<open>Reading one byte of a memory block.\<close>

definition rd :: "bytes \<Rightarrow> nat \<Rightarrow> byte option" where
  "rd mem i = (if i < length mem then Some (mem ! i) else None)"

text \<open>
  \<open>MQTTPacket_VBIdecode\<close> counts the bytes it consumes and does not report an over-long
  encoding: its result is \<open>len\<close>, 5 in that case.
\<close>

function MQTTPacket_VBIdecode ::
    "('s \<Rightarrow> (int \<times> byte \<times> 's) option) \<Rightarrow> nat \<Rightarrow> 32 word \<Rightarrow> 32 word \<Rightarrow> 's \<Rightarrow> (nat \<times> 32 word) option"
    where
  "MQTTPacket_VBIdecode getcharfn len multiplier val s =
     (if Suc len > 4 then Some (Suc len, val)
      else (case getcharfn s of
          None \<Rightarrow> None
        | Some (rc, c, s') \<Rightarrow>
            if rc \<noteq> 1 then Some (Suc len, val)
            else (let val' = val + ucast (c AND 127) * multiplier
                  in if c AND 128 \<noteq> 0
                     then MQTTPacket_VBIdecode getcharfn (Suc len) (multiplier * 128) val' s'
                     else Some (Suc len, val'))))"
  by pat_completeness auto
termination
  by (relation "measure (\<lambda>(g, len, m, v, n). 5 - len)") auto

declare MQTTPacket_VBIdecode.simps [simp del]

definition bufchar :: "bytes \<Rightarrow> nat \<Rightarrow> (int \<times> byte \<times> nat) option" where
  "bufchar mem bufptr = map_option (\<lambda>c. (1, c, Suc bufptr)) (rd mem bufptr)"

definition MQTTPacket_decodeBuf :: "bytes \<Rightarrow> nat \<Rightarrow> (nat \<times> 32 word) option" where
  "MQTTPacket_decodeBuf mem cur = MQTTPacket_VBIdecode (bufchar mem) 0 1 0 cur"

definition MQTTPacket_VBIlen :: "int \<Rightarrow> int" where
  "MQTTPacket_VBIlen rem_len =
     (if rem_len < 128 then 1 else if rem_len < 16384 then 2
      else if rem_len < 2097152 then 3 else 4)"

section \<open>Fixed-width integers and strings\<close>

definition readInt :: "bytes \<Rightarrow> nat \<Rightarrow> (int \<times> nat) option" where
  "readInt mem cur = do {
     a \<leftarrow> rd mem cur; b \<leftarrow> rd mem (cur + 1);
     Some (256 * uint a + uint b, cur + 2) }"

definition readChar :: "bytes \<Rightarrow> nat \<Rightarrow> (byte \<times> nat) option" where
  "readChar mem cur = map_option (\<lambda>c. (c, cur + 1)) (rd mem cur)"

text \<open>The sum of \<open>readInt4\<close> is taken in 32 bits, as its \<open>int\<close> result is.\<close>

definition readInt4 :: "bytes \<Rightarrow> nat \<Rightarrow> (32 word \<times> nat) option" where
  "readInt4 mem cur = do {
     a \<leftarrow> rd mem cur; b \<leftarrow> rd mem (cur + 1); c \<leftarrow> rd mem (cur + 2); d \<leftarrow> rd mem (cur + 3);
     Some (16777216 * ucast a + 65536 * ucast b + 256 * ucast c + ucast d, cur + 4) }"

text \<open>
  C strings: the characters up to the first NUL. \<open>/\<close> and \<open>%\<close> truncate towards zero
  (\<open>sdiv\<close>, \<open>smod\<close>).
\<close>

definition cstr :: "bytes \<Rightarrow> bytes" where
  "cstr s = takeWhile (\<lambda>b. b \<noteq> 0) s"

definition strlen :: "bytes \<Rightarrow> nat" where
  "strlen s = length (cstr s)"

definition writeChar :: "byte \<Rightarrow> bytes" where
  "writeChar c = [c]"

definition writeInt :: "int \<Rightarrow> bytes" where
  "writeInt anInt = [of_int (anInt sdiv 256), of_int (anInt smod 256)]"

definition writeInt4 :: "int \<Rightarrow> bytes" where
  "writeInt4 anInt =
     (let r1 = anInt smod 16777216; r2 = r1 smod 65536
      in [of_int (anInt sdiv 16777216), of_int (r1 sdiv 65536),
          of_int (r2 sdiv 256), of_int (r2 smod 256)])"

definition writeUTF :: "bytes \<Rightarrow> bytes" where
  "writeUTF string = writeInt (int (strlen string)) @ cstr string"

definition writeData :: "bytes \<Rightarrow> bytes" where
  "writeData data = writeInt (int (length data)) @ data"

definition writeMQTTLenString :: "bytes \<Rightarrow> bytes" where
  "writeMQTTLenString lenstring = writeInt (int (length lenstring)) @ lenstring"

text \<open>
  \<open>readUTFlen\<close>: the string (\<open>NULL\<close> when the length read would run past \<open>enddata\<close>), the
  length and the moved cursor. The terminating NUL it appends is not part of the value.
\<close>

definition readUTFlen :: "bytes \<Rightarrow> nat \<Rightarrow> nat \<Rightarrow> (bytes cptr \<times> int \<times> nat) option" where
  "readUTFlen mem cur enddata =
     (if int enddata - int cur > 1 then do {
        (len, cur1) \<leftarrow> readInt mem cur;
        if cur1 + nat len \<le> enddata
        then (if cur1 + nat len \<le> length mem
              then Some (Ptr (take (nat len) (drop cur1 mem)), len, cur1 + nat len) else None)
        else Some (NULL, len, cur1) }
      else Some (NULL, 0, cur))"

definition readUTF :: "bytes \<Rightarrow> nat \<Rightarrow> nat \<Rightarrow> (bytes cptr \<times> nat) option" where
  "readUTF mem cur enddata = map_option (\<lambda>(s, len, c). (s, c)) (readUTFlen mem cur enddata)"

text \<open>\<open>MQTTLenStringRead\<close>: the number of bytes consumed or -1, the string, the cursor.\<close>

definition MQTTLenStringRead :: "bytes \<Rightarrow> nat \<Rightarrow> nat \<Rightarrow> (int \<times> bytes \<times> nat) option" where
  "MQTTLenStringRead mem cur enddata =
     (if int enddata - int cur > 1 then do {
        (len, cur1) \<leftarrow> readInt mem cur;
        if cur1 + nat len \<le> enddata
        then (if cur1 + nat len \<le> length mem
              then Some (2 + len, take (nat len) (drop cur1 mem), cur1 + nat len) else None)
        else Some (-1, [], cur1) }
      else Some (-1, [], cur))"


section \<open>Lemmas\<close>

subsection \<open>Variable byte integers\<close>

lemma MQTTPacket_encode_small [simp]: "n < 128 \<Longrightarrow> MQTTPacket_encode n = [of_nat n]"
  by (simp add: MQTTPacket_encode.simps [of n])

lemma MQTTPacket_encode_large:
  "128 \<le> n \<Longrightarrow> MQTTPacket_encode n = (of_nat (n mod 128) OR 128) # MQTTPacket_encode (n div 128)"
  by (subst MQTTPacket_encode.simps) (simp add: Let_def div_greater_zero_iff)

lemma length_MQTTPacket_encode_pos [simp]: "0 < length (MQTTPacket_encode n)"
  by (cases "n < 128") (simp_all add: MQTTPacket_encode_large)

lemma length_MQTTPacket_encode_le:
  "n < 128 ^ k \<Longrightarrow> 0 < k \<Longrightarrow> length (MQTTPacket_encode n) \<le> k"
proof (induction k arbitrary: n)
  case (Suc k)
  show ?case
  proof (cases "n < 128")
    case False
    then have "0 < k" using Suc.prems by (cases k) auto
    moreover have "n div 128 < 128 ^ k"
      using Suc.prems by (simp add: less_mult_imp_div_less mult.commute)
    ultimately show ?thesis using False Suc.IH [of "n div 128"] by (simp add: MQTTPacket_encode_large)
  qed simp
qed simp

lemma encode_byte_small: "n < 128 \<Longrightarrow> unat (of_nat n :: byte) = n"
  by (simp add: unat_of_nat)

text \<open>A connection whose next characters are known delivers them one by one.\<close>

locale byte_source =
  fixes getch :: "'s \<Rightarrow> int \<times> byte \<times> 's"
    and pending :: "'s \<Rightarrow> bytes"
  assumes getch_pending:
    "pending s = b # bs \<Longrightarrow> \<exists>s'. getch s = (TCPSOCKET_COMPLETE, b, s') \<and> pending s' = bs"
begin

lemma decode_loop_encode:
  assumes "pending s = MQTTPacket_encode n @ rest" "n < 128 ^ (4 - len)" "len < 4"
  shows "\<exists>s'. MQTTPacket_decode_loop getch len multiplier val s
                = (TCPSOCKET_COMPLETE, val + n * multiplier, s') \<and> pending s' = rest"
  using assms
proof (induction "4 - len" arbitrary: len n multiplier val s)
  case 0
  then show ?case by simp
next
  case (Suc k)
  show ?case
  proof (cases "n < 128")
    case True
    then obtain s' where "getch s = (0, of_nat n, s')" "pending s' = rest"
      using Suc.prems getch_pending [of s] by auto
    with True Suc.prems show ?thesis
      by (subst MQTTPacket_decode_loop.simps)
        (simp add: and_128_iff unat_and_127 encode_byte_small)
  next
    case False
    let ?c = "of_nat (n mod 128) OR 128 :: byte"
    have c: "unat ?c = n mod 128 + 128" by (rule or_128) simp
    have "k > 0" using False Suc.prems Suc.hyps(2) [symmetric] by (cases k) auto
    obtain s1 where s1: "getch s = (0, ?c, s1)"
        "pending s1 = MQTTPacket_encode (n div 128) @ rest"
      using Suc.prems False getch_pending [of s] by (auto simp: MQTTPacket_encode_large)
    have k: "4 - len = Suc (4 - Suc len)" using Suc.hyps(2) by simp
    have "n div 128 < 128 ^ (4 - Suc len)"
      using Suc.prems(2) unfolding k by (simp add: less_mult_imp_div_less mult.commute)
    then obtain s2 where s2: "MQTTPacket_decode_loop getch (Suc len) (multiplier * 128)
          (val + n mod 128 * multiplier) s1
        = (0, val + n mod 128 * multiplier + n div 128 * (multiplier * 128), s2)"
        "pending s2 = rest"
      using Suc.hyps(1) [of "Suc len" s1 "n div 128"] s1 \<open>k > 0\<close> Suc.hyps(2) by force
    have "n mod 128 * multiplier + n div 128 * (multiplier * 128) = n * multiplier"
      by (metis add_mult_distrib mod_mult_div_eq mult.assoc mult.commute)
    then have "val + n mod 128 * multiplier + n div 128 * (multiplier * 128) = val + n * multiplier"
      by (simp only: add.assoc)
    with s1 s2 Suc.prems show ?thesis
      by (subst MQTTPacket_decode_loop.simps) (simp add: and_128_iff unat_and_127 c)
  qed
qed

lemma decode_encode:
  assumes "pending s = MQTTPacket_encode n @ rest" "n < 268435456"
  shows "\<exists>s'. MQTTPacket_decode getch s = (TCPSOCKET_COMPLETE, n, s') \<and> pending s' = rest"
  using decode_loop_encode [of s n rest 0 1 0] assms by (simp add: MQTTPacket_decode_def)

lemma decode_rejects:
  assumes "pending s = [a, b, c, d] @ rest" "\<forall>x \<in> {a, b, c, d}. 128 \<le> unat x"
  shows "fst (MQTTPacket_decode getch s) = SOCKET_ERROR"
proof -
  obtain s1 where "getch s = (0, a, s1)" "pending s1 = [b, c, d] @ rest"
    using assms getch_pending by fastforce
  moreover then obtain s2 where "getch s1 = (0, b, s2)" "pending s2 = [c, d] @ rest"
    using assms getch_pending by fastforce
  moreover then obtain s3 where "getch s2 = (0, c, s3)" "pending s3 = d # rest"
    using assms getch_pending by fastforce
  moreover then obtain s4 where "getch s3 = (0, d, s4)"
    using assms getch_pending by fastforce
  ultimately show ?thesis
    using assms(2)
    by (simp add: MQTTPacket_decode_def MQTTPacket_decode_loop.simps and_128_iff)
qed

end

text \<open>The decoder of a memory block.\<close>

lemma VBIdecode_encode:
  assumes "holds_at mem cur (MQTTPacket_encode n)" "n < 128 ^ (4 - len)" "len < 4"
  shows "MQTTPacket_VBIdecode (bufchar mem) len multiplier val cur
           = Some (len + length (MQTTPacket_encode n), val + of_nat n * multiplier)"
  using assms
proof (induction "4 - len" arbitrary: len n multiplier val cur)
  case 0
  then show ?case by simp
next
  case (Suc k)
  show ?case
  proof (cases "n < 128")
    case True
    then have u: "(ucast (of_nat n AND 127 :: byte) :: 32 word) = of_nat n"
      by (simp add: unat_and_127 encode_byte_small ucast_byte)
    from True Suc.prems u show ?thesis
      by (subst MQTTPacket_VBIdecode.simps)
        (simp add: and_128_iff encode_byte_small bufchar_def rd_def codec_simps)
  next
    case False
    let ?c = "of_nat (n mod 128) OR 128 :: byte"
    have c: "unat ?c = n mod 128 + 128" by (rule or_128) simp
    have u: "(ucast (?c AND 127) :: 32 word) = of_nat (n mod 128)"
      by (simp add: unat_and_127 ucast_byte c)
    have "k > 0" using False Suc.prems Suc.hyps(2) [symmetric] by (cases k) auto
    have k: "4 - len = Suc (4 - Suc len)" using Suc.hyps(2) by simp
    have less: "n div 128 < 128 ^ (4 - Suc len)"
      using Suc.prems(2) unfolding k by (simp add: less_mult_imp_div_less mult.commute)
    have h: "cur < length mem" "mem ! cur = ?c" "holds_at mem (Suc cur) (MQTTPacket_encode (n div 128))"
      using Suc.prems(1) False by (simp_all add: MQTTPacket_encode_large codec_simps)
    have IH: "MQTTPacket_VBIdecode (bufchar mem) (Suc len) (multiplier * 128)
          (val + of_nat (n mod 128) * multiplier) (Suc cur)
        = Some (Suc len + length (MQTTPacket_encode (n div 128)),
            val + of_nat (n mod 128) * multiplier + of_nat (n div 128) * (multiplier * 128))"
      by (rule Suc.hyps(1)) (use h less \<open>k > 0\<close> Suc.hyps(2) in auto)
    have "of_nat n = (of_nat (n mod 128 + 128 * (n div 128)) :: 32 word)" by simp
    also have "\<dots> = of_nat (n mod 128) + 128 * of_nat (n div 128)"
      by (simp only: of_nat_add of_nat_mult of_nat_numeral)
    finally have "of_nat n * multiplier
        = of_nat (n mod 128) * multiplier + of_nat (n div 128) * (multiplier * 128)"
      by (simp add: algebra_simps)
    with IH h False Suc.prems u c show ?thesis
      by (subst MQTTPacket_VBIdecode.simps)
        (simp add: and_128_iff bufchar_def rd_def MQTTPacket_encode_large)
  qed
qed

lemma decodeBuf_encode:
  assumes "holds_at mem cur (MQTTPacket_encode n)" "n < 268435456"
  shows "MQTTPacket_decodeBuf mem cur = Some (length (MQTTPacket_encode n), of_nat n)"
  using VBIdecode_encode [of mem cur n 0 1 0] assms by (simp add: MQTTPacket_decodeBuf_def)

lemma length_encode_VBIlen:
  assumes "n < 268435456"
  shows "int (length (MQTTPacket_encode n)) = MQTTPacket_VBIlen (int n)"
proof -
  have *: "length (MQTTPacket_encode n) = Suc (length (MQTTPacket_encode (n div 128)))" if "128 \<le> n" for n
    using that by (simp add: MQTTPacket_encode_large)
  consider "n < 128" | "128 \<le> n" "n < 16384" | "16384 \<le> n" "n < 2097152" | "2097152 \<le> n" by linarith
  then show ?thesis
  proof cases
    case 2
    then show ?thesis by (simp add: * MQTTPacket_VBIlen_def less_mult_imp_div_less)
  next
    case 3
    then have "128 \<le> n div 128" "n div 128 div 128 < 128" 
      using div_le_mono [of 16384 n 128]
      by (simp_all add: less_mult_imp_div_less flip: div_mult2_eq)
    with 3 show ?thesis by (simp add: * MQTTPacket_VBIlen_def)
  next
    case 4
    then have "128 \<le> n div 128" "128 \<le> n div 128 div 128" "n div 128 div 128 div 128 < 128"
      using div_le_mono [of 2097152 n 128] div_le_mono [of 2097152 n 16384] assms
      by (simp_all add: less_mult_imp_div_less flip: div_mult2_eq)
    with 4 show ?thesis by (simp add: * MQTTPacket_VBIlen_def)
  qed (simp add: MQTTPacket_VBIlen_def)
qed

subsection \<open>Integers\<close>

lemma length_writers [simp]:
  "length (writeChar c) = 1" "length (writeInt i) = 2" "length (writeInt4 i) = 4"
  "length (writeData d) = 2 + length d" "length (writeMQTTLenString d) = 2 + length d"
  "length (writeUTF s) = 2 + strlen s"
  by (simp_all add: writeChar_def writeInt_def writeInt4_def Let_def writeData_def
      writeMQTTLenString_def writeUTF_def strlen_def)

lemma readInt_writeInt:
  assumes "holds_at mem cur (writeInt i)" "0 \<le> i" "i < 65536"
  shows "readInt mem cur = Some (i, cur + 2)"
  using assms
  by (auto simp: writeInt_def readInt_def codec_simps rd_def sdiv_pos smod_pos uint_of_int_byte
      dest: holds_at_bound)

lemma readChar_writeChar:
  "holds_at mem cur (writeChar c) \<Longrightarrow> readChar mem cur = Some (c, cur + 1)"
  by (simp add: writeChar_def readChar_def codec_simps rd_def)

lemma readInt4_sum:
  assumes "holds_at mem cur [of_int a, of_int b, of_int c, of_int d]"
  shows "readInt4 mem cur = Some (of_int (16777216 * (a mod 256) + 65536 * (b mod 256)
           + 256 * (c mod 256) + d mod 256), cur + 4)"
  using assms holds_at_bound [OF assms]
  by (simp add: readInt4_def codec_simps rd_def ucast_of_int_byte eval_nat_numeral)

lemma readInt4_writeInt4:
  assumes "holds_at mem cur (writeInt4 i)" "0 \<le> i" "i < 2147483648"
  shows "readInt4 mem cur = Some (of_int i, cur + 4)"
proof -
  have "i < 4294967296" using assms by simp
  then obtain a b c d r1 r2 where *: "i = 16777216 * a + 65536 * b + 256 * c + d"
    "a \<in> {0..<256}" "b \<in> {0..<256}" "c \<in> {0..<256}" "d \<in> {0..<256}"
    "i div 16777216 = a" "i mod 16777216 = r1" "r1 = 65536 * b + 256 * c + d"
    "r1 div 65536 = b" "r1 mod 65536 = r2" "r2 div 256 = c" "r2 mod 256 = d"
    by (rule digits4 [OF assms(2)])
  have "0 \<le> r1" "0 \<le> r2" using *(7,10) by auto
  then have "writeInt4 i = [of_int a, of_int b, of_int c, of_int d]"
    using assms(2) *(6,7,9-12) by (simp only: writeInt4_def Let_def sdiv_pos smod_pos zero_less_numeral)
  moreover have "q mod 256 = q" if "q \<in> {0..<256}" for q :: int using that by simp
  ultimately show ?thesis using readInt4_sum [of mem cur a b c d] assms(1) *(1-5) by (simp only:)
qed

lemma readInt4_writeInt4_neg:
  assumes "holds_at mem cur (writeInt4 i)" "i < 0" "-2147483648 \<le> i"
  shows "readInt4 mem cur = Some (of_int i, cur + 4) \<longleftrightarrow> i mod 16777216 = 0"
proof -
  define m where "m = - i"
  have i: "i = - m" "0 \<le> m" "m < 4294967296" using assms unfolding m_def by simp_all
  obtain a b c d r1 r2 where *: "m = 16777216 * a + 65536 * b + 256 * c + d"
    "a \<in> {0..<256}" "b \<in> {0..<256}" "c \<in> {0..<256}" "d \<in> {0..<256}"
    "m div 16777216 = a" "m mod 16777216 = r1" "r1 = 65536 * b + 256 * c + d"
    "r1 div 65536 = b" "r1 mod 65536 = r2" "r2 div 256 = c" "r2 mod 256 = d"
    by (rule digits4 [OF i(2,3)])
  have "0 \<le> r1" "0 \<le> r2" using *(7,10) by auto
  then have w: "writeInt4 i = [of_int (- a), of_int (- b), of_int (- c), of_int (- d)]"
    using i *(6,7,9-12) 
    by (simp only: writeInt4_def Let_def i(1) sdiv_neg smod_neg neg_le_0_iff_le minus_minus zero_less_numeral)
  have neg: "(- q) mod 256 = (if q = 0 then 0 else 256 - q)" if "q \<in> {0..<256}" for q :: int
    using that by (simp add: zmod_zminus1_eq_if)
  let ?S = "16777216 * (- a mod 256) + 65536 * (- b mod 256) + 256 * (- c mod 256) + - d mod 256"
  have r: "readInt4 mem cur = Some (of_int ?S, cur + 4)"
    using readInt4_sum [of mem cur "- a" "- b" "- c" "- d"] assms(1) w by (simp only:)
  have "?S + m = 4294967296 * (if a = 0 then 0 else 1) + 16777216 * (if b = 0 then 0 else 1)
      + 65536 * (if c = 0 then 0 else 1) + 256 * (if d = 0 then 0 else 1)"
    unfolding neg [OF *(2)] neg [OF *(3)] neg [OF *(4)] neg [OF *(5)] *(1) by simp
  then have S: "(?S + m) mod 4294967296 = 0 \<longleftrightarrow> b = 0 \<and> c = 0 \<and> d = 0"
    by (simp only:) simp
  have "(of_int ?S :: 32 word) = of_int i \<longleftrightarrow> of_int (?S + m) = (0 :: 32 word)"
    unfolding i(1) of_int_add of_int_minus by (rule eq_neg_iff_add_eq_0)
  also have "\<dots> \<longleftrightarrow> b = 0 \<and> c = 0 \<and> d = 0"
    unfolding S [symmetric] by (rule of_int_eq_0_32)
  also have "\<dots> \<longleftrightarrow> r1 = 0"
    using *(3-5,8) unfolding atLeastLessThan_iff by linarith
  also have "\<dots> \<longleftrightarrow> i mod 16777216 = 0"
    using *(7) pos_mod_bound [of 16777216 m] unfolding i(1) by (simp add: zmod_zminus1_eq_if)
  finally show ?thesis using r by simp
qed

subsection \<open>The header byte\<close>

lemma mk_header_bits:
  "bit (mk_header t d q r) n \<longleftrightarrow>
     (n = 0 \<and> odd r) \<or> (n = 1 \<and> bit q 0) \<or> (n = 2 \<and> bit q 1) \<or> (n = 3 \<and> odd d)
     \<or> (n \<ge> 4 \<and> n < 8 \<and> bit t (n - 4))"
proof -
  consider "n = 0" | "n = 1" | "n = 2" | "n = 3" | "4 \<le> n" "n < 8" | "8 \<le> n" by linarith
  then show ?thesis
    unfolding mk_header_def bit_or_iff bit_push_bit_iff bit_of_int_byte bit_of_nat_byte mod_exp_bits
    by cases auto
qed

lemma hdr_mk_header [simp]:
  "hdr_type (mk_header t d q r) = t mod 16"
  "hdr_dup (mk_header t d q r) = odd d"
  "hdr_qos (mk_header t d q r) = nat (q mod 4)"
  "hdr_retain (mk_header t d q r) = odd r"
proof -
  have "drop_bit 4 (mk_header t d q r) = of_nat (t mod 16)"
    by (rule bit_eqI) (auto simp: bit_drop_bit_eq mk_header_bits bit_of_nat_byte mod_exp_bits)
  then show "hdr_type (mk_header t d q r) = t mod 16"
    by (simp add: hdr_type_def unat_of_nat)
  have "drop_bit 1 (mk_header t d q r) AND 3 = take_bit 2 (drop_bit 1 (mk_header t d q r))"
    by (simp add: take_bit_eq_mask mask_eq_exp_minus_1)
  also have "\<dots> = of_int (q mod 4)"
    by (rule bit_eqI) (auto simp: bit_drop_bit_eq bit_take_bit_iff mk_header_bits bit_of_int_byte
        mod_exp_bits less_2_cases_iff)
  finally have "drop_bit 1 (mk_header t d q r) AND 3 = of_int (q mod 4)" .
  then show "hdr_qos (mk_header t d q r) = nat (q mod 4)"
    by (simp add: hdr_qos_def unat_of_int_byte)
qed (simp_all add: hdr_dup_def hdr_retain_def mk_header_bits)

text \<open>A header byte is determined by its fields.\<close>

lemma mk_header_hdr:
  "mk_header (hdr_type h) (of_bool (hdr_dup h)) (int (hdr_qos h)) (of_bool (hdr_retain h)) = h"
proof (rule bit_eqI)
  fix n
  assume "possible_bit TYPE(byte) n"
  then have n: "n < 8" by (simp add: possible_bit_word)
  have q: "int (hdr_qos h) = uint (take_bit 2 (drop_bit 1 h))"
    unfolding hdr_qos_def by (simp add: take_bit_eq_mask mask_eq_exp_minus_1)
  consider "n = 0" | "n = 1" | "n = 2" | "n = 3" | "4 \<le> n" using n by linarith
  then show "bit (mk_header (hdr_type h) (of_bool (hdr_dup h)) (int (hdr_qos h)) (of_bool (hdr_retain h))) n
      \<longleftrightarrow> bit h n"
    unfolding mk_header_bits q hdr_type_def hdr_dup_def hdr_retain_def bit_nat_unat
      bit_uint_iff bit_take_bit_iff bit_drop_bit_eq
    by cases (use n in \<open>auto simp: bit_0 numeral_2_eq_2 [symmetric]\<close>)
qed

subsection \<open>Strings\<close>

lemma writeUTF_cstr: "writeUTF s = writeData (cstr s)"
  by (simp add: writeUTF_def writeData_def strlen_def)

lemma writeMQTTLenString_writeData: "writeMQTTLenString s = writeData s"
  by (simp add: writeMQTTLenString_def writeData_def)

lemma cstr_no_nul [simp]: "0 \<notin> set s \<Longrightarrow> cstr s = s"
  by (auto simp: cstr_def takeWhile_eq_all_conv)

lemma holds_at_writeData:
  assumes "holds_at mem cur (writeData d)" "length d < 65536"
  shows "readInt mem cur = Some (int (length d), cur + 2)"
    and "cur + 2 + length d \<le> length mem" "take (length d) (drop (cur + 2) mem) = d"
proof -
  have h: "holds_at mem cur (writeInt (int (length d)))" "holds_at mem (cur + 2) d"
    using assms(1) by (simp_all add: writeData_def codec_simps)
  show "readInt mem cur = Some (int (length d), cur + 2)"
    by (rule readInt_writeInt [OF h(1)]) (use assms(2) in simp_all)
  show "cur + 2 + length d \<le> length mem" using holds_at_bound [OF h(2)] .
  show "take (length d) (drop (cur + 2) mem) = d" using holds_at_take [OF h(2)] .
qed

lemma readUTFlen_writeData:
  assumes "holds_at mem cur (writeData d)" "length d < 65536" "cur + 2 + length d \<le> enddata"
  shows "readUTFlen mem cur enddata = Some (Ptr d, int (length d), cur + 2 + length d)"
  using holds_at_writeData [OF assms(1,2)] assms(3) by (simp add: readUTFlen_def)

lemma readUTF_writeUTF:
  assumes "holds_at mem cur (writeUTF s)" "strlen s < 65536" "cur + 2 + strlen s \<le> enddata"
  shows "readUTF mem cur enddata = Some (Ptr (cstr s), cur + 2 + strlen s)"
  using readUTFlen_writeData [of mem cur "cstr s" enddata] assms
  by (simp add: writeUTF_cstr readUTF_def strlen_def)

lemma MQTTLenStringRead_writeMQTTLenString:
  assumes "holds_at mem cur (writeMQTTLenString d)" "length d < 65536" "cur + 2 + length d \<le> enddata"
  shows "MQTTLenStringRead mem cur enddata = Some (2 + int (length d), d, cur + 2 + length d)"
  using holds_at_writeData [of mem cur d] assms
  by (simp add: writeMQTTLenString_writeData MQTTLenStringRead_def)

text \<open>A length that runs past the end of the data is refused without touching the bytes.\<close>

lemma readUTFlen_refuses:
  assumes "readInt mem cur = Some (len, cur')" "int enddata < int cur' + len" "0 \<le> len"
  shows "\<exists>l c. readUTFlen mem cur enddata = Some (NULL, l, c)"
  using assms by (auto simp: readUTFlen_def split: bind_splits)

section \<open>Properties\<close>

text \<open>C18. Every length MQTT can express, written by \<open>MQTTPacket_encode\<close> anywhere in a buffer,
  is read back by \<open>MQTTPacket_decodeBuf\<close>, which reports the number of bytes written; that number
  is at most four and is the one \<open>MQTTPacket_VBIlen\<close> announces.\<close>

theorem vbi_roundtrip:
  assumes "n < 268435456"
  shows "MQTTPacket_decodeBuf (before @ MQTTPacket_encode n @ after) (length before)
           = Some (length (MQTTPacket_encode n), of_nat n)
         \<and> int (length (MQTTPacket_encode n)) = MQTTPacket_VBIlen (int n)
         \<and> length (MQTTPacket_encode n) \<le> 4"
  using decodeBuf_encode [OF holds_at_prefix assms] length_encode_VBIlen [OF assms]
    length_MQTTPacket_encode_le [of n 4] assms by simp

lemma vbi_roundtrip_witness:
  "MQTTPacket_decodeBuf ([7] @ MQTTPacket_encode 300 @ [9]) (length [7 :: byte])
     = Some (length (MQTTPacket_encode 300), of_nat 300)"
  using vbi_roundtrip [of 300 "[7]" "[9]"] by simp

text \<open>C38. Reading the four bytes written for a 32-bit value gives the value back exactly for the
  values below \<open>2 ^ 31\<close> and the multiples of \<open>2 ^ 24\<close>: \<open>writeInt4\<close> divides a signed number, and the
  quotients and remainders of a negative one round towards zero.\<close>

theorem int4_roundtrip_iff:
  fixes w :: "32 word"
  shows "readInt4 (before @ writeInt4 (sint w) @ after) (length before) = Some (w, length before + 4)
           \<longleftrightarrow> 0 \<le> sint w \<or> sint w mod 16777216 = 0"
proof (cases "0 \<le> sint w")
  case True
  then show ?thesis
    using readInt4_writeInt4 [OF holds_at_prefix, of "sint w"] sint_lt [of w] by simp
next
  case False
  then show ?thesis
    using readInt4_writeInt4_neg [OF holds_at_prefix, of "sint w"] sint_ge [of w] by simp
qed


end
