(* ===== verification/Properties.thy ===== *)
theory Properties
  imports PacketCodec
begin

text \<open>
  MQTT version 5 properties, \<open>MqttC/MQTTProperties.c\<close>: the table of property types, adding to a
  property list, writing and reading one property and a whole list, and the queries.

  The union of the C structure has one field per member here: the code reads the member that the
  type of the identifier selects, and that is the member it has written. The array of a list is
  \<open>NULL\<close> or the properties it holds; \<open>count\<close> is their number. Memory allocation succeeds.
\<close>

section \<open>Property types\<close>

abbreviation (input) MQTTPROPERTY_TYPE_BYTE :: int where "MQTTPROPERTY_TYPE_BYTE \<equiv> 0"
abbreviation (input) MQTTPROPERTY_TYPE_TWO_BYTE_INTEGER :: int where
  "MQTTPROPERTY_TYPE_TWO_BYTE_INTEGER \<equiv> 1"
abbreviation (input) MQTTPROPERTY_TYPE_FOUR_BYTE_INTEGER :: int where
  "MQTTPROPERTY_TYPE_FOUR_BYTE_INTEGER \<equiv> 2"
abbreviation (input) MQTTPROPERTY_TYPE_VARIABLE_BYTE_INTEGER :: int where
  "MQTTPROPERTY_TYPE_VARIABLE_BYTE_INTEGER \<equiv> 3"
abbreviation (input) MQTTPROPERTY_TYPE_BINARY_DATA :: int where "MQTTPROPERTY_TYPE_BINARY_DATA \<equiv> 4"
abbreviation (input) MQTTPROPERTY_TYPE_UTF_8_ENCODED_STRING :: int where
  "MQTTPROPERTY_TYPE_UTF_8_ENCODED_STRING \<equiv> 5"
abbreviation (input) MQTTPROPERTY_TYPE_UTF_8_STRING_PAIR :: int where
  "MQTTPROPERTY_TYPE_UTF_8_STRING_PAIR \<equiv> 6"

text \<open>The codes are those of \<open>enum MQTTPropertyCodes\<close>, in the order of the table.\<close>

definition namesToTypes :: "(nat \<times> int) list" where
  "namesToTypes =
    [(1, MQTTPROPERTY_TYPE_BYTE),
     (2, MQTTPROPERTY_TYPE_FOUR_BYTE_INTEGER),
     (3, MQTTPROPERTY_TYPE_UTF_8_ENCODED_STRING),
     (8, MQTTPROPERTY_TYPE_UTF_8_ENCODED_STRING),
     (9, MQTTPROPERTY_TYPE_BINARY_DATA),
     (11, MQTTPROPERTY_TYPE_VARIABLE_BYTE_INTEGER),
     (17, MQTTPROPERTY_TYPE_FOUR_BYTE_INTEGER),
     (18, MQTTPROPERTY_TYPE_UTF_8_ENCODED_STRING),
     (19, MQTTPROPERTY_TYPE_TWO_BYTE_INTEGER),
     (21, MQTTPROPERTY_TYPE_UTF_8_ENCODED_STRING),
     (22, MQTTPROPERTY_TYPE_BINARY_DATA),
     (23, MQTTPROPERTY_TYPE_BYTE),
     (24, MQTTPROPERTY_TYPE_FOUR_BYTE_INTEGER),
     (25, MQTTPROPERTY_TYPE_BYTE),
     (26, MQTTPROPERTY_TYPE_UTF_8_ENCODED_STRING),
     (28, MQTTPROPERTY_TYPE_UTF_8_ENCODED_STRING),
     (31, MQTTPROPERTY_TYPE_UTF_8_ENCODED_STRING),
     (33, MQTTPROPERTY_TYPE_TWO_BYTE_INTEGER),
     (34, MQTTPROPERTY_TYPE_TWO_BYTE_INTEGER),
     (35, MQTTPROPERTY_TYPE_TWO_BYTE_INTEGER),
     (36, MQTTPROPERTY_TYPE_BYTE),
     (37, MQTTPROPERTY_TYPE_BYTE),
     (38, MQTTPROPERTY_TYPE_UTF_8_STRING_PAIR),
     (39, MQTTPROPERTY_TYPE_FOUR_BYTE_INTEGER),
     (40, MQTTPROPERTY_TYPE_BYTE),
     (41, MQTTPROPERTY_TYPE_BYTE),
     (42, MQTTPROPERTY_TYPE_BYTE)]"

fun getType_loop :: "(nat \<times> int) list \<Rightarrow> nat \<Rightarrow> int" where
  "getType_loop [] value = -1"
| "getType_loop ((name, type) # rest) value = (if name = value then type else getType_loop rest value)"

definition MQTTProperty_getType :: "nat \<Rightarrow> int" where
  "MQTTProperty_getType value = getType_loop namesToTypes value"

abbreviation (input) MQTT_INVALID_PROPERTY_ID :: int where "MQTT_INVALID_PROPERTY_ID \<equiv> -2"

section \<open>Property lists\<close>

record mprop =
  prop_id :: nat
  p_byte :: byte
  p_integer2 :: "16 word"
  p_integer4 :: "32 word"
  p_data :: bytes
  p_value :: bytes

record mprops =
  max_count :: nat
  p_length :: int
  p_array :: "mprop list cptr"

definition MQTTProperties_initializer :: mprops where
  "MQTTProperties_initializer = \<lparr>max_count = 0, p_length = 0, p_array = NULL\<rparr>"

definition props_items :: "mprops \<Rightarrow> mprop list" where
  "props_items props = (case p_array props of NULL \<Rightarrow> [] | Ptr xs \<Rightarrow> xs)"

definition MQTTProperties_len :: "mprops cptr \<Rightarrow> int" where
  "MQTTProperties_len props =
     (case props of NULL \<Rightarrow> 1 | Ptr p \<Rightarrow> p_length p + MQTTPacket_VBIlen (p_length p))"

text \<open>The length a property of the given type adds, without its identifier.\<close>

definition prop_value_len :: "int \<Rightarrow> mprop \<Rightarrow> int" where
  "prop_value_len type prop =
     (if type = MQTTPROPERTY_TYPE_BYTE then 1
      else if type = MQTTPROPERTY_TYPE_TWO_BYTE_INTEGER then 2
      else if type = MQTTPROPERTY_TYPE_FOUR_BYTE_INTEGER then 4
      else if type = MQTTPROPERTY_TYPE_VARIABLE_BYTE_INTEGER
        then MQTTPacket_VBIlen (sint (p_integer4 prop))
      else if type = MQTTPROPERTY_TYPE_BINARY_DATA \<or> type = MQTTPROPERTY_TYPE_UTF_8_ENCODED_STRING
              \<or> type = MQTTPROPERTY_TYPE_UTF_8_STRING_PAIR
        then 2 + int (length (p_data prop))
             + (if type = MQTTPROPERTY_TYPE_UTF_8_STRING_PAIR
                then 2 + int (length (p_value prop)) else 0)
      else 0)"

definition MQTTProperties_add :: "mprops \<Rightarrow> mprop \<Rightarrow> int \<times> mprops" where
  "MQTTProperties_add props prop =
     (let type = MQTTProperty_getType (prop_id prop)
      in if type < 0 then (MQTT_INVALID_PROPERTY_ID, props)
         else
           let props1 =
             (case p_array props of
                NULL \<Rightarrow> props\<lparr>max_count := 10, p_array := Ptr []\<rparr>
              | Ptr xs \<Rightarrow> if length xs = max_count props
                          then props\<lparr>max_count := max_count props + 10\<rparr> else props)
           in (0, props1\<lparr>p_array := Ptr (props_items props1 @ [prop]),
                         p_length := p_length props1 + (prop_value_len type prop + 1)\<rparr>))"

section \<open>Writing\<close>

definition MQTTProperty_write :: "mprop \<Rightarrow> int \<times> bytes" where
  "MQTTProperty_write prop =
     (let type = MQTTProperty_getType (prop_id prop);
          ident = writeChar (of_nat (prop_id prop));
          (rc, out) =
            (if type \<ge> MQTTPROPERTY_TYPE_BYTE \<and> type \<le> MQTTPROPERTY_TYPE_UTF_8_STRING_PAIR then
               (if type = MQTTPROPERTY_TYPE_BYTE then (1, ident @ writeChar (p_byte prop))
                else if type = MQTTPROPERTY_TYPE_TWO_BYTE_INTEGER
                  then (2, ident @ writeInt (uint (p_integer2 prop)))
                else if type = MQTTPROPERTY_TYPE_FOUR_BYTE_INTEGER
                  then (4, ident @ writeInt4 (sint (p_integer4 prop)))
                else if type = MQTTPROPERTY_TYPE_VARIABLE_BYTE_INTEGER
                  then (let e = MQTTPacket_encode (unat (p_integer4 prop))
                        in (int (length e), ident @ e))
                else if type = MQTTPROPERTY_TYPE_BINARY_DATA
                        \<or> type = MQTTPROPERTY_TYPE_UTF_8_ENCODED_STRING
                  then (int (length (p_data prop)) + 2, ident @ writeMQTTLenString (p_data prop))
                else (int (length (p_data prop)) + int (length (p_value prop)) + 4,
                      ident @ writeMQTTLenString (p_data prop) @ writeMQTTLenString (p_value prop)))
             else (-1, []))
      in (rc + 1, out))"

fun write_props_loop :: "mprop list \<Rightarrow> int \<Rightarrow> int \<Rightarrow> int \<times> bytes" where
  "write_props_loop [] rc len = (if rc \<ge> 0 then len else rc, [])"
| "write_props_loop (p # ps) rc len =
     (let (rc', out) = MQTTProperty_write p
      in if rc' < 0 then (rc', out)
         else let (res, outs) = write_props_loop ps rc' (len + rc') in (res, out @ outs))"

definition MQTTProperties_write :: "mprops cptr \<Rightarrow> int \<times> bytes" where
  "MQTTProperties_write properties =
     (case properties of
        NULL \<Rightarrow> (1, MQTTPacket_encode 0)
      | Ptr p \<Rightarrow>
          let (rc, out) = write_props_loop (props_items p) 1 1
          in (rc, MQTTPacket_encode (nat (p_length p)) @ out))"

section \<open>Reading\<close>

text \<open>
  The result is \<open>None\<close> for a read outside the memory block, which \<open>enddata\<close> bounds only for
  the length-delimited values.
\<close>

definition mprop_blank :: "nat \<Rightarrow> mprop" where
  "mprop_blank ident =
     \<lparr>prop_id = ident, p_byte = 0, p_integer2 = 0, p_integer4 = 0, p_data = [], p_value = []\<rparr>"

definition MQTTProperty_read :: "bytes \<Rightarrow> nat \<Rightarrow> nat \<Rightarrow> (int \<times> mprop \<times> nat) option" where
  "MQTTProperty_read mem cur0 enddata = do {
     (c, cur) \<leftarrow> readChar mem cur0;
     let prop = mprop_blank (unat c);
     let type = MQTTProperty_getType (prop_id prop);
     (len, prop', cur') \<leftarrow>
       (if type \<ge> MQTTPROPERTY_TYPE_BYTE \<and> type \<le> MQTTPROPERTY_TYPE_UTF_8_STRING_PAIR then
          (if type = MQTTPROPERTY_TYPE_BYTE then do {
             (b, cur1) \<leftarrow> readChar mem cur;
             Some (1, prop\<lparr>p_byte := b\<rparr>, cur1) }
           else if type = MQTTPROPERTY_TYPE_TWO_BYTE_INTEGER then do {
             (i, cur1) \<leftarrow> readInt mem cur;
             Some (2, prop\<lparr>p_integer2 := of_int i\<rparr>, cur1) }
           else if type = MQTTPROPERTY_TYPE_FOUR_BYTE_INTEGER then do {
             (i, cur1) \<leftarrow> readInt4 mem cur;
             Some (4, prop\<lparr>p_integer4 := i\<rparr>, cur1) }
           else if type = MQTTPROPERTY_TYPE_VARIABLE_BYTE_INTEGER then do {
             (n, v) \<leftarrow> MQTTPacket_decodeBuf mem cur;
             Some (int n, prop\<lparr>p_integer4 := v\<rparr>, cur + n) }
           else do {
             (len, data, cur1) \<leftarrow> MQTTLenStringRead mem cur enddata;
             if len = -1 then Some (-1, prop, cur1)
             else if type = MQTTPROPERTY_TYPE_UTF_8_STRING_PAIR then do {
               (proplen, val, cur2) \<leftarrow> MQTTLenStringRead mem cur1 enddata;
               if proplen = -1 then Some (-1, prop, cur2)
               else Some (len + proplen, prop\<lparr>p_data := data, p_value := val\<rparr>, cur2) }
             else Some (len, prop\<lparr>p_data := data\<rparr>, cur1) })
        else Some (-1, prop, cur));
     Some (if len = -1 then -1 else len + 1, prop', cur') }"

definition MQTTProperties_free :: "mprops \<Rightarrow> mprops" where
  "MQTTProperties_free props = MQTTProperties_initializer"

lemma rd_Some [simp]: "rd mem i = Some c \<longleftrightarrow> i < length mem \<and> mem ! i = c"
  by (auto simp: rd_def)

lemma MQTTLenStringRead_cursor:
  "MQTTLenStringRead mem cur enddata = Some (len, s, cur') \<Longrightarrow> cur \<le> cur'"
  by (auto simp: MQTTLenStringRead_def readInt_def split: if_splits bind_splits)

lemma MQTTProperty_read_cursor:
  assumes "MQTTProperty_read mem cur enddata = Some (len, prop, cur')"
  shows "cur < length mem \<and> cur < cur'"
  using assms
  by (auto simp: MQTTProperty_read_def Let_def readChar_def readInt_def readInt4_def
      split: if_splits bind_splits prod.splits dest!: MQTTLenStringRead_cursor)

text \<open>The loop of \<open>MQTTProperties_read\<close>; \<open>remlength\<close> is unsigned and wraps.\<close>

function read_props_loop ::
    "bytes \<Rightarrow> nat \<Rightarrow> 32 word \<Rightarrow> mprops \<Rightarrow> nat \<Rightarrow> (32 word \<times> mprops \<times> nat) option" where
  "read_props_loop mem enddata remlength props cur =
     (if remlength > 0 then
        (let props1 =
           (if length (props_items props) = max_count props
            then props\<lparr>max_count := max_count props + 10,
                       p_array := (if max_count props + 10 = 10 then Ptr [] else p_array props)\<rparr>
            else props)
         in case MQTTProperty_read mem cur enddata of
              None \<Rightarrow> None
            | Some (proplen, prop, cur') \<Rightarrow>
                if proplen > 0
                then read_props_loop mem enddata (remlength - of_int proplen)
                       (props1\<lparr>p_array := Ptr (props_items props1 @ [prop])\<rparr>) cur'
                else Some (remlength, props1, cur'))
      else Some (remlength, props, cur))"
  by pat_completeness auto
termination
  by (relation "measure (\<lambda>(mem, e, r, p, cur). length mem - cur)")
    (auto dest: MQTTProperty_read_cursor simp: diff_less_mono2)

declare read_props_loop.simps [simp del]

definition MQTTProperties_read ::
    "mprops \<Rightarrow> bytes \<Rightarrow> nat \<Rightarrow> nat \<Rightarrow> (int \<times> mprops \<times> nat) option" where
  "MQTTProperties_read properties mem cur enddata = do {
     (rc, props, cur') \<leftarrow>
       (if int enddata - int cur > 0 then do {
          (n, remlength) \<leftarrow> MQTTPacket_decodeBuf mem cur;
          (rest, props, cur') \<leftarrow>
            read_props_loop mem enddata remlength (properties\<lparr>p_length := sint remlength\<rparr>) (cur + n);
          Some (if rest = 0 then 1 else 0, props, cur') }
        else Some (0, properties, cur));
     Some (rc, if rc \<noteq> 1 \<and> p_array props \<noteq> NULL then MQTTProperties_free props else props, cur') }"

section \<open>Copies and queries\<close>

fun copy_props_loop :: "mprop list \<Rightarrow> mprops \<Rightarrow> mprops" where
  "copy_props_loop [] result = result"
| "copy_props_loop (p # ps) result = copy_props_loop ps (snd (MQTTProperties_add result p))"

definition MQTTProperties_copy :: "mprops \<Rightarrow> mprops" where
  "MQTTProperties_copy props = copy_props_loop (props_items props) MQTTProperties_initializer"

fun hasProperty_loop :: "mprop list \<Rightarrow> nat \<Rightarrow> bool" where
  "hasProperty_loop [] propid = False"
| "hasProperty_loop (p # ps) propid = (if propid = prop_id p then True else hasProperty_loop ps propid)"

definition MQTTProperties_hasProperty :: "mprops \<Rightarrow> nat \<Rightarrow> bool" where
  "MQTTProperties_hasProperty props propid = hasProperty_loop (props_items props) propid"

fun propertyCount_loop :: "mprop list \<Rightarrow> nat \<Rightarrow> nat \<Rightarrow> nat" where
  "propertyCount_loop [] propid count = count"
| "propertyCount_loop (p # ps) propid count =
     propertyCount_loop ps propid (if propid = prop_id p then count + 1 else count)"

definition MQTTProperties_propertyCount :: "mprops \<Rightarrow> nat \<Rightarrow> nat" where
  "MQTTProperties_propertyCount props propid = propertyCount_loop (props_items props) propid 0"

definition numeric_value :: "mprop \<Rightarrow> int" where
  "numeric_value p =
     (let type = MQTTProperty_getType (prop_id p)
      in if type = MQTTPROPERTY_TYPE_BYTE then uint (p_byte p)
         else if type = MQTTPROPERTY_TYPE_TWO_BYTE_INTEGER then uint (p_integer2 p)
         else if type = MQTTPROPERTY_TYPE_FOUR_BYTE_INTEGER
                 \<or> type = MQTTPROPERTY_TYPE_VARIABLE_BYTE_INTEGER then sint (p_integer4 p)
         else -999999)"

fun numericValueAt_loop :: "mprop list \<Rightarrow> nat \<Rightarrow> int \<Rightarrow> int \<Rightarrow> int" where
  "numericValueAt_loop [] propid index cur_index = -9999999"
| "numericValueAt_loop (p # ps) propid index cur_index =
     (if prop_id p = propid then
        (if cur_index < index then numericValueAt_loop ps propid index (cur_index + 1)
         else numeric_value p)
      else numericValueAt_loop ps propid index cur_index)"

definition MQTTProperties_getNumericValueAt :: "mprops \<Rightarrow> nat \<Rightarrow> int \<Rightarrow> int" where
  "MQTTProperties_getNumericValueAt props propid index =
     numericValueAt_loop (props_items props) propid index 0"

definition MQTTProperties_getNumericValue :: "mprops \<Rightarrow> nat \<Rightarrow> int" where
  "MQTTProperties_getNumericValue props propid = MQTTProperties_getNumericValueAt props propid 0"

fun propertyAt_loop :: "mprop list \<Rightarrow> nat \<Rightarrow> int \<Rightarrow> int \<Rightarrow> mprop cptr" where
  "propertyAt_loop [] propid index cur_index = NULL"
| "propertyAt_loop (p # ps) propid index cur_index =
     (if prop_id p = propid then
        (if cur_index = index then Ptr p else propertyAt_loop ps propid index (cur_index + 1))
      else propertyAt_loop ps propid index cur_index)"

definition MQTTProperties_getPropertyAt :: "mprops \<Rightarrow> nat \<Rightarrow> int \<Rightarrow> mprop cptr" where
  "MQTTProperties_getPropertyAt props propid index =
     propertyAt_loop (props_items props) propid index 0"

definition MQTTProperties_getProperty :: "mprops \<Rightarrow> nat \<Rightarrow> mprop cptr" where
  "MQTTProperties_getProperty props propid = MQTTProperties_getPropertyAt props propid 0"

section \<open>Well-formed properties and lists\<close>

text \<open>The member of the union that the type of the identifier selects; the others are cleared.\<close>

definition norm_prop :: "mprop \<Rightarrow> mprop" where
  "norm_prop p =
     (let type = MQTTProperty_getType (prop_id p); q = mprop_blank (prop_id p)
      in if type = MQTTPROPERTY_TYPE_BYTE then q\<lparr>p_byte := p_byte p\<rparr>
         else if type = MQTTPROPERTY_TYPE_TWO_BYTE_INTEGER then q\<lparr>p_integer2 := p_integer2 p\<rparr>
         else if type = MQTTPROPERTY_TYPE_FOUR_BYTE_INTEGER
                 \<or> type = MQTTPROPERTY_TYPE_VARIABLE_BYTE_INTEGER
           then q\<lparr>p_integer4 := p_integer4 p\<rparr>
         else if type = MQTTPROPERTY_TYPE_UTF_8_STRING_PAIR
           then q\<lparr>p_data := p_data p, p_value := p_value p\<rparr>
         else q\<lparr>p_data := p_data p\<rparr>)"

text \<open>A property the wire format can carry.\<close>

definition prop_ok :: "mprop \<Rightarrow> bool" where
  "prop_ok p \<longleftrightarrow>
     MQTTProperty_getType (prop_id p) \<ge> 0
     \<and> (MQTTProperty_getType (prop_id p) = MQTTPROPERTY_TYPE_FOUR_BYTE_INTEGER
          \<longrightarrow> 0 \<le> sint (p_integer4 p) \<or> sint (p_integer4 p) mod 16777216 = 0)
     \<and> (MQTTProperty_getType (prop_id p) = MQTTPROPERTY_TYPE_VARIABLE_BYTE_INTEGER
          \<longrightarrow> unat (p_integer4 p) < 268435456)
     \<and> length (p_data p) < 65536 \<and> length (p_value p) < 65536"

text \<open>The bytes of the properties are counted in \<open>length\<close>, and the array has room for them.\<close>

definition prop_size :: "mprop \<Rightarrow> int" where
  "prop_size p = prop_value_len (MQTTProperty_getType (prop_id p)) p + 1"

lemma sint_unat_small:
  assumes a: "unat (w :: 32 word) < 2147483648"
  shows "sint w = int (unat w)"
proof -
  have "uint w < 2147483648" unfolding uint_nat using a by linarith
  then have b: "uint w < 2147483648" "0 \<le> uint w" by simp_all
  have "sint w = signed_take_bit 31 (uint w)" by (simp add: sint_uint)
  also have "\<dots> = uint w"
    by (rule signed_take_bit_int_eq_self) (use b order_trans [of "- 2147483648" 0 "uint w"] in simp_all)
  finally show ?thesis by (simp only: uint_nat)
qed

lemma getType_values: "MQTTProperty_getType v \<in> {-1, 0, 1, 2, 3, 4, 5, 6}"
  by (simp add: MQTTProperty_getType_def namesToTypes_def)

lemma getType_bound: "0 \<le> MQTTProperty_getType v \<Longrightarrow> v < 256"
  by (simp add: MQTTProperty_getType_def namesToTypes_def split: if_splits)

lemma getType_cases:
  assumes "0 \<le> MQTTProperty_getType v"
  obtains "MQTTProperty_getType v = 0" | "MQTTProperty_getType v = 1" | "MQTTProperty_getType v = 2"
    | "MQTTProperty_getType v = 3" | "MQTTProperty_getType v = 4" | "MQTTProperty_getType v = 5"
    | "MQTTProperty_getType v = 6"
  using getType_values [of v] assms by auto

lemma MQTTProperty_write_out:
  assumes "prop_ok p"
  shows "fst (MQTTProperty_write p) = int (length (snd (MQTTProperty_write p)))"
    and "fst (MQTTProperty_write p) = prop_size p"
    and "0 < prop_size p"
proof -
  have t: "0 \<le> MQTTProperty_getType (prop_id p)" using assms by (simp add: prop_ok_def)
  have s: "MQTTPacket_VBIlen (sint (p_integer4 p)) = int (length (MQTTPacket_encode (unat (p_integer4 p))))"
    if "unat (p_integer4 p) < 268435456"
    using length_encode_VBIlen [OF that] that by (simp add: sint_unat_small)
  show "fst (MQTTProperty_write p) = int (length (snd (MQTTProperty_write p)))"
    using t assms by (cases rule: getType_cases)
      (simp_all add: MQTTProperty_write_def Let_def)
  show "fst (MQTTProperty_write p) = prop_size p"
    using t assms s by (cases rule: getType_cases)
      (simp_all add: MQTTProperty_write_def Let_def prop_size_def prop_value_len_def prop_ok_def)
  show "0 < prop_size p"
    using t by (cases rule: getType_cases)
      (simp_all add: prop_size_def prop_value_len_def MQTTPacket_VBIlen_def)
qed

lemma readInt4_sint:
  assumes "holds_at mem cur (writeInt4 (sint w))" "0 \<le> sint w \<or> sint w mod 16777216 = 0"
  shows "readInt4 mem cur = Some (w, cur + 4)"
proof (cases "0 \<le> sint w")
  case True
  then show ?thesis
    using readInt4_writeInt4 [OF assms(1) True] sint_lt [of w] by simp
next
  case False
  then show ?thesis
    using readInt4_writeInt4_neg [OF assms(1)] assms(2) sint_ge [of w] by simp
qed

lemma MQTTProperty_read_write:
  assumes ok: "prop_ok p" and h: "holds_at mem cur (snd (MQTTProperty_write p))"
    and e: "cur + length (snd (MQTTProperty_write p)) \<le> enddata"
  shows "MQTTProperty_read mem cur enddata
           = Some (prop_size p, norm_prop p, cur + length (snd (MQTTProperty_write p)))"
proof -
  have t: "0 \<le> MQTTProperty_getType (prop_id p)" using assms by (simp add: prop_ok_def)
  have b: "unat (of_nat (prop_id p) :: byte) = prop_id p"
    using getType_bound [OF t] by (simp add: unat_of_nat)
  obtain body where w: "snd (MQTTProperty_write p) = writeChar (of_nat (prop_id p)) @ body"
    using t by (cases rule: getType_cases) (auto simp: MQTTProperty_write_def Let_def)
  have r: "readChar mem cur = Some (of_nat (prop_id p), cur + 1)"
    using h unfolding w by (intro readChar_writeChar) (simp add: codec_simps)
  have hb: "holds_at mem (cur + 1) body" using h unfolding w by (simp add: codec_simps)
  have l: "length (snd (MQTTProperty_write p)) = Suc (length body)" unfolding w by simp
  have i2: "uint (p_integer2 p) < 65536" using uint_bounded [of "p_integer2 p"] by simp
  show ?thesis
    using t
  proof (cases rule: getType_cases)
    case 1
    then have w: "body = writeChar (p_byte p)" using w by (simp add: MQTTProperty_write_def Let_def)
    with hb have "readChar mem (cur + 1) = Some (p_byte p, cur + 2)" by (simp add: readChar_writeChar)
    with 1 r b l w show ?thesis
      by (simp add: MQTTProperty_read_def norm_prop_def prop_size_def prop_value_len_def mprop_blank_def)
  next
    case 2
    then have w: "body = writeInt (uint (p_integer2 p))"
      using w by (simp add: MQTTProperty_write_def Let_def)
    with hb i2 have "readInt mem (cur + 1) = Some (uint (p_integer2 p), cur + 3)"
      using readInt_writeInt [of mem "cur + 1"] by (simp add: eval_nat_numeral)
    with 2 r b l w show ?thesis
      by (simp add: MQTTProperty_read_def norm_prop_def prop_size_def prop_value_len_def mprop_blank_def)
  next
    case 3
    then have w: "body = writeInt4 (sint (p_integer4 p))"
      using w by (simp add: MQTTProperty_write_def Let_def)
    have "readInt4 mem (cur + 1) = Some (p_integer4 p, cur + 5)"
      using hb w ok 3 by (simp add: readInt4_sint prop_ok_def)
    with 3 r b l w show ?thesis
      by (simp add: MQTTProperty_read_def norm_prop_def prop_size_def prop_value_len_def mprop_blank_def)
  next
    case 4
    then have w: "body = MQTTPacket_encode (unat (p_integer4 p))"
      using w by (simp add: MQTTProperty_write_def Let_def)
    have n: "unat (p_integer4 p) < 268435456" using ok 4 by (simp add: prop_ok_def)
    have "MQTTPacket_decodeBuf mem (cur + 1) = Some (length body, p_integer4 p)"
      using hb w decodeBuf_encode [OF _ n, of mem "cur + 1"] by simp
    with 4 r b l w show ?thesis using length_encode_VBIlen [OF n] n
      by (simp add: MQTTProperty_read_def norm_prop_def prop_size_def prop_value_len_def mprop_blank_def
          sint_unat_small)
  next
    case 5
    then have w: "body = writeMQTTLenString (p_data p)"
      using w by (simp add: MQTTProperty_write_def Let_def)
    have "MQTTLenStringRead mem (cur + 1) enddata
        = Some (2 + int (length (p_data p)), p_data p, cur + 1 + 2 + length (p_data p))"
      by (rule MQTTLenStringRead_writeMQTTLenString)
        (use hb w ok e l in \<open>simp_all add: prop_ok_def codec_simps\<close>)
    with 5 r b l w show ?thesis
      by (simp add: MQTTProperty_read_def norm_prop_def prop_size_def prop_value_len_def mprop_blank_def)
  next
    case 6
    then have w: "body = writeMQTTLenString (p_data p)"
      using w by (simp add: MQTTProperty_write_def Let_def)
    have "MQTTLenStringRead mem (cur + 1) enddata
        = Some (2 + int (length (p_data p)), p_data p, cur + 1 + 2 + length (p_data p))"
      by (rule MQTTLenStringRead_writeMQTTLenString)
        (use hb w ok e l in \<open>simp_all add: prop_ok_def codec_simps\<close>)
    with 6 r b l w show ?thesis
      by (simp add: MQTTProperty_read_def norm_prop_def prop_size_def prop_value_len_def mprop_blank_def)
  next
    case 7
    then have w: "body = writeMQTTLenString (p_data p) @ writeMQTTLenString (p_value p)"
      using w by (simp add: MQTTProperty_write_def Let_def)
    have "MQTTLenStringRead mem (cur + 1) enddata
        = Some (2 + int (length (p_data p)), p_data p, cur + 1 + 2 + length (p_data p))"
      by (rule MQTTLenStringRead_writeMQTTLenString)
        (use hb w ok e l in \<open>simp_all add: prop_ok_def codec_simps\<close>)
    moreover have "MQTTLenStringRead mem (cur + 1 + (2 + length (p_data p))) enddata
        = Some (2 + int (length (p_value p)), p_value p,
            cur + 1 + (2 + length (p_data p)) + 2 + length (p_value p))"
      by (rule MQTTLenStringRead_writeMQTTLenString)
        (use hb w ok e l in \<open>simp_all add: prop_ok_def codec_simps\<close>)
    ultimately show ?thesis using 7 r b l w
      by (simp add: MQTTProperty_read_def norm_prop_def prop_size_def prop_value_len_def mprop_blank_def)
  qed
qed

definition props_bytes :: "mprop list \<Rightarrow> bytes" where
  "props_bytes ps = concat (map (\<lambda>p. snd (MQTTProperty_write p)) ps)"

lemma props_bytes_simps [simp]:
  "props_bytes [] = []" "props_bytes (p # ps) = snd (MQTTProperty_write p) @ props_bytes ps"
  by (simp_all add: props_bytes_def)

lemma length_props_bytes:
  "\<forall>p \<in> set ps. prop_ok p \<Longrightarrow> int (length (props_bytes ps)) = sum_list (map prop_size ps)"
  by (induction ps) (auto simp: MQTTProperty_write_out(1) [symmetric] MQTTProperty_write_out(2))

lemma write_props_loop_ok:
  assumes "\<forall>p \<in> set ps. prop_ok p" "0 \<le> rc" "0 \<le> len"
  shows "write_props_loop ps rc len = (len + sum_list (map prop_size ps), props_bytes ps)"
  using assms
proof (induction ps arbitrary: rc len)
  case (Cons p ps)
  obtain r out where w: "MQTTProperty_write p = (r, out)" by fastforce
  then have "r = prop_size p" "0 < r" using MQTTProperty_write_out [of p] Cons.prems by simp_all
  with w Cons show ?case by simp
qed simp

definition array_inv :: "mprops \<Rightarrow> bool" where
  "array_inv ps \<longleftrightarrow> length (props_items ps) \<le> max_count ps \<and> (max_count ps = 0 \<longleftrightarrow> p_array ps = NULL)"

lemma read_props_loop_write:
  assumes "holds_at mem cur (props_bytes ps)" "cur + length (props_bytes ps) \<le> enddata"
    "\<forall>p \<in> set ps. prop_ok p" "length (props_bytes ps) < 4294967296" "array_inv props"
  shows "\<exists>props'. read_props_loop mem enddata (of_nat (length (props_bytes ps))) props cur
      = Some (0, props', cur + length (props_bytes ps))
      \<and> props_items props' = props_items props @ map norm_prop ps \<and> p_length props' = p_length props
      \<and> array_inv props'"
  using assms
proof (induction ps arbitrary: props cur)
  case Nil
  then show ?case by (simp add: read_props_loop.simps)
next
  case (Cons p ps)
  let ?n = "length (snd (MQTTProperty_write p))"
  have ok: "prop_ok p" using Cons.prems by simp
  have r: "MQTTProperty_read mem cur enddata = Some (prop_size p, norm_prop p, cur + ?n)"
    by (rule MQTTProperty_read_write) (use Cons.prems in \<open>simp_all add: codec_simps\<close>)
  have n: "prop_size p = int ?n" "0 < prop_size p" using MQTTProperty_write_out [OF ok] by simp_all
  let ?props1 = "if length (props_items props) = max_count props
            then props\<lparr>max_count := max_count props + 10,
                       p_array := (if max_count props + 10 = 10 then Ptr [] else p_array props)\<rparr>
            else props"
  let ?props2 = "?props1\<lparr>p_array := Ptr (props_items ?props1 @ [norm_prop p])\<rparr>"
  have p1: "props_items ?props1 = props_items props" "p_length ?props1 = p_length props"
    using Cons.prems(5) by (auto simp: array_inv_def props_items_def)
  have a2: "array_inv ?props2" "props_items ?props2 = props_items props @ [norm_prop p]"
      "p_length ?props2 = p_length props"
    using Cons.prems(5) p1 by (auto simp: array_inv_def props_items_def)
  have nz: "(of_nat (?n + length (props_bytes ps)) :: 32 word) > 0"
    using Cons.prems(4) n by (auto simp: word_gt_0 word_of_nat_eq_0_iff simp del: of_nat_add dest: dvd_imp_le)
  have rem: "of_nat (?n + length (props_bytes ps)) - of_int (prop_size p) = (of_nat (length (props_bytes ps)) :: 32 word)"
    by (simp add: n)
  obtain props' where IH: "read_props_loop mem enddata (of_nat (length (props_bytes ps))) ?props2 (cur + ?n)
      = Some (0, props', cur + ?n + length (props_bytes ps))"
      "props_items props' = props_items ?props2 @ map norm_prop ps" "p_length props' = p_length ?props2"
      "array_inv props'"
    using Cons.IH [of "cur + ?n" ?props2] Cons.prems a2 by (auto simp: codec_simps)
  have "read_props_loop mem enddata (of_nat (?n + length (props_bytes ps))) props cur
      = read_props_loop mem enddata (of_nat (length (props_bytes ps))) ?props2 (cur + ?n)"
    using nz r n(2) rem by (subst read_props_loop.simps) (simp only: Let_def option.case prod.case if_True)
  with IH a2 show ?case by (auto simp: add.assoc)
qed


definition props_inv :: "mprops \<Rightarrow> bool" where
  "props_inv ps \<longleftrightarrow> array_inv ps \<and> (\<forall>p \<in> set (props_items ps). prop_ok p)
     \<and> p_length ps = sum_list (map prop_size (props_items ps))"

lemma array_inv_initializer: "array_inv MQTTProperties_initializer"
  by (simp add: array_inv_def MQTTProperties_initializer_def props_items_def)

lemma props_inv_initializer [simp]: "props_inv MQTTProperties_initializer"
  by (simp add: props_inv_def array_inv_initializer)
    (simp add: MQTTProperties_initializer_def props_items_def)

lemma props_length_nonneg: "props_inv ps \<Longrightarrow> int (length (props_bytes (props_items ps))) = p_length ps"
  by (simp add: props_inv_def length_props_bytes)

lemma MQTTProperties_write_ok:
  assumes "props_inv ps"
  shows "snd (MQTTProperties_write (Ptr ps))
      = MQTTPacket_encode (nat (p_length ps)) @ props_bytes (props_items ps)"
    and "fst (MQTTProperties_write (Ptr ps)) = 1 + p_length ps"
  using assms write_props_loop_ok [of "props_items ps" 1 1]
  by (simp_all add: MQTTProperties_write_def props_inv_def)

lemma MQTTProperties_len_written:
  assumes "\<forall>p. ps = Ptr p \<longrightarrow> props_inv p \<and> p_length p < 268435456"
  shows "int (length (snd (MQTTProperties_write ps))) = MQTTProperties_len ps"
proof (cases ps)
  case NULL
  then show ?thesis by (simp add: MQTTProperties_write_def MQTTProperties_len_def)
next
  case (Ptr p)
  then have inv: "props_inv p" and b: "p_length p < 268435456" using assms by auto
  have l: "int (length (props_bytes (props_items p))) = p_length p"
    using props_length_nonneg [OF inv] .
  then have "0 \<le> p_length p" by linarith
  then show ?thesis
    using Ptr inv b l length_encode_VBIlen [of "nat (p_length p)"]
    by (simp add: MQTTProperties_write_ok MQTTProperties_len_def)
qed

lemma MQTTProperties_read_write:
  assumes "holds_at mem cur (snd (MQTTProperties_write ps))"
    "cur + length (snd (MQTTProperties_write ps)) \<le> enddata"
    "\<forall>p. ps = Ptr p \<longrightarrow> props_inv p \<and> p_length p < 268435456" "array_inv props0"
  shows "\<exists>props'. MQTTProperties_read props0 mem cur enddata
      = Some (1, props', cur + length (snd (MQTTProperties_write ps)))
      \<and> props_items props' = props_items props0 @ (case ps of NULL \<Rightarrow> [] | Ptr p \<Rightarrow> map norm_prop (props_items p))
      \<and> p_length props' = (case ps of NULL \<Rightarrow> 0 | Ptr p \<Rightarrow> p_length p) \<and> array_inv props'"
proof -
  define items where "items = (case ps of NULL \<Rightarrow> [] | Ptr p \<Rightarrow> props_items p)"
  define n where "n = length (props_bytes items)"
  have ok: "\<forall>p \<in> set items. prop_ok p" and w: "snd (MQTTProperties_write ps) = MQTTPacket_encode n @ props_bytes items"
    and n: "n < 268435456" and pl: "(case ps of NULL \<Rightarrow> 0 | Ptr p \<Rightarrow> p_length p) = int n"
  proof -
    show "\<forall>p \<in> set items. prop_ok p" using assms(3) by (auto simp: items_def props_inv_def split: cptr.splits)
    show pl: "(case ps of NULL \<Rightarrow> 0 | Ptr p \<Rightarrow> p_length p) = int n"
      using assms(3) by (auto simp: items_def n_def props_length_nonneg split: cptr.splits)
    then show "n < 268435456" using assms(3) by (auto split: cptr.splits)
    show "snd (MQTTProperties_write ps) = MQTTPacket_encode n @ props_bytes items"
      using pl assms(3) MQTTProperties_write_ok(1)
      by (cases ps) (auto simp: items_def n_def, simp add: MQTTProperties_write_def)
  qed
  have d: "MQTTPacket_decodeBuf mem cur = Some (length (MQTTPacket_encode n), of_nat n)"
    using assms(1) w n by (intro decodeBuf_encode) (simp_all add: codec_simps)
  have s: "sint (of_nat n :: 32 word) = int n"
    using n by (subst sint_unat_small) (simp_all add: unat_of_nat)
  obtain props' where "read_props_loop mem enddata (of_nat n) (props0\<lparr>p_length := int n\<rparr>) (cur + length (MQTTPacket_encode n))
      = Some (0, props', cur + length (MQTTPacket_encode n) + n)"
      "props_items props' = props_items props0 @ map norm_prop items" "p_length props' = int n" "array_inv props'"
    using read_props_loop_write [of mem "cur + length (MQTTPacket_encode n)" items enddata "props0\<lparr>p_length := int n\<rparr>"]
      assms(1,2,4) w ok n unfolding n_def [symmetric]
    by (auto simp: codec_simps array_inv_def props_items_def n_def)
  moreover have "cur < enddata" 
    using assms(2) length_MQTTPacket_encode_pos [of n] unfolding w length_append by linarith
  ultimately show ?thesis using d s w pl
    by (auto simp: MQTTProperties_read_def n_def items_def split: cptr.splits)
qed


lemma MQTTProperties_add_ok:
  assumes "props_inv ps" "prop_ok p"
  shows "fst (MQTTProperties_add ps p) = 0"
    and "props_items (snd (MQTTProperties_add ps p)) = props_items ps @ [p]"
    and "props_inv (snd (MQTTProperties_add ps p))"
    and "p_length (snd (MQTTProperties_add ps p)) = p_length ps + prop_size p"
  using assms
  by (auto simp: MQTTProperties_add_def Let_def props_inv_def array_inv_def props_items_def
      prop_ok_def prop_size_def split: cptr.splits)

lemma MQTTProperties_add_invalid:
  "MQTTProperty_getType (prop_id p) < 0 \<Longrightarrow> MQTTProperties_add ps p = (MQTT_INVALID_PROPERTY_ID, ps)"
  by (simp add: MQTTProperties_add_def)

lemma copy_props_loop_ok:
  "props_inv acc \<Longrightarrow> \<forall>p \<in> set ps. prop_ok p \<Longrightarrow>
     props_inv (copy_props_loop ps acc)
     \<and> props_items (copy_props_loop ps acc) = props_items acc @ ps
     \<and> p_length (copy_props_loop ps acc) = p_length acc + sum_list (map prop_size ps)"
  by (induction ps arbitrary: acc) (simp_all add: MQTTProperties_add_ok)

lemma props_items_initializer [simp]: "props_items MQTTProperties_initializer = []"
  by (simp add: MQTTProperties_initializer_def props_items_def)

lemma MQTTProperties_copy_ok:
  assumes "props_inv ps"
  shows "props_inv (MQTTProperties_copy ps)" "props_items (MQTTProperties_copy ps) = props_items ps"
    "p_length (MQTTProperties_copy ps) = p_length ps"
proof -
  have "\<forall>p \<in> set (props_items ps). prop_ok p" "p_length ps = sum_list (map prop_size (props_items ps))"
    using assms by (simp_all add: props_inv_def)
  moreover have "p_length MQTTProperties_initializer = 0" by (simp add: MQTTProperties_initializer_def)
  ultimately show "props_inv (MQTTProperties_copy ps)" "props_items (MQTTProperties_copy ps) = props_items ps"
    "p_length (MQTTProperties_copy ps) = p_length ps"
    using copy_props_loop_ok [of MQTTProperties_initializer "props_items ps"]
    by (simp_all add: MQTTProperties_copy_def)
qed

subsection \<open>Queries\<close>

lemma hasProperty_iff:
  "MQTTProperties_hasProperty ps i \<longleftrightarrow> (\<exists>p \<in> set (props_items ps). prop_id p = i)"
proof -
  have "hasProperty_loop xs i \<longleftrightarrow> (\<exists>p \<in> set xs. prop_id p = i)" for xs
    by (induction xs) auto
  then show ?thesis by (simp add: MQTTProperties_hasProperty_def)
qed

lemma propertyCount_filter:
  "MQTTProperties_propertyCount ps i = length (filter (\<lambda>p. prop_id p = i) (props_items ps))"
proof -
  have "propertyCount_loop xs i n = n + length (filter (\<lambda>p. prop_id p = i) xs)" for xs n
    by (induction xs arbitrary: n) auto
  then show ?thesis by (simp add: MQTTProperties_propertyCount_def)
qed

lemma propertyAt_loop_nth:
  assumes "cur \<le> index"
  shows "propertyAt_loop xs i index cur =
     (let ys = filter (\<lambda>p. prop_id p = i) xs; k = nat (index - cur)
      in if k < length ys then Ptr (ys ! k) else NULL)"
  using assms
proof (induction xs arbitrary: cur)
  case (Cons p xs)
  show ?case
  proof (cases "prop_id p = i \<and> cur \<noteq> index")
    case True
    then have k: "nat (index - cur) = Suc (nat (index - (cur + 1)))" using Cons.prems by linarith
    from True Cons.prems show ?thesis by (simp add: Cons.IH Let_def k)
  qed (use Cons in \<open>auto simp: Let_def\<close>)
qed simp

lemma numericValueAt_loop_nth:
  assumes "cur \<le> index"
  shows "numericValueAt_loop xs i index cur =
     (let ys = filter (\<lambda>p. prop_id p = i) xs; k = nat (index - cur)
      in if k < length ys then numeric_value (ys ! k) else -9999999)"
  using assms
proof (induction xs arbitrary: cur)
  case (Cons p xs)
  show ?case
  proof (cases "prop_id p = i \<and> cur \<noteq> index")
    case True
    then have k: "nat (index - cur) = Suc (nat (index - (cur + 1)))" using Cons.prems by linarith
    from True Cons.prems show ?thesis by (simp add: Cons.IH Let_def k)
  qed (use Cons in \<open>auto simp: Let_def\<close>)
qed simp

lemma getPropertyAt_nth:
  assumes "0 \<le> index"
  shows "MQTTProperties_getPropertyAt ps i index =
     (let ys = filter (\<lambda>p. prop_id p = i) (props_items ps)
      in if nat index < length ys then Ptr (ys ! nat index) else NULL)"
  unfolding MQTTProperties_getPropertyAt_def using propertyAt_loop_nth [OF assms] by (simp add: Let_def)

lemma getNumericValueAt_nth:
  assumes "0 \<le> index"
  shows "MQTTProperties_getNumericValueAt ps i index =
     (case MQTTProperties_getPropertyAt ps i index of NULL \<Rightarrow> -9999999 | Ptr p \<Rightarrow> numeric_value p)"
  unfolding MQTTProperties_getNumericValueAt_def getPropertyAt_nth [OF assms]
  using numericValueAt_loop_nth [OF assms] by (simp add: Let_def)

section \<open>Properties of the code\<close>

text \<open>C19. A well-formed property list is read back from the bytes \<open>MQTTProperties_write\<close> puts
  anywhere in a buffer: the same properties in the same order and the same length, the cursor at
  the end of what was written. This holds for the missing list, too, which is read as empty.\<close>

theorem props_roundtrip:
  assumes "\<forall>p. ps = Ptr p \<longrightarrow> props_inv p \<and> p_length p < 268435456"
  defines "out \<equiv> snd (MQTTProperties_write ps)"
  shows "\<exists>props. MQTTProperties_read MQTTProperties_initializer (before @ out @ after)
            (length before) (length before + length out)
          = Some (1, props, length before + length out)
        \<and> props_items props = (case ps of NULL \<Rightarrow> [] | Ptr p \<Rightarrow> map norm_prop (props_items p))
        \<and> p_length props = (case ps of NULL \<Rightarrow> 0 | Ptr p \<Rightarrow> p_length p)"
  using MQTTProperties_read_write [OF holds_at_prefix [of before _ after] _ assms(1) array_inv_initializer]
  unfolding out_def by auto

definition sample_props :: mprops where
  "sample_props = snd (MQTTProperties_add (snd (MQTTProperties_add MQTTProperties_initializer
      ((mprop_blank 2)\<lparr>p_integer4 := 60\<rparr>)))
      ((mprop_blank 38)\<lparr>p_data := [107], p_value := [118, 49]\<rparr>))"

lemma sample_props_ok: "props_inv sample_props" "p_length sample_props = 13"
  by (simp_all add: sample_props_def MQTTProperties_add_def MQTTProperties_initializer_def Let_def
      props_inv_def array_inv_def prop_ok_def prop_size_def prop_value_len_def props_items_def
      mprop_blank_def MQTTProperty_getType_def namesToTypes_def)

lemma props_roundtrip_witness:
  "\<exists>props. MQTTProperties_read MQTTProperties_initializer
      ([1] @ snd (MQTTProperties_write (Ptr sample_props)) @ [2]) (length [1 :: byte])
      (length [1 :: byte] + length (snd (MQTTProperties_write (Ptr sample_props))))
    = Some (1, props, length [1 :: byte] + length (snd (MQTTProperties_write (Ptr sample_props))))
    \<and> props_items props = map norm_prop (props_items sample_props)"
  using props_roundtrip [of "Ptr sample_props" "[1]" "[2]"] sample_props_ok by auto

text \<open>C35. \<open>MQTTProperties_len\<close>, from which the buffers of the outgoing packets are dimensioned, is
  the number of bytes \<open>MQTTProperties_write\<close> writes.\<close>

theorem props_len_exact:
  assumes "\<forall>p. ps = Ptr p \<longrightarrow> props_inv p \<and> p_length p < 268435456"
  shows "MQTTProperties_len ps = int (length (snd (MQTTProperties_write ps)))"
  using MQTTProperties_len_written [OF assms] by simp

lemma props_len_exact_witness:
  "MQTTProperties_len (Ptr sample_props) = int (length (snd (MQTTProperties_write (Ptr sample_props))))"
  using props_len_exact [of "Ptr sample_props"] sample_props_ok by simp

text \<open>C36. Building a list with \<open>MQTTProperties_add\<close> keeps it well formed: an acceptable property is
  appended and counted, a copy of a well-formed list has the same properties and length, and a
  property with an unknown identifier is refused with the list untouched.\<close>

theorem props_build_inv:
  assumes "props_inv ps"
  shows "(prop_ok p \<longrightarrow> (\<exists>ps'. MQTTProperties_add ps p = (0, ps') \<and> props_inv ps'
            \<and> props_items ps' = props_items ps @ [p]))
       \<and> (MQTTProperty_getType (prop_id p) < 0
            \<longrightarrow> MQTTProperties_add ps p = (MQTT_INVALID_PROPERTY_ID, ps))
       \<and> props_inv (MQTTProperties_copy ps) \<and> props_items (MQTTProperties_copy ps) = props_items ps
       \<and> p_length (MQTTProperties_copy ps) = p_length ps"
  using assms MQTTProperties_add_ok [OF assms, of p]
  by (auto simp: MQTTProperties_add_invalid MQTTProperties_copy_ok prod_eq_iff)

lemma props_build_inv_witness:
  "props_inv (MQTTProperties_copy sample_props)
   \<and> MQTTProperties_add sample_props (mprop_blank 4) = (MQTT_INVALID_PROPERTY_ID, sample_props)"
  using props_build_inv [OF sample_props_ok(1), of "mprop_blank 4"]
  by (simp add: mprop_blank_def MQTTProperty_getType_def namesToTypes_def)

text \<open>C40. The queries by identifier and index agree with each other: the count is the number of
  properties with the identifier, presence is a positive count, and the value at an index is the
  one of the property at that index, or the marker of a missing one.\<close>

theorem props_queries:
  assumes "0 \<le> index"
  shows "(MQTTProperties_hasProperty ps i \<longleftrightarrow> 0 < MQTTProperties_propertyCount ps i)
       \<and> (MQTTProperties_getPropertyAt ps i index \<noteq> NULL
            \<longleftrightarrow> index < int (MQTTProperties_propertyCount ps i))
       \<and> MQTTProperties_getNumericValueAt ps i index =
           (case MQTTProperties_getPropertyAt ps i index of NULL \<Rightarrow> -9999999 | Ptr p \<Rightarrow> numeric_value p)"
  using assms
  by (auto simp: hasProperty_iff propertyCount_filter getPropertyAt_nth getNumericValueAt_nth Let_def
      filter_empty_conv split: if_splits)

lemma props_queries_witness: "MQTTProperties_getPropertyAt sample_props 38 0 \<noteq> NULL"
  using props_queries [of 0 sample_props 38]
  by (simp add: sample_props_def MQTTProperties_add_def MQTTProperties_initializer_def Let_def
      props_items_def mprop_blank_def MQTTProperty_getType_def namesToTypes_def
      MQTTProperties_propertyCount_def)

end
