(* ===== verification/LinkedList.thy ===== *)
theory LinkedList
  imports MqttPrelude
begin

text \<open>
  The doubly linked lists of \<open>MqttC/LinkedList.c\<close>, on two levels.

  The first level follows the pointers: a heap maps the addresses of list elements to elements with
  \<open>prev\<close>, \<open>next\<close> and \<open>content\<close>, a list has the pointers \<open>first\<close>, \<open>last\<close> and \<open>current\<close> and the count.
  An operation returns \<open>None\<close> when it follows a pointer that is not to a live element. An
  allocation takes the address \<open>new\<close> the allocator hands out, and freeing removes the address.

  The second level is what the rest of the client is modelled with: the contents in order, and the
  position of the \<open>current\<close> element, which searches look at first. The refinement lemmas show
  that every operation of the first level implements the one of the second level on every heap.

  The \<open>size\<close> of a list is bookkeeping for diagnostics and is left out; allocation succeeds.
\<close>

section \<open>Lists of elements in the heap\<close>

record 'a element =
  e_prev :: "nat cptr"
  e_next :: "nat cptr"
  e_content :: 'a

type_synonym 'a lheap = "nat \<Rightarrow> 'a element option"

record llist =
  ls_first :: "nat cptr"
  ls_last :: "nat cptr"
  ls_current :: "nat cptr"
  ls_count :: int

definition ListZero :: llist where
  "ListZero = \<lparr>ls_first = NULL, ls_last = NULL, ls_current = NULL, ls_count = 0\<rparr>"

text \<open>Reading and writing through a pointer.\<close>

fun deref :: "'a lheap \<Rightarrow> nat cptr \<Rightarrow> 'a element option" where
  "deref h NULL = None"
| "deref h (Ptr a) = h a"

fun upd :: "('a element \<Rightarrow> 'a element) \<Rightarrow> nat cptr \<Rightarrow> 'a lheap \<Rightarrow> 'a lheap option" where
  "upd f NULL h = None"
| "upd f (Ptr a) h = (case h a of None \<Rightarrow> None | Some e \<Rightarrow> Some (h(a \<mapsto> f e)))"

fun free_el :: "nat cptr \<Rightarrow> 'a lheap \<Rightarrow> 'a lheap option" where
  "free_el NULL h = None"
| "free_el (Ptr a) h = (if h a = None then None else Some (h(a := None)))"

definition ListAppendNoMalloc ::
    "llist \<Rightarrow> 'a \<Rightarrow> nat \<Rightarrow> 'a lheap \<Rightarrow> (llist \<times> 'a lheap) option" where
  "ListAppendNoMalloc aList x newel h = do {
     let h1 = h(newel \<mapsto> \<lparr>e_prev = ls_last aList, e_next = NULL, e_content = x\<rparr>);
     (aList1, h2) \<leftarrow>
       (if ls_first aList = NULL then Some (aList\<lparr>ls_first := Ptr newel\<rparr>, h1)
        else map_option (\<lambda>h. (aList, h)) (upd (\<lambda>e. e\<lparr>e_next := Ptr newel\<rparr>) (ls_last aList) h1));
     Some (aList1\<lparr>ls_last := Ptr newel, ls_count := ls_count aList1 + 1\<rparr>, h2) }"

definition ListAppend :: "llist \<Rightarrow> 'a \<Rightarrow> nat \<Rightarrow> 'a lheap \<Rightarrow> (llist \<times> 'a lheap) option" where
  "ListAppend aList x new h = ListAppendNoMalloc aList x new h"

definition ListInsert ::
    "llist \<Rightarrow> 'a \<Rightarrow> nat cptr \<Rightarrow> nat \<Rightarrow> 'a lheap \<Rightarrow> (llist \<times> 'a lheap) option" where
  "ListInsert aList x index new h =
     (if index = NULL then ListAppendNoMalloc aList x new h
      else do {
        ix \<leftarrow> deref h index;
        let h1 = h(new \<mapsto> \<lparr>e_prev = e_prev ix, e_next = index, e_content = x\<rparr>);
        h2 \<leftarrow> upd (\<lambda>e. e\<lparr>e_prev := Ptr new\<rparr>) index h1;
        (aList1, h3) \<leftarrow>
          (if e_prev ix \<noteq> NULL
           then map_option (\<lambda>h. (aList, h)) (upd (\<lambda>e. e\<lparr>e_next := Ptr new\<rparr>) (e_prev ix) h2)
           else Some (aList\<lparr>ls_first := Ptr new\<rparr>, h2));
        Some (aList1\<lparr>ls_count := ls_count aList1 + 1\<rparr>, h3) })"

definition ListNextElement :: "llist \<Rightarrow> nat cptr \<Rightarrow> 'a lheap \<Rightarrow> nat cptr option" where
  "ListNextElement aList pos h =
     (if pos = NULL then Some (ls_first aList) else map_option e_next (deref h pos))"

definition ListPrevElement :: "llist \<Rightarrow> nat cptr \<Rightarrow> 'a lheap \<Rightarrow> nat cptr option" where
  "ListPrevElement aList pos h =
     (if pos = NULL then Some (ls_last aList) else map_option e_prev (deref h pos))"

text \<open>
  The scan of \<open>ListFindItem\<close>. A corrupt list may be circular, so the scan is bounded by \<open>fuel\<close>,
  one more than \<open>count\<close>.
\<close>

fun find_scan :: "nat \<Rightarrow> ('a \<Rightarrow> bool) \<Rightarrow> nat cptr \<Rightarrow> 'a lheap \<Rightarrow> nat cptr option" where
  "find_scan 0 callback pos h = None"
| "find_scan (Suc fuel) callback pos h =
     (if pos = NULL then Some NULL
      else do {
        e \<leftarrow> deref h pos;
        if callback (e_content e) then Some pos else find_scan fuel callback (e_next e) h })"

definition ListFindItem :: "llist \<Rightarrow> ('a \<Rightarrow> bool) \<Rightarrow> 'a lheap \<Rightarrow> (nat cptr \<times> llist) option" where
  "ListFindItem aList callback h = do {
     hit \<leftarrow> (if ls_current aList \<noteq> NULL
             then map_option (\<lambda>e. callback (e_content e)) (deref h (ls_current aList)) else Some False);
     if hit then Some (ls_current aList, aList)
     else do {
       rc \<leftarrow> find_scan (Suc (nat (ls_count aList))) callback (ls_first aList) h;
       Some (rc, if rc \<noteq> NULL then aList\<lparr>ls_current := rc\<rparr> else aList) } }"

definition ListUnlink :: "llist \<Rightarrow> ('a \<Rightarrow> bool) \<Rightarrow> 'a lheap \<Rightarrow> (bool \<times> llist \<times> 'a lheap) option" where
  "ListUnlink aList callback h = do {
     let saved = ls_current aList;
     (found, l1) \<leftarrow> ListFindItem aList callback h;
     if found = NULL then Some (False, l1, h)
     else do {
       c \<leftarrow> deref h (ls_current l1);
       (l2, h2) \<leftarrow>
         (if e_prev c = NULL then Some (l1\<lparr>ls_first := e_next c\<rparr>, h)
          else map_option (\<lambda>h. (l1, h)) (upd (\<lambda>e. e\<lparr>e_next := e_next c\<rparr>) (e_prev c) h));
       (l3, h3) \<leftarrow>
         (if e_next c = NULL then Some (l2\<lparr>ls_last := e_prev c\<rparr>, h2)
          else map_option (\<lambda>h. (l2, h)) (upd (\<lambda>e. e\<lparr>e_prev := e_prev c\<rparr>) (e_next c) h2));
       h4 \<leftarrow> free_el (ls_current l3) h3;
       let nxt = e_next c;
       let l4 = l3\<lparr>ls_current := (if saved = ls_current l3 then nxt else saved)\<rparr>;
       Some (True, l4\<lparr>ls_count := ls_count l4 - 1\<rparr>, h4) } }"

definition ListDetachHead :: "llist \<Rightarrow> 'a lheap \<Rightarrow> ('a option \<times> llist \<times> 'a lheap) option" where
  "ListDetachHead aList h =
     (if ls_count aList > 0 then do {
        let f = ls_first aList;
        e \<leftarrow> deref h f;
        let l1 = (if ls_current aList = f then aList\<lparr>ls_current := e_next e\<rparr> else aList);
        let l2 = (if ls_last l1 = f then l1\<lparr>ls_last := NULL\<rparr> else l1);
        let l3 = l2\<lparr>ls_first := e_next e\<rparr>;
        h1 \<leftarrow> (if ls_first l3 \<noteq> NULL then upd (\<lambda>e. e\<lparr>e_prev := NULL\<rparr>) (ls_first l3) h else Some h);
        h2 \<leftarrow> free_el f h1;
        Some (Some (e_content e), l3\<lparr>ls_count := ls_count l3 - 1\<rparr>, h2) }
      else Some (None, aList, h))"

definition ListPopTail :: "llist \<Rightarrow> 'a lheap \<Rightarrow> ('a option \<times> llist \<times> 'a lheap) option" where
  "ListPopTail aList h =
     (if ls_count aList > 0 then do {
        let l = ls_last aList;
        e \<leftarrow> deref h l;
        let l1 = (if ls_current aList = l then aList\<lparr>ls_current := e_prev e\<rparr> else aList);
        let l2 = (if ls_first l1 = l then l1\<lparr>ls_first := NULL\<rparr> else l1);
        let l3 = l2\<lparr>ls_last := e_prev e\<rparr>;
        h1 \<leftarrow> (if ls_last l3 \<noteq> NULL then upd (\<lambda>e. e\<lparr>e_next := NULL\<rparr>) (ls_last l3) h else Some h);
        h2 \<leftarrow> free_el l h1;
        Some (Some (e_content e), l3\<lparr>ls_count := ls_count l3 - 1\<rparr>, h2) }
      else Some (None, aList, h))"

text \<open>The loop of \<open>ListEmpty\<close>, bounded like the scan.\<close>

fun empty_loop :: "nat \<Rightarrow> nat cptr \<Rightarrow> 'a lheap \<Rightarrow> 'a lheap option" where
  "empty_loop 0 pos h = None"
| "empty_loop (Suc fuel) pos h =
     (if pos = NULL then Some h
      else do { e \<leftarrow> deref h pos; h1 \<leftarrow> free_el pos h; empty_loop fuel (e_next e) h1 })"

definition ListEmpty :: "llist \<Rightarrow> 'a lheap \<Rightarrow> (llist \<times> 'a lheap) option" where
  "ListEmpty aList h =
     map_option (\<lambda>h'. (ListZero, h')) (empty_loop (Suc (nat (ls_count aList))) (ls_first aList) h)"

section \<open>Lists of contents\<close>

text \<open>
  The contents in order and the position of \<open>current\<close>. The names of the operations are those of
  the C functions with the prefix \<open>l_\<close>.
\<close>

record 'a clist =
  items :: "'a list"
  cur_pos :: "nat option"

definition l_empty :: "'a clist" where
  "l_empty = \<lparr>items = [], cur_pos = None\<rparr>"

definition l_append :: "'a clist \<Rightarrow> 'a \<Rightarrow> 'a clist" where
  "l_append l x = l\<lparr>items := items l @ [x]\<rparr>"

text \<open>Insertion before the element at a position; \<open>None\<close> appends.\<close>

definition l_insert :: "'a clist \<Rightarrow> 'a \<Rightarrow> nat option \<Rightarrow> 'a clist" where
  "l_insert l x index =
     (case index of
        None \<Rightarrow> l_append l x
      | Some k \<Rightarrow> \<lparr>items = take k (items l) @ x # drop k (items l),
                  cur_pos = map_option (\<lambda>c. if k \<le> c then Suc c else c) (cur_pos l)\<rparr>)"

fun find_pos :: "('a \<Rightarrow> bool) \<Rightarrow> 'a list \<Rightarrow> nat option" where
  "find_pos P [] = None"
| "find_pos P (x # xs) = (if P x then Some 0 else map_option Suc (find_pos P xs))"

definition l_find :: "'a clist \<Rightarrow> ('a \<Rightarrow> bool) \<Rightarrow> nat option \<times> 'a clist" where
  "l_find l callback =
     (if (case cur_pos l of None \<Rightarrow> False | Some k \<Rightarrow> k < length (items l) \<and> callback (items l ! k))
      then (cur_pos l, l)
      else case find_pos callback (items l) of
             None \<Rightarrow> (None, l)
           | Some k \<Rightarrow> (Some k, l\<lparr>cur_pos := Some k\<rparr>))"

definition drop_nth :: "nat \<Rightarrow> 'a list \<Rightarrow> 'a list" where
  "drop_nth k xs = take k xs @ drop (Suc k) xs"

definition pos_after_removal :: "nat \<Rightarrow> nat \<Rightarrow> nat option \<Rightarrow> nat option" where
  "pos_after_removal n k pos =
     (case pos of
        None \<Rightarrow> None
      | Some c \<Rightarrow> if c = k then (if Suc k < n then Some k else None)
                  else Some (if k < c then c - 1 else c))"

definition l_unlink :: "'a clist \<Rightarrow> ('a \<Rightarrow> bool) \<Rightarrow> bool \<times> 'a clist" where
  "l_unlink l callback =
     (case l_find l callback of
        (None, l1) \<Rightarrow> (False, l1)
      | (Some k, l1) \<Rightarrow>
          (True, \<lparr>items = drop_nth k (items l),
                  cur_pos = pos_after_removal (length (items l)) k (cur_pos l)\<rparr>))"

definition l_detach_head :: "'a clist \<Rightarrow> 'a option \<times> 'a clist" where
  "l_detach_head l =
     (case items l of
        [] \<Rightarrow> (None, l)
      | x # xs \<Rightarrow> (Some x, \<lparr>items = xs, cur_pos = pos_after_removal (length (items l)) 0 (cur_pos l)\<rparr>))"

definition l_pop_tail :: "'a clist \<Rightarrow> 'a option \<times> 'a clist" where
  "l_pop_tail l =
     (if items l = [] then (None, l)
      else (Some (last (items l)),
            \<lparr>items = butlast (items l),
             cur_pos = (if cur_pos l = Some (length (items l) - 1)
                        then (if 1 < length (items l) then Some (length (items l) - 2) else None)
                        else cur_pos l)\<rparr>))"

section \<open>Refinement\<close>

lemma all_less_two: "(\<forall>i < Suc (Suc 0). P i) \<longleftrightarrow> P 0 \<and> P 1"
  by (auto simp: less_Suc_eq)

definition before_ptr :: "nat list \<Rightarrow> nat \<Rightarrow> nat cptr" where
  "before_ptr as i = (if i = 0 then NULL else Ptr (as ! (i - 1)))"

definition at_ptr :: "nat list \<Rightarrow> nat \<Rightarrow> nat cptr" where
  "at_ptr as i = (if i < length as then Ptr (as ! i) else NULL)"

text \<open>The elements at the addresses \<open>as\<close> hold the contents \<open>xs\<close> and are chained in both directions.\<close>

definition chain :: "'a lheap \<Rightarrow> nat list \<Rightarrow> 'a list \<Rightarrow> bool" where
  "chain h as xs \<longleftrightarrow> distinct as \<and> length as = length xs
     \<and> (\<forall>i < length as. h (as ! i) =
          Some \<lparr>e_prev = before_ptr as i, e_next = at_ptr as (Suc i), e_content = xs ! i\<rparr>)"

definition repr :: "'a lheap \<Rightarrow> llist \<Rightarrow> nat list \<Rightarrow> 'a clist \<Rightarrow> bool" where
  "repr h l as cl \<longleftrightarrow> chain h as (items cl)
     \<and> ls_first l = at_ptr as 0 \<and> ls_last l = before_ptr as (length as) \<and> ls_count l = int (length as)
     \<and> ls_current l = (case cur_pos cl of None \<Rightarrow> NULL | Some k \<Rightarrow> at_ptr as k)
     \<and> (\<forall>k. cur_pos cl = Some k \<longrightarrow> k < length as)"

lemma drop_nth_length [simp]: "k < length xs \<Longrightarrow> length (drop_nth k xs) = length xs - 1"
  by (simp add: drop_nth_def)

lemma drop_nth_nth: "k < length xs \<Longrightarrow> drop_nth k xs ! i = (if i < k then xs ! i else xs ! Suc i)"
  by (auto simp: drop_nth_def nth_append)

lemma set_drop_nth:
  assumes "distinct xs" "k < length xs"
  shows "set (drop_nth k xs) = set xs - {xs ! k}"
proof -
  obtain ys y zs where xs: "xs = ys @ y # zs" "length ys = k"
    using assms(2) by (metis id_take_nth_drop length_take min.absorb4)
  then show ?thesis using assms(1) by (auto simp: drop_nth_def nth_append)
qed

lemma drop_nth_distinct: "distinct xs \<Longrightarrow> distinct (drop_nth k xs)"
  by (auto simp: drop_nth_def set_take_disj_set_drop_if_distinct)

lemma repr_empty: "repr h ListZero [] l_empty"
  by (simp add: repr_def chain_def ListZero_def l_empty_def at_ptr_def before_ptr_def)

lemma repr_deref:
  assumes "chain h as xs" "i < length as"
  shows "deref h (at_ptr as i) = Some \<lparr>e_prev = before_ptr as i, e_next = at_ptr as (Suc i), e_content = xs ! i\<rparr>"
  using assms by (simp add: chain_def at_ptr_def)

lemma append_refines:
  assumes r: "repr h l as cl" and new: "h new = None"
  shows "\<exists>l' h'. ListAppendNoMalloc l x new h = Some (l', h') \<and> repr h' l' (as @ [new]) (l_append cl x)"
proof -
  have n: "new \<notin> set as"
    using r new by (auto simp: repr_def chain_def in_set_conv_nth)
  let ?h1 = "h(new \<mapsto> \<lparr>e_prev = ls_last l, e_next = NULL, e_content = x\<rparr>)"
  show ?thesis
  proof (cases "as = []")
    case True
    then have "ListAppendNoMalloc l x new h
        = Some (l\<lparr>ls_first := Ptr new, ls_last := Ptr new, ls_count := ls_count l + 1\<rparr>, ?h1)"
      using r by (simp add: ListAppendNoMalloc_def repr_def at_ptr_def)
    then show ?thesis
      using True r
      by (auto simp: repr_def chain_def at_ptr_def before_ptr_def l_append_def split: option.splits)
  next
    case False
    let ?a = "as ! (length as - 1)"
    let ?e = "\<lparr>e_prev = before_ptr as (length as - 1), e_next = NULL, e_content = items cl ! (length as - 1)\<rparr>"
    have "?a \<in> set as" using False by simp
    then have "?a \<noteq> new" using n by metis
    then have a: "?a \<noteq> new" "h ?a = Some ?e" "ls_last l = Ptr ?a" "ls_first l \<noteq> NULL"
      using r False by (auto simp: repr_def chain_def at_ptr_def before_ptr_def)
    let ?h2 = "?h1(?a \<mapsto> ?e\<lparr>e_next := Ptr new\<rparr>)"
    have "ListAppendNoMalloc l x new h
        = Some (l\<lparr>ls_last := Ptr new, ls_count := ls_count l + 1\<rparr>, ?h2)"
      using a by (simp add: ListAppendNoMalloc_def)
    moreover have "chain ?h2 (as @ [new]) (items cl @ [x])"
    proof -
      have "?h2 ((as @ [new]) ! i) = Some \<lparr>e_prev = before_ptr (as @ [new]) i,
          e_next = at_ptr (as @ [new]) (Suc i), e_content = (items cl @ [x]) ! i\<rparr>" if le: "i \<le> length as" for i
      proof -
        consider "i = length as" | "Suc i = length as" | "Suc i < length as" using le by linarith
        then show ?thesis
        proof cases
          case 1
          have "items cl \<noteq> []" using False r by (auto simp: repr_def chain_def)
          with 1 show ?thesis using a False r
            by (simp add: nth_append before_ptr_def at_ptr_def repr_def chain_def)
        next
          case 2
          then have "i = length as - 1" "i < length as" by simp_all
          moreover have "items cl \<noteq> []" using False r by (auto simp: repr_def chain_def)
          ultimately show ?thesis using False r
            by (simp add: nth_append before_ptr_def at_ptr_def repr_def chain_def)
        next
          case 3
          then have "as ! i \<noteq> new" "as ! i \<noteq> ?a"
            using n nth_mem [of i as] r by (auto simp: repr_def chain_def nth_eq_iff_index_eq)
          moreover have "i - Suc 0 < length as" using 3 by simp
          ultimately show ?thesis using r 3
            by (simp add: nth_append before_ptr_def at_ptr_def repr_def chain_def)
        qed
      qed
      with r n show ?thesis by (simp add: chain_def repr_def)
    qed
    ultimately show ?thesis
      using r False by (auto simp: repr_def l_append_def at_ptr_def before_ptr_def nth_append split: option.splits)
  qed
qed

lemma find_scan_chain:
  assumes "chain h as xs" "length as - i < fuel"
  shows "find_scan fuel cb (at_ptr as i) h
       = Some (case find_pos cb (drop i xs) of None \<Rightarrow> NULL | Some k \<Rightarrow> at_ptr as (i + k))"
  using assms(2)
proof (induction fuel arbitrary: i)
  case (Suc fuel)
  show ?case
  proof (cases "i < length as")
    case True
    then have d: "drop i xs = xs ! i # drop (Suc i) xs"
      using assms(1) by (simp add: chain_def Cons_nth_drop_Suc)
    have p: "at_ptr as i \<noteq> NULL" using True by (simp add: at_ptr_def)
    have "find_scan fuel cb (at_ptr as (Suc i)) h
       = Some (case find_pos cb (drop (Suc i) xs) of None \<Rightarrow> NULL | Some k \<Rightarrow> at_ptr as (Suc i + k))"
      using Suc.prems True by (intro Suc.IH) simp
    then show ?thesis
      using repr_deref [OF assms(1) True] p by (auto simp: d split: option.splits)
  next
    case False
    then show ?thesis using assms(1) by (simp add: at_ptr_def chain_def)
  qed
qed simp

lemma find_pos_bound: "find_pos P xs = Some k \<Longrightarrow> k < length xs \<and> P (xs ! k) \<and> (\<forall>j < k. \<not> P (xs ! j))"
  by (induction xs arbitrary: k) (auto split: if_splits simp: nth_Cons split: nat.splits)

lemma find_pos_None: "find_pos P xs = None \<longleftrightarrow> (\<forall>x \<in> set xs. \<not> P x)"
  by (induction xs) auto

lemma find_refines:
  assumes r: "repr h l as cl"
  shows "\<exists>l'. ListFindItem l cb h = Some (case fst (l_find cl cb) of None \<Rightarrow> NULL | Some k \<Rightarrow> at_ptr as k, l')
      \<and> repr h l' as (snd (l_find cl cb)) \<and> l' = l\<lparr>ls_current := ls_current l'\<rparr>"
proof (cases "case cur_pos cl of None \<Rightarrow> False | Some k \<Rightarrow> cb (items cl ! k)")
  case True
  then obtain k where k: "cur_pos cl = Some k" "cb (items cl ! k)" "k < length as"
    using r by (auto simp: repr_def split: option.splits)
  then have "ls_current l = at_ptr as k" "at_ptr as k \<noteq> NULL" "chain h as (items cl)"
    using r by (auto simp: repr_def at_ptr_def)
  moreover from this have "k < length (items cl)" using k by (simp add: chain_def)
  ultimately show ?thesis
    using k True r repr_deref [of h as "items cl" k] by (auto simp: ListFindItem_def l_find_def)
next
  case False
  have c: "chain h as (items cl)" using r by (simp add: repr_def)
  have hit: "(if ls_current l \<noteq> NULL then map_option (\<lambda>e. cb (e_content e)) (deref h (ls_current l)) else Some False) = Some False"
  proof (cases "cur_pos cl")
    case None
    then show ?thesis using r by (simp add: repr_def)
  next
    case (Some k)
    then have "ls_current l = at_ptr as k" "k < length as" using r by (auto simp: repr_def)
    with Some False repr_deref [OF c] show ?thesis by (simp add: at_ptr_def)
  qed
  have "find_scan (Suc (nat (ls_count l))) cb (ls_first l) h
      = Some (case find_pos cb (items cl) of None \<Rightarrow> NULL | Some k \<Rightarrow> at_ptr as k)"
    using find_scan_chain [OF c, of 0 "Suc (nat (ls_count l))" cb] r by (simp add: repr_def del: find_scan.simps split: option.splits)
  with hit False r show ?thesis
    using c by (auto simp del: find_scan.simps simp: ListFindItem_def l_find_def repr_def at_ptr_def chain_def dest: find_pos_bound
        split: option.splits)
qed


text \<open>The chain after the element at position \<open>k\<close> is bridged over and freed.\<close>

lemma chain_unlink:
  assumes c: "chain h as xs" and k: "k < length as"
    and h2: "h2 = (if k = 0 then h else h(as ! (k - 1) \<mapsto>
        \<lparr>e_prev = before_ptr as (k - 1), e_next = at_ptr as (Suc k), e_content = xs ! (k - 1)\<rparr>))"
    and h3: "h3 = (if Suc k < length as then h2(as ! Suc k \<mapsto>
        \<lparr>e_prev = before_ptr as k, e_next = at_ptr as (Suc (Suc k)), e_content = xs ! Suc k\<rparr>) else h2)"
  shows "chain (h3(as ! k := None)) (drop_nth k as) (drop_nth k xs)"
proof -
  have l: "length as = length xs" "distinct as" using c by (simp_all add: chain_def)
  have "(h3(as ! k := None)) (drop_nth k as ! i) = Some \<lparr>e_prev = before_ptr (drop_nth k as) i,
      e_next = at_ptr (drop_nth k as) (Suc i), e_content = drop_nth k xs ! i\<rparr>"
    if i: "i < length as - 1" for i
  proof -
    define j where "j = (if i < k then i else Suc i)"
    have j: "j < length as" "j \<noteq> k" "drop_nth k as ! i = as ! j" "drop_nth k xs ! i = xs ! j"
      using i k l by (auto simp: j_def drop_nth_nth)
    have ne: "as ! j \<noteq> as ! m" if "m < length as" "m \<noteq> j" for m
      using l j that by (simp add: nth_eq_iff_index_eq)
    have hj: "h (as ! j) = Some \<lparr>e_prev = before_ptr as j, e_next = at_ptr as (Suc j), e_content = xs ! j\<rparr>"
      using c j by (simp add: chain_def)
    have bp: "before_ptr (drop_nth k as) i = (if i = k then before_ptr as k else before_ptr as j)"
      using i k l by (auto simp: before_ptr_def j_def drop_nth_nth)
    have ap: "at_ptr (drop_nth k as) (Suc i) = (if Suc i = k then at_ptr as (Suc k) else at_ptr as (Suc j))"
      using i k l by (auto simp: at_ptr_def j_def drop_nth_nth)
    have "h2 (as ! j) = Some \<lparr>e_prev = before_ptr as j,
        e_next = (if Suc j = k then at_ptr as (Suc k) else at_ptr as (Suc j)), e_content = xs ! j\<rparr>"
    proof (cases "Suc j = k")
      case True
      then have "k - 1 = j" "k \<noteq> 0" by auto
      with True show ?thesis unfolding h2 by simp
    next
      case False
      then have "k \<noteq> 0 \<Longrightarrow> as ! j \<noteq> as ! (k - 1)" using ne [of "k - 1"] k by simp
      with False hj show ?thesis unfolding h2 by simp
    qed
    have "h3 (as ! j) = Some \<lparr>e_prev = (if j = Suc k then before_ptr as k else before_ptr as j),
        e_next = (if Suc j = k then at_ptr as (Suc k) else at_ptr as (Suc j)), e_content = xs ! j\<rparr>"
    proof (cases "j = Suc k")
      case True
      with j(1) show ?thesis unfolding h3 by simp
    next
      case False
      then have "Suc k < length as \<Longrightarrow> as ! j \<noteq> as ! Suc k" using ne [of "Suc k"] by simp
      with False \<open>h2 (as ! j) = _\<close> show ?thesis unfolding h3 by simp
    qed
    moreover have "j = Suc k \<longleftrightarrow> i = k" "Suc j = k \<longleftrightarrow> Suc i = k" using j(2) by (auto simp: j_def)
    ultimately show ?thesis
      unfolding j(3,4) using ne [OF k] j(2) bp ap by simp
  qed
  with l k show ?thesis by (simp add: chain_def drop_nth_distinct)
qed

lemma at_ptr_inj: "distinct as \<Longrightarrow> i < length as \<Longrightarrow> j < length as \<Longrightarrow> at_ptr as i = at_ptr as j \<longleftrightarrow> i = j"
  by (simp add: at_ptr_def nth_eq_iff_index_eq)

lemma ends_drop_nth:
  assumes "k < length as"
  shows "at_ptr (drop_nth k as) 0 = (if k = 0 then at_ptr as 1 else at_ptr as 0)"
    and "before_ptr (drop_nth k as) (length as - 1)
           = (if Suc k = length as then before_ptr as k else before_ptr as (length as))"
    and "j < length as \<Longrightarrow> j \<noteq> k \<Longrightarrow> at_ptr (drop_nth k as) (if k < j then j - 1 else j) = at_ptr as j"
proof -
  obtain n where n: "length as = Suc n" using assms by (cases "length as") auto
  show "at_ptr (drop_nth k as) 0 = (if k = 0 then at_ptr as 1 else at_ptr as 0)"
    using assms n by (auto simp: at_ptr_def drop_nth_nth)
  show "before_ptr (drop_nth k as) (length as - 1)
           = (if Suc k = length as then before_ptr as k else before_ptr as (length as))"
    using assms n by (cases n) (auto simp: before_ptr_def drop_nth_nth less_Suc_eq)
  show "j < length as \<Longrightarrow> j \<noteq> k \<Longrightarrow> at_ptr (drop_nth k as) (if k < j then j - 1 else j) = at_ptr as j"
    using assms by (auto simp: at_ptr_def drop_nth_nth)
qed

lemma pos_after_removal_ptr:
  assumes "distinct as" "k < length as" "\<forall>c. pos = Some c \<longrightarrow> c < length as"
  shows "(case pos_after_removal (length as) k pos of None \<Rightarrow> NULL | Some c \<Rightarrow> at_ptr (drop_nth k as) c)
           = (if pos = Some k then at_ptr as (Suc k)
              else (case pos of None \<Rightarrow> NULL | Some c \<Rightarrow> at_ptr as c))"
    and "pos_after_removal (length as) k pos = Some c \<Longrightarrow> c < length as - 1"
  using assms ends_drop_nth(3) [OF assms(2)]
  by (auto simp: pos_after_removal_def at_ptr_def drop_nth_nth split: option.splits if_splits)

lemma unlink_refines:
  assumes r: "repr h l as cl"
  shows "\<exists>l' h' as'. ListUnlink l cb h = Some (fst (l_unlink cl cb), l', h')
      \<and> repr h' l' as' (snd (l_unlink cl cb)) \<and> set as' \<subseteq> set as \<and> (\<forall>a. a \<notin> set as \<longrightarrow> h' a = h a)"
proof -
  obtain l1 where f: "ListFindItem l cb h
        = Some (case fst (l_find cl cb) of None \<Rightarrow> NULL | Some k \<Rightarrow> at_ptr as k, l1)"
      "repr h l1 as (snd (l_find cl cb))" "l1 = l\<lparr>ls_current := ls_current l1\<rparr>"
    using find_refines [OF r, of cb] by blast
  show ?thesis
  proof (cases "fst (l_find cl cb)")
    case None
    then show ?thesis using f by (auto simp: ListUnlink_def l_unlink_def split: prod.splits)
  next
    case (Some k)
    have c: "chain h as (items cl)" and d: "distinct as" using r by (simp_all add: repr_def chain_def)
    have pos: "cur_pos (snd (l_find cl cb)) = Some k" "items (snd (l_find cl cb)) = items cl"
      using Some by (auto simp: l_find_def split: option.splits if_splits)
    then have k: "k < length as" "ls_current l1 = at_ptr as k" using f(2) by (auto simp: repr_def)
    have p: "at_ptr as k = Ptr (as ! k)" using k by (simp add: at_ptr_def)
    have kn: "h (as ! k) = Some \<lparr>e_prev = before_ptr as k, e_next = at_ptr as (Suc k), e_content = items cl ! k\<rparr>"
      using c k by (simp add: chain_def)
    define h2 where "h2 = (if k = 0 then h else h(as ! (k - 1) \<mapsto>
        \<lparr>e_prev = before_ptr as (k - 1), e_next = at_ptr as (Suc k), e_content = items cl ! (k - 1)\<rparr>))"
    define h3 where "h3 = (if Suc k < length as then h2(as ! Suc k \<mapsto>
        \<lparr>e_prev = before_ptr as k, e_next = at_ptr as (Suc (Suc k)), e_content = items cl ! Suc k\<rparr>) else h2)"
    define l2 where "l2 = (if k = 0 then l1\<lparr>ls_first := at_ptr as (Suc k)\<rparr> else l1)"
    define l3 where "l3 = (if Suc k < length as then l2 else l2\<lparr>ls_last := before_ptr as k\<rparr>)"
    have e2: "(if before_ptr as k = NULL then Some (l1\<lparr>ls_first := at_ptr as (Suc k)\<rparr>, h)
        else map_option (\<lambda>h. (l1, h)) (upd (\<lambda>e. e\<lparr>e_next := at_ptr as (Suc k)\<rparr>) (before_ptr as k) h)) = Some (l2, h2)"
      using c k by (auto simp: before_ptr_def l2_def h2_def chain_def)
    have "h2 (as ! Suc k) = h (as ! Suc k)" if "Suc k < length as"
      using that d by (auto simp: h2_def nth_eq_iff_index_eq)
    then have e3: "(if at_ptr as (Suc k) = NULL then Some (l2\<lparr>ls_last := before_ptr as k\<rparr>, h2)
        else map_option (\<lambda>h. (l2, h)) (upd (\<lambda>e. e\<lparr>e_prev := before_ptr as k\<rparr>) (at_ptr as (Suc k)) h2)) = Some (l3, h3)"
      using c by (auto simp: at_ptr_def l3_def h3_def chain_def)
    have h3k: "h3 (as ! k) \<noteq> None"
      using d k kn by (auto simp: h3_def h2_def nth_eq_iff_index_eq)
    have cl3: "ls_current l3 = at_ptr as k" using k by (simp add: l3_def l2_def)
    have "ListUnlink l cb h = Some (True,
        l3\<lparr>ls_current := (if ls_current l = at_ptr as k then at_ptr as (Suc k) else ls_current l),
           ls_count := ls_count l3 - 1\<rparr>, h3(as ! k := None))"
      using f(1) Some k p kn e2 e3 h3k cl3
      by (simp add: ListUnlink_def Let_def cong: if_cong)
    moreover have "l_unlink cl cb = (True, \<lparr>items = drop_nth k (items cl),
        cur_pos = pos_after_removal (length as) k (cur_pos cl)\<rparr>)"
      using Some c by (cases "l_find cl cb") (simp add: l_unlink_def chain_def)
    moreover have "chain (h3(as ! k := None)) (drop_nth k as) (drop_nth k (items cl))"
      using chain_unlink [OF c k(1) h2_def h3_def] .
    moreover have "ls_current l = at_ptr as k \<longleftrightarrow> cur_pos cl = Some k"
      using r d k p by (auto simp: repr_def at_ptr_def nth_eq_iff_index_eq split: option.splits if_splits)
    moreover have "ls_first l3 = at_ptr (drop_nth k as) 0" "ls_count l3 = int (length as)"
      "ls_last l3 = before_ptr (drop_nth k as) (length as - 1)"
      using f(2) k(1) ends_drop_nth [OF k(1)]
      by (auto simp: l3_def l2_def repr_def)
    moreover have "\<forall>a. a \<notin> set as \<longrightarrow> (h3(as ! k := None)) a = h a"
      using k by (auto simp: h3_def h2_def)
    ultimately show ?thesis
      using r k(1) d pos_after_removal_ptr [OF d k(1), of "cur_pos cl"] set_drop_nth [OF d k(1)]
      by (intro exI [of _ "l3\<lparr>ls_current := (if ls_current l = at_ptr as k then at_ptr as (Suc k) else ls_current l),
           ls_count := ls_count l3 - 1\<rparr>"] exI [of _ "h3(as ! k := None)"] exI [of _ "drop_nth k as"])
        (auto simp: repr_def)
  qed
qed


lemma detach_head_refines:
  assumes r: "repr h l as cl"
  shows "\<exists>l' h'. ListDetachHead l h = Some (fst (l_detach_head cl), l', h')
      \<and> repr h' l' (tl as) (snd (l_detach_head cl)) \<and> (\<forall>a. a \<notin> set as \<longrightarrow> h' a = h a)"
proof (cases "items cl")
  case Nil
  then show ?thesis using r
    by (auto simp: ListDetachHead_def l_detach_head_def repr_def chain_def)
next
  case (Cons x xs)
  have c: "chain h as (items cl)" and d: "distinct as" and k: "0 < length as"
    using r Cons by (auto simp: repr_def chain_def)
  have p: "at_ptr as 0 = Ptr (as ! 0)" using k by (simp add: at_ptr_def)
  have t: "tl as = drop_nth 0 as" "xs = drop_nth 0 (items cl)" using k by (cases as, simp_all add: drop_nth_def Cons)
  define h3 where "h3 = (if Suc 0 < length as then h(as ! Suc 0 \<mapsto>
      \<lparr>e_prev = before_ptr as 0, e_next = at_ptr as (Suc (Suc 0)), e_content = items cl ! Suc 0\<rparr>) else h)"
  have k0: "h (as ! 0) = Some \<lparr>e_prev = NULL, e_next = at_ptr as (Suc 0), e_content = x\<rparr>"
    using c k Cons by (auto simp: chain_def before_ptr_def)
  have e3: "(if at_ptr as (Suc 0) \<noteq> NULL then upd (\<lambda>e. e\<lparr>e_prev := NULL\<rparr>) (at_ptr as (Suc 0)) h else Some h) = Some h3"
    using c by (auto simp: at_ptr_def h3_def chain_def before_ptr_def)
  have h3k: "h3 (as ! 0) \<noteq> None" using d k k0 by (auto simp: h3_def nth_eq_iff_index_eq)
  have lst: "ls_last l = at_ptr as 0 \<longleftrightarrow> length as = 1"
    using r k d p by (auto simp: repr_def before_ptr_def nth_eq_iff_index_eq le_Suc_eq)
  have cnt: "0 < ls_count l" "ls_first l = at_ptr as 0" using r k by (auto simp: repr_def)
  let ?l = "l\<lparr>ls_current := (if ls_current l = at_ptr as 0 then at_ptr as (Suc 0) else ls_current l),
      ls_last := (if length as = 1 then NULL else ls_last l), ls_first := at_ptr as (Suc 0), ls_count := ls_count l - 1\<rparr>"
  have "ListDetachHead l h = Some (Some x, ?l, h3(as ! 0 := None))"
    using cnt k0 p e3 h3k lst by (simp add: ListDetachHead_def Let_def cong: if_cong)
  moreover have ch: "chain (h3(as ! 0 := None)) (drop_nth 0 as) (drop_nth 0 (items cl))"
    by (rule chain_unlink [OF c k]) (simp_all add: h3_def)
  have cp: "ls_current l = at_ptr as 0 \<longleftrightarrow> cur_pos cl = Some 0"
    using r d k p by (auto simp: repr_def at_ptr_def nth_eq_iff_index_eq split: option.splits if_splits)
  moreover have "\<forall>a. a \<notin> set as \<longrightarrow> (h3(as ! 0 := None)) a = h a"
    using k by (auto simp: h3_def)
  moreover have "l_detach_head cl = (Some x, \<lparr>items = drop_nth 0 (items cl),
      cur_pos = pos_after_removal (length as) 0 (cur_pos cl)\<rparr>)"
    using c by (simp add: l_detach_head_def chain_def Cons drop_nth_def)
  moreover have "repr (h3(as ! 0 := None)) ?l (drop_nth 0 as) \<lparr>items = drop_nth 0 (items cl),
      cur_pos = pos_after_removal (length as) 0 (cur_pos cl)\<rparr>"
  proof -
    have cur: "ls_current l = (case cur_pos cl of None \<Rightarrow> NULL | Some c \<Rightarrow> at_ptr as c)"
      and bd: "\<forall>c. cur_pos cl = Some c \<longrightarrow> c < length as"
      and cn: "ls_count l = int (length as)" and la: "ls_last l = before_ptr as (length as)"
      using r by (simp_all add: repr_def)
    have "before_ptr (drop_nth 0 as) (length as - 1) = (if length as = 1 then NULL else before_ptr as (length as))"
      using ends_drop_nth(2) [OF k] k by (auto simp: before_ptr_def)
    then show ?thesis
      unfolding repr_def
      using ch cp cur cn la k ends_drop_nth(1) [OF k] pos_after_removal_ptr [OF d k bd]
      by (simp add: of_nat_diff Suc_le_eq)
  qed
  ultimately show ?thesis unfolding t(1) by auto
qed

lemma pop_tail_refines:
  assumes r: "repr h l as cl"
  shows "\<exists>l' h'. ListPopTail l h = Some (fst (l_pop_tail cl), l', h')
      \<and> repr h' l' (butlast as) (snd (l_pop_tail cl)) \<and> (\<forall>a. a \<notin> set as \<longrightarrow> h' a = h a)"
proof (cases "items cl = []")
  case True
  then show ?thesis using r
    by (auto simp: ListPopTail_def l_pop_tail_def repr_def chain_def)
next
  case False
  define k where "k = length as - 1"
  have c: "chain h as (items cl)" and d: "distinct as" and k: "k < length as" "Suc k = length as"
      and lx: "length (items cl) = Suc k"
    using r False by (auto simp: repr_def chain_def k_def)
  have p: "at_ptr as k = Ptr (as ! k)" "before_ptr as (length as) = at_ptr as k" using k
    by (auto simp: at_ptr_def before_ptr_def k_def)
  have t: "butlast as = drop_nth k as" "butlast (items cl) = drop_nth k (items cl)" "last (items cl) = items cl ! k"
    using k(2) [symmetric] lx False by (auto simp: drop_nth_def butlast_conv_take last_conv_nth)
  define h2 where "h2 = (if k = 0 then h else h(as ! (k - 1) \<mapsto>
        \<lparr>e_prev = before_ptr as (k - 1), e_next = at_ptr as (Suc k), e_content = items cl ! (k - 1)\<rparr>))"
  have kn: "h (as ! k) = Some \<lparr>e_prev = before_ptr as k, e_next = NULL, e_content = items cl ! k\<rparr>"
    using c k by (auto simp: chain_def at_ptr_def)
  have e2: "(if before_ptr as k \<noteq> NULL then upd (\<lambda>e. e\<lparr>e_next := NULL\<rparr>) (before_ptr as k) h else Some h) = Some h2"
    using c k by (auto simp: before_ptr_def h2_def chain_def at_ptr_def)
  have h2k: "h2 (as ! k) \<noteq> None" using d k kn by (auto simp: h2_def nth_eq_iff_index_eq)
  have fst: "ls_first l = at_ptr as k \<longleftrightarrow> k = 0"
    using r k d p by (auto simp: repr_def at_ptr_def nth_eq_iff_index_eq)
  have cnt: "0 < ls_count l" "ls_last l = at_ptr as k" using r k p by (auto simp: repr_def)
  let ?l = "l\<lparr>ls_current := (if ls_current l = at_ptr as k then before_ptr as k else ls_current l),
      ls_first := (if k = 0 then NULL else ls_first l), ls_last := before_ptr as k, ls_count := ls_count l - 1\<rparr>"
  have "ListPopTail l h = Some (Some (items cl ! k), ?l, h2(as ! k := None))"
  proof -
    have "deref h (ls_last l) = Some \<lparr>e_prev = before_ptr as k, e_next = NULL, e_content = items cl ! k\<rparr>"
      using cnt kn p by simp
    moreover have "free_el (ls_last l) h2 = Some (h2(as ! k := None))" using cnt p h2k by simp
    moreover have "ls_first l = ls_last l \<longleftrightarrow> k = 0" using fst cnt by simp
    ultimately show ?thesis
      using cnt e2 unfolding ListPopTail_def
      by (cases "k = 0"; cases "ls_current l = at_ptr as k") (simp_all add: before_ptr_def)
  qed
  moreover have ch: "chain (h2(as ! k := None)) (drop_nth k as) (drop_nth k (items cl))"
    by (rule chain_unlink [OF c k(1) h2_def]) (use k in simp)
  have cp: "ls_current l = at_ptr as k \<longleftrightarrow> cur_pos cl = Some k"
    using r d k p by (auto simp: repr_def at_ptr_def nth_eq_iff_index_eq split: option.splits if_splits)
  moreover have fr: "\<forall>a. a \<notin> set as \<longrightarrow> (h2(as ! k := None)) a = h a"
  proof -
    have "as ! k \<in> set as" "k \<noteq> 0 \<Longrightarrow> as ! (k - 1) \<in> set as" using k by simp_all
    then show ?thesis by (auto simp: h2_def)
  qed
  have bk: "before_ptr as k = (if 0 < k then at_ptr (drop_nth k as) (k - 1) else NULL)"
    using k by (auto simp: before_ptr_def at_ptr_def drop_nth_nth)
  have cc: "c < k" "at_ptr (drop_nth k as) c = at_ptr as c" if "cur_pos cl = Some c" "c \<noteq> k" for c
    using that r k by (auto simp: repr_def at_ptr_def drop_nth_nth)
  have a0: "at_ptr (drop_nth k as) 0 = (if k = 0 then NULL else at_ptr as 0)"
    using k by (auto simp: at_ptr_def drop_nth_nth)
  have bb: "before_ptr (drop_nth k as) k = before_ptr as k"
    using k by (auto simp: before_ptr_def drop_nth_nth)
  have "l_pop_tail cl = (Some (items cl ! k), \<lparr>items = drop_nth k (items cl),
      cur_pos = (if cur_pos cl = Some k then (if 0 < k then Some (k - 1) else None) else cur_pos cl)\<rparr>)"
    using False t lx by (simp add: l_pop_tail_def)
  moreover have "repr (h2(as ! k := None)) ?l (drop_nth k as) \<lparr>items = drop_nth k (items cl),
      cur_pos = (if cur_pos cl = Some k then (if 0 < k then Some (k - 1) else None) else cur_pos cl)\<rparr>"
  proof -
    have cur: "ls_current l = (case cur_pos cl of None \<Rightarrow> NULL | Some c \<Rightarrow> at_ptr as c)"
      and bd: "\<forall>c. cur_pos cl = Some c \<longrightarrow> c < length as"
      and cn: "ls_count l = int (length as)" and fi: "ls_first l = at_ptr as 0"
      using r by (simp_all add: repr_def)
    have ln: "length (drop_nth k as) = k" using k by simp
    show ?thesis
      unfolding repr_def ln
      using ch cp cur cn fi a0 bb bk cc k(2) [symmetric]
      by (auto split: option.splits)
  qed
  ultimately show ?thesis unfolding t(1) using fr
    by (intro exI [of _ ?l] exI [of _ "h2(as ! k := None)"]) (simp del: fun_upd_apply)
qed


definition ins_nth :: "nat \<Rightarrow> 'a \<Rightarrow> 'a list \<Rightarrow> 'a list" where
  "ins_nth k x xs = take k xs @ x # drop k xs"

lemma ins_nth_length [simp]: "k \<le> length xs \<Longrightarrow> length (ins_nth k x xs) = Suc (length xs)"
  by (simp add: ins_nth_def)

lemma ins_nth_nth:
  "k \<le> length xs \<Longrightarrow> ins_nth k x xs ! i = (if i < k then xs ! i else if i = k then x else xs ! (i - 1))"
  by (auto simp: ins_nth_def nth_append nth_Cons' min_def)

lemma ins_nth_set: "set (ins_nth k x xs) = insert x (set xs)"
  unfolding ins_nth_def by (metis Un_insert_right append_take_drop_id list.simps(15) set_append)

lemma ins_nth_distinct: "distinct xs \<Longrightarrow> x \<notin> set xs \<Longrightarrow> distinct (ins_nth k x xs)"
  unfolding ins_nth_def
  by (auto simp: set_take_disj_set_drop_if_distinct dest: in_set_takeD in_set_dropD)

lemma chain_insert:
  assumes c: "chain h as xs" and k: "k < length as" and new: "new \<notin> set as"
    and h2: "h2 = h(new \<mapsto> \<lparr>e_prev = before_ptr as k, e_next = Ptr (as ! k), e_content = x\<rparr>,
        as ! k \<mapsto> \<lparr>e_prev = Ptr new, e_next = at_ptr as (Suc k), e_content = xs ! k\<rparr>)"
    and h3: "h3 = (if k = 0 then h2 else h2(as ! (k - 1) \<mapsto>
        \<lparr>e_prev = before_ptr as (k - 1), e_next = Ptr new, e_content = xs ! (k - 1)\<rparr>))"
  shows "chain h3 (ins_nth k new as) (ins_nth k x xs)"
proof -
  have l: "length as = length xs" "distinct as" using c by (simp_all add: chain_def)
  have "h3 (ins_nth k new as ! i) = Some \<lparr>e_prev = before_ptr (ins_nth k new as) i,
      e_next = at_ptr (ins_nth k new as) (Suc i), e_content = ins_nth k x xs ! i\<rparr>"
    if i: "i \<le> length as" for i
  proof (cases "i = k")
    case True
    have "as ! k \<noteq> new" "k \<noteq> 0 \<Longrightarrow> as ! (k - 1) \<noteq> new"
      using new k nth_mem [of k as] nth_mem [of "k - 1" as] by auto
    then have "h3 new = Some \<lparr>e_prev = before_ptr as k, e_next = Ptr (as ! k), e_content = x\<rparr>"
      unfolding h3 h2 by (cases "k = 0") simp_all
    then show ?thesis
      using True k l by (simp add: ins_nth_nth before_ptr_def at_ptr_def)
  next
    case False
    define j where "j = (if i < k then i else i - 1)"
    have j: "j < length as" "ins_nth k new as ! i = as ! j" "ins_nth k x xs ! i = xs ! j"
      using i k l False by (auto simp: j_def ins_nth_nth)
    have ne: "as ! j \<noteq> as ! m" if "m < length as" "m \<noteq> j" for m
      using l j that by (simp add: nth_eq_iff_index_eq)
    have nn: "as ! j \<noteq> new" using new j nth_mem [of j as] by auto
    have hj: "h (as ! j) = Some \<lparr>e_prev = before_ptr as j, e_next = at_ptr as (Suc j), e_content = xs ! j\<rparr>"
      using c j by (simp add: chain_def)
    have h2j: "h2 (as ! j) = Some \<lparr>e_prev = (if j = k then Ptr new else before_ptr as j),
        e_next = at_ptr as (Suc j), e_content = xs ! j\<rparr>"
      using hj ne [OF k] nn unfolding h2 by (cases "j = k") simp_all
    have "h3 (as ! j) = Some \<lparr>e_prev = (if j = k then Ptr new else before_ptr as j),
        e_next = (if Suc j = k then Ptr new else at_ptr as (Suc j)), e_content = xs ! j\<rparr>"
    proof (cases "Suc j = k")
      case True
      then have "k - 1 = j" "k \<noteq> 0" by auto
      with True show ?thesis unfolding h3 by simp
    next
      case False
      then have "k \<noteq> 0 \<Longrightarrow> as ! j \<noteq> as ! (k - 1)" using ne [of "k - 1"] k by simp
      with False h2j show ?thesis unfolding h3 by simp
    qed
    moreover have "before_ptr (ins_nth k new as) i = (if j = k then Ptr new else before_ptr as j)"
      using i k l False by (auto simp: before_ptr_def j_def ins_nth_nth)
    moreover have "at_ptr (ins_nth k new as) (Suc i) = (if Suc j = k then Ptr new else at_ptr as (Suc j))"
      using i k l False by (auto simp: at_ptr_def j_def ins_nth_nth)
    ultimately show ?thesis unfolding j(2,3) by simp
  qed
  with l k new show ?thesis by (simp add: chain_def ins_nth_distinct less_Suc_eq_le)
qed

lemma insert_refines:
  assumes r: "repr h l as cl" and new: "h new = None" and k: "k < length as"
  shows "\<exists>l' h'. ListInsert l x (at_ptr as k) new h = Some (l', h')
      \<and> repr h' l' (ins_nth k new as) (l_insert cl x (Some k))"
proof -
  have c: "chain h as (items cl)" and d: "distinct as" using r by (auto simp: repr_def chain_def)
  have n: "new \<notin> set as" using c new by (auto simp: chain_def in_set_conv_nth)
  have p: "at_ptr as k = Ptr (as ! k)" using k by (simp add: at_ptr_def)
  have kn: "h (as ! k) = Some \<lparr>e_prev = before_ptr as k, e_next = at_ptr as (Suc k), e_content = items cl ! k\<rparr>"
    using c k by (simp add: chain_def)
  have nk: "as ! k \<noteq> new" using n k nth_mem [of k as] by auto
  define h2 where "h2 = h(new \<mapsto> \<lparr>e_prev = before_ptr as k, e_next = Ptr (as ! k), e_content = x\<rparr>,
      as ! k \<mapsto> \<lparr>e_prev = Ptr new, e_next = at_ptr as (Suc k), e_content = items cl ! k\<rparr>)"
  define h3 where "h3 = (if k = 0 then h2 else h2(as ! (k - 1) \<mapsto>
      \<lparr>e_prev = before_ptr as (k - 1), e_next = Ptr new, e_content = items cl ! (k - 1)\<rparr>))"
  have e: "upd (\<lambda>e. e\<lparr>e_next := Ptr new\<rparr>) (before_ptr as k) h2 = Some h3" if k0: "k \<noteq> 0"
  proof -
    have "as ! (k - 1) \<noteq> new" using n k k0 nth_mem [of "k - 1" as] by auto
    moreover have "as ! (k - 1) \<noteq> as ! k" using d k k0 by (simp add: nth_eq_iff_index_eq)
    moreover have "h (as ! (k - 1)) = Some \<lparr>e_prev = before_ptr as (k - 1), e_next = at_ptr as k, e_content = items cl ! (k - 1)\<rparr>"
      using c k k0 by (simp add: chain_def)
    ultimately show ?thesis using k0 by (simp add: before_ptr_def h3_def h2_def)
  qed
  let ?l = "if k = 0 then l\<lparr>ls_first := Ptr new, ls_count := ls_count l + 1\<rparr> else l\<lparr>ls_count := ls_count l + 1\<rparr>"
  have "ListInsert l x (at_ptr as k) new h = Some (?l, h3)"
  proof (cases "k = 0")
    case True
    then show ?thesis using p kn nk
      by (simp add: ListInsert_def h3_def h2_def before_ptr_def)
  next
    case False
    then have "before_ptr as k \<noteq> NULL" by (simp add: before_ptr_def)
    with False p kn nk e [OF False] show ?thesis
      by (simp add: ListInsert_def h2_def)
  qed
  moreover have "chain h3 (ins_nth k new as) (ins_nth k x (items cl))"
    by (rule chain_insert [OF c k n h2_def h3_def])
  moreover have "at_ptr (ins_nth k new as) 0 = (if k = 0 then Ptr new else at_ptr as 0)"
    "before_ptr (ins_nth k new as) (Suc (length as)) = before_ptr as (length as)"
    "\<And>j. j < length as \<Longrightarrow> at_ptr (ins_nth k new as) (if k \<le> j then Suc j else j) = at_ptr as j"
    using k by (auto simp: at_ptr_def before_ptr_def ins_nth_nth)
  ultimately show ?thesis
    using r k by (auto simp: repr_def l_insert_def ins_nth_def [symmetric] split: option.splits)
qed

lemma next_refines:
  assumes "repr h l as cl"
  shows "ListNextElement l NULL h = Some (at_ptr as 0)"
    and "i < length as \<Longrightarrow> ListNextElement l (at_ptr as i) h = Some (at_ptr as (Suc i))"
    and "ListPrevElement l NULL h = Some (before_ptr as (length as))"
    and "i < length as \<Longrightarrow> ListPrevElement l (at_ptr as i) h = Some (before_ptr as i)"
  using assms repr_deref [of h as "items cl" i]
  by (auto simp: ListNextElement_def ListPrevElement_def repr_def at_ptr_def)

lemma empty_loop_refines:
  assumes "distinct as" "\<forall>i < length as. \<exists>p x. h (as ! i) = Some \<lparr>e_prev = p, e_next = at_ptr as (Suc i), e_content = x\<rparr>"
    "length as < fuel"
  shows "\<exists>h'. empty_loop fuel (at_ptr as 0) h = Some h'
      \<and> (\<forall>a. h' a = (if a \<in> set as then None else h a))"
  using assms
proof (induction as arbitrary: h fuel)
  case Nil
  then show ?case by (cases fuel) (auto simp: at_ptr_def)
next
  case (Cons a as)
  then obtain f where f: "fuel = Suc f" "length as < f" by (cases fuel) auto
  obtain p x where a: "h a = Some \<lparr>e_prev = p, e_next = at_ptr (a # as) (Suc 0), e_content = x\<rparr>"
    using Cons.prems(2) by fastforce
  have n: "at_ptr (a # as) (Suc i) = at_ptr as i" for i by (simp add: at_ptr_def)
  have "\<forall>i < length as. \<exists>p x. (h(a := None)) (as ! i) = Some \<lparr>e_prev = p, e_next = at_ptr as (Suc i), e_content = x\<rparr>"
  proof (intro allI impI)
    fix i assume i: "i < length as"
    then have "as ! i \<noteq> a" using Cons.prems(1) nth_mem by fastforce
    with Cons.prems(2) [rule_format, of "Suc i"] i n
    show "\<exists>p x. (h(a := None)) (as ! i) = Some \<lparr>e_prev = p, e_next = at_ptr as (Suc i), e_content = x\<rparr>"
      by simp
  qed
  then obtain h' where "empty_loop f (at_ptr as 0) (h(a := None)) = Some h'"
      "\<forall>b. h' b = (if b \<in> set as then None else (h(a := None)) b)"
    using Cons.IH [of "h(a := None)" f] Cons.prems(1) f by (auto simp del: fun_upd_apply)
  then show ?case using f a by (auto simp: n at_ptr_def [of "a # as" 0])
qed

lemma empty_refines:
  assumes r: "repr h l as cl"
  shows "\<exists>h'. ListEmpty l h = Some (ListZero, h') \<and> repr h' ListZero [] l_empty
      \<and> (\<forall>a. h' a = (if a \<in> set as then None else h a))"
proof -
  have "\<exists>h'. empty_loop (Suc (nat (ls_count l))) (ls_first l) h = Some h'
      \<and> (\<forall>a. h' a = (if a \<in> set as then None else h a))"
    using empty_loop_refines [of as h "Suc (nat (ls_count l))"] r by (auto simp: repr_def chain_def)
  then show ?thesis using repr_empty by (auto simp: ListEmpty_def)
qed

section \<open>Lists of contents: what the clients use\<close>

definition cur_ok :: "'a clist \<Rightarrow> bool" where
  "cur_ok l \<longleftrightarrow> (\<forall>k. cur_pos l = Some k \<longrightarrow> k < length (items l))"

lemma cur_ok_simps [simp]:
  "cur_ok l_empty" "cur_ok l \<Longrightarrow> cur_ok (l_append l x)"
  by (auto simp: cur_ok_def l_empty_def l_append_def)

lemma items_l_empty [simp]: "items l_empty = []"
  by (simp add: l_empty_def)

lemma items_l_append [simp]: "items (l_append l x) = items l @ [x]"
  by (simp add: l_append_def)

lemma items_l_find [simp]: "items (snd (l_find l P)) = items l"
  by (auto simp: l_find_def split: option.splits)

lemma cur_ok_l_find [simp]: "cur_ok l \<Longrightarrow> cur_ok (snd (l_find l P))"
  by (auto simp: l_find_def cur_ok_def split: option.splits dest: find_pos_bound)

lemma l_find_found: "fst (l_find l P) = Some k \<Longrightarrow> k < length (items l) \<and> P (items l ! k)"
  by (auto simp: l_find_def split: option.splits if_splits dest: find_pos_bound)

lemma l_find_Some:
  "cur_ok l \<Longrightarrow> fst (l_find l P) = Some k \<Longrightarrow> k < length (items l) \<and> P (items l ! k)"
  by (rule l_find_found)

lemma l_find_None:
  "cur_ok l \<Longrightarrow> fst (l_find l P) = None \<longleftrightarrow> (\<forall>x \<in> set (items l). \<not> P x)"
  using find_pos_None [of P "items l"]
  by (auto simp: l_find_def cur_ok_def split: option.splits)

lemma cur_ok_pos_after_removal:
  "cur_ok l \<Longrightarrow> k < length (items l) \<Longrightarrow>
     cur_ok \<lparr>items = drop_nth k (items l), cur_pos = pos_after_removal (length (items l)) k (cur_pos l)\<rparr>"
  by (auto simp: cur_ok_def pos_after_removal_def split: option.splits if_splits)

lemma cur_ok_l_unlink [simp]: "cur_ok l \<Longrightarrow> cur_ok (snd (l_unlink l P))"
  using l_find_Some [of l P] cur_ok_pos_after_removal [of l] cur_ok_l_find [of l P]
  by (cases "l_find l P") (auto simp: l_unlink_def split: option.splits)

lemma cur_ok_l_detach_head [simp]: "cur_ok l \<Longrightarrow> cur_ok (snd (l_detach_head l))"
  by (auto simp: l_detach_head_def cur_ok_def pos_after_removal_def split: list.splits option.splits if_splits)

lemma cur_ok_l_insert:
  "cur_ok l \<Longrightarrow> (\<forall>k. idx = Some k \<longrightarrow> k < length (items l)) \<Longrightarrow> cur_ok (l_insert l x idx)"
  by (auto simp: cur_ok_def l_insert_def l_append_def split: option.splits)

text \<open>Unlinking removes one element that satisfies the test, or nothing when there is none.\<close>

lemma l_unlink_cases:
  assumes "cur_ok l"
  obtains "fst (l_unlink l P) = False" "items (snd (l_unlink l P)) = items l"
      "\<forall>x \<in> set (items l). \<not> P x"
  | k where "fst (l_unlink l P)" "k < length (items l)" "P (items l ! k)"
      "items (snd (l_unlink l P)) = drop_nth k (items l)"
proof -
  obtain r l1 where f: "l_find l P = (r, l1)" by fastforce
  then have l1: "items l1 = items l" using items_l_find [of l P] by simp
  show thesis
  proof (cases r)
    case None
    then show ?thesis
      using that(1) l_find_None [OF assms, of P] f l1 by (simp add: l_unlink_def)
  next
    case (Some k)
    then show ?thesis
      using that(2) [of k] l_find_Some [OF assms, of P k] f by (simp add: l_unlink_def)
  qed
qed

text \<open>With at most one such element the result does not depend on the search order.\<close>

lemma l_unlink_filter:
  assumes "cur_ok l" "distinct (map f (items l))"
  shows "items (snd (l_unlink l (\<lambda>x. f x = v))) = filter (\<lambda>x. f x \<noteq> v) (items l)"
  using assms(1)
proof (cases rule: l_unlink_cases [where P = "\<lambda>x. f x = v"])
  case 1
  then show ?thesis by (auto simp: filter_id_conv)
next
  case (2 k)
  obtain ys y zs where xs: "items l = ys @ y # zs" "length ys = k"
    using 2(2) by (metis id_take_nth_drop length_take min.absorb4)
  then have "f y = v" using 2(3) by (simp add: nth_append)
  then have "v \<notin> f ` set ys" "v \<notin> f ` set zs" using assms(2) xs by auto
  then have "filter (\<lambda>x. f x \<noteq> v) ys = ys" "filter (\<lambda>x. f x \<noteq> v) zs = zs"
    by (auto simp: filter_id_conv image_iff)
  then have "filter (\<lambda>x. f x \<noteq> v) (items l) = drop_nth k (items l)"
    using xs \<open>f y = v\<close> by (simp add: drop_nth_def)
  with 2(4) show ?thesis by simp
qed

section \<open>Properties\<close>

text \<open>C20. The pointer operations implement the operations on contents: on every heap that represents
  a list of contents, with a fresh address for the new element, each of them follows only live
  pointers, returns the same result, and leaves a heap that represents the resulting list.\<close>

theorem list_refinement:
  assumes "repr h l as cl" "h new = None"
  shows "(\<exists>l' h'. ListAppend l x new h = Some (l', h') \<and> repr h' l' (as @ [new]) (l_append cl x))
    \<and> (\<forall>k. k < length as \<longrightarrow> (\<exists>l' h'. ListInsert l x (at_ptr as k) new h = Some (l', h')
          \<and> repr h' l' (ins_nth k new as) (l_insert cl x (Some k))))
    \<and> (\<exists>l'. ListFindItem l P h = Some (case fst (l_find cl P) of None \<Rightarrow> NULL | Some k \<Rightarrow> at_ptr as k, l')
          \<and> repr h l' as (snd (l_find cl P)))
    \<and> (\<exists>l' h' as'. ListUnlink l P h = Some (fst (l_unlink cl P), l', h')
          \<and> repr h' l' as' (snd (l_unlink cl P)))
    \<and> (\<exists>l' h'. ListDetachHead l h = Some (fst (l_detach_head cl), l', h')
          \<and> repr h' l' (tl as) (snd (l_detach_head cl)))
    \<and> (\<exists>l' h'. ListPopTail l h = Some (fst (l_pop_tail cl), l', h')
          \<and> repr h' l' (butlast as) (snd (l_pop_tail cl)))
    \<and> (\<exists>h'. ListEmpty l h = Some (ListZero, h') \<and> repr h' ListZero [] l_empty
          \<and> (\<forall>a. h' a = (if a \<in> set as then None else h a)))"
  using append_refines [OF assms, of x] insert_refines [OF assms, of _ x] find_refines [OF assms(1), of P]
    unlink_refines [OF assms(1), of P] detach_head_refines [OF assms(1)] pop_tail_refines [OF assms(1)]
    empty_refines [OF assms(1)]
  unfolding ListAppend_def by blast

lemma list_refinement_witness:
  "\<exists>l' h' as'. ListUnlink \<lparr>ls_first = Ptr 4, ls_last = Ptr 9, ls_current = Ptr 9, ls_count = 2\<rparr> (\<lambda>x. x = (5 :: nat))
      [4 \<mapsto> \<lparr>e_prev = NULL, e_next = Ptr 9, e_content = 5\<rparr>, 9 \<mapsto> \<lparr>e_prev = Ptr 4, e_next = NULL, e_content = 6\<rparr>]
      = Some (True, l', h') \<and> repr h' l' as' \<lparr>items = [6], cur_pos = Some 0\<rparr>"
proof -
  have r: "repr [4 \<mapsto> \<lparr>e_prev = NULL, e_next = Ptr 9, e_content = 5\<rparr>, 9 \<mapsto> \<lparr>e_prev = Ptr 4, e_next = NULL, e_content = 6\<rparr>]
      \<lparr>ls_first = Ptr 4, ls_last = Ptr 9, ls_current = Ptr 9, ls_count = 2\<rparr> [4, 9]
      \<lparr>items = [5, 6 :: nat], cur_pos = Some 1\<rparr>"
    by (simp add: repr_def chain_def at_ptr_def before_ptr_def all_less_two)
  have u: "l_unlink \<lparr>items = [5, 6 :: nat], cur_pos = Some 1\<rparr> (\<lambda>x. x = 5)
      = (True, \<lparr>items = [6], cur_pos = Some 0\<rparr>)"
    by (simp add: l_unlink_def l_find_def drop_nth_def pos_after_removal_def)
  show ?thesis
    using list_refinement [OF r, of 1 0 "\<lambda>x. x = 5"] unfolding u by simp
qed

end
