(* ===== verification/SocketBuffer.thy ===== *)
theory SocketBuffer
  imports LinkedList
begin

text \<open>
  The operating system's side of a socket, and \<open>MqttC/SocketBuffer.c\<close>: the queues of partly read
  packets and the list of partly written ones.

  The operating system is a plan of results, one for each \<open>recv\<close> and \<open>writev\<close> call, together
  with the bytes still to be received and the bytes written on every socket. The state of each
  module is a record that extends the record of the module it uses, so that an operation of this
  theory works on the state of the whole client.

  A buffer is represented by the bytes that have been stored in it; the buffers of a pending write
  by their contents. Allocation succeeds.
\<close>

section \<open>The operating system\<close>

abbreviation (input) EAGAIN :: int where "EAGAIN \<equiv> 11"
abbreviation (input) EWOULDBLOCK :: int where "EWOULDBLOCK \<equiv> 11"

text \<open>One planned result: an error number, or the number of bytes the system would transfer.\<close>

datatype io_plan = Fail int | Move nat

record os =
  rx :: "int \<Rightarrow> bytes"
  tx :: "int \<Rightarrow> bytes"
  recv_plan :: "nat \<Rightarrow> io_plan"
  recvs :: nat
  writev_plan :: "nat \<Rightarrow> io_plan"
  writevs :: nat

text \<open>
  \<open>recv\<close>: the result and the bytes put into the buffer; \<open>Inl\<close> is a failure with its \<open>errno\<close>.
  No byte at all means that the peer has closed the connection.
\<close>

definition os_recv :: "int \<Rightarrow> nat \<Rightarrow> 'z os_scheme \<Rightarrow> (int + bytes) \<times> 'z os_scheme" where
  "os_recv s n w =
     (let w1 = w\<lparr>recvs := recvs w + 1\<rparr>
      in case recv_plan w (recvs w) of
           Fail e \<Rightarrow> (Inl e, w1)
         | Move m \<Rightarrow>
             let got = take (min n (max 1 m)) (rx w s)
             in (Inr got, w1\<lparr>rx := (rx w)(s := drop (length got) (rx w s))\<rparr>))"

text \<open>\<open>writev\<close> transfers a prefix of the buffers.\<close>

definition os_writev :: "int \<Rightarrow> bytes list \<Rightarrow> 'z os_scheme \<Rightarrow> (int + nat) \<times> 'z os_scheme" where
  "os_writev s iovecs w =
     (let w1 = w\<lparr>writevs := writevs w + 1\<rparr>
      in case writev_plan w (writevs w) of
           Fail e \<Rightarrow> (Inl e, w1)
         | Move m \<Rightarrow>
             let sent = take m (concat iovecs)
             in (Inr (length sent), w1\<lparr>tx := (tx w)(s := tx w s @ sent)\<rparr>))"

section \<open>State\<close>

record socket_queue =
  q_socket :: int
  q_index :: nat
  headerlen :: nat
  fixed_header :: bytes
  q_buflen :: nat
  datalen :: nat
  q_buf :: bytes

record pending_write =
  pw_socket :: int
  pw_total :: nat
  pw_bytes :: nat
  pw_iovecs :: "bytes list"
  pw_frees :: "bool list"

record sockbuf = os +
  def_queue :: socket_queue
  queues :: "socket_queue clist"
  pwrites :: "pending_write clist"

abbreviation (input) SOCKETBUFFER_COMPLETE :: int where "SOCKETBUFFER_COMPLETE \<equiv> 0"
abbreviation (input) SOCKETBUFFER_INTERRUPTED :: int where "SOCKETBUFFER_INTERRUPTED \<equiv> -22"

section \<open>Operations\<close>

definition socketcompare :: "int \<Rightarrow> socket_queue \<Rightarrow> bool" where
  "socketcompare s q \<longleftrightarrow> q_socket q = s"

definition pending_socketcompare :: "int \<Rightarrow> pending_write \<Rightarrow> bool" where
  "pending_socketcompare s p \<longleftrightarrow> pw_socket p = s"

text \<open>The 1000 bytes allocated for a new default queue are not recorded in \<open>buflen\<close>.\<close>

definition SocketBuffer_newDefQ :: "'z sockbuf_scheme \<Rightarrow> 'z sockbuf_scheme" where
  "SocketBuffer_newDefQ w =
     w\<lparr>def_queue := \<lparr>q_socket = 0, q_index = 0, headerlen = 0, fixed_header = replicate 5 0,
                      q_buflen = 0, datalen = 0, q_buf = []\<rparr>\<rparr>"

definition SocketBuffer_initialize :: "'z sockbuf_scheme \<Rightarrow> 'z sockbuf_scheme" where
  "SocketBuffer_initialize w = (SocketBuffer_newDefQ w)\<lparr>queues := l_empty, pwrites := l_empty\<rparr>"

text \<open>
  What has been freed is empty; the pointers to it are set by \<open>SocketBuffer_initialize\<close> before they are used
  again.
\<close>

definition SocketBuffer_freeDefQ :: "'z sockbuf_scheme \<Rightarrow> 'z sockbuf_scheme" where
  "SocketBuffer_freeDefQ w = w\<lparr>def_queue := (def_queue w)\<lparr>q_buf := []\<rparr>\<rparr>"

definition SocketBuffer_terminate :: "'z sockbuf_scheme \<Rightarrow> 'z sockbuf_scheme" where
  "SocketBuffer_terminate w = SocketBuffer_freeDefQ (w\<lparr>pwrites := l_empty, queues := l_empty\<rparr>)"

text \<open>Searching a list of the state, which may move its \<open>current\<close>.\<close>

definition find_queue :: "int \<Rightarrow> 'z sockbuf_scheme \<Rightarrow> socket_queue option \<times> 'z sockbuf_scheme" where
  "find_queue s w =
     (case l_find (queues w) (socketcompare s) of
        (r, qs) \<Rightarrow> (map_option (\<lambda>k. items qs ! k) r, w\<lparr>queues := qs\<rparr>))"

text \<open>Storing the queue that was found at \<open>current\<close>.\<close>

definition set_current_queue :: "socket_queue \<Rightarrow> 'z sockbuf_scheme \<Rightarrow> 'z sockbuf_scheme" where
  "set_current_queue q w =
     (case cur_pos (queues w) of
        None \<Rightarrow> w
      | Some k \<Rightarrow> w\<lparr>queues := (queues w)\<lparr>items := (items (queues w))[k := q]\<rparr>\<rparr>)"

definition SocketBuffer_writeComplete :: "int \<Rightarrow> 'z sockbuf_scheme \<Rightarrow> bool \<times> 'z sockbuf_scheme" where
  "SocketBuffer_writeComplete s w =
     (case l_unlink (pwrites w) (pending_socketcompare s) of (r, l) \<Rightarrow> (r, w\<lparr>pwrites := l\<rparr>))"

definition clear_queue :: "socket_queue \<Rightarrow> socket_queue" where
  "clear_queue q = q\<lparr>q_socket := 0, q_index := 0, headerlen := 0, datalen := 0\<rparr>"

definition SocketBuffer_cleanup :: "int \<Rightarrow> 'z sockbuf_scheme \<Rightarrow> 'z sockbuf_scheme" where
  "SocketBuffer_cleanup s w =
     (let w1 = snd (SocketBuffer_writeComplete s w);
          (q, w2) = find_queue s w1;
          w3 = (if q = None then w2
                else w2\<lparr>queues := snd (l_unlink (queues w2) (socketcompare s))\<rparr>)
      in if q_socket (def_queue w3) = s
         then w3\<lparr>def_queue := clear_queue (def_queue w3)\<rparr> else w3)"

text \<open>
  \<open>SocketBuffer_getQueuedData\<close>: the bytes of an earlier, interrupted read, and the new state. The
  buffer of the queue is made large enough for \<open>bytes\<close>.
\<close>

definition grow_queue :: "nat \<Rightarrow> socket_queue \<Rightarrow> socket_queue" where
  "grow_queue n q =
     (if n > q_buflen q then q\<lparr>q_buflen := n, q_buf := take (datalen q) (q_buf q)\<rparr> else q)"

definition SocketBuffer_getQueuedData :: "int \<Rightarrow> nat \<Rightarrow> 'z sockbuf_scheme \<Rightarrow> bytes \<times> 'z sockbuf_scheme" where
  "SocketBuffer_getQueuedData s n w =
     (case find_queue s w of
        (Some q, w1) \<Rightarrow> (take (datalen q) (q_buf q), set_current_queue (grow_queue n q) w1)
      | (None, w1) \<Rightarrow> ([], w1\<lparr>def_queue := grow_queue n (def_queue w1)\<rparr>))"

text \<open>The bytes \<open>recv\<close> has stored behind the earlier ones in the buffer of the same queue.\<close>

definition store_received :: "int \<Rightarrow> bytes \<Rightarrow> 'z sockbuf_scheme \<Rightarrow> 'z sockbuf_scheme" where
  "store_received s buf w =
     (case find_queue s w of
        (Some q, w1) \<Rightarrow> set_current_queue (q\<lparr>q_buf := buf\<rparr>) w1
      | (None, w1) \<Rightarrow> w1\<lparr>def_queue := (def_queue w1)\<lparr>q_buf := buf\<rparr>\<rparr>)"

definition SocketBuffer_getQueuedChar ::
    "int \<Rightarrow> 'z sockbuf_scheme \<Rightarrow> int \<times> byte option \<times> 'z sockbuf_scheme" where
  "SocketBuffer_getQueuedChar s w =
     (case find_queue s w of
        (None, w1) \<Rightarrow> (SOCKETBUFFER_INTERRUPTED, None, w1)
      | (Some q, w1) \<Rightarrow>
          if q_index q < headerlen q
          then (SOCKETBUFFER_COMPLETE, Some (fixed_header q ! q_index q),
                set_current_queue (q\<lparr>q_index := q_index q + 1\<rparr>) w1)
          else if q_index q > 4 then (SOCKET_ERROR, None, w1)
          else (SOCKETBUFFER_INTERRUPTED, None, w1))"

definition SocketBuffer_interrupted :: "int \<Rightarrow> nat \<Rightarrow> 'z sockbuf_scheme \<Rightarrow> 'z sockbuf_scheme" where
  "SocketBuffer_interrupted s actual_len w =
     (case find_queue s w of
        (Some q, w1) \<Rightarrow> set_current_queue (q\<lparr>q_index := 0, datalen := actual_len\<rparr>) w1
      | (None, w1) \<Rightarrow>
          let q = (def_queue w1)\<lparr>q_socket := s, q_index := 0, datalen := actual_len\<rparr>
          in SocketBuffer_newDefQ (w1\<lparr>queues := l_append (queues w1) q\<rparr>))"

text \<open>The queue of the socket becomes the default queue; its buffer is returned.\<close>

definition SocketBuffer_complete :: "int \<Rightarrow> 'z sockbuf_scheme \<Rightarrow> bytes \<times> 'z sockbuf_scheme" where
  "SocketBuffer_complete s w =
     (let (q, w1) = find_queue s w;
          w2 = (case q of
                  None \<Rightarrow> w1
                | Some q \<Rightarrow> w1\<lparr>def_queue := q,
                               queues := snd (l_unlink (queues w1) (socketcompare s))\<rparr>);
          w3 = w2\<lparr>def_queue := clear_queue (def_queue w2)\<rparr>
      in (q_buf (def_queue w3), w3))"

definition push_char :: "byte \<Rightarrow> socket_queue \<Rightarrow> socket_queue" where
  "push_char c q = q\<lparr>fixed_header := (fixed_header q)[q_index q := c],
                     q_index := q_index q + 1, headerlen := q_index q + 1\<rparr>"

text \<open>
  A character for a socket without a queue goes to the default queue, unless that queue is in use
  for another socket or is full: then it is not kept.
\<close>

definition SocketBuffer_queueChar :: "int \<Rightarrow> byte \<Rightarrow> 'z sockbuf_scheme \<Rightarrow> 'z sockbuf_scheme" where
  "SocketBuffer_queueChar s c w =
     (case find_queue s w of
        (Some q, w1) \<Rightarrow> if q_index q > 4 then w1 else set_current_queue (push_char c q) w1
      | (None, w1) \<Rightarrow>
          let d = def_queue w1;
              d1 = (if q_socket d = 0 then d\<lparr>q_socket := s, q_index := 0, datalen := 0\<rparr> else d);
              failed = (q_socket d \<noteq> 0 \<and> q_socket d \<noteq> s) \<or> q_index d1 > 4
          in w1\<lparr>def_queue := (if failed then d1 else push_char c d1)\<rparr>)"

definition SocketBuffer_pendingWrite ::
    "int \<Rightarrow> bytes list \<Rightarrow> bool list \<Rightarrow> nat \<Rightarrow> nat \<Rightarrow> 'z sockbuf_scheme \<Rightarrow> 'z sockbuf_scheme" where
  "SocketBuffer_pendingWrite s iovecs frees totlen nbytes w =
     w\<lparr>pwrites := l_append (pwrites w)
        \<lparr>pw_socket = s, pw_total = totlen, pw_bytes = nbytes, pw_iovecs = iovecs, pw_frees = frees\<rparr>\<rparr>"

definition SocketBuffer_getWrite :: "int \<Rightarrow> 'z sockbuf_scheme \<Rightarrow> pending_write cptr \<times> 'z sockbuf_scheme" where
  "SocketBuffer_getWrite s w =
     (case l_find (pwrites w) (pending_socketcompare s) of
        (None, l) \<Rightarrow> (NULL, w\<lparr>pwrites := l\<rparr>)
      | (Some k, l) \<Rightarrow> (Ptr (items l ! k), w\<lparr>pwrites := l\<rparr>))"

text \<open>A change of the pending write found last.\<close>

definition set_current_write :: "pending_write \<Rightarrow> 'z sockbuf_scheme \<Rightarrow> 'z sockbuf_scheme" where
  "set_current_write p w =
     (case cur_pos (pwrites w) of
        None \<Rightarrow> w
      | Some k \<Rightarrow> w\<lparr>pwrites := (pwrites w)\<lparr>items := (items (pwrites w))[k := p]\<rparr>\<rparr>)"

text \<open>The base pointers are replaced and the lengths kept.\<close>

definition SocketBuffer_updateWrite ::
    "int \<Rightarrow> bytes \<Rightarrow> bytes \<Rightarrow> 'z sockbuf_scheme \<Rightarrow> pending_write cptr \<times> 'z sockbuf_scheme" where
  "SocketBuffer_updateWrite s topic payload w =
     (case SocketBuffer_getWrite s w of
        (NULL, w1) \<Rightarrow> (NULL, w1)
      | (Ptr p, w1) \<Rightarrow>
          let iov = pw_iovecs p;
              p1 = (if length iov = 4
                    then p\<lparr>pw_iovecs := iov[2 := take (length (iov ! 2)) topic,
                                           3 := take (length (iov ! 3)) payload]\<rparr>
                    else p)
          in (Ptr p1, set_current_write p1 w1))"

end
