(* ===== verification/Socket.thy ===== *)
theory Socket
  imports SocketBuffer
begin

text \<open>
  \<open>MqttC/Socket.c\<close> (the variant with \<open>poll\<close>): reading and writing without blocking, the list of
  sockets with a pending write, and the loop that finds the next socket with work.

  \<open>fds_read\<close> and \<open>fds_write\<close> always hold the same descriptors; the model keeps both arrays. The
  three callbacks of the module are arguments of the functions that call them.
\<close>

section \<open>State\<close>

text \<open>Of the event masks only the tests of the code are kept: readable, writeable, failed.\<close>

record pollfd =
  pfd :: int
  pollin :: bool
  pollout :: bool
  pollerr :: bool

record sockets = sockbuf +
  connect_pending :: "int clist"
  write_pending :: "int clist"
  fds_read :: "pollfd list"
  fds_write :: "pollfd list"
  saved_cur :: int
  saved_read :: "pollfd list"
  saved_write :: "pollfd list"

definition Socket_outInitialize :: "'z sockets_scheme \<Rightarrow> 'z sockets_scheme" where
  "Socket_outInitialize w =
     (SocketBuffer_initialize w)
       \<lparr>connect_pending := l_empty, write_pending := l_empty, fds_read := [], fds_write := [],
        saved_cur := -1, saved_read := [], saved_write := []\<rparr>"

definition Socket_outTerminate :: "'z sockets_scheme \<Rightarrow> 'z sockets_scheme" where
  "Socket_outTerminate w =
     SocketBuffer_terminate
       (w\<lparr>connect_pending := l_empty, write_pending := l_empty, fds_read := [], fds_write := [],
          saved_read := [], saved_write := []\<rparr>)"

definition Socket_addSocket :: "int \<Rightarrow> 'z sockets_scheme \<Rightarrow> 'z sockets_scheme" where
  "Socket_addSocket newSd w =
     (let p = \<lparr>pfd = newSd, pollin = False, pollout = False, pollerr = False\<rparr>
      in w\<lparr>fds_read := insort_key pfd p (fds_read w), fds_write := insort_key pfd p (fds_write w)\<rparr>)"

section \<open>Reading\<close>

text \<open>The character is meaningful when the code is \<open>TCPSOCKET_COMPLETE\<close>.\<close>

definition Socket_getch :: "int \<Rightarrow> 'z sockets_scheme \<Rightarrow> int \<times> byte \<times> 'z sockets_scheme" where
  "Socket_getch s w =
     (case SocketBuffer_getQueuedChar s w of
        (rc, c, w1) \<Rightarrow>
          if rc \<noteq> SOCKETBUFFER_INTERRUPTED then (rc, (case c of None \<Rightarrow> 0 | Some c \<Rightarrow> c), w1)
          else case os_recv s 1 w1 of
            (Inl err, w2) \<Rightarrow>
              if err = EWOULDBLOCK \<or> err = EAGAIN
              then (TCPSOCKET_INTERRUPTED, 0, SocketBuffer_interrupted s 0 w2)
              else (SOCKET_ERROR, 0, w2)
          | (Inr got, w2) \<Rightarrow>
              (case got of
                 [] \<Rightarrow> (SOCKET_ERROR, 0, w2)
               | c # _ \<Rightarrow> (TCPSOCKET_COMPLETE, c, SocketBuffer_queueChar s c w2)))"

text \<open>The buffer with the bytes read so far, \<open>NULL\<close> on failure, and their number.\<close>

definition Socket_getdata :: "int \<Rightarrow> nat \<Rightarrow> 'z sockets_scheme \<Rightarrow> bytes cptr \<times> nat \<times> 'z sockets_scheme" where
  "Socket_getdata s n w =
     (if n = 0 then (case SocketBuffer_complete s w of (buf, w1) \<Rightarrow> (Ptr buf, 0, w1))
      else case SocketBuffer_getQueuedData s n w of (old, w1) \<Rightarrow>
        (case os_recv s (n - length old) w1 of
           (Inl err, w2) \<Rightarrow>
             if err \<noteq> EAGAIN \<and> err \<noteq> EWOULDBLOCK then (NULL, length old, w2)
             else if length old = n then (Ptr old, length old, snd (SocketBuffer_complete s w2))
             else (Ptr old, length old, SocketBuffer_interrupted s (length old) w2)
         | (Inr got, w2) \<Rightarrow>
             if got = [] then (NULL, length old, w2)
             else let buf = old @ got; w3 = store_received s buf w2
                  in (Ptr buf, length buf,
                      if length buf = n then snd (SocketBuffer_complete s w3)
                      else SocketBuffer_interrupted s (length buf) w3)))"

section \<open>Writing\<close>

definition Socket_noPendingWrites :: "int \<Rightarrow> 'z sockets_scheme \<Rightarrow> bool \<times> 'z sockets_scheme" where
  "Socket_noPendingWrites s w =
     (case l_find (write_pending w) ((=) s) of (r, l) \<Rightarrow> (r = None, w\<lparr>write_pending := l\<rparr>))"

definition Socket_writev :: "int \<Rightarrow> bytes list \<Rightarrow> 'z sockets_scheme \<Rightarrow> int \<times> nat \<times> 'z sockets_scheme" where
  "Socket_writev s iovecs w =
     (case os_writev s iovecs w of
        (Inl err, w1) \<Rightarrow>
          ((if err = EWOULDBLOCK \<or> err = EAGAIN then TCPSOCKET_INTERRUPTED else SOCKET_ERROR), 0, w1)
      | (Inr n, w1) \<Rightarrow> (int n, n, w1))"

text \<open>The buffers of a packet behind its first one, with the flags that say which to free.\<close>

definition Socket_putdatas ::
    "int \<Rightarrow> bytes \<Rightarrow> bytes list \<Rightarrow> bool list \<Rightarrow> 'z sockets_scheme \<Rightarrow> int \<times> 'z sockets_scheme" where
  "Socket_putdatas s buf0 buffers bfrees w =
     (case Socket_noPendingWrites s w of (ok, w1) \<Rightarrow>
        if \<not> ok then (SOCKET_ERROR, w1)
        else
          let totlen = length buf0 + sum_list (map length buffers);
              iovecs = buf0 # buffers; frees1 = True # bfrees
          in case Socket_writev s iovecs w1 of (rc, n, w2) \<Rightarrow>
               if rc = SOCKET_ERROR then (rc, w2)
               else if n = totlen then (TCPSOCKET_COMPLETE, w2)
               else
                 let w3 = SocketBuffer_pendingWrite s iovecs frees1 totlen n w2
                 in (TCPSOCKET_INTERRUPTED, w3\<lparr>write_pending := l_append (write_pending w3) s\<rparr>))"

text \<open>
  The buffers that \<open>Socket_continueWrite\<close> still has to write: the loop skips the buffers that have
  been written and shortens the one that has been written in part.
\<close>

fun remaining_iovecs :: "nat \<Rightarrow> nat \<Rightarrow> bytes list \<Rightarrow> bytes list" where
  "remaining_iovecs done curbuflen [] = []"
| "remaining_iovecs done curbuflen (v # vs) =
     (if done \<le> curbuflen then [v]
      else if done < curbuflen + length v then [drop (done - curbuflen) v]
      else [])
     @ remaining_iovecs done (curbuflen + length v) vs"

definition free_iovecs :: "pending_write \<Rightarrow> pending_write" where
  "free_iovecs p = p\<lparr>pw_iovecs := map2 (\<lambda>f v. if f then [] else v) (pw_frees p) (pw_iovecs p)\<rparr>"

text \<open>0: incomplete, 1: complete, -1: socket error; \<open>None\<close>: there is no pending write.\<close>

definition Socket_continueWrite :: "int \<Rightarrow> 'z sockets_scheme \<Rightarrow> (int \<times> 'z sockets_scheme) option" where
  "Socket_continueWrite s w =
     (case SocketBuffer_getWrite s w of
        (NULL, w1) \<Rightarrow> None
      | (Ptr p, w1) \<Rightarrow>
          Some (case Socket_writev s (remaining_iovecs (pw_bytes p) 0 (pw_iovecs p)) w1 of (rc, n, w2) \<Rightarrow>
            if rc \<noteq> SOCKET_ERROR then
              (let p1 = p\<lparr>pw_bytes := pw_bytes p + n\<rparr>
               in if pw_bytes p1 = pw_total p1 then (1, set_current_write (free_iovecs p1) w2)
                  else (0, set_current_write p1 w2))
            else (rc, set_current_write (free_iovecs p) w2)))"

definition Socket_abortWrite :: "int \<Rightarrow> 'z sockets_scheme \<Rightarrow> 'z sockets_scheme" where
  "Socket_abortWrite s w =
     (case SocketBuffer_getWrite s w of
        (NULL, w1) \<Rightarrow> w1
      | (Ptr p, w1) \<Rightarrow> set_current_write (free_iovecs p) w1)"

definition fd_writeable :: "int \<Rightarrow> pollfd list \<Rightarrow> bool" where
  "fd_writeable s fds = (case find (\<lambda>p. pfd p = s) fds of None \<Rightarrow> False | Some p \<Rightarrow> pollout p)"

text \<open>
  One round of \<open>Socket_continueWrites\<close>, for the element of \<open>write_pending\<close> at position \<open>k\<close>: its
  code, the position to go on with and the new state. After a removal that is the \<open>current\<close>
  element of the list. \<open>None\<close> when the socket has no pending write.
\<close>

definition continueWrites_round ::
    "(int \<Rightarrow> 'z sockets_scheme \<Rightarrow> 'z sockets_scheme) \<Rightarrow> (int \<Rightarrow> int \<Rightarrow> 'z sockets_scheme \<Rightarrow> 'z sockets_scheme)
     \<Rightarrow> (int \<Rightarrow> 'z sockets_scheme \<Rightarrow> 'z sockets_scheme) \<Rightarrow> nat \<Rightarrow> 'z sockets_scheme
     \<Rightarrow> (int \<times> nat option \<times> 'z sockets_scheme) option" where
  "continueWrites_round writeAvailable writecomplete writecontinue k w =
     (let s = items (write_pending w) ! k in
      case (if fd_writeable s (saved_write w) then Socket_continueWrite s w else Some (0, w)) of
        None \<Rightarrow> None
      | Some (rc, w1) \<Rightarrow>
          Some (rc,
            if rc \<noteq> 0 then
              (let w2 = snd (SocketBuffer_writeComplete s w1);
                   w3 = w2\<lparr>write_pending := snd (l_unlink (write_pending w2) ((=) s))\<rparr>;
                   w4 = (if rc > 0 then writeAvailable s w3 else w3)
               in (cur_pos (write_pending w3), writecomplete s rc w4))
            else (Some (Suc k), writecontinue s w1)))"

text \<open>\<open>fuel\<close> bounds the rounds of the loop, from the position \<open>pos\<close>: \<open>None\<close> when it runs out.\<close>

fun continueWrites_loop ::
    "(int \<Rightarrow> 'z sockets_scheme \<Rightarrow> 'z sockets_scheme) \<Rightarrow> (int \<Rightarrow> int \<Rightarrow> 'z sockets_scheme \<Rightarrow> 'z sockets_scheme)
     \<Rightarrow> (int \<Rightarrow> 'z sockets_scheme \<Rightarrow> 'z sockets_scheme) \<Rightarrow> nat \<Rightarrow> nat option \<Rightarrow> int \<Rightarrow> int
     \<Rightarrow> 'z sockets_scheme \<Rightarrow> (int \<times> int \<times> 'z sockets_scheme) option" where
  "continueWrites_loop writeAvailable writecomplete writecontinue fuel pos rc1 sock w =
     (case pos of
        None \<Rightarrow> Some (rc1, sock, w)
      | Some k \<Rightarrow>
          if k \<ge> length (items (write_pending w)) then Some (rc1, sock, w)
          else case fuel of
            0 \<Rightarrow> None
          | Suc fuel' \<Rightarrow>
              let s = items (write_pending w) ! k in
              case continueWrites_round writeAvailable writecomplete writecontinue k w of
                None \<Rightarrow> None
              | Some (rc, pos', w') \<Rightarrow>
                  continueWrites_loop writeAvailable writecomplete writecontinue fuel' pos'
                    (if rc = SOCKET_ERROR then SOCKET_ERROR else rc1)
                    (if rc = SOCKET_ERROR then s else sock) w')"

declare continueWrites_loop.simps [simp del]

definition Socket_continueWrites where
  "Socket_continueWrites writeAvailable writecomplete writecontinue fuel w =
     continueWrites_loop writeAvailable writecomplete writecontinue fuel
       (if items (write_pending w) = [] then None else Some 0) 0 0 w"

section \<open>Waiting for work\<close>

text \<open>\<open>isReady\<close>: an error on the socket counts as work; a completed connect is noted once.\<close>

definition isReady :: "nat \<Rightarrow> 'z sockets_scheme \<Rightarrow> bool \<times> 'z sockets_scheme" where
  "isReady index w =
     (let s = pfd (saved_write w ! index)
      in if pollerr (saved_read w ! index) then (True, w)
         else case l_find (connect_pending w) ((=) s) of (r, l) \<Rightarrow>
           let w1 = w\<lparr>connect_pending := l\<rparr>
           in if r \<noteq> None \<and> pollout (saved_write w ! index)
              then (True, w1\<lparr>connect_pending := snd (l_unlink l ((=) s))\<rparr>)
              else if pollin (saved_read w ! index) \<and> pollout (saved_write w ! index)
                then Socket_noPendingWrites s w1
                else (False, w1))"

text \<open>The two loops of \<open>Socket_getReadySocket\<close>: the first ready index, or -1.\<close>

fun scan_ready :: "nat list \<Rightarrow> 'z sockets_scheme \<Rightarrow> int \<times> 'z sockets_scheme" where
  "scan_ready [] w = (-1, w)"
| "scan_ready (i # is) w =
     (case isReady i w of (True, w1) \<Rightarrow> (int i, w1) | (False, w1) \<Rightarrow> scan_ready is w1)"

definition take_ready :: "int \<Rightarrow> 'z sockets_scheme \<Rightarrow> int \<times> 'z sockets_scheme" where
  "take_ready cur w =
     (if cur = -1 then (0, w\<lparr>saved_cur := -1\<rparr>)
      else (pfd (saved_read w ! nat cur),
            w\<lparr>saved_cur := (if cur = int (length (saved_read w)) - 1 then -1 else cur + 1)\<rparr>))"

text \<open>
  \<open>poll_write\<close> and \<open>poll_read\<close> are the two calls of \<open>poll\<close>: the result and the array with the
  events filled in. The result of the function is the socket and the code.
\<close>

definition Socket_getReadySocket where
  "Socket_getReadySocket writeAvailable writecomplete writecontinue fuel poll_write poll_read w =
     (if fds_read w = [] \<and> saved_read w = [] then Some (0, 0, w)
      else
        let (cur, w1) = (if saved_cur w \<noteq> -1
                         then scan_ready [nat (saved_cur w)..<length (saved_read w)] w else (-1, w))
        in if cur \<noteq> -1 then (case take_ready cur w1 of (sock, w2) \<Rightarrow> Some (sock, 0, w2))
           else
             let w2 = w1\<lparr>saved_cur := -1, saved_read := fds_read w1, saved_write := fds_write w1\<rparr>
             in if saved_read w2 = [] then Some (0, 0, w2)
                else
                  let (rc1, fw) = poll_write (saved_write w2); w3 = w2\<lparr>saved_write := fw\<rparr>
                  in do {
                    (rcw, sock, w4) \<leftarrow>
                      (if rc1 > 0
                       then Socket_continueWrites writeAvailable writecomplete writecontinue fuel w3
                       else Some (0, 0, w3));
                    if rcw = SOCKET_ERROR then Some (sock, SOCKET_ERROR, w4)
                    else
                      let (rc, fr) = poll_read (saved_read w4); w5 = w4\<lparr>saved_read := fr\<rparr>
                      in if rc = SOCKET_ERROR then Some (sock, rc, w5)
                         else if rc1 = (0 :: int) \<and> rc = (0 :: int) then Some (0, 0, w5)
                         else case scan_ready [0..<length (saved_read w5)] w5 of (cur, w6) \<Rightarrow>
                           (case take_ready cur w6 of (sock, w7) \<Rightarrow> Some (sock, 0, w7)) })"

section \<open>Closing\<close>

fun remove_fd :: "int \<Rightarrow> pollfd list \<Rightarrow> pollfd list" where
  "remove_fd s [] = []"
| "remove_fd s (p # ps) = (if pfd p = s then ps else p # remove_fd s ps)"

text \<open>
  When the socket is not in \<open>fds_read\<close> its count is not reduced, and the second search, over one
  element more, reads behind the end of \<open>fds_write\<close>: \<open>None\<close>.
\<close>

definition Socket_close :: "int \<Rightarrow> 'z sockets_scheme \<Rightarrow> 'z sockets_scheme option" where
  "Socket_close s w =
     (let w1 = SocketBuffer_cleanup s (Socket_abortWrite s w);
          w2 = w1\<lparr>connect_pending := snd (l_unlink (connect_pending w1) ((=) s))\<rparr>;
          w3 = w2\<lparr>write_pending := snd (l_unlink (write_pending w2) ((=) s))\<rparr>
      in if fds_read w3 = [] then Some w3
         else if s \<in> pfd ` set (fds_read w3)
         then Some (w3\<lparr>fds_read := remove_fd s (fds_read w3), fds_write := remove_fd s (fds_write w3)\<rparr>)
         else None)"

section \<open>Writing a packet\<close>

lemma concat_remaining_iovecs:
  "concat (remaining_iovecs n c vs) = drop (n - c) (concat vs)"
proof (induction vs arbitrary: c)
  case (Cons v vs)
  have d: "drop (n - c) (v @ concat vs) = drop (n - c) v @ drop (n - c - length v) (concat vs)" by simp
  have e: "n - c - length v = n - (c + length v)" by simp
  show ?case
    unfolding remaining_iovecs.simps concat_append Cons.IH concat.simps d e by auto
qed simp

lemma os_writev_cases:
  obtains e w1 where "os_writev s iovecs w = (Inl e, w1)" "tx w1 = tx w"
  | n w1 where "os_writev s iovecs w = (Inr n, w1)" "n \<le> length (concat iovecs)"
      "tx w1 = (tx w)(s := tx w s @ take n (concat iovecs))"
  by (cases "writev_plan w (writevs w)") (auto simp: os_writev_def Let_def min_def)

text \<open>\<open>os_writev\<close> changes the written bytes and the call counter only.\<close>

lemma os_writev_frame:
  "os_writev s iovecs w = (r, w1) \<Longrightarrow> w1 = w\<lparr>writevs := writevs w1, tx := tx w1\<rparr>"
  by (auto simp: os_writev_def Let_def split: io_plan.splits)

lemma Socket_writev_cases:
  obtains w1 where "Socket_writev s iovecs w = (SOCKET_ERROR, 0, w1)" 
      "w1 = w\<lparr>writevs := writevs w1\<rparr>"
  | n rc w1 where "Socket_writev s iovecs w = (rc, n, w1)" "rc \<noteq> SOCKET_ERROR"
      "n \<le> length (concat iovecs)" "w1 = w\<lparr>writevs := writevs w1, tx := tx w1\<rparr>"
      "tx w1 = (tx w)(s := tx w s @ take n (concat iovecs))"
proof (cases rule: os_writev_cases [of s iovecs w])
  case (1 e w1)
  then have "w1 = w\<lparr>writevs := writevs w1\<rparr>" "w1 = w\<lparr>writevs := writevs w1, tx := tx w1\<rparr>"
    using os_writev_frame [OF 1(1)] by simp_all
  then show ?thesis
    using 1 that(1) [of w1] that(2) [of TCPSOCKET_INTERRUPTED 0 w1]
    by (cases "e = 11") (simp_all add: Socket_writev_def)
next
  case (2 n w1)
  then show ?thesis
    using that(2) [of "int n" n w1] os_writev_frame [OF 2(1)] by (simp add: Socket_writev_def)
qed

text \<open>The pending writes are those of the sockets in \<open>write_pending\<close>, one for each.\<close>

definition pending_ok :: "pending_write \<Rightarrow> bool" where
  "pending_ok p \<longleftrightarrow> pw_total p = length (concat (pw_iovecs p)) \<and> pw_bytes p < pw_total p"

definition writes_inv :: "'z sockets_scheme \<Rightarrow> bool" where
  "writes_inv w \<longleftrightarrow>
     cur_ok (pwrites w) \<and> cur_ok (write_pending w)
     \<and> distinct (items (write_pending w)) \<and> map pw_socket (items (pwrites w)) = items (write_pending w)
     \<and> (\<forall>p \<in> set (items (pwrites w)). pending_ok p)"

definition unsent :: "int \<Rightarrow> 'z sockets_scheme \<Rightarrow> bytes" where
  "unsent s w =
     (case find (\<lambda>p. pw_socket p = s) (items (pwrites w)) of
        None \<Rightarrow> [] | Some p \<Rightarrow> drop (pw_bytes p) (concat (pw_iovecs p)))"

text \<open>What has been written on a socket followed by what is still to be written.\<close>

definition outstream :: "int \<Rightarrow> 'z sockets_scheme \<Rightarrow> bytes" where
  "outstream s w = tx w s @ unsent s w"

lemma find_unique:
  "distinct (map f xs) \<Longrightarrow> k < length xs \<Longrightarrow> find (\<lambda>x. f x = f (xs ! k)) xs = Some (xs ! k)"
proof (induction xs arbitrary: k)
  case (Cons x xs)
  then show ?case by (cases k) (auto simp: image_iff)
qed simp

lemma find_append: "find P (xs @ ys) = (case find P xs of None \<Rightarrow> find P ys | Some x \<Rightarrow> Some x)"
  by (induction xs) auto

lemma find_None_iff_image: "find (\<lambda>p. f p = s) xs = None \<longleftrightarrow> s \<notin> set (map f xs)"
  by (auto simp: find_None_iff)

lemma noPendingWrites_simps:
  assumes "writes_inv w" "Socket_noPendingWrites s w = (ok, w1)"
  shows "ok \<longleftrightarrow> s \<notin> set (items (write_pending w))" "writes_inv w1"
    "w1 = w\<lparr>write_pending := write_pending w1\<rparr>" "items (write_pending w1) = items (write_pending w)"
    "unsent t w1 = unsent t w"
proof -
  have c: "cur_ok (write_pending w)" using assms(1) by (simp add: writes_inv_def)
  obtain r l where l: "l_find (write_pending w) ((=) s) = (r, l)" by fastforce
  have i: "items l = items (write_pending w)" "cur_ok l"
    using items_l_find [of "write_pending w" "(=) s"] cur_ok_l_find [OF c, of "(=) s"] l by simp_all
  have w1: "ok = (r = None)" "w1 = w\<lparr>write_pending := l\<rparr>"
    using assms(2) l by (simp_all add: Socket_noPendingWrites_def)
  show "ok \<longleftrightarrow> s \<notin> set (items (write_pending w))"
    using l_find_None [OF c, of "(=) s"] l w1 by auto
  show "w1 = w\<lparr>write_pending := write_pending w1\<rparr>" "items (write_pending w1) = items (write_pending w)"
    using w1 i by simp_all
  show "writes_inv w1" using assms(1) w1 i by (simp add: writes_inv_def)
  show "unsent t w1 = unsent t w" using w1 by (simp add: unsent_def)
qed

lemma unsent_append:
  "unsent t (w\<lparr>pwrites := l_append (pwrites w) p\<rparr>)
     = (if t \<in> set (map pw_socket (items (pwrites w))) then unsent t w
        else if pw_socket p = t then drop (pw_bytes p) (concat (pw_iovecs p)) else [])"
  using find_None_iff_image [of pw_socket t "items (pwrites w)"]
  by (auto simp: unsent_def find_append split: option.splits)

lemma unsent_cong: "pwrites w = pwrites w' \<Longrightarrow> unsent t w = unsent t w'"
  by (simp add: unsent_def)

lemma putdatas_spec:
  assumes inv: "writes_inv w" and r: "Socket_putdatas s buf0 bufs frees w = (rc, w')"
  shows "writes_inv w'"
    and "rc \<in> {TCPSOCKET_COMPLETE, TCPSOCKET_INTERRUPTED, SOCKET_ERROR}"
    and "t \<noteq> s \<Longrightarrow> outstream t w' = outstream t w \<and> tx w' t = tx w t"
    and "rc = SOCKET_ERROR \<Longrightarrow> outstream s w' = outstream s w"
    and "rc \<noteq> SOCKET_ERROR \<Longrightarrow> outstream s w' = outstream s w @ buf0 @ concat bufs \<and> unsent s w = []"
    and "rc = TCPSOCKET_COMPLETE \<Longrightarrow> unsent s w' = []"
    and "rc = TCPSOCKET_INTERRUPTED \<Longrightarrow> unsent s w' \<noteq> []"
proof -
  obtain ok w1 where n: "Socket_noPendingWrites s w = (ok, w1)" by fastforce
  note np = noPendingWrites_simps [OF inv n]
  let ?pkt = "buf0 @ concat bufs" and ?goal = "writes_inv w'
    \<and> rc \<in> {TCPSOCKET_COMPLETE, TCPSOCKET_INTERRUPTED, SOCKET_ERROR}
    \<and> (\<forall>t. t \<noteq> s \<longrightarrow> outstream t w' = outstream t w \<and> tx w' t = tx w t)
    \<and> (rc = SOCKET_ERROR \<longrightarrow> outstream s w' = outstream s w)
    \<and> (rc \<noteq> SOCKET_ERROR \<longrightarrow> outstream s w' = outstream s w @ buf0 @ concat bufs \<and> unsent s w = [])
    \<and> (rc = TCPSOCKET_COMPLETE \<longrightarrow> unsent s w' = []) \<and> (rc = TCPSOCKET_INTERRUPTED \<longrightarrow> unsent s w' \<noteq> [])"
  have tx1: "tx w1 = tx w" "pwrites w1 = pwrites w" by (subst np(3), simp)+
  have l: "length buf0 + sum_list (map length bufs) = length ?pkt" by (simp add: length_concat)
  have ?goal
  proof (cases ok)
    case False
    then have "rc = SOCKET_ERROR" "w' = w1" using r n by (simp_all add: Socket_putdatas_def)
    with np tx1 show ?thesis by (simp add: outstream_def)
  next
    case True
    then have fresh: "s \<notin> set (map pw_socket (items (pwrites w)))"
      using np(1) inv by (simp add: writes_inv_def)
    then have u: "unsent s w = []"
      using find_None_iff_image [of pw_socket s "items (pwrites w)"] by (simp add: unsent_def)
    show ?thesis
    proof (cases rule: Socket_writev_cases [of s "buf0 # bufs" w1])
      case (1 w2)
      then have "rc = SOCKET_ERROR" "w' = w2"
        using r n True by (simp_all add: Socket_putdatas_def Let_def)
      moreover have "unsent t w2 = unsent t w1" "tx w2 = tx w1" "writes_inv w2 = writes_inv w1" for t
        by (subst 1(2), simp add: unsent_def writes_inv_def)+
      ultimately show ?thesis using np tx1 by (simp add: outstream_def)
    next
      case (2 m rc2 w2)
      have w2: "unsent t w2 = unsent t w1" "writes_inv w2 = writes_inv w1"
        "pwrites w2 = pwrites w" "items (write_pending w2) = items (write_pending w)" for t
        using np(4) tx1(2) by (subst 2(4), simp add: unsent_def writes_inv_def)+
      have m: "m \<le> length ?pkt" using 2(3) by simp
      show ?thesis
      proof (cases "m = length ?pkt")
        case full: True
        then have "rc = TCPSOCKET_COMPLETE" "w' = w2"
          using r n True 2(1,2) l by (auto simp: Socket_putdatas_def Let_def)
        then show ?thesis using full w2 2(5) np tx1 u by (simp add: outstream_def)
      next
        case part: False
        let ?p = "\<lparr>pw_socket = s, pw_total = length ?pkt, pw_bytes = m, pw_iovecs = buf0 # bufs, pw_frees = True # frees\<rparr>"
        have rc: "rc = TCPSOCKET_INTERRUPTED"
          and w': "w' = w2\<lparr>pwrites := l_append (pwrites w2) ?p, write_pending := l_append (write_pending w2) s\<rparr>"
          using r n True 2(1,2) l part
          by (auto simp: Socket_putdatas_def Let_def SocketBuffer_pendingWrite_def)
        have un: "unsent t w' = (if t = s then drop m ?pkt else unsent t w)" for t
        proof -
          have "unsent t w' = unsent t (w2\<lparr>pwrites := l_append (pwrites w2) ?p\<rparr>)"
            by (rule unsent_cong) (simp add: w')
          also have "\<dots> = (if t \<in> set (map pw_socket (items (pwrites w))) then unsent t w
              else if s = t then drop m ?pkt else [])"
            using unsent_append [of t w2 ?p] w2(1) [of t] w2(3) np(5) [of t] by simp
          also have "\<dots> = (if t = s then drop m ?pkt else unsent t w)"
            using fresh find_None_iff_image [of pw_socket t "items (pwrites w)"]
            by (auto simp: unsent_def)
          finally show ?thesis .
        qed
        have "tx w' = (tx w)(s := tx w s @ take m ?pkt)" using w' 2(5) tx1 by simp
        moreover have "writes_inv w'"
          using w2(2-4) np(2) part m fresh np(1) True unfolding w'
          by (auto simp: writes_inv_def pending_ok_def)
        ultimately show ?thesis using un rc part m u append_take_drop_id [of m ?pkt]
          by (auto simp: outstream_def simp del: take_append drop_append append_take_drop_id)
      qed
    qed
  qed
  then show "writes_inv w'" "rc \<in> {TCPSOCKET_COMPLETE, TCPSOCKET_INTERRUPTED, SOCKET_ERROR}"
    "t \<noteq> s \<Longrightarrow> outstream t w' = outstream t w \<and> tx w' t = tx w t"
    "rc = SOCKET_ERROR \<Longrightarrow> outstream s w' = outstream s w"
    "rc \<noteq> SOCKET_ERROR \<Longrightarrow> outstream s w' = outstream s w @ buf0 @ concat bufs \<and> unsent s w = []"
    "rc = TCPSOCKET_COMPLETE \<Longrightarrow> unsent s w' = []" "rc = TCPSOCKET_INTERRUPTED \<Longrightarrow> unsent s w' \<noteq> []"
    by blast+
qed


lemma find_update_other:
  "k < length xs \<Longrightarrow> \<not> P (xs ! k) \<Longrightarrow> \<not> P q \<Longrightarrow> find P (xs[k := q]) = find P xs"
proof (induction xs arbitrary: k)
  case (Cons x xs)
  then show ?case by (cases k) auto
qed simp

lemma getWrite_cases:
  assumes "writes_inv w"
  obtains w1 where "SocketBuffer_getWrite s w = (NULL, w1)" "s \<notin> set (items (write_pending w))"
      "w1 = w\<lparr>pwrites := pwrites w1\<rparr>" "items (pwrites w1) = items (pwrites w)" "writes_inv w1"
  | k p w1 where "SocketBuffer_getWrite s w = (Ptr p, w1)" "k < length (items (pwrites w))"
      "p = items (pwrites w) ! k" "pw_socket p = s" "cur_pos (pwrites w1) = Some k"
      "w1 = w\<lparr>pwrites := pwrites w1\<rparr>" "items (pwrites w1) = items (pwrites w)"
      "find (\<lambda>p. pw_socket p = s) (items (pwrites w)) = Some p" "writes_inv w1"
proof -
  have c: "cur_ok (pwrites w)" and m: "map pw_socket (items (pwrites w)) = items (write_pending w)"
    and d: "distinct (map pw_socket (items (pwrites w)))"
    using assms by (auto simp: writes_inv_def)
  obtain r l where l: "l_find (pwrites w) (pending_socketcompare s) = (r, l)" by fastforce
  have i: "items l = items (pwrites w)" "cur_ok l"
    using items_l_find [of "pwrites w" "pending_socketcompare s"] cur_ok_l_find [OF c, of "pending_socketcompare s"] l
    by simp_all
  show thesis
  proof (cases r)
    case None
    then have "s \<notin> set (items (write_pending w))"
      using l_find_None [OF c, of "pending_socketcompare s"] l unfolding m [symmetric]
      by (auto simp: pending_socketcompare_def)
    then show ?thesis using that(1) [of "w\<lparr>pwrites := l\<rparr>"] l None i assms
      by (simp add: SocketBuffer_getWrite_def writes_inv_def)
  next
    case (Some k)
    have k: "k < length (items (pwrites w))" "pw_socket (items (pwrites w) ! k) = s"
      using l_find_Some [OF c, of "pending_socketcompare s" k] l Some
      by (simp_all add: pending_socketcompare_def)
    have "cur_pos l = Some k"
      using l Some by (auto simp: l_find_def split: option.splits if_splits)
    then show ?thesis
      using that(2) [of "items (pwrites w) ! k" "w\<lparr>pwrites := l\<rparr>" k] l Some i k assms
        find_unique [OF d k(1)]
      by (simp add: SocketBuffer_getWrite_def writes_inv_def)
  qed
qed

lemma continueWrite_spec:
  assumes inv: "writes_inv w" and r: "Socket_continueWrite s w = Some (rc, w')"
  shows "rc \<in> {0, 1, SOCKET_ERROR}"
    and "t \<noteq> s \<Longrightarrow> outstream t w' = outstream t w \<and> tx w' t = tx w t"
    and "rc = 0 \<Longrightarrow> outstream s w' = outstream s w \<and> unsent s w' \<noteq> [] \<and> writes_inv w'"
    and "rc = 1 \<Longrightarrow> tx w' s = outstream s w"
    and "rc = SOCKET_ERROR \<Longrightarrow> tx w' s = tx w s"
    and "map pw_socket (items (pwrites w')) = map pw_socket (items (pwrites w))"
    and "write_pending w' = write_pending w" and "cur_ok (pwrites w')"
    and "\<forall>p \<in> set (items (pwrites w')). pw_socket p \<noteq> s \<longrightarrow> pending_ok p"
proof -
  obtain k p w1 where g: "SocketBuffer_getWrite s w = (Ptr p, w1)" "k < length (items (pwrites w))"
      "p = items (pwrites w) ! k" "pw_socket p = s" "cur_pos (pwrites w1) = Some k"
      "w1 = w\<lparr>pwrites := pwrites w1\<rparr>" "items (pwrites w1) = items (pwrites w)"
      "find (\<lambda>p. pw_socket p = s) (items (pwrites w)) = Some p" "writes_inv w1"
  proof (rule getWrite_cases [OF inv, of s])
    fix w1 assume "SocketBuffer_getWrite s w = (NULL, w1)"
    then show thesis using r by (simp add: Socket_continueWrite_def)
  qed blast
  let ?iov = "remaining_iovecs (pw_bytes p) 0 (pw_iovecs p)"
  have ok: "pending_ok p" using inv g(2,3) by (simp add: writes_inv_def)
  have d: "distinct (map pw_socket (items (pwrites w)))" using inv by (simp add: writes_inv_def)
  have un: "unsent s w = concat ?iov" "concat ?iov = drop (pw_bytes p) (concat (pw_iovecs p))"
    using g(8) by (simp_all add: unsent_def concat_remaining_iovecs)
  have tx1: "tx w1 = tx w" "write_pending w1 = write_pending w" by (subst g(6), simp)+
  text \<open>Replacing the pending write found.\<close>
  have upd: "map pw_socket (items (pwrites (set_current_write q w2))) = map pw_socket (items (pwrites w))"
      "write_pending (set_current_write q w2) = write_pending w"
      "tx (set_current_write q w2) = tx w2" "cur_ok (pwrites (set_current_write q w2))"
      "unsent s (set_current_write q w2) = drop (pw_bytes q) (concat (pw_iovecs q))"
      "t \<noteq> s \<Longrightarrow> unsent t (set_current_write q w2) = unsent t w"
      "\<forall>p \<in> set (items (pwrites (set_current_write q w2))). pw_socket p \<noteq> s \<longrightarrow> pending_ok p"
      "pending_ok q \<Longrightarrow> writes_inv (set_current_write q w2)"
    if w2: "pwrites w2 = pwrites w1" "write_pending w2 = write_pending w1" and q: "pw_socket q = s"
    for q t and w2 :: "'a sockets_scheme"
  proof -
    let ?xs = "items (pwrites w)"
    have it: "items (pwrites (set_current_write q w2)) = ?xs[k := q]"
        "cur_pos (pwrites (set_current_write q w2)) = Some k"
      using g(5,7) w2 by (simp_all add: set_current_write_def)
    have mp: "map pw_socket (?xs[k := q]) = map pw_socket ?xs"
      using g(2-4) q by (metis list_update_id map_update nth_map)
    show 1: "map pw_socket (items (pwrites (set_current_write q w2))) = map pw_socket ?xs"
      using it mp by simp
    show 2: "write_pending (set_current_write q w2) = write_pending w" "tx (set_current_write q w2) = tx w2"
      using w2 tx1 by (auto simp: set_current_write_def split: option.splits)
    show 3: "cur_ok (pwrites (set_current_write q w2))" using it g(2) by (simp add: cur_ok_def)
    have dq: "distinct (map pw_socket (?xs[k := q]))" using d mp by simp
    have "find (\<lambda>x. pw_socket x = s) (?xs[k := q]) = Some q"
      using find_unique [OF dq, of k] g(2) q by simp
    then show "unsent s (set_current_write q w2) = drop (pw_bytes q) (concat (pw_iovecs q))"
      using it by (simp add: unsent_def)
    show "unsent t (set_current_write q w2) = unsent t w" if ts: "t \<noteq> s"
    proof -
      have "find (\<lambda>x. pw_socket x = t) (?xs[k := q]) = find (\<lambda>x. pw_socket x = t) ?xs"
        using g(2-4) q ts find_update_other [of k ?xs "\<lambda>x. pw_socket x = t" q] by simp
      then show ?thesis using it by (simp add: unsent_def)
    qed
    show 4: "\<forall>p \<in> set (items (pwrites (set_current_write q w2))). pw_socket p \<noteq> s \<longrightarrow> pending_ok p"
      using it inv q set_update_subset_insert [of ?xs k q] by (auto simp: writes_inv_def)
    show "writes_inv (set_current_write q w2)" if "pending_ok q"
    proof -
      have "\<forall>p \<in> set (items (pwrites (set_current_write q w2))). pending_ok p"
        using it inv that set_update_subset_insert [of ?xs k q] by (auto simp: writes_inv_def)
      with 1 2 3 inv show ?thesis by (simp add: writes_inv_def)
    qed
  qed
  have fr: "pw_socket (free_iovecs q) = pw_socket q" for q by (simp add: free_iovecs_def)
  let ?goal = "rc \<in> {0, 1, SOCKET_ERROR} \<and> (\<forall>t. t \<noteq> s \<longrightarrow> outstream t w' = outstream t w \<and> tx w' t = tx w t)
    \<and> (rc = 0 \<longrightarrow> outstream s w' = outstream s w \<and> unsent s w' \<noteq> [] \<and> writes_inv w')
    \<and> (rc = 1 \<longrightarrow> tx w' s = outstream s w) \<and> (rc = SOCKET_ERROR \<longrightarrow> tx w' s = tx w s)
    \<and> map pw_socket (items (pwrites w')) = map pw_socket (items (pwrites w))
    \<and> write_pending w' = write_pending w \<and> cur_ok (pwrites w')
    \<and> (\<forall>p \<in> set (items (pwrites w')). pw_socket p \<noteq> s \<longrightarrow> pending_ok p)"
  have ?goal
  proof (cases rule: Socket_writev_cases [of s ?iov w1])
    case (1 w2)
    then have rc: "rc = SOCKET_ERROR" "w' = set_current_write (free_iovecs p) w2"
      using r g(1) by (simp_all add: Socket_continueWrite_def)
    have w2: "pwrites w2 = pwrites w1" "write_pending w2 = write_pending w1" "tx w2 = tx w1"
      by (subst 1(2), simp)+
    show ?thesis
      using upd [OF w2(1,2), of "free_iovecs p"] fr g(4) tx1 w2(3) unfolding rc
      by (simp add: outstream_def)
  next
    case (2 n rc2 w2)
    have w2: "pwrites w2 = pwrites w1" "write_pending w2 = write_pending w1"
      by (subst 2(4), simp)+
    let ?p1 = "p\<lparr>pw_bytes := pw_bytes p + n\<rparr>"
    have "n \<le> pw_total p - pw_bytes p" "pw_bytes p < pw_total p"
      using 2(3) un(2) ok by (simp_all add: pending_ok_def)
    then have n: "pw_bytes p + n \<le> pw_total p" by linarith
    have tx2: "tx w2 = (tx w)(s := tx w s @ take n (drop (pw_bytes p) (concat (pw_iovecs p))))"
      using 2(5) tx1 un by simp
    show ?thesis
    proof (cases "pw_bytes p + n = pw_total p")
      case True
      then have rc: "rc = 1" "w' = set_current_write (free_iovecs ?p1) w2"
        using r g(1) 2(1,2) by (simp_all add: Socket_continueWrite_def Let_def)
      have "n = length (drop (pw_bytes p) (concat (pw_iovecs p)))"
        using True ok by (simp add: pending_ok_def)
      then show ?thesis
        using upd [OF w2, of "free_iovecs ?p1"] fr g(4) tx2 un unfolding rc
        by (simp add: outstream_def)
    next
      case False
      then have rc: "rc = 0" "w' = set_current_write ?p1 w2"
        using r g(1) 2(1,2) by (simp_all add: Socket_continueWrite_def Let_def)
      have "pending_ok ?p1" using ok n False by (simp add: pending_ok_def)
      moreover have "drop (pw_bytes p + n) (concat (pw_iovecs p)) \<noteq> []"
        using ok n False by (simp add: pending_ok_def)
      moreover have "take n (drop (pw_bytes p) c) @ drop (pw_bytes p + n) c = drop (pw_bytes p) c" for c :: bytes
        by (metis add.commute append_take_drop_id drop_drop)
      ultimately show ?thesis
        using upd [OF w2, of ?p1] g(4) tx2 un unfolding rc
        by (simp add: outstream_def)
    qed
  qed
  then show "rc \<in> {0, 1, SOCKET_ERROR}" "t \<noteq> s \<Longrightarrow> outstream t w' = outstream t w \<and> tx w' t = tx w t"
    "rc = 0 \<Longrightarrow> outstream s w' = outstream s w \<and> unsent s w' \<noteq> [] \<and> writes_inv w'"
    "rc = 1 \<Longrightarrow> tx w' s = outstream s w" "rc = SOCKET_ERROR \<Longrightarrow> tx w' s = tx w s"
    "map pw_socket (items (pwrites w')) = map pw_socket (items (pwrites w))"
    "write_pending w' = write_pending w" "cur_ok (pwrites w')"
    "\<forall>p \<in> set (items (pwrites w')). pw_socket p \<noteq> s \<longrightarrow> pending_ok p"
    by blast+
qed

lemma continueWrite_defined:
  assumes "writes_inv w" "s \<in> set (items (write_pending w))"
  shows "\<exists>r. Socket_continueWrite s w = Some r"
  using assms(2) by (cases rule: getWrite_cases [OF assms(1), of s]) (simp_all add: Socket_continueWrite_def)

text \<open>A finished write leaves both lists.\<close>

lemma finish_write:
  assumes "writes_inv w" and r: "Socket_continueWrite s w = Some (rc, w')"
  defines "w2 \<equiv> snd (SocketBuffer_writeComplete s w')"
  defines "w3 \<equiv> w2\<lparr>write_pending := snd (l_unlink (write_pending w2) ((=) s))\<rparr>"
  shows "writes_inv w3" "items (write_pending w3) = filter (\<lambda>t. t \<noteq> s) (items (write_pending w))"
    "tx w3 = tx w'" "unsent s w3 = []" "t \<noteq> s \<Longrightarrow> unsent t w3 = unsent t w"
    "cur_ok (write_pending w3)"
proof -
  note spec = continueWrite_spec [OF assms(1) r]
  have d: "distinct (map pw_socket (items (pwrites w')))" "distinct (map id (items (write_pending w')))"
    using spec(6,7) assms(1) by (auto simp: writes_inv_def)
  have c: "cur_ok (pwrites w')" "cur_ok (write_pending w')" using spec(7,8) assms(1) by (auto simp: writes_inv_def)
  have p: "items (snd (l_unlink (pwrites w') (pending_socketcompare s)))
      = filter (\<lambda>p. pw_socket p \<noteq> s) (items (pwrites w'))"
    using l_unlink_filter [OF c(1) d(1), of s]
    unfolding pending_socketcompare_def by simp
  have q: "items (snd (l_unlink (write_pending w') ((=) s))) = filter (\<lambda>t. t \<noteq> s) (items (write_pending w'))"
  proof -
    have "(=) s = (\<lambda>x. x = s)" by auto
    then show ?thesis using l_unlink_filter [OF c(2) d(2), of s] by simp
  qed
  have w2: "w2 = w'\<lparr>pwrites := snd (l_unlink (pwrites w') (pending_socketcompare s))\<rparr>"
    by (simp add: w2_def SocketBuffer_writeComplete_def split: prod.split)
  have p3: "pwrites w3 = snd (l_unlink (pwrites w') (pending_socketcompare s))"
    and q3: "write_pending w3 = snd (l_unlink (write_pending w') ((=) s))" and "tx w3 = tx w'"
    by (simp_all add: w3_def w2)
  then show "tx w3 = tx w'" by simp
  show it: "items (write_pending w3) = filter (\<lambda>t. t \<noteq> s) (items (write_pending w))"
    using q3 q spec(7) by simp
  show "cur_ok (write_pending w3)" using q3 c by simp
  have "map pw_socket (filter (\<lambda>p. pw_socket p \<noteq> s) xs) = filter (\<lambda>t. t \<noteq> s) (map pw_socket xs)" for xs :: "pending_write list"
    by (induction xs) auto
  moreover have "map pw_socket (items (pwrites w')) = items (write_pending w)"
    using spec(6) assms(1) by (simp add: writes_inv_def)
  ultimately have "map pw_socket (items (pwrites w3)) = items (write_pending w3)"
    using p3 p it by metis
  moreover have "\<forall>p \<in> set (items (pwrites w3)). pending_ok p" using p3 p spec(9) by auto
  ultimately show "writes_inv w3"
    using it c p3 q3 assms(1) by (simp add: writes_inv_def)
  have f: "find (\<lambda>p. pw_socket p = t) (filter (\<lambda>p. pw_socket p \<noteq> s) xs)
      = (if t = s then None else find (\<lambda>p. pw_socket p = t) xs)" for t and xs :: "pending_write list"
    by (induction xs) auto
  then show "unsent s w3 = []" using p3 p by (simp add: unsent_def)
  show "unsent t w3 = unsent t w" if "t \<noteq> s"
    using that f p3 p spec(2) [OF that] by (auto simp: unsent_def outstream_def)
qed


lemma continueWrites_round_cases:
  fixes wa wk :: "int \<Rightarrow> 'z sockets_scheme \<Rightarrow> 'z sockets_scheme" and wc :: "int \<Rightarrow> int \<Rightarrow> 'z sockets_scheme \<Rightarrow> 'z sockets_scheme"
  assumes inv: "writes_inv w" and k: "k < length (items (write_pending w))"
  defines "s \<equiv> items (write_pending w) ! k"
  obtains w1 where "continueWrites_round wa wc wk k w = Some (0, Some (Suc k), wk s w1)"
      "writes_inv w1" "write_pending w1 = write_pending w" "\<And>t. outstream t w1 = outstream t w"
  | rc w3 where "rc \<in> {1, SOCKET_ERROR}"
      "continueWrites_round wa wc wk k w
         = Some (rc, cur_pos (write_pending w3), wc s rc (if rc > 0 then wa s w3 else w3))"
      "writes_inv w3" "items (write_pending w3) = filter (\<lambda>t. t \<noteq> s) (items (write_pending w))"
      "\<And>t. t \<noteq> s \<Longrightarrow> outstream t w3 = outstream t w"
      "tx w3 s = (if rc = 1 then outstream s w else tx w s)" "unsent s w3 = []"
proof (cases "fd_writeable s (saved_write w)")
  case False
  then show ?thesis
    using that(1) [of w] inv unfolding s_def by (simp add: continueWrites_round_def)
next
  case True
  obtain rc w1 where c: "Socket_continueWrite s w = Some (rc, w1)"
    using continueWrite_defined [OF inv, of s] k unfolding s_def by auto
  note spec = continueWrite_spec [OF inv c]
  show ?thesis
  proof (cases "rc = 0")
    case True0: True
    have "outstream t w1 = outstream t w" for t using spec(2) [of t] spec(3) True0 by (cases "t = s") auto
    then show ?thesis
      using that(1) [of w1] c True True0 spec(3,7) unfolding s_def
      by (simp add: continueWrites_round_def Let_def)
  next
    case False
    note fin = finish_write [OF inv c]
    let ?w2 = "snd (SocketBuffer_writeComplete s w1)"
    let ?w3 = "?w2\<lparr>write_pending := snd (l_unlink (write_pending ?w2) ((=) s))\<rparr>"
    have "continueWrites_round wa wc wk k w
         = Some (rc, cur_pos (write_pending ?w3), wc s rc (if rc > 0 then wa s ?w3 else ?w3))"
      using c True False unfolding s_def by (simp add: continueWrites_round_def Let_def)
    moreover have "outstream t ?w3 = outstream t w" if "t \<noteq> s" for t
      using fin(3) fin(5) [of t] spec(2) [OF that] that by (simp add: outstream_def)
    moreover have "tx ?w3 s = (if rc = 1 then outstream s w else tx w s)"
      using fin(3) spec(1,4,5) False by auto
    ultimately show ?thesis
      using that(2) [of rc ?w3] fin(1,2,4) spec(1) False by simp
  qed
qed

lemma continueWrites_loop_inv:
  assumes "continueWrites_loop wa wc wk fuel pos rc1 sock w = Some (rc1', sock', w')"
    "writes_inv w"
    "\<And>s w. writes_inv w \<Longrightarrow> writes_inv (wa s w)"
    "\<And>s rc w. writes_inv w \<Longrightarrow> writes_inv (wc s rc w)"
    "\<And>s w. writes_inv w \<Longrightarrow> writes_inv (wk s w)"
  shows "writes_inv w'"
  using assms(1,2)
proof (induction fuel arbitrary: pos rc1 sock w)
  case 0
  then show ?case by (auto simp: continueWrites_loop.simps [of _ _ _ 0] split: option.splits if_splits)
next
  case (Suc fuel)
  show ?case
  proof (cases "\<exists>k. pos = Some k \<and> k < length (items (write_pending w))")
    case False
    then show ?thesis using Suc.prems
      by (auto simp: continueWrites_loop.simps [of _ _ _ "Suc fuel"] split: option.splits if_splits)
  next
    case True
    then obtain k where k: "pos = Some k" "k < length (items (write_pending w))" by blast
    obtain rc pos' w2 where r: "continueWrites_round wa wc wk k w = Some (rc, pos', w2)" "writes_inv w2"
      using assms(3-5) by (cases rule: continueWrites_round_cases [OF Suc.prems(2) k(2), where wa = wa and wc = wc and wk = wk]) auto
    then show ?thesis
      using Suc.IH [OF _ r(2)] Suc.prems(1) k
      by (subst (asm) (2) continueWrites_loop.simps) (auto simp: Let_def)
  qed
qed

lemma continueWrites_loop_returns:
  assumes "writes_inv w"
    and cb: "\<And>s w. pwrites (wa s w) = pwrites w \<and> write_pending (wa s w) = write_pending w"
    "\<And>s rc w. pwrites (wc s rc w) = pwrites w \<and> write_pending (wc s rc w) = write_pending w"
    "\<And>s w. pwrites (wk s w) = pwrites w \<and> write_pending (wk s w) = write_pending w"
    and fuel: "(length (items (write_pending w)) + 1) * (length (items (write_pending w)) + 1)
      \<le> fuel + (case pos of None \<Rightarrow> 0 | Some k \<Rightarrow> min k (length (items (write_pending w))))"
  shows "\<exists>r. continueWrites_loop wa wc wk fuel pos rc1 sock w = Some r"
  using assms(1) fuel
proof (induction fuel arbitrary: pos rc1 sock w)
  case 0
  then have "(length (items (write_pending w)) + 1) * (length (items (write_pending w)) + 1)
      \<le> length (items (write_pending w))"
    by (auto split: option.splits)
  then show ?case by simp
next
  case (Suc fuel)
  let ?L = "length (items (write_pending w))"
  have inv_cb: "writes_inv (wa s w) = writes_inv w" "writes_inv (wc s rc w) = writes_inv w"
      "writes_inv (wk s w) = writes_inv w" for s rc w
    using cb by (simp_all add: writes_inv_def)
  show ?case
  proof (cases "\<exists>k. pos = Some k \<and> k < ?L")
    case False
    then show ?thesis
      by (auto simp: continueWrites_loop.simps [of _ _ _ "Suc fuel"] split: option.splits if_splits)
  next
    case True
    then obtain k where k: "pos = Some k" "k < ?L" by blast
    have "\<exists>rc pos' w2. continueWrites_round wa wc wk k w = Some (rc, pos', w2) \<and> writes_inv w2
        \<and> (length (items (write_pending w2)) + 1) * (length (items (write_pending w2)) + 1)
          \<le> fuel + (case pos' of None \<Rightarrow> 0 | Some k \<Rightarrow> min k (length (items (write_pending w2))))"
    proof (cases rule: continueWrites_round_cases [OF Suc.prems(1) k(2), where wa = wa and wc = wc and wk = wk])
      case (1 w1)
      then show ?thesis using Suc.prems(2) k inv_cb cb(3) by (auto simp: min_def)
    next
      case (2 rc w3)
      have "length (items (write_pending w3)) < ?L"
        unfolding 2(4) using k(2) by (intro length_filter_less [of "items (write_pending w) ! k"]) simp_all
      then have "length (items (write_pending w3)) + 1 \<le> ?L" by simp
      then have "(length (items (write_pending w3)) + 1) * (length (items (write_pending w3)) + 1) \<le> ?L * ?L"
        by (intro mult_le_mono)
      moreover have "?L * ?L + 2 * ?L + 1 \<le> Suc fuel + k" using Suc.prems(2) k by simp
      ultimately have "(length (items (write_pending w3)) + 1) * (length (items (write_pending w3)) + 1) \<le> fuel"
        using k(2) by linarith
      then show ?thesis
        using 2(2,3) inv_cb cb(1,2) by (cases "rc > 0") (auto intro: le_trans [OF _ le_add1])
    qed
    then show ?thesis
      using Suc.IH k by (subst continueWrites_loop.simps) (fastforce simp: Let_def)
  qed
qed


lemma continueWrites_loop_stream:
  assumes "continueWrites_loop wa wc wk fuel pos rc1 sock w = Some (0, sock', w')" "writes_inv w"
    and cb: "\<And>s w. pwrites (wa s w) = pwrites w \<and> write_pending (wa s w) = write_pending w \<and> tx (wa s w) = tx w"
    "\<And>s rc w. pwrites (wc s rc w) = pwrites w \<and> write_pending (wc s rc w) = write_pending w
        \<and> tx (wc s rc w) = tx w"
    "\<And>s w. pwrites (wk s w) = pwrites w \<and> write_pending (wk s w) = write_pending w \<and> tx (wk s w) = tx w"
  shows "rc1 = 0 \<and> outstream t w' = outstream t w"
  using assms(1,2)
proof (induction fuel arbitrary: pos rc1 sock w)
  case 0
  then show ?case by (auto simp: continueWrites_loop.simps [of _ _ _ 0] split: option.splits if_splits)
next
  case (Suc fuel)
  have inv_cb: "writes_inv (wa s w) = writes_inv w" "writes_inv (wc s rc w) = writes_inv w"
      "writes_inv (wk s w) = writes_inv w" "outstream t (wa s w) = outstream t w"
      "outstream t (wc s rc w) = outstream t w" "outstream t (wk s w) = outstream t w" for s rc w
    using cb by (simp_all add: writes_inv_def outstream_def unsent_def)
  show ?case
  proof (cases "\<exists>k. pos = Some k \<and> k < length (items (write_pending w))")
    case False
    then show ?thesis using Suc.prems
      by (auto simp: continueWrites_loop.simps [of _ _ _ "Suc fuel"] split: option.splits if_splits)
  next
    case True
    then obtain k where k: "pos = Some k" "k < length (items (write_pending w))" by blast
    let ?s = "items (write_pending w) ! k"
    obtain rc pos' w2 where r: "continueWrites_round wa wc wk k w = Some (rc, pos', w2)" "writes_inv w2"
        "rc \<noteq> SOCKET_ERROR \<Longrightarrow> outstream t w2 = outstream t w"
    proof (cases rule: continueWrites_round_cases [OF Suc.prems(2) k(2), where wa = wa and wc = wc and wk = wk])
      case (1 w1)
      then show ?thesis using that inv_cb by simp
    next
      case (2 rc w3)
      have "outstream t w3 = outstream t w" if "rc = 1"
        using 2(5) [of t] 2(6,7) that by (cases "t = ?s") (simp_all add: outstream_def)
      then show ?thesis using that 2 inv_cb by auto
    qed
    have "continueWrites_loop wa wc wk fuel pos' (if rc = SOCKET_ERROR then SOCKET_ERROR else rc1)
            (if rc = SOCKET_ERROR then ?s else sock) w2 = Some (0, sock', w')"
      using Suc.prems(1) k r(1) by (subst (asm) continueWrites_loop.simps) (simp add: Let_def)
    from Suc.IH [OF this r(2)] r(3) show ?thesis by (auto split: if_splits)
  qed
qed

lemma remove_pending:
  assumes "cur_ok (pwrites w)" "cur_ok (write_pending w)" "distinct (items (write_pending w))"
    "map pw_socket (items (pwrites w)) = items (write_pending w)"
    "\<forall>p \<in> set (items (pwrites w)). pw_socket p \<noteq> s \<longrightarrow> pending_ok p"
    and w': "pwrites w' = snd (l_unlink (pwrites w) (pending_socketcompare s))"
    "write_pending w' = snd (l_unlink (write_pending w) ((=) s))"
  shows "writes_inv w'" "s \<notin> set (items (write_pending w'))"
proof -
  have d: "distinct (map pw_socket (items (pwrites w)))" "distinct (map id (items (write_pending w)))"
    using assms by auto
  have e: "(=) s = (\<lambda>x. x = s)" by auto
  have p: "items (pwrites w') = filter (\<lambda>p. pw_socket p \<noteq> s) (items (pwrites w))"
    using l_unlink_filter [OF assms(1) d(1), of s] w' unfolding pending_socketcompare_def by simp
  have q: "items (write_pending w') = filter (\<lambda>t. t \<noteq> s) (items (write_pending w))"
    using l_unlink_filter [OF assms(2) d(2), of s] w' e by simp
  have "map pw_socket (filter (\<lambda>p. pw_socket p \<noteq> s) xs) = filter (\<lambda>t. t \<noteq> s) (map pw_socket xs)"
    for xs :: "pending_write list"
    by (induction xs) auto
  then have "map pw_socket (items (pwrites w')) = items (write_pending w')"
    using p q assms(4) by metis
  then show "writes_inv w'" using assms p q w' by (simp add: writes_inv_def)
  show "s \<notin> set (items (write_pending w'))" using q by simp
qed

lemma Socket_close_clears:
  assumes inv: "writes_inv w" and r: "Socket_close s w = Some w'"
  shows "writes_inv w'" "unsent s w' = []" "s \<notin> set (items (write_pending w'))"
    "distinct (map pfd (fds_read w)) \<Longrightarrow> s \<notin> pfd ` set (fds_read w')"
proof -
  let ?w1 = "Socket_abortWrite s w"
  have aa: "cur_ok (pwrites ?w1) \<and> map pw_socket (items (pwrites ?w1)) = items (write_pending w)
      \<and> write_pending ?w1 = write_pending w \<and> fds_read ?w1 = fds_read w
      \<and> (\<forall>p \<in> set (items (pwrites ?w1)). pw_socket p \<noteq> s \<longrightarrow> pending_ok p)"
  proof (cases rule: getWrite_cases [OF inv, of s])
    case (1 w1)
    then have e: "?w1 = w1" by (simp add: Socket_abortWrite_def)
    have "write_pending w1 = write_pending w" "fds_read w1 = fds_read w" by (subst 1(3), simp)+
    then show ?thesis
      using 1(5) unfolding e by (simp add: writes_inv_def)
  next
    case (2 k p w1)
    then have e: "?w1 = w1\<lparr>pwrites := (pwrites w1)\<lparr>items := (items (pwrites w))[k := free_iovecs p]\<rparr>\<rparr>"
      by (simp add: Socket_abortWrite_def set_current_write_def)
    have "map pw_socket ((items (pwrites w))[k := free_iovecs p]) = map pw_socket (items (pwrites w))"
      using 2(2-4) by (metis (no_types) free_iovecs_def list_update_id map_update nth_map pending_write.select_convs(1)
          pending_write.surjective pending_write.update_convs(4))
    moreover have "write_pending w1 = write_pending w" "fds_read w1 = fds_read w" by (subst 2(6), simp)+
    ultimately show ?thesis
      using inv 2(2,4,5) set_update_subset_insert [of "items (pwrites w)" k "free_iovecs p"] unfolding e
      by (auto simp: writes_inv_def cur_ok_def free_iovecs_def)
  qed
  then have a: "cur_ok (pwrites ?w1)" "map pw_socket (items (pwrites ?w1)) = items (write_pending w)"
    "write_pending ?w1 = write_pending w" "fds_read ?w1 = fds_read w"
    "\<forall>p \<in> set (items (pwrites ?w1)). pw_socket p \<noteq> s \<longrightarrow> pending_ok p" by blast+
  define w2 where "w2 = snd (SocketBuffer_writeComplete s ?w1)"
  define w3 where "w3 = SocketBuffer_cleanup s ?w1"
  have w2: "pwrites w2 = snd (l_unlink (pwrites ?w1) (pending_socketcompare s))"
    "write_pending w2 = write_pending w" "fds_read w2 = fds_read w"
    using a by (simp_all add: w2_def SocketBuffer_writeComplete_def split: prod.split)
  have w3: "pwrites w3 = pwrites w2" "write_pending w3 = write_pending w" "fds_read w3 = fds_read w"
    using w2 by (auto simp: w3_def w2_def [symmetric] SocketBuffer_cleanup_def Let_def find_queue_def
        split: prod.splits)
  define w4 where "w4 = w3\<lparr>connect_pending := snd (l_unlink (connect_pending w3) ((=) s)),
      write_pending := snd (l_unlink (write_pending w3) ((=) s))\<rparr>"
  have w': "(w' = w4 \<and> fds_read w4 = []) \<or> (w' = w4\<lparr>fds_read := remove_fd s (fds_read w), fds_write := remove_fd s (fds_write w4)\<rparr>)"
    using r w3(3) by (auto simp: Socket_close_def w4_def w3_def [symmetric] Let_def split: if_splits)
  have pw: "pwrites w' = snd (l_unlink (pwrites ?w1) (pending_socketcompare s))"
    "write_pending w' = snd (l_unlink (write_pending ?w1) ((=) s))"
    using w' w3 w2 a(3) by (auto simp: w4_def)
  have "cur_ok (write_pending ?w1)" "distinct (items (write_pending ?w1))"
    "map pw_socket (items (pwrites ?w1)) = items (write_pending ?w1)"
    using a inv by (simp_all add: writes_inv_def)
  note rem = remove_pending [OF a(1) this a(5) pw]
  show "writes_inv w'" "s \<notin> set (items (write_pending w'))" using rem by simp_all
  then have "s \<notin> set (map pw_socket (items (pwrites w')))" by (simp add: writes_inv_def)
  then show "unsent s w' = []"
    using find_None_iff_image [of pw_socket s "items (pwrites w')"] by (simp add: unsent_def)
  have "distinct (map pfd xs) \<Longrightarrow> s \<notin> pfd ` set (remove_fd s xs)" for xs :: "pollfd list"
    by (induction xs) auto
  moreover have "fds_read w' = [] \<or> fds_read w' = remove_fd s (fds_read w)" using w' by auto
  ultimately show "distinct (map pfd (fds_read w)) \<Longrightarrow> s \<notin> pfd ` set (fds_read w')"
    by (elim disjE) simp_all
qed

section \<open>Properties\<close>

text \<open>C12. A packet given to \<open>Socket_putdatas\<close> is accepted whole or not at all. With the bytes written
  on a socket and the bytes still to be written taken together, an accepted packet is put at the
  end, directly behind everything accepted before; it is complete exactly when nothing is left to
  write. A refused packet adds nothing, and no other socket is touched.\<close>

theorem putdatas_stream:
  assumes "writes_inv w" "Socket_putdatas s buf0 bufs frees w = (rc, w')"
  shows "writes_inv w' \<and> rc \<in> {TCPSOCKET_COMPLETE, TCPSOCKET_INTERRUPTED, SOCKET_ERROR}
    \<and> outstream s w' = outstream s w @ (if rc = SOCKET_ERROR then [] else buf0 @ concat bufs)
    \<and> (rc \<noteq> SOCKET_ERROR \<longrightarrow> unsent s w = [] \<and> (rc = TCPSOCKET_COMPLETE \<longleftrightarrow> unsent s w' = []))
    \<and> (\<forall>t. t \<noteq> s \<longrightarrow> outstream t w' = outstream t w \<and> tx w' t = tx w t)"
  using putdatas_spec [OF assms] by auto

definition sample_sockets :: sockets where
  "sample_sockets = \<lparr>rx = (\<lambda>_. []), tx = (\<lambda>_. []), recv_plan = (\<lambda>_. Move 1), recvs = 0,
     writev_plan = (\<lambda>k. Move (k + 2)), writevs = 0,
     def_queue = \<lparr>q_socket = 0, q_index = 0, headerlen = 0, fixed_header = replicate 5 0,
                  q_buflen = 0, datalen = 0, q_buf = []\<rparr>,
     queues = l_empty, pwrites = l_empty, connect_pending = l_empty, write_pending = l_empty,
     fds_read = [\<lparr>pfd = 5, pollin = False, pollout = True, pollerr = False\<rparr>],
     fds_write = [\<lparr>pfd = 5, pollin = False, pollout = True, pollerr = False\<rparr>],
     saved_cur = -1, saved_read = [],
     saved_write = [\<lparr>pfd = 5, pollin = False, pollout = True, pollerr = False\<rparr>]\<rparr>"

lemma sample_sockets_inv: "writes_inv sample_sockets"
  by (simp add: sample_sockets_def writes_inv_def)

lemma putdatas_stream_witness:
  "outstream 5 (snd (Socket_putdatas 5 [1, 2] [[3], [4, 5]] [True, False] sample_sockets)) = [1, 2, 3, 4, 5]
   \<and> fst (Socket_putdatas 5 [1, 2] [[3], [4, 5]] [True, False] sample_sockets) = TCPSOCKET_INTERRUPTED"
proof -
  have "fst (Socket_putdatas 5 [1, 2] [[3], [4, 5]] [True, False] sample_sockets) = TCPSOCKET_INTERRUPTED"
    by code_simp
  moreover obtain rc w' where r: "Socket_putdatas 5 [1, 2] [[3], [4, 5]] [True, False] sample_sockets = (rc, w')"
    by fastforce
  moreover have "outstream 5 sample_sockets = []"
    by (simp add: outstream_def unsent_def sample_sockets_def)
  ultimately show ?thesis
    using putdatas_stream [OF sample_sockets_inv r] by simp
qed





end
