(* ===== verification/WebSocket.thy ===== *)
theory WebSocket
  imports Socket PacketCodec
begin

text \<open>
  \<open>MqttC/WebSocket.c\<close>: building and masking frames, sending packets through them, receiving frames
  into a queue and reading MQTT data out of it. Opening a websocket connection is in another theory.

  A queued frame is a pointer to its data and position; \<open>None\<close> in the queue stands for a frame that
  has been freed and is still referred to, so that following it is undefined (\<open>None\<close>). The
  capacity of \<open>frame_buffer\<close> does not matter and is left out.
\<close>

section \<open>State\<close>

record nethandles =
  socket :: int
  lastSent :: int
  lastReceived :: int
  lastPing :: int
  http_proxy :: "bytes cptr"
  http_proxy_auth :: "bytes cptr"
  websocket :: bool
  websocket_key :: "bytes cptr"
  httpHeaders :: "(bytes \<times> bytes) list cptr"

record packet_buffers =
  pb_buffers :: "bytes list"
  pb_frees :: "bool list"
  pb_mask :: bytes

record ws_frame =
  fr_data :: bytes
  fr_pos :: nat

record websock = sockets +
  in_frames :: "ws_frame option list"
  last_frame :: "ws_frame cptr"
  frame_buffer :: bytes
  frame_buffer_index :: nat
  rand_plan :: "nat \<Rightarrow> nat"
  rands :: nat
  clock :: int

abbreviation (input) WebSocket_OP_CONTINUE :: nat where "WebSocket_OP_CONTINUE \<equiv> 0"
abbreviation (input) WebSocket_OP_TEXT :: nat where "WebSocket_OP_TEXT \<equiv> 1"
abbreviation (input) WebSocket_OP_BINARY :: nat where "WebSocket_OP_BINARY \<equiv> 2"
abbreviation (input) WebSocket_OP_CLOSE :: nat where "WebSocket_OP_CLOSE \<equiv> 8"
abbreviation (input) WebSocket_OP_PING :: nat where "WebSocket_OP_PING \<equiv> 9"
abbreviation (input) WebSocket_OP_PONG :: nat where "WebSocket_OP_PONG \<equiv> 10"
abbreviation (input) WebSocket_CLOSE_NORMAL :: int where "WebSocket_CLOSE_NORMAL \<equiv> 1000"
abbreviation (input) WebSocket_CLOSE_GOING_AWAY :: int where "WebSocket_CLOSE_GOING_AWAY \<equiv> 1001"
abbreviation (input) WebSocket_CLOSE_TLS_FAIL :: int where "WebSocket_CLOSE_TLS_FAIL \<equiv> 1015"

section \<open>Building frames\<close>

definition WebSocket_calculateFrameHeaderSize :: "nethandles \<Rightarrow> bool \<Rightarrow> nat \<Rightarrow> nat" where
  "WebSocket_calculateFrameHeaderSize net mask_data data_len =
     (if websocket net then
        (if data_len < 126 then 2 else if data_len < 65536 then 4
         else if data_len < 18446744073709551615 then 10 else 0)
        + (if mask_data then 4 else 0)
      else 0)"

text \<open>The bytes are combined with the mask, starting at index \<open>idx\<close> of the frame's payload.\<close>

fun mask_bytes :: "bytes \<Rightarrow> nat \<Rightarrow> bytes \<Rightarrow> bytes" where
  "mask_bytes msk idx [] = []"
| "mask_bytes msk idx (b # bs) = (b XOR msk ! (idx mod 4)) # mask_bytes msk (Suc idx) bs"

text \<open>
  The loop over the payload buffers, for buffer \<open>i\<close> of \<open>n\<close>: with an old mask it stops at the
  third buffer and at the last one, which it takes to be masked already.
\<close>

fun mask_buffers :: "bool \<Rightarrow> bytes \<Rightarrow> nat \<Rightarrow> nat \<Rightarrow> nat \<Rightarrow> bytes list \<Rightarrow> bytes list" where
  "mask_buffers new_mask msk n i idx [] = []"
| "mask_buffers new_mask msk n i idx (b # bs) =
     (if \<not> new_mask \<and> (i = 2 \<or> Suc i = n) then b # bs
      else mask_bytes msk idx b # mask_buffers new_mask msk n (Suc i) (idx + length b) bs)"

text \<open>\<open>rand() % UINT8_MAX\<close>, four times.\<close>

definition next_rand :: "'z websock_scheme \<Rightarrow> nat \<times> 'z websock_scheme" where
  "next_rand w = (rand_plan w (rands w), w\<lparr>rands := rands w + 1\<rparr>)"

definition new_ws_mask :: "'z websock_scheme \<Rightarrow> bytes \<times> 'z websock_scheme" where
  "new_ws_mask w =
     (let (a, w1) = next_rand w; (b, w2) = next_rand w1; (c, w3) = next_rand w2; (d, w4) = next_rand w3
      in (map (\<lambda>r. of_nat (r mod 255)) [a, b, c, d], w4))"

definition be_bytes :: "nat \<Rightarrow> nat \<Rightarrow> bytes" where
  "be_bytes k n = map (\<lambda>i. of_nat (n div 256 ^ (k - 1 - i))) [0..<k]"

text \<open>
  \<open>WebSocket_buildFrame\<close>: the frame header with the (masked) first buffer, the payload buffers and
  their mask afterwards. \<open>buf0 = NULL\<close> sends a header only.
\<close>

definition WebSocket_buildFrame ::
    "nethandles \<Rightarrow> nat \<Rightarrow> bool \<Rightarrow> bytes cptr \<Rightarrow> packet_buffers \<Rightarrow> 'z websock_scheme
     \<Rightarrow> bytes \<times> packet_buffers \<times> 'z websock_scheme" where
  "WebSocket_buildFrame net opcode mask_data pbuf0 bufs w =
     (if \<not> websocket net then ([], bufs, w)
      else
        let buf0 = (case pbuf0 of NULL \<Rightarrow> [] | Ptr b \<Rightarrow> b);
            data_len = length buf0 + sum_list (map length (pb_buffers bufs));
            new_mask = mask_data \<and> pb_mask bufs ! 0 = 0;
            (msk, w1) = (if new_mask then new_ws_mask w else (pb_mask bufs, w));
            byte1 = 0x80 OR (of_nat opcode AND 0x0F);
            maskbit = (if mask_data then 0x80 else 0);
            header = (if data_len < 126 then [byte1, maskbit OR of_nat data_len]
                      else if data_len < 65536 then [byte1, maskbit OR 126] @ be_bytes 2 data_len
                      else [byte1, maskbit OR 127] @ be_bytes 8 data_len)
        in if mask_data
           then (header @ msk @ mask_bytes msk 0 buf0,
                 bufs\<lparr>pb_mask := msk,
                      pb_buffers := mask_buffers new_mask msk (length (pb_buffers bufs)) 0
                                      (length buf0) (pb_buffers bufs)\<rparr>, w1)
           else (header @ buf0, bufs, w1))"

fun unmask_loop :: "bytes \<Rightarrow> nat \<Rightarrow> bytes list \<Rightarrow> bytes list" where
  "unmask_loop msk idx [] = []"
| "unmask_loop msk idx (b # bs) = mask_bytes msk idx b # unmask_loop msk (idx + length b) bs"

definition WebSocket_unmaskData :: "nat \<Rightarrow> packet_buffers \<Rightarrow> packet_buffers" where
  "WebSocket_unmaskData idx bufs =
     bufs\<lparr>pb_buffers := unmask_loop (pb_mask bufs) idx (pb_buffers bufs), pb_mask := [0, 0, 0, 0]\<rparr>"

section \<open>Sending\<close>

definition nulbufs :: packet_buffers where
  "nulbufs = \<lparr>pb_buffers = [], pb_frees = [], pb_mask = [0, 0, 0, 0]\<rparr>"

definition WebSocket_putdatas ::
    "nethandles \<Rightarrow> bytes \<Rightarrow> packet_buffers \<Rightarrow> 'z websock_scheme \<Rightarrow> int \<times> packet_buffers \<times> 'z websock_scheme"
    where
  "WebSocket_putdatas net buf0 bufs w =
     (if websocket net then
        (case WebSocket_buildFrame net WebSocket_OP_BINARY True (Ptr buf0) bufs w of (wsbuf0, bufs1, w1) \<Rightarrow>
           (case Socket_putdatas (socket net) wsbuf0 (pb_buffers bufs1) (pb_frees bufs1) w1 of (rc, w2) \<Rightarrow>
              (rc, if rc \<noteq> TCPSOCKET_INTERRUPTED then WebSocket_unmaskData (length buf0) bufs1 else bufs1, w2)))
      else (case Socket_putdatas (socket net) buf0 (pb_buffers bufs) (pb_frees bufs) w of (rc, w1) \<Rightarrow>
              (rc, bufs, w1)))"

definition WebSocket_close ::
    "nethandles \<Rightarrow> int \<Rightarrow> bytes cptr \<Rightarrow> 'z websock_scheme \<Rightarrow> nethandles \<times> 'z websock_scheme" where
  "WebSocket_close net status_code reason w =
     (let (net1, w1) =
        (if websocket net then
           (let status = (if status_code < WebSocket_CLOSE_NORMAL \<or> status_code > WebSocket_CLOSE_TLS_FAIL
                          then WebSocket_CLOSE_GOING_AWAY else status_code);
                buf0 = be_bytes 2 (nat status) @ (case reason of NULL \<Rightarrow> [] | Ptr r \<Rightarrow> cstr r);
                (wsbuf0, bufs, w1) = WebSocket_buildFrame net WebSocket_OP_CLOSE True (Ptr buf0) nulbufs w
            in (net\<lparr>websocket := False\<rparr>,
                snd (Socket_putdatas (socket net) wsbuf0 (pb_buffers bufs) (pb_frees bufs) w1)))
         else (net, w))
      in (net1\<lparr>websocket_key := NULL\<rparr>, w1))"

definition WebSocket_pong :: "nethandles \<Rightarrow> bytes \<Rightarrow> 'z websock_scheme \<Rightarrow> 'z websock_scheme" where
  "WebSocket_pong net app_data w =
     (if websocket net then
        (case WebSocket_buildFrame net WebSocket_OP_PONG True NULL
                (nulbufs\<lparr>pb_buffers := [app_data], pb_frees := [False]\<rparr>) w of (wsbuf0, bufs, w1) \<Rightarrow>
           snd (Socket_putdatas (socket net) wsbuf0 (pb_buffers bufs) (pb_frees bufs) w1))
      else w)"

section \<open>Receiving\<close>

text \<open>
  \<open>WebSocket_getRawSocketData\<close>: the bytes at the returned pointer, \<open>NULL\<close> if there are none to
  return, the code \<open>rc\<close> (left as it was where the C function does not set it) and the state.
  \<open>Socket_getdata\<close> leaves the result of \<open>recv\<close>, or the error number, in \<open>rc\<close>.
\<close>

definition getdata_rc :: "int \<Rightarrow> nat \<Rightarrow> int \<Rightarrow> 'z websock_scheme \<Rightarrow> int" where
  "getdata_rc s n rc w =
     (if n = 0 then rc
      else case SocketBuffer_getQueuedData s n w of (old, w1) \<Rightarrow>
        (case os_recv s (n - length old) w1 of
           (Inl err, _) \<Rightarrow> err
         | (Inr got, _) \<Rightarrow> int (length got)))"

definition WebSocket_getRawSocketData ::
    "nethandles \<Rightarrow> nat \<Rightarrow> int \<Rightarrow> 'z websock_scheme \<Rightarrow> bytes cptr \<times> int \<times> 'z websock_scheme" where
  "WebSocket_getRawSocketData net n rc0 w =
     (let avail = length (frame_buffer w) - frame_buffer_index w
      in if n > 0 \<and> avail \<ge> n
         then (Ptr (take n (drop (frame_buffer_index w) (frame_buffer w))), int n,
               w\<lparr>frame_buffer_index := frame_buffer_index w + n\<rparr>)
         else
           let wanted = n - avail;
               rc = getdata_rc (socket net) wanted rc0 w;
               (rv, actual, w1) = Socket_getdata (socket net) wanted w
           in if rc = 0 then (rv, SOCKET_ERROR, w1)
              else if wanted = 0
              then (case rv of NULL \<Rightarrow> NULL | Ptr _ \<Rightarrow> Ptr [], rc, w1\<lparr>frame_buffer_index := 0, frame_buffer := []\<rparr>)
              else case rv of
                NULL \<Rightarrow> (NULL, rc, w1)
              | Ptr d \<Rightarrow>
                  if actual = 0 then (Ptr [], rc, w1)
                  else
                    let w2 = w1\<lparr>frame_buffer := frame_buffer w1 @ d,
                                frame_buffer_index := (if frame_buffer w1 = [] then 0
                                                       else frame_buffer_index w1)\<rparr>;
                        w3 = snd (SocketBuffer_complete (socket net) w2);
                        m = min n (length (frame_buffer w3) - frame_buffer_index w3)
                    in (Ptr (take m (drop (frame_buffer_index w3) (frame_buffer w3))), rc,
                        w3\<lparr>frame_buffer_index := frame_buffer_index w3 + m\<rparr>))"

definition WebSocket_rewindData :: "'z websock_scheme \<Rightarrow> 'z websock_scheme" where
  "WebSocket_rewindData w = w\<lparr>frame_buffer_index := 0\<rparr>"

text \<open>
  Reading \<open>n\<close> bytes of a frame, as every step of \<open>WebSocket_receiveFrame\<close> does it: the code to leave
  the function with, or the bytes. At the first read a missing pointer counts as an interruption.
\<close>

definition raw_step ::
    "bool \<Rightarrow> nethandles \<Rightarrow> nat \<Rightarrow> int \<Rightarrow> 'z websock_scheme \<Rightarrow> (int + bytes) \<times> int \<times> 'z websock_scheme" where
  "raw_step at_start net n rc0 w =
     (case WebSocket_getRawSocketData net n rc0 w of (b, rcs, w1) \<Rightarrow>
        (if rcs = SOCKET_ERROR then Inl rcs
         else case b of
           NULL \<Rightarrow> Inl (if at_start then TCPSOCKET_INTERRUPTED else SOCKET_ERROR)
         | Ptr d \<Rightarrow> if length d < n then Inl TCPSOCKET_INTERRUPTED else Inr d, rcs, w1))"

definition be_value :: "bytes \<Rightarrow> nat" where
  "be_value bs = foldl (\<lambda>acc b. acc * 256 + unat b) 0 bs"

text \<open>The header and payload of one frame: final flag, opcode and payload.\<close>

definition frame_header ::
    "nethandles \<Rightarrow> nat \<Rightarrow> 'z websock_scheme
     \<Rightarrow> (int + bool \<times> nat \<times> bool \<times> nat) \<times> int \<times> 'z websock_scheme" where
  "frame_header net opcode w =
     (case raw_step True net 2 0 w of
        (Inl e, rcs, w1) \<Rightarrow> (Inl e, rcs, w1)
      | (Inr b, rcs, w1) \<Rightarrow>
          let is_final = bit (b ! 0) 7;
              tmp_opcode = unat (b ! 0 AND 0x0F);
              opcode1 = (if tmp_opcode \<noteq> 0 then tmp_opcode else opcode);
              has_mask = bit (b ! 1) 7;
              len7 = unat (b ! 1 AND 0x7F)
          in if opcode1 > WebSocket_OP_PONG \<or> (opcode1 > WebSocket_OP_BINARY \<and> opcode1 < WebSocket_OP_CLOSE)
             then (Inl SOCKET_ERROR, rcs, w1)
             else if len7 = 126 \<or> len7 = 127
             then (case raw_step False net (if len7 = 126 then 2 else 8) rcs w1 of
                     (Inl e, rcs2, w2) \<Rightarrow> (Inl e, rcs2, w2)
                   | (Inr l, rcs2, w2) \<Rightarrow> (Inr (is_final, opcode1, has_mask, be_value l), rcs2, w2))
             else (Inr (is_final, opcode1, has_mask, len7), rcs, w1))"

text \<open>
  The mask of the frame is read into \<open>mask_t\<close>; the payload is combined with \<open>mask\<close>, which is
  all zero.
\<close>

definition frame_payload ::
    "nethandles \<Rightarrow> bool \<Rightarrow> nat \<Rightarrow> int \<Rightarrow> 'z websock_scheme \<Rightarrow> (int + bytes) \<times> int \<times> 'z websock_scheme" where
  "frame_payload net has_mask payload_len rcs w =
     (case (if has_mask then raw_step False net 4 rcs w else (Inr [], rcs, w)) of
        (Inl e, rcs1, w1) \<Rightarrow> (Inl e, rcs1, w1)
      | (Inr mask_t, rcs1, w1) \<Rightarrow>
          (case raw_step False net payload_len rcs1 w1 of
             (Inl e, rcs2, w2) \<Rightarrow> (Inl e, rcs2, w2)
           | (Inr b, rcs2, w2) \<Rightarrow>
               (Inr (if has_mask then mask_bytes [0, 0, 0, 0] 0 b else b), rcs2, w2)))"

text \<open>Storing the frame being assembled in the queue, where it is the first element.\<close>

definition set_first_frame :: "ws_frame option \<Rightarrow> 'z websock_scheme \<Rightarrow> 'z websock_scheme" where
  "set_first_frame res w =
     (case in_frames w of [] \<Rightarrow> w | f # fs \<Rightarrow> w\<lparr>in_frames := res # fs\<rparr>)"

text \<open>
  The two loops of \<open>WebSocket_receiveFrame\<close>. \<open>res\<close> is the frame being assembled (\<open>NULL\<close> or
  allocated), \<open>opcode\<close> the opcode of the sequence. Control frames are answered or discarded and
  reading goes on; a ping that is appended to a frame of the queue frees that frame, to which the
  queue still refers. \<open>fuel\<close> bounds the number of frames.
\<close>

fun receive_loop ::
    "nat \<Rightarrow> nethandles \<Rightarrow> nat \<Rightarrow> ws_frame cptr \<Rightarrow> 'z websock_scheme
     \<Rightarrow> (int \<times> ws_frame cptr \<times> nethandles \<times> 'z websock_scheme) option" where
  "receive_loop 0 net opcode res w = None"
| "receive_loop (Suc fuel) net opcode res w =
     (case frame_header net opcode w of
        (Inl e, rcs, w1) \<Rightarrow> Some (e, res, net, w1)
      | (Inr (is_final, opcode1, has_mask, payload_len), rcs, w1) \<Rightarrow>
          (case frame_payload net has_mask payload_len rcs w1 of
             (Inl e, rcs2, w2) \<Rightarrow> Some (e, res, net, w2)
           | (Inr b, rcs2, w2) \<Rightarrow>
               let frame = (case res of
                              NULL \<Rightarrow> \<lparr>fr_data = b, fr_pos = 0\<rparr>
                            | Ptr f \<Rightarrow> f\<lparr>fr_data := fr_data f @ b\<rparr>);
                   w3 = set_first_frame (Some frame) w2;
                   (_, rcs3, w4) = WebSocket_getRawSocketData net 0 rcs2 w3
               in if rcs3 = SOCKET_ERROR then Some (SOCKET_ERROR, Ptr frame, net, w4)
                  else if \<not> is_final then receive_loop fuel net opcode1 (Ptr frame) w4
                  else if opcode1 = WebSocket_OP_PING \<or> opcode1 = WebSocket_OP_PONG then
                    let w5 = (if opcode1 = WebSocket_OP_PING then WebSocket_pong net (fr_data frame) w4 else w4)
                    in receive_loop fuel net opcode1 NULL (set_first_frame None w5)
                  else if opcode1 = WebSocket_OP_CLOSE then
                    (case WebSocket_close net WebSocket_CLOSE_GOING_AWAY NULL w4 of (net1, w5) \<Rightarrow>
                       Some (SOCKET_ERROR, NULL, net1, set_first_frame None w5))
                  else Some (TCPSOCKET_COMPLETE, Ptr frame, net, w4)))"

text \<open>
  \<open>WebSocket_receiveFrame\<close>: the code, \<open>actual_len\<close> (0 where the C function leaves it), and the
  states. The first frame of the queue is continued; \<open>None\<close> if it has been freed. Every frame takes
  at least two of the bytes that are buffered or still to be received.
\<close>

definition WebSocket_receiveFrame ::
    "nethandles \<Rightarrow> 'z websock_scheme \<Rightarrow> (int \<times> nat option \<times> nethandles \<times> 'z websock_scheme) option" where
  "WebSocket_receiveFrame net w =
     (case (case in_frames w of [] \<Rightarrow> Some NULL | None # _ \<Rightarrow> None | Some f # _ \<Rightarrow> Some (Ptr f)) of
        None \<Rightarrow> None
      | Some res \<Rightarrow>
          (case receive_loop (Suc (length (rx w (socket net)) + length (frame_buffer w))) net
                  WebSocket_OP_BINARY res w of
             None \<Rightarrow> None
           | Some (rc, res1, net1, w1) \<Rightarrow>
               if rc = TCPSOCKET_COMPLETE
               then (case res1 of
                       NULL \<Rightarrow> None
                     | Ptr f \<Rightarrow>
                         Some (rc, Some (length (fr_data f) - fr_pos f), net1,
                               if in_frames w1 = [] then w1\<lparr>in_frames := [Some f]\<rparr> else w1))
               else Some (rc, None, net1, if rc = TCPSOCKET_INTERRUPTED then WebSocket_rewindData w1 else w1)))"

section \<open>Reading MQTT data\<close>

definition frame_done :: "ws_frame \<Rightarrow> bool" where
  "frame_done f \<longleftrightarrow> fr_pos f = length (fr_data f)"

text \<open>
  The character is the byte read when the code is \<open>TCPSOCKET_COMPLETE\<close> and the frame had one; an
  empty frame leaves the character of the caller as it was (0 here).
\<close>

definition WebSocket_getch ::
    "nethandles \<Rightarrow> 'z websock_scheme \<Rightarrow> (int \<times> byte \<times> nethandles \<times> 'z websock_scheme) option" where
  "WebSocket_getch net w =
     (if websocket net then
        (let received =
           (case in_frames w of
              Some f # _ \<Rightarrow> if frame_done f then map_option (\<lambda>(rc, _, n, w). (rc, n, w)) (WebSocket_receiveFrame net w)
                            else Some (TCPSOCKET_COMPLETE, net, w)
            | None # _ \<Rightarrow> None
            | [] \<Rightarrow> map_option (\<lambda>(rc, _, n, w). (rc, n, w)) (WebSocket_receiveFrame net w))
         in case received of
              None \<Rightarrow> None
            | Some (rc, net1, w1) \<Rightarrow>
                if rc \<noteq> TCPSOCKET_COMPLETE then Some (rc, 0, net1, w1)
                else (case in_frames w1 of
                        Some f # fs \<Rightarrow>
                          if fr_pos f < length (fr_data f)
                          then Some (TCPSOCKET_COMPLETE, fr_data f ! fr_pos f, net1,
                                     w1\<lparr>in_frames := Some (f\<lparr>fr_pos := fr_pos f + 1\<rparr>) # fs\<rparr>)
                          else Some (rc, 0, net1, w1)
                      | _ \<Rightarrow> Some (rc, 0, net1, w1)))
      else (case Socket_getch (socket net) w of (rc, c, w1) \<Rightarrow> Some (rc, c, net, w1)))"

definition WebSocket_framePos :: "'z websock_scheme \<Rightarrow> nat option" where
  "WebSocket_framePos w =
     (case in_frames w of [] \<Rightarrow> Some 0 | None # _ \<Rightarrow> None | Some f # _ \<Rightarrow> Some (fr_pos f))"

definition WebSocket_framePosSeekTo :: "nat \<Rightarrow> 'z websock_scheme \<Rightarrow> 'z websock_scheme option" where
  "WebSocket_framePosSeekTo pos w =
     (case in_frames w of
        [] \<Rightarrow> Some w
      | None # _ \<Rightarrow> None
      | Some f # fs \<Rightarrow> Some (w\<lparr>in_frames := Some (f\<lparr>fr_pos := pos\<rparr>) # fs\<rparr>))"

text \<open>
  The loop of \<open>WebSocket_getdata\<close> that receives until the first frame has \<open>n\<close> bytes left. It ends
  with the bytes left and whether there are enough. Every completed frame adds to the queue, so the
  bytes still to come bound the rounds; an empty frame does not end the loop.
\<close>

fun getdata_loop ::
    "nat \<Rightarrow> nethandles \<Rightarrow> nat \<Rightarrow> 'z websock_scheme \<Rightarrow> (bytes \<times> bool \<times> nethandles \<times> 'z websock_scheme) option"
    where
  "getdata_loop 0 net n w = None"
| "getdata_loop (Suc fuel) net n w =
     (case in_frames w of
        Some f # _ \<Rightarrow>
          let left = drop (fr_pos f) (fr_data f)
          in if length left < n then
               (case WebSocket_receiveFrame net w of
                  None \<Rightarrow> None
                | Some (rc, _, net1, w1) \<Rightarrow>
                    if rc \<noteq> TCPSOCKET_COMPLETE then Some (left, False, net1, w1)
                    else getdata_loop fuel net1 n w1)
             else Some (left, True, net, w)
      | _ \<Rightarrow> None)"

text \<open>The data (\<open>NULL\<close> or the bytes at the pointer) and \<open>actual_len\<close>, 0 on entry.\<close>

definition WebSocket_getdata ::
    "nethandles \<Rightarrow> nat \<Rightarrow> 'z websock_scheme \<Rightarrow> (bytes cptr \<times> nat \<times> nethandles \<times> 'z websock_scheme) option"
    where
  "WebSocket_getdata net n w =
     (if websocket net then
        if n = 0 then
          (case in_frames w of
             [] \<Rightarrow> Some (NULL, 0, net, w)
           | None # _ \<Rightarrow> None
           | Some f # fs \<Rightarrow>
               if frame_done f then Some (Ptr [], 0, net, w\<lparr>last_frame := Ptr f, in_frames := fs\<rparr>)
               else Some (NULL, 0, net, w))
        else
          (case (if in_frames w = []
                 then map_option (\<lambda>(rc, a, n, w). (rc, n, w)) (WebSocket_receiveFrame net w)
                 else Some (TCPSOCKET_COMPLETE, net, w)) of
             None \<Rightarrow> None
           | Some (rc, net1, w1) \<Rightarrow>
               if in_frames w1 = [] then Some (NULL, 0, net1, w1)
               else case getdata_loop (Suc (Suc (length (rx w1 (socket net)) + length (frame_buffer w1)))) net1 n w1 of
                 None \<Rightarrow> None
               | Some (left, enough, net2, w2) \<Rightarrow>
                   if \<not> enough then Some (Ptr left, length left, net2, w2)
                   else if length left > n
                   then Some (Ptr left, length left, net2,
                          (case in_frames w2 of
                             Some f # fs \<Rightarrow> w2\<lparr>in_frames := Some (f\<lparr>fr_pos := fr_pos f + n\<rparr>) # fs\<rparr>
                           | _ \<Rightarrow> w2))
                   else Some (Ptr left, length left, net2,
                          (case in_frames w2 of
                             Some f # fs \<Rightarrow> w2\<lparr>last_frame := Ptr f, in_frames := fs\<rparr>
                           | _ \<Rightarrow> w2)))
      else (case Socket_getdata (socket net) n w of (d, len, w1) \<Rightarrow> Some (d, len, net, w1)))"

definition WebSocket_terminate :: "'z websock_scheme \<Rightarrow> 'z websock_scheme" where
  "WebSocket_terminate w =
     Socket_outTerminate (w\<lparr>in_frames := [], last_frame := NULL, frame_buffer := [], frame_buffer_index := 0\<rparr>)"

text \<open>Case-insensitive search: the position of the first match.\<close>

definition lower :: "byte \<Rightarrow> byte" where
  "lower c = (if 65 \<le> c \<and> c \<le> 90 then c + 32 else c)"

fun strcasefind_loop :: "nat \<Rightarrow> bytes \<Rightarrow> bytes \<Rightarrow> nat option" where
  "strcasefind_loop pos [] str = (if str = [] then Some pos else None)"
| "strcasefind_loop pos (b # bs) str =
     (if length str \<le> length (b # bs) then
        (if map lower (take (length str) (b # bs)) = map lower str then Some pos
         else strcasefind_loop (Suc pos) bs str)
      else None)"

definition WebSocket_strcasefind :: "bytes \<Rightarrow> bytes \<Rightarrow> nat option" where
  "WebSocket_strcasefind buf str = (if buf = [] then None else strcasefind_loop 0 buf (cstr str))"

section \<open>Masking\<close>

lemma length_mask_bytes [simp]: "length (mask_bytes m idx bs) = length bs"
  by (induction bs arbitrary: idx) auto

lemma mask_bytes_append: "mask_bytes m idx (xs @ ys) = mask_bytes m idx xs @ mask_bytes m (idx + length xs) ys"
  by (induction xs arbitrary: idx) auto

lemma mask_bytes_twice [simp]: "mask_bytes m idx (mask_bytes m idx bs) = bs"
  by (induction bs arbitrary: idx) (auto simp: xor.assoc)

lemma mask_bytes_zero [simp]: "mask_bytes [0, 0, 0, 0] idx bs = bs"
proof (induction bs arbitrary: idx)
  case (Cons b bs)
  have "[0, 0, 0, 0] ! (idx mod 4) = (0 :: byte)"
  proof -
    have "idx mod 4 \<in> {0, 1, 2, 3}" using mod_less_divisor [of 4 idx] by force
    then show ?thesis by auto
  qed
  with Cons show ?case by simp
qed simp

text \<open>A new mask is applied to all buffers.\<close>

lemma mask_buffers_new [simp]: "mask_buffers True m n i idx bs = unmask_loop m idx bs"
  by (induction bs arbitrary: i idx) auto

lemma concat_unmask_loop: "concat (unmask_loop m idx bs) = mask_bytes m idx (concat bs)"
  by (induction bs arbitrary: idx) (auto simp: mask_bytes_append)

lemma unmask_loop_twice [simp]: "unmask_loop m idx (unmask_loop m idx bs) = bs"
  by (induction bs arbitrary: idx) auto

lemma map_length_unmask_loop [simp]: "map length (unmask_loop m idx bs) = map length bs"
  by (induction bs arbitrary: idx) auto

lemma length_new_ws_mask [simp]: "length (fst (new_ws_mask w)) = 4"
  by (simp add: new_ws_mask_def split: prod.split)

lemma length_be_bytes [simp]: "length (be_bytes k n) = k"
  by (simp add: be_bytes_def)

lemma be_value_fold: "foldl (\<lambda>acc b. acc * 256 + unat b) a ys = a * 256 ^ length ys + be_value ys" for ys :: bytes
proof (induction ys rule: rev_induct)
  case (snoc y ys)
  then show ?case by (simp add: be_value_def algebra_simps)
qed (simp add: be_value_def)

lemma be_value_append: "be_value (xs @ ys) = be_value xs * 256 ^ length ys + be_value ys"
  using be_value_fold [of "be_value xs" ys] by (simp add: be_value_def)

lemma be_bytes_Suc: "be_bytes (Suc k) n = be_bytes k (n div 256) @ [of_nat n]"
proof -
  have "n div 256 ^ (k - i) = n div 256 div 256 ^ (k - 1 - i)" if "i < k" for i
  proof -
    have "k - i = Suc (k - 1 - i)" using that by simp
    then show ?thesis by (simp add: div_mult2_eq)
  qed
  then show ?thesis by (simp add: be_bytes_def)
qed

lemma be_value_be_bytes: "be_value (be_bytes k n) = n mod 256 ^ k"
proof (induction k arbitrary: n)
  case 0
  then show ?case by (simp add: be_bytes_def be_value_def)
next
  case (Suc k)
  have "be_value (be_bytes (Suc k) n) = n div 256 mod 256 ^ k * 256 + n mod 256"
    by (simp add: be_bytes_Suc be_value_append Suc) (simp add: be_value_def unat_of_nat)
  also have "\<dots> = n mod 256 ^ Suc k"
    using mod_mult2_eq [of n 256 "256 ^ k"] by simp
  finally show ?case .
qed

section \<open>The format of RFC 6455\<close>

text \<open>
  An independent reader of frames: final flag, opcode, unmasked payload, and what follows the frame.
\<close>

definition rfc6455_parse :: "bytes \<Rightarrow> (bool \<times> nat \<times> bytes \<times> bytes) option" where
  "rfc6455_parse bs =
     (case bs of
        b0 # b1 # rest \<Rightarrow>
          let len7 = unat (b1 AND 0x7F);
              ext = (if len7 = 126 then 2 else if len7 = 127 then 8 else 0);
              n = (if ext = 0 then len7 else be_value (take ext rest));
              rest1 = drop ext rest;
              msk = (if bit b1 7 then take 4 rest1 else [0, 0, 0, 0]);
              rest2 = (if bit b1 7 then drop 4 rest1 else rest1)
          in if length rest < ext + (if bit b1 7 then 4 else 0) + n then None
             else Some (bit b0 7, unat (b0 AND 0x0F), mask_bytes msk 0 (take n rest2), drop n rest2)
      | _ \<Rightarrow> None)"

lemma and_127_take_bit: "(x AND 0x7F :: byte) = take_bit 7 x"
  by (simp add: take_bit_eq_mask mask_eq_exp_minus_1)

lemma and_15_take_bit: "(x AND 0x0F :: byte) = take_bit 4 x"
  by (simp add: take_bit_eq_mask mask_eq_exp_minus_1)

lemma byte1_fields:
  assumes "n < 16"
  shows "bit (0x80 OR (of_nat n AND 0x0F) :: byte) 7"
    and "unat ((0x80 OR (of_nat n AND 0x0F)) AND 0x0F :: byte) = n"
proof -
  have "bit (0x80 :: byte) 7" by simp
  then show "bit (0x80 OR (of_nat n AND 0x0F) :: byte) 7" by (simp only: bit_or_iff simp_thms)
  have "(0x80 OR (of_nat n AND 0x0F)) AND 0x0F = (take_bit 4 0x80 OR take_bit 4 (of_nat n) :: byte)"
    by (simp only: and_15_take_bit take_bit_or take_bit_of_nat) (simp add: take_bit_or)
  also have "take_bit 4 (0x80 :: byte) = 0" by simp
  finally have E: "(0x80 OR (of_nat n AND 0x0F)) AND 0x0F = (take_bit 4 (of_nat n) :: byte)" by simp
  show "unat ((0x80 OR (of_nat n AND 0x0F)) AND 0x0F :: byte) = n"
    unfolding E unsigned_take_bit_eq unat_of_nat_byte using assms by (simp add: take_bit_eq_mod)
qed

lemma byte2_fields:
  assumes "l < 128"
  shows "bit ((if m then 0x80 else 0) OR of_nat l :: byte) 7 \<longleftrightarrow> m"
    and "unat (((if m then 0x80 else 0) OR of_nat l) AND 0x7F :: byte) = l"
proof -
  have "\<not> bit (of_nat l :: byte) 7" using assms by (simp add: bit_7_iff unat_of_nat_byte)
  moreover have "bit (0x80 :: byte) 7" by simp
  ultimately show "bit ((if m then 0x80 else 0) OR of_nat l :: byte) 7 \<longleftrightarrow> m"
    by (simp only: bit_or_iff) (cases m; simp)
  have "take_bit 7 (if m then 0x80 else 0 :: byte) = 0" by simp
  then have E: "((if m then 0x80 else 0) OR of_nat l) AND 0x7F = (take_bit 7 (of_nat l) :: byte)"
    by (simp only: and_127_take_bit take_bit_or or.left_neutral)
  show "unat (((if m then 0x80 else 0) OR of_nat l) AND 0x7F :: byte) = l"
    unfolding E unsigned_take_bit_eq unat_of_nat_byte using assms by (simp add: take_bit_eq_mod)
qed

lemma parse_masked:
  assumes "bs = b0 # b1 # ext @ msk @ pay" "bit b0 7" "unat (b0 AND 0x0F) = opc"
    "unat (b1 AND 0x7F) = l7" "bit b1 7"
    "length ext = (if l7 = 126 then 2 else if l7 = 127 then 8 else 0)"
    "(if length ext = 0 then l7 else be_value ext) = n" "length msk = 4" "length pay = n"
    "mask_bytes msk 0 pay = plain"
  shows "rfc6455_parse bs = Some (True, opc, plain, [])"
proof -
  have e: "(if unat (b1 AND 0x7F) = 126 then 2 else if unat (b1 AND 0x7F) = 127 then 8 else 0) = length ext"
    using assms(4,6) by simp
  have n: "(if length ext = 0 then unat (b1 AND 0x7F) else be_value ext) = length pay"
    using assms(4,7,9) by (simp only:)
  show ?thesis
    unfolding rfc6455_parse_def assms(1) list.case Let_def e
    using assms(2,3,5,8,10) n by (cases "ext = []") simp_all
qed

text \<open>A frame with a mask on all of it is read back as the opcode and the payload.\<close>

lemma buildFrame_parse:
  assumes "websocket net" "opcode < 16" "pb_mask bufs = [0, 0, 0, 0]"
    "length buf0 + sum_list (map length (pb_buffers bufs)) < 18446744073709551615"
    and b: "WebSocket_buildFrame net opcode True (Ptr buf0) bufs w = (wsbuf0, bufs1, w1)"
  shows "rfc6455_parse (wsbuf0 @ concat (pb_buffers bufs1)) = Some (True, opcode, buf0 @ concat (pb_buffers bufs), [])"
    and "WebSocket_unmaskData (length buf0) bufs1 = bufs"
    and "length wsbuf0 = WebSocket_calculateFrameHeaderSize net True
           (length buf0 + sum_list (map length (pb_buffers bufs))) + length buf0"
    and "w1 = w\<lparr>rands := rands w1\<rparr>"
proof -
  obtain msk w2 where m: "new_ws_mask w = (msk, w2)" by fastforce
  then have lm: "length msk = 4" using length_new_ws_mask [of w] by simp
  let ?n = "length buf0 + sum_list (map length (pb_buffers bufs))"
  let ?payload = "buf0 @ concat (pb_buffers bufs)"
  let ?b1 = "0x80 OR (of_nat opcode AND 0x0F) :: byte"
  define ext where "ext = (if ?n < 126 then [] else if ?n < 65536 then be_bytes 2 ?n else be_bytes 8 ?n)"
  define l7 where "l7 = (if ?n < 126 then ?n else if ?n < 65536 then 126 else 127)"
  have l7: "l7 < 128" by (simp add: l7_def)
  have ws: "wsbuf0 = ?b1 # ((if True then 0x80 else 0) OR of_nat l7) # ext @ msk @ mask_bytes msk 0 buf0"
    and bufs1: "bufs1 = bufs\<lparr>pb_mask := msk, pb_buffers := unmask_loop msk (length buf0) (pb_buffers bufs)\<rparr>"
    and w1: "w1 = w2"
    using b assms(1,3) m by (auto simp: WebSocket_buildFrame_def Let_def ext_def l7_def)
  show "w1 = w\<lparr>rands := rands w1\<rparr>"
    using m w1 by (auto simp: new_ws_mask_def next_rand_def)
  show "WebSocket_unmaskData (length buf0) bufs1 = bufs"
    using assms(3) by (simp add: WebSocket_unmaskData_def bufs1)
  have lb: "length (concat (pb_buffers bufs)) = sum_list (map length (pb_buffers bufs))"
    by (simp add: length_concat)
  have cc: "mask_bytes msk 0 (mask_bytes msk 0 buf0 @ concat (pb_buffers bufs1)) = ?payload"
    by (simp add: bufs1 concat_unmask_loop mask_bytes_append)
  have lp: "length (mask_bytes msk 0 buf0 @ concat (pb_buffers bufs1)) = ?n"
    by (simp add: bufs1 concat_unmask_loop lb)
  have "length wsbuf0 = 6 + length ext + length buf0"
    using lm by (simp add: ws)
  then show "length wsbuf0 = WebSocket_calculateFrameHeaderSize net True ?n + length buf0"
    using assms(1,4) by (auto simp: WebSocket_calculateFrameHeaderSize_def ext_def)
  have le: "length ext = (if l7 = 126 then 2 else if l7 = 127 then 8 else 0)"
    by (auto simp: ext_def l7_def)
  have nv: "(if length ext = 0 then l7 else be_value ext) = ?n"
    using assms(4) by (cases "?n < 126"; cases "?n < 65536") (simp_all add: ext_def l7_def be_value_be_bytes del: length_0_conv)
  note f1 = byte1_fields [OF assms(2)] and f2 = byte2_fields [OF l7, of True]
  have bit2: "bit ((if True then 0x80 else 0) OR of_nat l7 :: byte) 7 \<longleftrightarrow> True" by (rule f2(1))
  show "rfc6455_parse (wsbuf0 @ concat (pb_buffers bufs1)) = Some (True, opcode, ?payload, [])"
    by (rule parse_masked [OF _ f1 f2(2) bit2 [THEN iffD2, OF TrueI] le nv lm lp cc]) (simp add: ws)
qed
end
