(* ===== verification/SocketRead.thy ===== *)
theory SocketRead
  imports Socket PacketCodec
begin

text \<open>
  Reading from a socket can be interrupted between any two bytes and resumed. This theory gives the
  queues of \<open>MqttC/SocketBuffer.c\<close> their meaning, the streams of header and data bytes a socket
  still delivers; shows that every operation on the queues and every read respects them; and
  interprets the decoder's interface \<open>byte_source\<close> on \<open>Socket_getch\<close>.
\<close>

section \<open>What a socket still delivers\<close>

text \<open>
  The queue that holds what has been read of the current packet of socket \<open>s\<close>: its own one, or the
  default queue when that is in use for the socket.
\<close>

definition read_queue :: "int \<Rightarrow> 'z sockbuf_scheme \<Rightarrow> socket_queue" where
  "read_queue s w =
     (case find (socketcompare s) (items (queues w)) of
        Some q \<Rightarrow> q
      | None \<Rightarrow> if q_socket (def_queue w) = s then def_queue w else clear_queue (def_queue w))"

definition saved_header :: "socket_queue \<Rightarrow> bytes" where
  "saved_header q = take (headerlen q) (fixed_header q)"

definition saved_data :: "socket_queue \<Rightarrow> bytes" where
  "saved_data q = take (datalen q) (q_buf q)"

definition queue_ok :: "socket_queue \<Rightarrow> bool" where
  "queue_ok q \<longleftrightarrow> q_index q \<le> headerlen q \<and> headerlen q \<le> 5 \<and> length (fixed_header q) = 5
     \<and> datalen q \<le> length (q_buf q)"

definition reads_inv :: "'z sockbuf_scheme \<Rightarrow> bool" where
  "reads_inv w \<longleftrightarrow> cur_ok (queues w) \<and> distinct (map q_socket (items (queues w)))
     \<and> (\<forall>q \<in> set (items (queues w)). queue_ok q \<and> q_socket q \<noteq> 0 \<and> q_socket q \<noteq> q_socket (def_queue w))
     \<and> queue_ok (def_queue w) \<and> q_index (def_queue w) = headerlen (def_queue w) \<and> datalen (def_queue w) = 0
     \<and> (q_socket (def_queue w) = 0 \<longrightarrow> headerlen (def_queue w) = 0)"

text \<open>The default queue is free or in use for \<open>s\<close>.\<close>

definition def_free :: "int \<Rightarrow> 'z sockbuf_scheme \<Rightarrow> bool" where
  "def_free s w \<longleftrightarrow> q_socket (def_queue w) = 0 \<or> q_socket (def_queue w) = s"

text \<open>The saved header and data with the position in the header: what an operation can change.\<close>

definition saved :: "int \<Rightarrow> 'z sockbuf_scheme \<Rightarrow> bytes \<times> nat \<times> bytes" where
  "saved s w = (saved_header (read_queue s w), q_index (read_queue s w), saved_data (read_queue s w))"

definition rest_same :: "'z sockbuf_scheme \<Rightarrow> 'z sockbuf_scheme \<Rightarrow> bool" where
  "rest_same w w' \<longleftrightarrow> (\<exists>qs d. w' = w\<lparr>queues := qs, def_queue := d\<rparr>)"

lemma rest_same_trans: "rest_same w w1 \<Longrightarrow> rest_same w1 w2 \<Longrightarrow> rest_same w w2"
  unfolding rest_same_def by (elim exE) (simp, intro exI, rule refl)

lemma rest_same_refl [simp]: "rest_same w w"
proof -
  have "w = w\<lparr>queues := queues w, def_queue := def_queue w\<rparr>" by simp
  then show ?thesis unfolding rest_same_def by blast
qed

lemma rest_same_updates [simp]:
  "rest_same w (w\<lparr>queues := qs\<rparr>)" "rest_same w (w\<lparr>def_queue := d\<rparr>)"
  "rest_same w (w\<lparr>queues := qs, def_queue := d\<rparr>)" "rest_same w (w\<lparr>def_queue := d, queues := qs\<rparr>)"
proof -
  have "w\<lparr>queues := qs\<rparr> = w\<lparr>queues := qs, def_queue := def_queue w\<rparr>"
    "w\<lparr>def_queue := d\<rparr> = w\<lparr>queues := queues w, def_queue := d\<rparr>" by simp_all
  then show "rest_same w (w\<lparr>queues := qs\<rparr>)" "rest_same w (w\<lparr>def_queue := d\<rparr>)"
    unfolding rest_same_def by blast+
  show "rest_same w (w\<lparr>queues := qs, def_queue := d\<rparr>)" "rest_same w (w\<lparr>def_queue := d, queues := qs\<rparr>)"
    unfolding rest_same_def by (rule exI [of _ qs], rule exI [of _ d], simp)+
qed

lemma clear_queue_simps [simp]:
  "q_socket (clear_queue q) = 0" "q_index (clear_queue q) = 0" "headerlen (clear_queue q) = 0"
  "datalen (clear_queue q) = 0" "fixed_header (clear_queue q) = fixed_header q" "q_buf (clear_queue q) = q_buf q"
  by (simp_all add: clear_queue_def)

lemma socketcompare_fun: "socketcompare s = (\<lambda>q. q_socket q = s)"
  by (simp add: socketcompare_def fun_eq_iff)

lemma find_queue_cases:
  assumes "reads_inv w"
  obtains w1 where "find_queue s w = (None, w1)" "s \<notin> set (map q_socket (items (queues w)))"
      "rest_same w w1" "def_queue w1 = def_queue w" "items (queues w1) = items (queues w)" "reads_inv w1"
  | k w1 where "find_queue s w = (Some (items (queues w) ! k), w1)" "k < length (items (queues w))"
      "q_socket (items (queues w) ! k) = s" "cur_pos (queues w1) = Some k" "rest_same w w1"
      "def_queue w1 = def_queue w" "items (queues w1) = items (queues w)" "reads_inv w1"
proof -
  have c: "cur_ok (queues w)" using assms by (simp add: reads_inv_def)
  obtain r l where l: "l_find (queues w) (socketcompare s) = (r, l)" by fastforce
  have i: "items l = items (queues w)" "cur_ok l"
    using items_l_find [of "queues w" "socketcompare s"] cur_ok_l_find [OF c, of "socketcompare s"] l by simp_all
  show thesis
  proof (cases r)
    case None
    then have "s \<notin> set (map q_socket (items (queues w)))"
      using l_find_None [OF c, of "socketcompare s"] l by (auto simp: socketcompare_def)
    then show ?thesis using that(1) [of "w\<lparr>queues := l\<rparr>"] l None i assms
      by (simp add: find_queue_def reads_inv_def)
  next
    case (Some k)
    have k: "k < length (items (queues w))" "q_socket (items (queues w) ! k) = s"
      using l_find_Some [OF c, of "socketcompare s" k] l Some by (simp_all add: socketcompare_def)
    have "cur_pos l = Some k"
      using l Some by (auto simp: l_find_def split: option.splits if_splits)
    then show ?thesis
      using that(2) [of k "w\<lparr>queues := l\<rparr>"] l Some i k assms
      by (simp add: find_queue_def reads_inv_def)
  qed
qed

lemma saved_cong:
  "items (queues w) = items (queues w') \<Longrightarrow> def_queue w = def_queue w' \<Longrightarrow> saved s w = saved s w'"
  unfolding saved_def read_queue_def by (simp only:)

lemma read_queue_def_queue:
  assumes "s \<notin> set (map q_socket (items (queues w)))"
  shows "read_queue s w = (if q_socket (def_queue w) = s then def_queue w else clear_queue (def_queue w))"
  using assms find_None_iff_image [of q_socket s "items (queues w)"]
  by (simp add: read_queue_def socketcompare_fun)

lemma read_queue_item:
  assumes "reads_inv w" "k < length (items (queues w))" "q_socket (items (queues w) ! k) = s"
  shows "read_queue s w = items (queues w) ! k"
  using assms find_unique [of q_socket "items (queues w)" k]
  by (simp add: read_queue_def socketcompare_fun reads_inv_def)

text \<open>Replacing the queue found last, for the same socket.\<close>

lemma set_current_queue_spec:
  assumes inv: "reads_inv w" and k: "k < length (items (queues w))" "q_socket (items (queues w) ! k) = s"
    "cur_pos (queues w) = Some k" and q: "q_socket q = s" "queue_ok q"
    and w': "w' = set_current_queue q w"
  shows "reads_inv w'" "rest_same w w'" "def_queue w' = def_queue w"
    "saved t w' = (if t = s then (saved_header q, q_index q, saved_data q) else saved t w)"
proof -
  let ?xs = "items (queues w)"
  have w'2: "w' = w\<lparr>queues := (queues w)\<lparr>items := ?xs[k := q]\<rparr>\<rparr>"
    using w' k(3) by (simp add: set_current_queue_def)
  have m: "map q_socket (?xs[k := q]) = map q_socket ?xs"
    using k q by (metis list_update_id map_update nth_map)
  have i: "items (queues w') = ?xs[k := q]" and d: "def_queue w' = def_queue w" using w'2 by simp_all
  have "\<forall>x \<in> set (?xs[k := q]). queue_ok x \<and> q_socket x \<noteq> 0 \<and> q_socket x \<noteq> q_socket (def_queue w)"
  proof
    fix x assume "x \<in> set (?xs[k := q])"
    then have "x = q \<or> x \<in> set ?xs" using set_update_subset_insert [of ?xs k q] by blast
    moreover have "?xs ! k \<in> set ?xs" using k by simp
    ultimately show "queue_ok x \<and> q_socket x \<noteq> 0 \<and> q_socket x \<noteq> q_socket (def_queue w)"
      using inv k q by (auto simp: reads_inv_def)
  qed
  then show inv': "reads_inv w'" using inv m w'2 i d by (simp add: reads_inv_def cur_ok_def)
  show "rest_same w w'" using w'2 by simp
  show "def_queue w' = def_queue w" by (rule d)
  show "saved t w' = (if t = s then (saved_header q, q_index q, saved_data q) else saved t w)"
  proof (cases "t = s")
    case True
    have "read_queue s w' = q"
      using read_queue_item [OF inv', of k s] i k q by simp
    with True show ?thesis by (simp add: saved_def)
  next
    case False
    then have "find (socketcompare t) (?xs[k := q]) = find (socketcompare t) ?xs"
      using k q by (intro find_update_other) (simp_all add: socketcompare_def)
    then have "read_queue t w' = read_queue t w" unfolding read_queue_def i d by (simp only:)
    with False show ?thesis by (simp add: saved_def)
  qed
qed

text \<open>Changing the default queue for a socket that has no other one.\<close>

lemma def_queue_spec:
  assumes inv: "reads_inv w" and n: "s \<notin> set (map q_socket (items (queues w)))" "def_free s w"
    and d: "q_socket d = s" "queue_ok d" "q_index d = headerlen d" "datalen d = 0"
    "s = 0 \<longrightarrow> headerlen d = 0" and w': "w' = w\<lparr>def_queue := d\<rparr>"
  shows "reads_inv w'" "rest_same w w'" "def_free s w'"
    "saved t w' = (if t = s then (saved_header d, q_index d, saved_data d) else saved t w)"
proof -
  have "q_socket q \<noteq> s" if "q \<in> set (items (queues w))" for q using n(1) that by force
  then show "reads_inv w'" using inv d w' by (auto simp: reads_inv_def)
  show "rest_same w w'" "def_free s w'" using w' d by (simp_all add: def_free_def)
  have "find (socketcompare s) (items (queues w)) = None"
    using n(1) find_None_iff_image [of q_socket s "items (queues w)"] by (simp add: socketcompare_fun)
  then show "saved t w' = (if t = s then (saved_header d, q_index d, saved_data d) else saved t w)"
    using w' d n(2) inv
    by (auto simp: saved_def read_queue_def saved_header_def saved_data_def def_free_def reads_inv_def
        split: option.splits)
qed

lemma def_free_cong: "def_queue w = def_queue w' \<Longrightarrow> def_free s w = def_free s w'"
  by (simp add: def_free_def)

text \<open>Every operation of the module on the queue of a socket is one of these two changes.\<close>

lemma queue_cases:
  assumes "reads_inv w"
  obtains (default) w1 where "find_queue s w = (None, w1)" "s \<notin> set (map q_socket (items (queues w1)))"
      "rest_same w w1" "def_queue w1 = def_queue w" "\<And>t. saved t w1 = saved t w" "reads_inv w1"
      "items (queues w1) = items (queues w)"
      "read_queue s w = (if q_socket (def_queue w) = s then def_queue w else clear_queue (def_queue w))"
  | (own) q k w1 where "find_queue s w = (Some q, w1)" "k < length (items (queues w1))"
      "items (queues w1) ! k = q" "q_socket q = s" "cur_pos (queues w1) = Some k" "rest_same w w1"
      "def_queue w1 = def_queue w" "\<And>t. saved t w1 = saved t w" "reads_inv w1" "queue_ok q"
      "items (queues w1) = items (queues w)" "read_queue s w = q"
proof (cases rule: find_queue_cases [OF assms, of s])
  case (1 w1)
  have "saved t w1 = saved t w" for t by (rule saved_cong) (use 1 in simp_all)
  then show ?thesis using 1 read_queue_def_queue [OF 1(2)] by (intro that(1) [of w1]) simp_all
next
  case (2 k w1)
  have "saved t w1 = saved t w" for t by (rule saved_cong) (use 2 in simp_all)
  moreover have "queue_ok (items (queues w) ! k)" using assms 2(2) by (auto simp: reads_inv_def)
  ultimately show ?thesis
    using 2 read_queue_item [OF assms 2(2)] by (intro that(2) [of "items (queues w) ! k" w1 k]) simp_all
qed

lemma saved_header_length: "queue_ok q \<Longrightarrow> length (saved_header q) = headerlen q"
  by (simp add: saved_header_def queue_ok_def)

lemma getQueuedChar_spec:
  assumes inv: "reads_inv w"
    and r: "SocketBuffer_getQueuedChar s w = (rc, c, w')" and b: "saved s w = (h, i, d)"
  shows "reads_inv w'" "rest_same w w'" "def_queue w' = def_queue w" "t \<noteq> s \<Longrightarrow> saved t w' = saved t w"
    "(rc = SOCKETBUFFER_COMPLETE \<and> i < length h \<and> c = Some (h ! i) \<and> saved s w' = (h, i + 1, d))
     \<or> (rc = SOCKETBUFFER_INTERRUPTED \<and> i = length h \<and> saved s w' = (h, i, d))
     \<or> (rc = SOCKET_ERROR \<and> 4 < i \<and> saved s w' = (h, i, d))"
proof -
  have "reads_inv w' \<and> rest_same w w' \<and> def_queue w' = def_queue w \<and> (t \<noteq> s \<longrightarrow> saved t w' = saved t w)
    \<and> ((rc = SOCKETBUFFER_COMPLETE \<and> i < length h \<and> c = Some (h ! i) \<and> saved s w' = (h, i + 1, d))
     \<or> (rc = SOCKETBUFFER_INTERRUPTED \<and> i = length h \<and> saved s w' = (h, i, d))
     \<or> (rc = SOCKET_ERROR \<and> 4 < i \<and> saved s w' = (h, i, d)))" for t
  proof (cases rule: queue_cases [OF inv, of s, case_names default own])
    case (default w1)
    then have "w' = w1" "rc = SOCKETBUFFER_INTERRUPTED" using r by (simp_all add: SocketBuffer_getQueuedChar_def)
    moreover have "i = length h"
      using b default(8) inv saved_header_length [of "def_queue w"] saved_header_length [of "clear_queue (def_queue w)"]
      by (auto simp: saved_def saved_header_def reads_inv_def queue_ok_def)
    ultimately show ?thesis using default b by simp
  next
    case (own q k w1)
    have bq: "h = saved_header q" "i = q_index q" "d = saved_data q"
      using b own(12) by (simp_all add: saved_def)
    have lh: "length h = headerlen q" using bq own(10) by (simp add: saved_header_length)
    show ?thesis
    proof (cases "q_index q < headerlen q")
      case True
      let ?q = "q\<lparr>q_index := q_index q + 1\<rparr>"
      have w': "w' = set_current_queue ?q w1" and "rc = SOCKETBUFFER_COMPLETE"
        and c: "c = Some (fixed_header q ! q_index q)"
        using r own(1) True by (auto simp: SocketBuffer_getQueuedChar_def)
      have "queue_ok ?q" using own(10) True by (simp add: queue_ok_def)
      note sp = set_current_queue_spec [OF own(9,2) _ own(5) _ this w', of s]
      have k: "q_socket (items (queues w1) ! k) = s" "q_socket ?q = s" using own(3,4) by simp_all
      have "fixed_header q ! q_index q = h ! i"
        using bq(1,2) True by (simp add: saved_header_def)
      moreover have "saved_header ?q = h" "q_index ?q = i + 1" "saved_data ?q = d" "i < length h"
        using bq lh True by (simp_all add: saved_header_def saved_data_def)
      ultimately show ?thesis
        using sp [OF k] rest_same_trans [OF own(6)] own(7,8) c \<open>rc = SOCKETBUFFER_COMPLETE\<close> by simp
    next
      case False
      have il: "i = length h" using False own(10) lh bq by (simp add: queue_ok_def)
      have w': "w' = w1" and rc: "rc = (if i > 4 then SOCKET_ERROR else SOCKETBUFFER_INTERRUPTED)"
        using r own(1) False bq(2) by (auto simp: SocketBuffer_getQueuedChar_def split: if_splits)
      have "saved s w1 = (h, i, d)" using own(8) b by (rule trans)
      with il rc show ?thesis using own(6-9) unfolding w' by (cases "i > 4") simp_all
    qed
  qed
  then show "reads_inv w'" "rest_same w w'" "def_queue w' = def_queue w" "t \<noteq> s \<Longrightarrow> saved t w' = saved t w"
    "(rc = SOCKETBUFFER_COMPLETE \<and> i < length h \<and> c = Some (h ! i) \<and> saved s w' = (h, i + 1, d))
     \<or> (rc = SOCKETBUFFER_INTERRUPTED \<and> i = length h \<and> saved s w' = (h, i, d))
     \<or> (rc = SOCKET_ERROR \<and> 4 < i \<and> saved s w' = (h, i, d))"
    by blast+
qed

lemma queueChar_spec:
  assumes inv: "reads_inv w" and s: "s \<noteq> 0" "def_free s w"
    and b: "saved s w = (h, i, d)" "i = length h" "i < 5"
    and w': "w' = SocketBuffer_queueChar s c w"
  shows "reads_inv w'" "rest_same w w'" "def_free s w'"
    "saved t w' = (if t = s then (h @ [c], i + 1, d) else saved t w)"
proof -
  have push: "queue_ok (push_char c q)" "saved_header (push_char c q) = saved_header q @ [c]"
    "saved_data (push_char c q) = saved_data q" "q_socket (push_char c q) = q_socket q"
    "q_index (push_char c q) = q_index q + 1" "headerlen (push_char c q) = q_index q + 1"
    "datalen (push_char c q) = datalen q"
    if "queue_ok q" "q_index q = headerlen q" "q_index q < 5" for q
    using that by (auto simp: push_char_def queue_ok_def saved_header_def saved_data_def take_Suc_conv_app_nth)
  have "reads_inv w' \<and> rest_same w w' \<and> def_free s w'
    \<and> saved t w' = (if t = s then (h @ [c], i + 1, d) else saved t w)" for t
  proof (cases rule: queue_cases [OF inv, of s, case_names default own])
    case (default w1)
    let ?d = "def_queue w1"
    define d1 where "d1 = (if q_socket ?d = 0 then ?d\<lparr>q_socket := s, q_index := 0, datalen := 0\<rparr> else ?d)"
    have rq: "queue_ok ?d" "q_index ?d = headerlen ?d" "datalen ?d = 0" "q_socket ?d = 0 \<longrightarrow> headerlen ?d = 0"
      using default(6) by (simp_all add: reads_inv_def)
    have sd: "q_socket ?d = 0 \<or> q_socket ?d = s" using s default(4) by (simp add: def_free_def)
    have hid: "h = saved_header d1" "i = q_index d1" "d = saved_data d1" "queue_ok d1" "q_index d1 = headerlen d1"
      "q_socket d1 = s" "datalen d1 = 0"
      using b default(4,8) rq sd s
      by (auto simp: d1_def saved_def saved_header_def saved_data_def queue_ok_def)
    have "w' = w1\<lparr>def_queue := push_char c d1\<rparr>"
      using w' default(1) sd hid(2) b(3) s unfolding SocketBuffer_queueChar_def d1_def by (auto simp: Let_def)
    note sp = def_queue_spec [OF default(6,2) _ _ _ _ _ _ this]
    have "def_free s w1" using s default(4) by (simp add: def_free_def)
    then show ?thesis
      using sp push [of d1] hid b(3) s default rest_same_trans [OF default(3)] by simp
  next
    case (own q k w1)
    have bq: "h = saved_header q" "i = q_index q" "d = saved_data q"
      using b own(12) by (simp_all add: saved_def)
    have q: "queue_ok q" "q_index q = headerlen q" "q_index q < 5"
      using own(10) b bq saved_header_length [OF own(10)] by simp_all
    have w'2: "w' = set_current_queue (push_char c q) w1"
      using w' own(1) q by (simp add: SocketBuffer_queueChar_def)
    have k: "q_socket (items (queues w1) ! k) = s" "q_socket (push_char c q) = s"
      using own(3,4) push [OF q] by simp_all
    note sp = set_current_queue_spec [OF own(9,2) k(1) own(5) k(2) push(1) [OF q] w'2]
    have "saved_header (push_char c q) = h @ [c]" "q_index (push_char c q) = i + 1"
      "saved_data (push_char c q) = d"
      using push [OF q] bq by simp_all
    then show ?thesis
      using sp own(7,8) s rest_same_trans [OF own(6)] by (simp add: def_free_def)
  qed
  then show "reads_inv w'" "rest_same w w'" "def_free s w'"
    "saved t w' = (if t = s then (h @ [c], i + 1, d) else saved t w)" by blast+
qed

lemma interrupted_spec:
  assumes inv: "reads_inv w" and s: "s \<noteq> 0" "def_free s w"
    and b: "saved s w = (h, i, d)" and n: "n \<le> length (q_buf (read_queue s w))"
    and w': "w' = SocketBuffer_interrupted s n w"
  shows "reads_inv w'" "rest_same w w'" "def_free s w'"
    "saved t w' = (if t = s then (h, 0, take n (q_buf (read_queue s w))) else saved t w)"
proof -
  have "reads_inv w' \<and> rest_same w w' \<and> def_free s w'
    \<and> saved t w' = (if t = s then (h, 0, take n (q_buf (read_queue s w))) else saved t w)" for t
  proof (cases rule: queue_cases [OF inv, of s, case_names default own])
    case (default w1)
    let ?q = "(def_queue w1)\<lparr>q_socket := s, q_index := 0, datalen := n\<rparr>"
    have sd: "q_socket (def_queue w) = 0 \<or> q_socket (def_queue w) = s" using s by (simp add: def_free_def)
    have d0: "queue_ok (def_queue w)" "q_socket (def_queue w) = 0 \<longrightarrow> headerlen (def_queue w) = 0"
      using inv by (simp_all add: reads_inv_def)
    have h: "h = saved_header (def_queue w)" and bf: "q_buf (read_queue s w) = q_buf (def_queue w)"
      using b default(8) d0 sd s by (auto simp: saved_def saved_header_def)
    have w'2: "w' = SocketBuffer_newDefQ (w1\<lparr>queues := l_append (queues w1) ?q\<rparr>)"
      using w' default(1) by (simp add: SocketBuffer_interrupted_def)
    then have i: "items (queues w') = items (queues w1) @ [?q]" "q_socket (def_queue w') = 0"
        "q_index (def_queue w') = 0" "headerlen (def_queue w') = 0" "datalen (def_queue w') = 0"
        "queue_ok (def_queue w')" "cur_ok (queues w')"
      using default(6) by (simp_all add: SocketBuffer_newDefQ_def queue_ok_def reads_inv_def)
    have "queue_ok ?q" using n bf d0 default(4) by (simp add: queue_ok_def)
    then have inv': "reads_inv w'"
      using default(2,6) i s by (auto simp: reads_inv_def)
    have "rest_same w1 w'" using w'2 by (simp add: SocketBuffer_newDefQ_def)
    then have "rest_same w w'" by (rule rest_same_trans [OF default(3)])
    moreover have "saved s w' = (h, 0, take n (q_buf (read_queue s w)))"
      using read_queue_item [OF inv', of "length (items (queues w1))" s] i(1) h bf default(4)
      by (simp add: saved_def saved_header_def saved_data_def)
    moreover have "saved t w' = saved t w" if "t \<noteq> s"
    proof -
      have "find (socketcompare t) (items (queues w')) = find (socketcompare t) (items (queues w))"
        using that default(7) i(1)
        by (simp add: find_append socketcompare_def split: option.split)
      then show ?thesis
        using sd d0 that i inv by (auto simp: saved_def read_queue_def saved_header_def saved_data_def reads_inv_def
            split: option.split)
    qed
    ultimately show ?thesis using inv' i(2) by (simp add: def_free_def)
  next
    case (own q k w1)
    let ?q = "q\<lparr>q_index := 0, datalen := n\<rparr>"
    have w'2: "w' = set_current_queue ?q w1"
      using w' own(1) by (simp add: SocketBuffer_interrupted_def)
    have k: "q_socket (items (queues w1) ! k) = s" "q_socket ?q = s" using own(3,4) by simp_all
    have "queue_ok ?q" using own(10,12) n by (simp add: queue_ok_def)
    note sp = set_current_queue_spec [OF own(9,2) k(1) own(5) k(2) this w'2]
    have "saved_header ?q = h" "saved_data ?q = take n (q_buf (read_queue s w))"
      using b own(12) by (simp_all add: saved_def saved_header_def saved_data_def)
    then show ?thesis
      using sp own(7,8) s rest_same_trans [OF own(6)] by (simp add: def_free_def)
  qed
  then show "reads_inv w'" "rest_same w w'" "def_free s w'"
    "saved t w' = (if t = s then (h, 0, take n (q_buf (read_queue s w))) else saved t w)" by blast+
qed

text \<open>Changing the buffer of the queue in use and keeping the data in it.\<close>

lemma buffer_spec:
  assumes inv: "reads_inv w"
    and f: "\<And>q. q_socket (f q) = q_socket q \<and> q_index (f q) = q_index q \<and> headerlen (f q) = headerlen q
        \<and> fixed_header (f q) = fixed_header q \<and> datalen (f q) = datalen q"
    "\<And>q. queue_ok q \<Longrightarrow> saved_data q = saved_data (read_queue s w) \<Longrightarrow>
       queue_ok (f q) \<and> saved_data (f q) = saved_data q"
    "\<And>q. datalen q = 0 \<Longrightarrow> q_buf (f (clear_queue q)) = q_buf (f q)"
    and w': "w' = (case find_queue s w of
               (Some q, w1) \<Rightarrow> set_current_queue (f q) w1
             | (None, w1) \<Rightarrow> w1\<lparr>def_queue := f (def_queue w1)\<rparr>)"
  shows "reads_inv w'" "rest_same w w'" "q_socket (def_queue w') = q_socket (def_queue w)"
    "saved t w' = saved t w" "q_buf (read_queue s w') = q_buf (f (read_queue s w))"
proof -
  have "reads_inv w' \<and> rest_same w w' \<and> q_socket (def_queue w') = q_socket (def_queue w)
    \<and> saved t w' = saved t w \<and> q_buf (read_queue s w') = q_buf (f (read_queue s w))" for t
  proof (cases rule: queue_cases [OF inv, of s, case_names default own])
    case (default w1)
    let ?d = "def_queue w1"
    have w'2: "w' = w1\<lparr>def_queue := f ?d\<rparr>" using w' default(1) by simp
    have d0: "queue_ok ?d" "datalen ?d = 0" using default(6) by (simp_all add: reads_inv_def)
    have "saved_data (read_queue s w) = []"
      using default(4,8) d0 by (simp add: saved_data_def)
    then have fd: "queue_ok (f ?d)" "saved_data (f ?d) = saved_data ?d"
      using f(2) [OF d0(1)] d0 by (simp_all add: saved_data_def)
    have fs: "q_socket (f ?d) = q_socket ?d" "q_index (f ?d) = q_index ?d" "headerlen (f ?d) = headerlen ?d"
      "fixed_header (f ?d) = fixed_header ?d" "datalen (f ?d) = datalen ?d" using f(1) by simp_all
    have "reads_inv w'" using default(6) fd fs w'2 by (simp add: reads_inv_def)
    moreover have "saved t w' = saved t w1"
      using fd fs w'2 by (auto simp: saved_def read_queue_def saved_header_def saved_data_def split: option.split)
    moreover have "read_queue s w' = (if q_socket ?d = s then f ?d else clear_queue (f ?d))"
      using read_queue_def_queue [of s w'] default(2) w'2 fs by simp
    then have "q_buf (read_queue s w') = q_buf (f (read_queue s w))"
      using default(4,8) f(3) [OF d0(2)] by simp
    moreover have "rest_same w w'" using w'2 by (intro rest_same_trans [OF default(3)]) simp
    moreover have "q_socket (def_queue w') = q_socket (def_queue w)" using w'2 fs default(4) by simp
    ultimately show ?thesis using default(5) by simp
  next
    case (own q k w1)
    have w'2: "w' = set_current_queue (f q) w1" using w' own(1) by simp
    have fq: "queue_ok (f q)" "saved_data (f q) = saved_data q" using f(2) [OF own(10)] own(12) by simp_all
    have k: "q_socket (items (queues w1) ! k) = s" "q_socket (f q) = s" using own(3,4) f(1) by simp_all
    note sp = set_current_queue_spec [OF own(9,2) k(1) own(5) k(2) fq(1) w'2]
    have "(saved_header (f q), q_index (f q), saved_data (f q)) = saved s w"
      using fq f(1) own(12) by (simp add: saved_def saved_header_def)
    then have "saved t w' = saved t w" using sp(4) [of t] own(8) by simp
    moreover have "read_queue s w' = f q"
      using read_queue_item [OF sp(1), of k s] w'2 own(2,5) k
      by (simp add: set_current_queue_def)
    ultimately show ?thesis
      using sp(1-3) own(7,12) rest_same_trans [OF own(6)] by simp
  qed
  then show "reads_inv w'" "rest_same w w'" "q_socket (def_queue w') = q_socket (def_queue w)"
    "saved t w' = saved t w" "q_buf (read_queue s w') = q_buf (f (read_queue s w))" by blast+
qed

lemma getQueuedData_spec:
  assumes inv: "reads_inv w" and r: "SocketBuffer_getQueuedData s n w = (old, w')"
  shows "old = saved_data (read_queue s w)" "reads_inv w'" "rest_same w w'"
    "q_socket (def_queue w') = q_socket (def_queue w)" "saved t w' = saved t w"
proof -
  have w': "w' = (case find_queue s w of
               (Some q, w1) \<Rightarrow> set_current_queue (grow_queue n q) w1
             | (None, w1) \<Rightarrow> w1\<lparr>def_queue := grow_queue n (def_queue w1)\<rparr>)"
    using r by (auto simp: SocketBuffer_getQueuedData_def split: prod.splits option.splits)
  show "old = saved_data (read_queue s w)"
  proof (cases rule: queue_cases [OF inv, of s, case_names default own])
    case (default w1)
    then show ?thesis using r inv by (auto simp: SocketBuffer_getQueuedData_def saved_data_def reads_inv_def)
  next
    case (own q k w1)
    then show ?thesis using r by (simp add: SocketBuffer_getQueuedData_def saved_data_def)
  qed
  have g: "queue_ok (grow_queue n q) \<and> saved_data (grow_queue n q) = saved_data q" if "queue_ok q" for q
    using that by (simp add: grow_queue_def queue_ok_def saved_data_def)
  have e: "q_buf (grow_queue n (clear_queue q)) = q_buf (grow_queue n q)" if "datalen q = 0" for q
    using that by (simp add: grow_queue_def clear_queue_def)
  have "q_socket (grow_queue n q) = q_socket q \<and> q_index (grow_queue n q) = q_index q
      \<and> headerlen (grow_queue n q) = headerlen q \<and> fixed_header (grow_queue n q) = fixed_header q
      \<and> datalen (grow_queue n q) = datalen q" for q
    by (simp add: grow_queue_def)
  note sp = buffer_spec [OF inv this g e w']
  show "reads_inv w'" "rest_same w w'" "q_socket (def_queue w') = q_socket (def_queue w)" "saved t w' = saved t w"
    using sp by simp_all
qed

lemma store_received_spec:
  assumes inv: "reads_inv w" and pre: "take (length (saved_data (read_queue s w))) buf = saved_data (read_queue s w)"
    and w': "w' = store_received s buf w"
  shows "reads_inv w'" "rest_same w w'" "q_socket (def_queue w') = q_socket (def_queue w)"
    "saved t w' = saved t w" "q_buf (read_queue s w') = buf"
proof -
  have w'2: "w' = (case find_queue s w of
               (Some q, w1) \<Rightarrow> set_current_queue (q\<lparr>q_buf := buf\<rparr>) w1
             | (None, w1) \<Rightarrow> w1\<lparr>def_queue := (def_queue w1)\<lparr>q_buf := buf\<rparr>\<rparr>)"
    using w' by (simp add: store_received_def)
  have f: "queue_ok (q\<lparr>q_buf := buf\<rparr>) \<and> saved_data (q\<lparr>q_buf := buf\<rparr>) = saved_data q"
    if "queue_ok q" "saved_data q = saved_data (read_queue s w)" for q
  proof -
    have l: "length (saved_data q) = datalen q" using that(1) by (simp add: queue_ok_def saved_data_def)
    then have t: "take (datalen q) buf = saved_data q" using pre that(2) by simp
    then have "datalen q \<le> length buf" using l by (metis length_take min.cobounded1)
    then show ?thesis using t that(1) by (simp add: queue_ok_def saved_data_def)
  qed
  have g: "q_buf ((clear_queue q)\<lparr>q_buf := buf\<rparr>) = q_buf (q\<lparr>q_buf := buf\<rparr>)" for q by simp
  have "q_socket (q\<lparr>q_buf := buf\<rparr>) = q_socket q \<and> q_index (q\<lparr>q_buf := buf\<rparr>) = q_index q
      \<and> headerlen (q\<lparr>q_buf := buf\<rparr>) = headerlen q \<and> fixed_header (q\<lparr>q_buf := buf\<rparr>) = fixed_header q
      \<and> datalen (q\<lparr>q_buf := buf\<rparr>) = datalen q" for q
    by simp
  note sp = buffer_spec [OF inv this f g w'2]
  show "reads_inv w'" "rest_same w w'" "q_socket (def_queue w') = q_socket (def_queue w)" "saved t w' = saved t w"
    "q_buf (read_queue s w') = buf"
    using sp by simp_all
qed

lemma complete_spec:
  assumes inv: "reads_inv w" and s: "s \<noteq> 0" "def_free s w"
    and w': "SocketBuffer_complete s w = (buf, w')"
  shows "reads_inv w'" "rest_same w w'" "def_free s w'"
    "t \<noteq> 0 \<Longrightarrow> saved t w' = (if t = s then ([], 0, []) else saved t w)"
    "buf = q_buf (read_queue s w)"
proof -
  have "reads_inv w' \<and> rest_same w w' \<and> def_free s w' \<and> buf = q_buf (read_queue s w)
    \<and> (t \<noteq> 0 \<longrightarrow> saved t w' = (if t = s then ([], 0, []) else saved t w))" for t
  proof (cases rule: queue_cases [OF inv, of s, case_names default own])
    case (default w1)
    have w'2: "w' = w1\<lparr>def_queue := clear_queue (def_queue w1)\<rparr>" "buf = q_buf (def_queue w1)"
      using w' default(1) by (simp_all add: SocketBuffer_complete_def Let_def)
    have "reads_inv w'" using default(6) w'2 by (auto simp: reads_inv_def queue_ok_def)
    moreover have "rest_same w w'" by (rule rest_same_trans [OF default(3)]) (simp add: w'2)
    moreover have "saved t w' = (if t = s then ([], 0, []) else saved t w)" if "t \<noteq> 0"
    proof (cases "t = s")
      case True
      have "read_queue s w' = clear_queue (clear_queue (def_queue w1))"
        using read_queue_def_queue [of s w'] default(2) w'2 s by simp
      with True show ?thesis by (simp add: saved_def saved_header_def saved_data_def)
    next
      case False
      then show ?thesis
        using w'2 default(4,7) s that
        by (auto simp: saved_def read_queue_def saved_header_def saved_data_def def_free_def split: option.split)
    qed
    ultimately show ?thesis using w'2 default(4,8) by (simp add: def_free_def)
  next
    case (own q k w1)
    have m: "items (snd (l_unlink (queues w1) (socketcompare s))) = filter (\<lambda>q. q_socket q \<noteq> s) (items (queues w1))"
      using l_unlink_filter [of "queues w1" q_socket s] own(9) by (simp add: reads_inv_def socketcompare_fun)
    have w'2: "w' = w1\<lparr>queues := snd (l_unlink (queues w1) (socketcompare s)), def_queue := clear_queue q\<rparr>" "buf = q_buf q"
      using w' own(1) by (simp_all add: SocketBuffer_complete_def Let_def)
    then have i: "items (queues w') = filter (\<lambda>q. q_socket q \<noteq> s) (items (queues w1))"
      "def_queue w' = clear_queue q" using m by simp_all
    have "reads_inv w'"
      using own(9,10) i w'2 by (auto simp: reads_inv_def queue_ok_def distinct_map_filter)
    moreover have "rest_same w w'" by (rule rest_same_trans [OF own(6)]) (simp add: w'2)
    moreover have "saved t w' = (if t = s then ([], 0, []) else saved t w)" if "t \<noteq> 0"
    proof (cases "t = s")
      case True
      have "s \<notin> set (map q_socket (items (queues w')))" using i by auto
      then have "read_queue s w' = clear_queue (clear_queue q)"
        using read_queue_def_queue [of s w'] i s by simp
      with True show ?thesis by (simp add: saved_def saved_header_def saved_data_def)
    next
      case False
      have "find (socketcompare t) (filter (\<lambda>q. q_socket q \<noteq> s) xs) = find (socketcompare t) xs" for xs
        using False by (induction xs) (auto simp: socketcompare_def)
      then show ?thesis
        using i own(7,11) s that False
        by (auto simp: saved_def read_queue_def saved_header_def saved_data_def def_free_def split: option.split)
    qed
    ultimately show ?thesis using w'2 own(12) i by (simp add: def_free_def)
  qed
  then show "reads_inv w'" "rest_same w w'" "def_free s w'"
    "t \<noteq> 0 \<Longrightarrow> saved t w' = (if t = s then ([], 0, []) else saved t w)"
    "buf = q_buf (read_queue s w)" by blast+
qed

section \<open>Reading from a socket\<close>

text \<open>The header bytes that have been saved or are still to come, and the data bytes.\<close>

definition header_stream :: "int \<Rightarrow> 'z sockbuf_scheme \<Rightarrow> bytes" where
  "header_stream s w = saved_header (read_queue s w) @ rx w s"

definition data_stream :: "int \<Rightarrow> 'z sockbuf_scheme \<Rightarrow> bytes" where
  "data_stream s w = saved_data (read_queue s w) @ rx w s"

definition header_pos :: "int \<Rightarrow> 'z sockbuf_scheme \<Rightarrow> nat" where
  "header_pos s w = q_index (read_queue s w)"

lemma rest_same_rx: "rest_same w w' \<Longrightarrow> rx w' = rx w"
  by (auto simp: rest_same_def)

lemma os_recv_cases:
  obtains e w1 where "os_recv s n w = (Inl e, w1)" "w1 = w\<lparr>recvs := recvs w + 1\<rparr>" "recv_plan w (recvs w) = Fail e"
  | m got w1 where "os_recv s n w = (Inr got, w1)" "recv_plan w (recvs w) = Move m"
      "got = take (min n (max 1 m)) (rx w s)"
      "w1 = w\<lparr>recvs := recvs w + 1, rx := (rx w)(s := drop (length got) (rx w s))\<rparr>"
  by (cases "recv_plan w (recvs w)") (auto simp: os_recv_def Let_def)

lemma reads_inv_os [simp]:
  "reads_inv (w\<lparr>recvs := k\<rparr>) = reads_inv w" "reads_inv (w\<lparr>rx := r\<rparr>) = reads_inv w"
  "def_free s (w\<lparr>recvs := k\<rparr>) = def_free s w" "def_free s (w\<lparr>rx := r\<rparr>) = def_free s w"
  "read_queue s (w\<lparr>recvs := k\<rparr>) = read_queue s w" "read_queue s (w\<lparr>rx := r\<rparr>) = read_queue s w"
  "saved s (w\<lparr>recvs := k\<rparr>) = saved s w" "saved s (w\<lparr>rx := r\<rparr>) = saved s w"
  by (simp_all add: reads_inv_def def_free_def read_queue_def saved_def split: option.split)

lemma getch_spec:
  assumes inv: "reads_inv w" and s: "s \<noteq> 0" "def_free s w" and b: "saved s w = (h, i, d)" "i < 5"
    and r: "Socket_getch s w = (rc, c, w')"
  shows "reads_inv w' \<and> def_free s w' \<and> (\<forall>t. t \<noteq> s \<longrightarrow> saved t w' = saved t w \<and> rx w' t = rx w t)
    \<and> ((rc = TCPSOCKET_COMPLETE \<and> i < length h \<and> c = h ! i \<and> saved s w' = (h, i + 1, d) \<and> rx w' s = rx w s)
     \<or> (rc = TCPSOCKET_COMPLETE \<and> i = length h \<and> rx w s = c # rx w' s \<and> saved s w' = (h @ [c], i + 1, d))
     \<or> (rc = TCPSOCKET_INTERRUPTED \<and> i = length h \<and> saved s w' = (h, 0, []) \<and> rx w' s = rx w s)
     \<or> (rc = SOCKET_ERROR \<and> saved s w' = (h, i, d) \<and> rx w' s = rx w s))"
proof -
  obtain rc1 c1 w1 where g: "SocketBuffer_getQueuedChar s w = (rc1, c1, w1)" using prod_cases3 by blast
  note q = getQueuedChar_spec [OF inv g b(1)]
  have f1: "def_free s w1" using s q(3) by (simp add: def_free_def)
  have x1: "rx w1 = rx w" by (rule rest_same_rx [OF q(2)])
  show ?thesis
  proof (cases "rc1 = SOCKETBUFFER_INTERRUPTED")
    case False
    then have "rc = rc1" "c = (case c1 of None \<Rightarrow> 0 | Some c \<Rightarrow> c)" "w' = w1" using r g by (auto simp: Socket_getch_def)
    then show ?thesis using q False b(2) f1 x1 by auto
  next
    case True
    then have sv: "saved s w1 = (h, i, d)" "i = length h" using q(5) by auto
    show ?thesis
    proof (cases rule: os_recv_cases [of s 1 w1])
      case (1 e w2)
      show ?thesis
      proof (cases "e = 11")
        case True
        have w': "rc = TCPSOCKET_INTERRUPTED" "w' = SocketBuffer_interrupted s 0 w2"
          using r g \<open>rc1 = SOCKETBUFFER_INTERRUPTED\<close> 1 True by (auto simp: Socket_getch_def)
        have i2: "reads_inv w2" "def_free s w2" "saved s w2 = (h, i, d)" using 1(2) q(1) f1 sv by simp_all
        note p = interrupted_spec [OF i2(1) s(1) i2(2,3) _ w'(2)]
        have "rx w' = rx w" using rest_same_rx [OF p(2)] 1(2) x1 by simp
        then show ?thesis using p w' sv q(4) 1(2) by simp
      next
        case False
        then have "rc = SOCKET_ERROR" "w' = w2"
          using r g \<open>rc1 = SOCKETBUFFER_INTERRUPTED\<close> 1 by (auto simp: Socket_getch_def)
        then show ?thesis using 1(2) q(1,4) f1 sv x1 by simp
      qed
    next
      case (2 m got w2)
      show ?thesis
      proof (cases got)
        case Nil
        then have "rc = SOCKET_ERROR" "w' = w2"
          using r g \<open>rc1 = SOCKETBUFFER_INTERRUPTED\<close> 2 by (auto simp: Socket_getch_def)
        then show ?thesis using 2(4) Nil q(1,4) f1 sv x1 by simp
      next
        case (Cons c0 cs)
        then obtain xs where rx: "rx w1 s = c0 # xs" and cs: "cs = []"
          using 2(3) by (cases "rx w1 s") auto
        have w': "rc = TCPSOCKET_COMPLETE" "c = c0" "w' = SocketBuffer_queueChar s c0 w2"
          using r g \<open>rc1 = SOCKETBUFFER_INTERRUPTED\<close> 2(1) Cons by (auto simp: Socket_getch_def)
        have i2: "reads_inv w2" "def_free s w2" "saved s w2 = (h, i, d)" using 2(4) q(1) f1 sv by simp_all
        note p = queueChar_spec [OF i2(1) s(1) i2(2,3) sv(2) b(2) w'(3)]
        have "rx w2 = (rx w)(s := xs)" using 2(4) Cons cs rx x1 by simp
        then have "rx w' = (rx w)(s := xs)" using rest_same_rx [OF p(2)] by simp
        then show ?thesis using p w' sv q(4) 2(4) x1 rx by simp
      qed
    qed
  qed
qed

lemma getdata_spec:
  assumes inv: "reads_inv w" and s: "s \<noteq> 0" "def_free s w" and b: "saved s w = (h, i, d)"
    and n: "0 < n" "length d \<le> n" and r: "Socket_getdata s n w = (Ptr buf, k, w')"
  shows "reads_inv w' \<and> def_free s w'
    \<and> (\<forall>t. t \<noteq> s \<longrightarrow> rx w' t = rx w t \<and> (t \<noteq> 0 \<longrightarrow> saved t w' = saved t w))
    \<and> length buf = k \<and> k \<le> n \<and> buf @ rx w' s = d @ rx w s
    \<and> saved s w' = (if k = n then ([], 0, []) else (h, 0, buf))"
proof -
  obtain old w1 where g: "SocketBuffer_getQueuedData s n w = (old, w1)" by fastforce
  note q = getQueuedData_spec [OF inv g]
  have dq: "old = d" using q(1) b by (simp add: saved_def)
  have f1: "def_free s w1" using s q(4) by (simp add: def_free_def)
  have x1: "rx w1 = rx w" by (rule rest_same_rx [OF q(3)])
  have complete: ?thesis
    if i: "reads_inv w3" "def_free s w3" "\<forall>t. t \<noteq> 0 \<longrightarrow> saved t w3 = saved t w"
      "rx w3 = (rx w)(s := xs)" "old @ rx w s = buf @ xs" "length buf = n" "k = n"
      "w' = snd (SocketBuffer_complete s w3)" for w3 xs
  proof -
    obtain b0 where c: "SocketBuffer_complete s w3 = (b0, w')" using i(8) by (metis prod.collapse)
    note p = complete_spec [OF i(1) s(1) i(2) c]
    have "rx w' = (rx w)(s := xs)" using rest_same_rx [OF p(2)] i(4) by simp
    then show ?thesis using p i dq s by simp
  qed
  have interrupted: ?thesis
    if i: "reads_inv w3" "def_free s w3" "\<forall>t. saved t w3 = saved t w"
      "rx w3 = (rx w)(s := xs)" "old @ rx w s = buf @ xs" "length buf = k" "k < n"
      "take k (q_buf (read_queue s w3)) = buf" "w' = SocketBuffer_interrupted s k w3" for w3 xs
  proof -
    have sv: "saved s w3 = (h, i, d)" using i(3) b by simp
    have "k \<le> length (q_buf (read_queue s w3))" using i(6,8) by (metis length_take min.cobounded1)
    note p = interrupted_spec [OF i(1) s(1) i(2) sv this i(9)]
    have "rx w' = (rx w)(s := xs)" using rest_same_rx [OF p(2)] i(4) by simp
    then show ?thesis using p i dq s by simp
  qed
  have old_buf: "take (length old) (q_buf (read_queue s w1)) = old"
  proof -
    have "saved_data (read_queue s w1) = old" using q(5) [of s] b dq by (simp add: saved_def)
    then show ?thesis by (auto simp: saved_data_def min_def)
  qed
  show ?thesis
  proof (cases rule: os_recv_cases [of s "n - length old" w1])
    case (1 e w2)
    have w2: "reads_inv w2" "def_free s w2" "rx w2 = (rx w)(s := rx w s)" "\<forall>t. saved t w2 = saved t w"
      "read_queue s w2 = read_queue s w1"
      using 1(2) q(2,5) f1 x1 by simp_all
    have "e = 11 \<and> buf = old \<and> k = length old
      \<and> w' = (if length old = n then snd (SocketBuffer_complete s w2) else SocketBuffer_interrupted s (length old) w2)"
      using r g 1(1) n(1) by (auto simp: Socket_getdata_def split: if_splits)
    then show ?thesis
      using complete [of w2 "rx w s"] interrupted [of w2 "rx w s"] w2 n(2) dq old_buf
      by (cases "length old = n") simp_all
  next
    case (2 m got w2)
    have w2: "reads_inv w2" "def_free s w2" "\<forall>t. saved t w2 = saved t w"
      "read_queue s w2 = read_queue s w1"
      using 2(4) q(2,5) f1 x1 by simp_all
    define w3 where "w3 = store_received s (old @ got) w2"
    have "saved_data (read_queue s w2) = old" using w2(3) b dq by (simp add: saved_def)
    then have pre: "take (length (saved_data (read_queue s w2))) (old @ got) = saved_data (read_queue s w2)" by simp
    note sr = store_received_spec [OF w2(1) pre w3_def]
    have g0: "rx w s = got @ drop (length got) (rx w s)"
      using 2(3) x1 by (metis append_take_drop_id length_take min.commute take_take take_all_iff nle_le)
    have w3: "reads_inv w3" "def_free s w3" "\<forall>t. saved t w3 = saved t w"
        "rx w3 = (rx w)(s := drop (length got) (rx w s))"
      using sr(1,3,4) w2 rest_same_rx [OF sr(2)] 2(4) x1 by (simp_all add: def_free_def)
    have gl: "length got \<le> n - length old" using 2(3) by simp
    have "got \<noteq> [] \<and> buf = old @ got \<and> k = length buf
      \<and> w' = (if length buf = n then snd (SocketBuffer_complete s w3) else SocketBuffer_interrupted s (length buf) w3)"
      using r g 2(1) n(1) unfolding w3_def
      by (auto simp: Socket_getdata_def Let_def split: if_splits)
    then show ?thesis
      using complete [of w3 "drop (length got) (rx w s)"] interrupted [of w3 "drop (length got) (rx w s)"]
        w3 sr(5) g0 gl n(2) dq
      by (cases "length buf = n") auto
  qed
qed

text \<open>Reading changes nothing but the queues and what has been received.\<close>

definition reads_only :: "'z sockbuf_scheme \<Rightarrow> 'z sockbuf_scheme \<Rightarrow> bool" where
  "reads_only w w' \<longleftrightarrow> (\<exists>qs d k r. w' = w\<lparr>queues := qs, def_queue := d, recvs := k, rx := r\<rparr>)"

lemma rest_same_find [simp]: "rest_same w (snd (find_queue s w))"
  by (simp add: find_queue_def split: prod.split)

lemma rest_same_set_current [simp]: "rest_same w (set_current_queue q w)"
  by (simp add: set_current_queue_def split: option.split)

lemma rest_same_ops:
  "rest_same w (snd (SocketBuffer_getQueuedData s n w))" "rest_same w (SocketBuffer_interrupted s k w)"
  "rest_same w (store_received s buf w)" "rest_same w (snd (SocketBuffer_complete s w))"
proof -
  obtain q w1 where f: "find_queue s w = (q, w1)" by fastforce
  then have r: "rest_same w w1" using rest_same_find [of w s] by simp
  show "rest_same w (snd (SocketBuffer_getQueuedData s n w))" "rest_same w (store_received s buf w)"
    by (cases q; simp add: f SocketBuffer_getQueuedData_def store_received_def rest_same_trans [OF r])+
  show "rest_same w (SocketBuffer_interrupted s k w)"
    by (cases q) (simp_all add: f SocketBuffer_interrupted_def rest_same_trans [OF r] Let_def SocketBuffer_newDefQ_def)
  show "rest_same w (snd (SocketBuffer_complete s w))"
    by (cases q) (simp_all add: f SocketBuffer_complete_def rest_same_trans [OF r] Let_def)
qed

lemma reads_only_rest: "rest_same w w' \<Longrightarrow> reads_only w w'"
proof -
  assume "rest_same w w'"
  then obtain qs d where "w' = w\<lparr>queues := qs, def_queue := d\<rparr>" by (auto simp: rest_same_def)
  then have "w' = w\<lparr>queues := qs, def_queue := d, recvs := recvs w, rx := rx w\<rparr>" by simp
  then show "reads_only w w'" unfolding reads_only_def by blast
qed

lemma reads_only_trans: "reads_only w w1 \<Longrightarrow> reads_only w1 w2 \<Longrightarrow> reads_only w w2"
proof -
  assume "reads_only w w1" "reads_only w1 w2"
  then obtain qs d k r qs' d' k' r' where "w1 = w\<lparr>queues := qs, def_queue := d, recvs := k, rx := r\<rparr>"
    "w2 = w1\<lparr>queues := qs', def_queue := d', recvs := k', rx := r'\<rparr>"
    unfolding reads_only_def by blast
  then have "w2 = w\<lparr>queues := qs', def_queue := d', recvs := k', rx := r'\<rparr>" by simp
  then show "reads_only w w2" unfolding reads_only_def by blast
qed

lemma reads_only_recv: "reads_only w (snd (os_recv s n w))"
proof -
  have "w\<lparr>recvs := k\<rparr> = w\<lparr>queues := queues w, def_queue := def_queue w, recvs := k, rx := rx w\<rparr>"
    "w\<lparr>recvs := k, rx := r\<rparr> = w\<lparr>queues := queues w, def_queue := def_queue w, recvs := k, rx := r\<rparr>" for k r
    by simp_all
  then have "reads_only w (w\<lparr>recvs := k\<rparr>)" "reads_only w (w\<lparr>recvs := k, rx := r\<rparr>)" for k r
    unfolding reads_only_def by blast+
  then show ?thesis by (auto simp: os_recv_def Let_def split: io_plan.split)
qed

lemma getdata_reads_only: "Socket_getdata s n w = (b, k, w') \<Longrightarrow> reads_only w w'"
proof -
  assume r: "Socket_getdata s n w = (b, k, w')"
  obtain old w1 res w2 where g: "SocketBuffer_getQueuedData s n w = (old, w1)"
    "os_recv s (n - length old) w1 = (res, w2)" by (metis surj_pair)
  have c: "reads_only v (snd (SocketBuffer_complete s v))" "reads_only v (SocketBuffer_interrupted s k v)"
    "reads_only v (store_received s buf v)" for v k buf
    by (rule reads_only_rest, rule rest_same_ops)+
  have "reads_only w w1" "reads_only w1 w2"
    using reads_only_rest [OF rest_same_ops(1) [of w s n]] reads_only_recv [of w1 s "n - length old"] g by simp_all
  then have "reads_only w w2" by (rule reads_only_trans)
  note t = reads_only_trans [OF this]
  have "reads_only w (snd (SocketBuffer_complete s w2))" "reads_only w (SocketBuffer_interrupted s k w2)"
    "reads_only w (snd (SocketBuffer_complete s (store_received s buf w2)))"
    "reads_only w (SocketBuffer_interrupted s k (store_received s buf w2))" for k buf
    by (rule t, rule c t reads_only_trans [OF c(3)], (rule c)?)+
  then show "reads_only w w'"
    using r g reads_only_rest [OF rest_same_ops(4) [of w s]] \<open>reads_only w w2\<close>
    by (auto simp: Socket_getdata_def Let_def split: if_splits sum.splits prod.splits)
qed

lemma getdata_null:
  assumes inv: "reads_inv w" and s: "def_free s w" and n: "0 < n"
    and r: "Socket_getdata s n w = (NULL, k, w')"
  shows "reads_inv w'" "def_free s w'" "saved t w' = saved t w" "rx w' = rx w"
proof -
  obtain old w1 where g: "SocketBuffer_getQueuedData s n w = (old, w1)" by fastforce
  note q = getQueuedData_spec [OF inv g]
  have f1: "def_free s w1" using s q(4) by (simp add: def_free_def)
  have x1: "rx w1 = rx w" by (rule rest_same_rx [OF q(3)])
  have "reads_inv w' \<and> def_free s w' \<and> saved t w' = saved t w \<and> rx w' = rx w"
  proof (cases rule: os_recv_cases [of s "n - length old" w1])
    case (1 e w2)
    then have "w' = w2" using r g n by (auto simp: Socket_getdata_def split: if_splits)
    then show ?thesis using 1(2) q(2,5) f1 x1 by simp
  next
    case (2 m got w2)
    then have "w' = w2" "got = []" using r g n by (auto simp: Socket_getdata_def Let_def split: if_splits)
    then show ?thesis using 2(4) q(2,5) f1 x1 by simp
  qed
  then show "reads_inv w'" "def_free s w'" "saved t w' = saved t w" "rx w' = rx w" by blast+
qed

section \<open>A socket as a source of bytes\<close>

text \<open>Nothing interrupts the reads from \<open>s\<close>: \<open>recv\<close> never fails.\<close>

definition recv_ready :: "int \<Rightarrow> 'z sockbuf_scheme \<Rightarrow> bool" where
  "recv_ready s w \<longleftrightarrow> s \<noteq> 0 \<and> reads_inv w \<and> def_free s w \<and> (\<forall>k e. recv_plan w k \<noteq> Fail e)"

text \<open>The header bytes that \<open>Socket_getch\<close> still delivers; it stops at five bytes of a packet.\<close>

definition header_rest :: "int \<Rightarrow> 'z sockbuf_scheme \<Rightarrow> bytes" where
  "header_rest s w =
     (if recv_ready s w then take (5 - header_pos s w) (drop (header_pos s w) (header_stream s w)) else [])"

lemma SocketBuffer_queueChar_plan: "recv_plan (SocketBuffer_queueChar s c w) = recv_plan w"
  by (auto simp: SocketBuffer_queueChar_def find_queue_def set_current_queue_def Let_def
      split: prod.splits option.splits)

lemma getch_ready:
  assumes rd: "recv_ready s w" and st: "header_pos s w < 5" "header_pos s w < length (header_stream s w)"
    and r: "Socket_getch s w = (rc, c, w')"
  shows "rc = TCPSOCKET_COMPLETE" "recv_ready s w'"
proof -
  obtain h i d where b: "saved s w = (h, i, d)" by (metis prod_cases3)
  have hi: "header_pos s w = i" "header_stream s w = h @ rx w s"
    using b by (simp_all add: saved_def header_pos_def header_stream_def)
  have inv: "reads_inv w" "s \<noteq> 0" "def_free s w" using rd by (simp_all add: recv_ready_def)
  obtain rc1 c1 w1 where g: "SocketBuffer_getQueuedChar s w = (rc1, c1, w1)" using prod_cases3 by blast
  note q = getQueuedChar_spec [OF inv(1) g b]
  have w1: "recv_plan w1 = recv_plan w" "rx w1 = rx w" using q(2) by (auto simp: rest_same_def)
  have "rc = TCPSOCKET_COMPLETE \<and> recv_plan w' = recv_plan w"
  proof (cases "rc1 = SOCKETBUFFER_INTERRUPTED")
    case False
    then have "rc = rc1" "w' = w1" using r g by (auto simp: Socket_getch_def)
    then show ?thesis using q(5) False st(1) hi(1) w1 by auto
  next
    case True
    then have "i = length h" using q(5) by auto
    then have ne: "rx w1 s \<noteq> []" using st(2) hi w1 by auto
    show ?thesis
    proof (cases rule: os_recv_cases [of s 1 w1])
      case (1 e w2)
      then show ?thesis using rd w1 by (auto simp: recv_ready_def)
    next
      case (2 m got w2)
      then obtain c0 cs where "got = c0 # cs" using ne by (cases "rx w1 s") auto
      then have "rc = TCPSOCKET_COMPLETE" "w' = SocketBuffer_queueChar s c0 w2"
        using r g True 2(1) by (auto simp: Socket_getch_def)
      then show ?thesis using 2(4) w1 by (simp add: SocketBuffer_queueChar_plan)
    qed
  qed
  moreover have "reads_inv w' \<and> def_free s w'"
    using getch_spec [OF inv b _ r] st(1) hi(1) by blast
  ultimately show "rc = TCPSOCKET_COMPLETE" "recv_ready s w'" using rd by (simp_all add: recv_ready_def)
qed

lemma getch_stream_lemma:
  assumes inv: "reads_inv w" "s \<noteq> 0" "def_free s w" and st: "header_pos s w < 5"
    and r: "Socket_getch s w = (rc, c, w')"
  shows "reads_inv w' \<and> def_free s w' \<and> rc \<in> {TCPSOCKET_COMPLETE, TCPSOCKET_INTERRUPTED, SOCKET_ERROR}
    \<and> header_stream s w' = header_stream s w
    \<and> (rc = TCPSOCKET_COMPLETE \<longrightarrow> header_pos s w < length (header_stream s w)
         \<and> c = header_stream s w ! header_pos s w \<and> header_pos s w' = header_pos s w + 1)
    \<and> (rc = TCPSOCKET_INTERRUPTED \<longrightarrow> header_pos s w' = 0)
    \<and> (\<forall>t. t \<noteq> s \<longrightarrow> header_stream t w' = header_stream t w \<and> data_stream t w' = data_stream t w)"
proof -
  obtain h i d where b: "saved s w = (h, i, d)" by (metis prod_cases3)
  have hi: "header_pos s w = i" using b by (simp add: saved_def header_pos_def)
  have sv: "header_stream t v = fst (saved t v) @ rx v t" "header_pos t v = fst (snd (saved t v))"
    "data_stream t v = snd (snd (saved t v)) @ rx v t" for t and v :: "'a sockets_scheme"
    by (simp_all add: saved_def header_pos_def header_stream_def data_stream_def)
  have "i < 5" using st hi by simp
  from getch_spec [OF inv b this r] b show ?thesis
    unfolding sv by (elim conjE disjE) (auto simp: nth_append)
qed

lemma getch_header_rest:
  assumes "header_rest s w = b # bs"
  shows "\<exists>w'. Socket_getch s w = (TCPSOCKET_COMPLETE, b, w') \<and> header_rest s w' = bs"
proof -
  let ?p = "header_pos s w" and ?h = "header_stream s w"
  have rd: "recv_ready s w" and e: "take (5 - ?p) (drop ?p ?h) = b # bs"
    using assms by (auto simp: header_rest_def split: if_splits)
  have "take (5 - ?p) (drop ?p ?h) \<noteq> []" using e by simp
  then have p: "?p < 5" "?p < length ?h" by simp_all
  then have "5 - ?p = Suc (5 - Suc ?p)" "drop ?p ?h = ?h ! ?p # drop (Suc ?p) ?h"
    by (simp_all add: Cons_nth_drop_Suc)
  then have bb: "b = ?h ! ?p" "bs = take (5 - Suc ?p) (drop (Suc ?p) ?h)" using e by simp_all
  obtain rc c w' where r: "Socket_getch s w = (rc, c, w')" by (metis prod_cases3)
  have "reads_inv w" "s \<noteq> 0" "def_free s w" using rd by (simp_all add: recv_ready_def)
  from getch_stream_lemma [OF this p(1) r] getch_ready [OF rd p r] bb
  show ?thesis by (simp add: r header_rest_def)
qed

interpretation socket_source: byte_source "Socket_getch s" "header_rest s" for s
  by unfold_locales (rule getch_header_rest)

section \<open>Properties\<close>

text \<open>C14. \<open>Socket_getch\<close> reads the header of a packet byte by byte and can be resumed: the saved
  header bytes and those still to be received form one stream that no call changes. A completed
  call delivers its byte at the current position and moves on by one; an interrupted call goes back
  to the beginning of the packet, so that the packet can be read again from its first byte; the
  streams of the other sockets are not touched.\<close>

theorem getch_stream:
  assumes "reads_inv w" "s \<noteq> 0" "def_free s w" "header_pos s w < 5" "Socket_getch s w = (rc, c, w')"
  shows "reads_inv w' \<and> def_free s w' \<and> rc \<in> {TCPSOCKET_COMPLETE, TCPSOCKET_INTERRUPTED, SOCKET_ERROR}
    \<and> header_stream s w' = header_stream s w
    \<and> (rc = TCPSOCKET_COMPLETE \<longrightarrow> header_pos s w < length (header_stream s w)
         \<and> c = header_stream s w ! header_pos s w \<and> header_pos s w' = header_pos s w + 1)
    \<and> (rc = TCPSOCKET_INTERRUPTED \<longrightarrow> header_pos s w' = 0)
    \<and> (\<forall>t. t \<noteq> s \<longrightarrow> header_stream t w' = header_stream t w \<and> data_stream t w' = data_stream t w)"
  using getch_stream_lemma [OF assms] .

definition sample_reads :: sockets where
  "sample_reads = sample_sockets\<lparr>rx := (\<lambda>_. []) (5 := [0x30, 0x03, 97, 98, 99]),
     recv_plan := (\<lambda>k. if k = 1 then Fail EAGAIN else Move 2)\<rparr>"

lemma sample_reads_inv: "reads_inv sample_reads" "def_free 5 sample_reads" "header_pos 5 sample_reads = 0"
  "header_stream 5 sample_reads = [0x30, 0x03, 97, 98, 99]" "saved_data (read_queue 5 sample_reads) = []"
  by (simp_all add: sample_reads_def sample_sockets_def reads_inv_def def_free_def header_pos_def queue_ok_def
      header_stream_def read_queue_def clear_queue_def saved_header_def saved_data_def cur_ok_def l_empty_def)

lemma getch_stream_witness:
  "\<exists>w'. Socket_getch 5 sample_reads = (TCPSOCKET_COMPLETE, 0x30, w')
     \<and> header_stream 5 w' = [0x30, 0x03, 97, 98, 99] \<and> header_pos 5 w' = 1"
proof -
  obtain rc c w' where r: "Socket_getch 5 sample_reads = (rc, c, w')" by (metis prod_cases3)
  moreover have "fst (Socket_getch 5 sample_reads) = TCPSOCKET_COMPLETE" by code_simp
  ultimately show ?thesis
    using getch_stream [OF sample_reads_inv(1) _ sample_reads_inv(2) _ r] sample_reads_inv(3,4) by simp
qed

text \<open>C15. \<open>Socket_getdata\<close> delivers the data of a packet in order and can be resumed: the bytes it
  returns are the next ones of the stream formed by the saved data and what is still to be
  received. When all \<open>n\<close> bytes are there they are taken from the stream and the queue of the socket
  is cleared; otherwise the stream is as it was, the header of the packet is kept and its position
  goes back to the beginning. The other sockets are not touched.\<close>

theorem getdata_stream:
  assumes "reads_inv w" "s \<noteq> 0" "def_free s w" "0 < n" "length (saved_data (read_queue s w)) \<le> n"
    "Socket_getdata s n w = (Ptr buf, k, w')"
  shows "reads_inv w' \<and> def_free s w' \<and> length buf = k \<and> k \<le> n \<and> buf = take k (data_stream s w)
    \<and> (k = n \<longrightarrow> header_stream s w' = drop n (data_stream s w) \<and> data_stream s w' = drop n (data_stream s w))
    \<and> (k < n \<longrightarrow> data_stream s w' = data_stream s w \<and> saved_data (read_queue s w') = buf
         \<and> saved_header (read_queue s w') = saved_header (read_queue s w))
    \<and> header_pos s w' = 0
    \<and> (\<forall>t. t \<noteq> s \<and> t \<noteq> 0 \<longrightarrow> header_stream t w' = header_stream t w \<and> data_stream t w' = data_stream t w)"
proof -
  have b: "saved s w = (saved_header (read_queue s w), header_pos s w, saved_data (read_queue s w))"
    by (simp add: saved_def header_pos_def)
  have sv: "header_stream t v = fst (saved t v) @ rx v t" "header_pos t v = fst (snd (saved t v))"
    "data_stream t v = snd (snd (saved t v)) @ rx v t" "saved_data (read_queue t v) = snd (snd (saved t v))"
    "saved_header (read_queue t v) = fst (saved t v)" for t and v :: "'a sockets_scheme"
    by (simp_all add: saved_def header_pos_def header_stream_def data_stream_def)
  note g = getdata_spec [OF assms(1-3) b assms(4-6)]
  have e: "data_stream s w = buf @ rx w' s" using g by (simp add: data_stream_def)
  have t: "take k (data_stream s w) = buf" "drop k (data_stream s w) = rx w' s"
  proof -
    have "length buf = k" using g by blast
    then show "take k (data_stream s w) = buf" "drop k (data_stream s w) = rx w' s" unfolding e by simp_all
  qed
  show ?thesis
  proof (cases "k = n")
    case True
    with g t show ?thesis unfolding sv by simp
  next
    case False
    with g t(1) e show ?thesis unfolding sv by simp
  qed
qed

lemma getdata_stream_witness:
  "\<exists>w'. Socket_getdata 5 4 sample_reads = (Ptr [0x30, 0x03], 2, w')
     \<and> data_stream 5 w' = [0x30, 0x03, 97, 98, 99]"
proof -
  obtain b k w' where r: "Socket_getdata 5 4 sample_reads = (b, k, w')" by (metis prod_cases3)
  have "fst (Socket_getdata 5 4 sample_reads) = Ptr [0x30, 0x03] \<and> fst (snd (Socket_getdata 5 4 sample_reads)) = 2"
    by code_simp
  then have b: "b = Ptr [0x30, 0x03]" "k = 2" using r by simp_all
  have "data_stream 5 sample_reads = [0x30, 0x03, 97, 98, 99]"
    by (simp add: data_stream_def sample_reads_inv(5)) (simp add: sample_reads_def)
  then show ?thesis
    using getdata_stream [OF sample_reads_inv(1) _ sample_reads_inv(2), of 4 "[0x30, 0x03]" 2 w'] r
      sample_reads_inv(5) b by simp
qed

text \<open>C22. The length of a packet is decoded from the bytes a socket delivers, behind the first byte of
  the packet, saved or still to come in whatever portions, to the number that was encoded, as long
  as no call of \<open>recv\<close> fails.\<close>

theorem socket_decode:
  assumes "recv_ready s w" "header_pos s w = 1" "drop 1 (header_stream s w) = MQTTPacket_encode n @ rest"
    "n < 268435456"
  shows "\<exists>w'. MQTTPacket_decode (Socket_getch s) w = (TCPSOCKET_COMPLETE, n, w')
    \<and> header_rest s w' = take (4 - length (MQTTPacket_encode n)) rest"
proof -
  have "length (MQTTPacket_encode n) \<le> 4" by (rule length_MQTTPacket_encode_le) (use assms(4) in simp_all)
  then have "header_rest s w = MQTTPacket_encode n @ take (4 - length (MQTTPacket_encode n)) rest"
    using assms(1-3) by (simp add: header_rest_def)
  then show ?thesis using socket_source.decode_encode [of s w n] assms(4) by simp
qed

lemma socket_decode_witness:
  "\<exists>(w :: sockets) w'. MQTTPacket_decode (Socket_getch 5) w = (TCPSOCKET_COMPLETE, 300, w') \<and> header_rest 5 w' = [97, 98]"
proof -
  let ?w = "sample_sockets\<lparr>rx := (\<lambda>_. []) (5 := [0x30, 0xAC, 0x02, 97, 98, 99])\<rparr>"
  have w: "recv_ready 5 ?w" "header_pos 5 ?w = 0" "header_stream 5 ?w = [0x30, 0xAC, 0x02, 97, 98, 99]"
    by (simp_all add: sample_sockets_def recv_ready_def reads_inv_def def_free_def header_pos_def queue_ok_def
      header_stream_def read_queue_def clear_queue_def saved_header_def saved_data_def cur_ok_def l_empty_def)
  obtain rc c w1 where r: "Socket_getch 5 ?w = (rc, c, w1)" by (metis prod_cases3)
  have "recv_ready 5 w1" "rc = TCPSOCKET_COMPLETE"
    using getch_ready [OF w(1) _ _ r] w(2,3) by simp_all
  moreover have "header_pos 5 w1 = 1" "header_stream 5 w1 = header_stream 5 ?w"
    using getch_stream_lemma [OF _ _ _ _ r] w \<open>rc = TCPSOCKET_COMPLETE\<close> by (simp_all add: recv_ready_def)
  moreover have "MQTTPacket_encode 300 = [0xAC, 0x02]" by code_simp
  ultimately show ?thesis
    using socket_decode [of 5 w1 300 "[97, 98, 99]"] w(3) by auto
qed

end
