(* ===== verification/WebSocketRead.thy ===== *)
theory WebSocketRead
  imports WebSocket SocketRead
begin

text \<open>
  \<open>MqttC/WebSocket.c\<close>, its proofs: the raw bytes of a connection form a stream that survives every
  interruption of \<open>WebSocket_getRawSocketData\<close>, so that a frame can be received in portions; and
  every packet that is sent is one frame of RFC 6455.
\<close>

section \<open>Raw data\<close>

text \<open>The reading state of a websocket connection, and the bytes it still delivers.\<close>

definition ws_reading :: "int \<Rightarrow> 'z websock_scheme \<Rightarrow> bool" where
  "ws_reading s w \<longleftrightarrow> s \<noteq> 0 \<and> reads_inv w \<and> def_free s w \<and> saved_data (read_queue s w) = []
     \<and> frame_buffer_index w \<le> length (frame_buffer w)"

definition raw_stream :: "int \<Rightarrow> 'z websock_scheme \<Rightarrow> bytes" where
  "raw_stream s w = frame_buffer w @ rx w s"

definition frames_same :: "'z websock_scheme \<Rightarrow> 'z websock_scheme \<Rightarrow> bool" where
  "frames_same w w' \<longleftrightarrow> in_frames w' = in_frames w \<and> last_frame w' = last_frame w"

lemma frames_same_reads_only:
  "reads_only w w' \<Longrightarrow> frames_same w w' \<and> frame_buffer w' = frame_buffer w \<and> frame_buffer_index w' = frame_buffer_index w"
  by (auto simp: reads_only_def frames_same_def)

lemma read_queue_frames [simp]:
  "read_queue s (w\<lparr>frame_buffer_index := k\<rparr>) = read_queue s w"
  "read_queue s (w\<lparr>frame_buffer := b\<rparr>) = read_queue s w"
  "read_queue s (w\<lparr>in_frames := fs\<rparr>) = read_queue s w"
  "reads_inv (w\<lparr>frame_buffer_index := k\<rparr>) = reads_inv w" "reads_inv (w\<lparr>frame_buffer := b\<rparr>) = reads_inv w"
  "reads_inv (w\<lparr>in_frames := fs\<rparr>) = reads_inv w"
  "def_free s (w\<lparr>frame_buffer_index := k\<rparr>) = def_free s w" "def_free s (w\<lparr>frame_buffer := b\<rparr>) = def_free s w"
  "def_free s (w\<lparr>in_frames := fs\<rparr>) = def_free s w"
  for w :: "'z websock_scheme"
  by (simp_all add: reads_inv_def def_free_def read_queue_def split: option.split)

lemma ws_reading_index [simp]:
  "k \<le> length (frame_buffer w) \<Longrightarrow> ws_reading s w \<Longrightarrow> ws_reading s (w\<lparr>frame_buffer_index := k\<rparr>)"
  by (simp add: ws_reading_def)

text \<open>
  Asking for \<open>n\<close> bytes: they are the next ones of the stream, or fewer are returned, or none. The
  stream stays as it is, and no more is received than was asked for.
\<close>

lemma getdata_rc_pos:
  assumes "reads_inv w" "saved_data (read_queue s w) = []" "0 < n" "Socket_getdata s n w = (Ptr d, k, w')" "k \<noteq> 0"
  shows "0 < getdata_rc s n rc0 w"
proof -
  obtain old w1 where g: "SocketBuffer_getQueuedData s n w = (old, w1)" by fastforce
  then have "old = []" using getQueuedData_spec(1) [OF assms(1) g] assms(2) by simp
  with g assms(3-5) show ?thesis
    by (auto simp: getdata_rc_def Socket_getdata_def Let_def split: sum.splits prod.splits if_splits)
qed

lemma getRaw_spec:
  assumes ok: "ws_reading (socket net) w" and n: "0 < n"
    and r: "WebSocket_getRawSocketData net n rc0 w = (b, rcs, w1)"
  shows "ws_reading (socket net) w1" "frames_same w w1" "raw_stream (socket net) w1 = raw_stream (socket net) w"
    "length (frame_buffer w1) \<le> max (length (frame_buffer w)) (frame_buffer_index w + n)"
    "rcs \<noteq> SOCKET_ERROR \<Longrightarrow> b = Ptr d \<Longrightarrow> n \<le> length d \<Longrightarrow>
       d = take n (drop (frame_buffer_index w) (raw_stream (socket net) w))
       \<and> frame_buffer_index w1 = frame_buffer_index w + n \<and> 0 < rcs"
    "b = Ptr d \<Longrightarrow> length d \<le> n"
proof -
  let ?s = "socket net" and ?i = "frame_buffer_index w" and ?fb = "frame_buffer w"
  have "ws_reading ?s w1 \<and> frames_same w w1 \<and> raw_stream ?s w1 = raw_stream ?s w
    \<and> length (frame_buffer w1) \<le> max (length ?fb) (?i + n)
    \<and> (\<forall>d. rcs \<noteq> SOCKET_ERROR \<longrightarrow> b = Ptr d \<longrightarrow> n \<le> length d \<longrightarrow>
          d = take n (drop ?i (raw_stream ?s w)) \<and> frame_buffer_index w1 = ?i + n \<and> 0 < rcs)
    \<and> (\<forall>d. b = Ptr d \<longrightarrow> length d \<le> n)"
  proof (cases "length ?fb - ?i \<ge> n")
    case True
    then have "b = Ptr (take n (drop ?i ?fb))" "rcs = int n" "w1 = w\<lparr>frame_buffer_index := ?i + n\<rparr>"
      using r n by (simp_all add: WebSocket_getRawSocketData_def)
    moreover have "take n (drop ?i (raw_stream ?s w)) = take n (drop ?i ?fb)"
      using True by (simp add: raw_stream_def)
    ultimately show ?thesis using ok n True by (simp add: frames_same_def raw_stream_def)
  next
    case False
    define wanted where "wanted = n - (length ?fb - ?i)"
    have wp: "0 < wanted" using False by (simp add: wanted_def)
    obtain rv actual v where g: "Socket_getdata ?s wanted w = (rv, actual, v)" using prod_cases3 by blast
    define rc where "rc = getdata_rc ?s wanted rc0 w"
    note fs = frames_same_reads_only [OF getdata_reads_only [OF g]]
    have inv: "reads_inv w" "?s \<noteq> 0" "def_free ?s w" "?i \<le> length ?fb" "saved_data (read_queue ?s w) = []"
      using ok by (simp_all add: ws_reading_def)
    have sv: "saved ?s w = (saved_header (read_queue ?s w), q_index (read_queue ?s w), [])"
      using inv(5) by (simp add: saved_def)
    have fin: ?thesis
      if "reads_inv v" "def_free ?s v" "saved ?s v = saved ?s w \<or> saved ?s v = (h, 0, [])" "rx v ?s = rx w ?s" "w1 = v"
        "\<forall>d. b = Ptr d \<longrightarrow> length d \<le> n" "\<forall>d. b = Ptr d \<longrightarrow> rcs = SOCKET_ERROR \<or> length d < n" for h
      using that inv fs by (fastforce simp: ws_reading_def raw_stream_def saved_def)
    show ?thesis
    proof (cases rv)
      case NULL
      then have w1: "w1 = v" "b = NULL"
        using r False wp g by (auto simp: WebSocket_getRawSocketData_def Let_def wanted_def split: if_splits)
      note gn = getdata_null [OF inv(1,3) wp g [unfolded NULL]]
      then show ?thesis using fin w1 by simp
    next
      case (Ptr d)
      note gd = getdata_spec [OF inv(1-3) sv wp _ g [unfolded Ptr]]
      show ?thesis
      proof (cases "actual = 0")
        case True
        then have "w1 = v" "b = Ptr [] \<or> b = Ptr d \<and> rcs = SOCKET_ERROR"
          using r False wp g Ptr
          by (auto simp: WebSocket_getRawSocketData_def Let_def wanted_def split: if_splits)
        then show ?thesis using fin [of "saved_header (read_queue ?s w)"] gd True wp n by auto
      next
        case False
        have rc: "0 < rc" using g False wp Ptr getdata_rc_pos inv unfolding rc_def by blast
        define w2 where "w2 = v\<lparr>frame_buffer := ?fb @ d, frame_buffer_index := ?i\<rparr>"
        define w3 where "w3 = snd (SocketBuffer_complete ?s w2)"
        define m where "m = min n (length (frame_buffer w3) - frame_buffer_index w3)"
        have w1: "b = Ptr (take m (drop (frame_buffer_index w3) (frame_buffer w3)))" "rcs = rc"
            "w1 = w3\<lparr>frame_buffer_index := frame_buffer_index w3 + m\<rparr>"
          using r \<open>\<not> n \<le> length ?fb - ?i\<close> wp g Ptr rc fs \<open>actual \<noteq> 0\<close> inv(4) unfolding m_def w3_def w2_def
          by (auto simp: WebSocket_getRawSocketData_def Let_def wanted_def [symmetric] rc_def [symmetric]
              split: if_splits)
        have w2: "reads_inv w2" "def_free ?s w2" "rx w2 = rx v" "in_frames w2 = in_frames v"
          "last_frame w2 = last_frame v"
          using gd by (simp_all add: w2_def)
        obtain bb where c: "SocketBuffer_complete ?s w2 = (bb, w3)" by (metis w3_def prod.collapse)
        note cs = complete_spec [OF w2(1) inv(2) w2(2) c]
        have w3: "frame_buffer w3 = ?fb @ d" "frame_buffer_index w3 = ?i" "in_frames w3 = in_frames w"
          "last_frame w3 = last_frame w" "rx w3 = rx v"
          using cs(2) fs w2(3) by (auto simp: rest_same_def w2_def frames_same_def)
        have sd: "saved_data (read_queue ?s w3) = []"
          using cs(4) [of ?s] inv(2) by (simp add: saved_def)
        have d: "length d \<le> wanted" "d @ rx v ?s = rx w ?s" using gd by simp_all
        have "length ?fb + length d - ?i \<le> n"
          using inv(4) \<open>\<not> n \<le> length ?fb - ?i\<close> d(1) unfolding wanted_def by linarith
        then have m: "m = length ?fb + length d - ?i"
          unfolding m_def w3 by simp
        have rs: "raw_stream ?s w = (?fb @ d) @ rx v ?s" using d(2) by (simp add: raw_stream_def)
        have t: "take m (drop ?i (?fb @ d)) = drop ?i (?fb @ d)" using m by simp
        have im: "?i + m = length (?fb @ d)" using m inv(4) by simp
        have full: "m = n" if "n \<le> m" using that m_def by simp
        have "ws_reading ?s w1" using w1 w3 cs(1,3) inv sd im by (simp add: ws_reading_def)
        moreover have "frames_same w w1" using w1 w3 by (simp add: frames_same_def)
        moreover have "raw_stream ?s w1 = raw_stream ?s w" unfolding rs by (simp add: raw_stream_def w1 w3)
        moreover have "length (frame_buffer w1) \<le> max (length ?fb) (?i + n)"
          using w1 w3 d(1) inv(4) by (simp add: wanted_def)
        moreover define e where "e = drop ?i (?fb @ d)"
        then have be: "b = Ptr e" "length e = m" "m \<le> n" using w1(1) w3 t im m_def by simp_all
        have "n \<le> m \<Longrightarrow> e = take n (drop ?i (raw_stream ?s w))"
        proof -
          assume "n \<le> m"
          then have "length (drop ?i (?fb @ d)) = n" using full im by simp
          moreover have "drop ?i ((?fb @ d) @ rx v ?s) = drop ?i (?fb @ d) @ rx v ?s" using inv(4) by simp
          ultimately show ?thesis unfolding rs e_def by (metis append_eq_conv_conj)
        qed
        moreover have "frame_buffer_index w1 = ?i + m" "rcs = rc" using w1(2,3) w3(2) by simp_all
        ultimately show ?thesis using be full rc by simp
      qed
    qed
  qed
  then show "ws_reading (socket net) w1" "frames_same w w1" "raw_stream (socket net) w1 = raw_stream (socket net) w"
    "length (frame_buffer w1) \<le> max (length (frame_buffer w)) (frame_buffer_index w + n)"
    "rcs \<noteq> SOCKET_ERROR \<Longrightarrow> b = Ptr d \<Longrightarrow> n \<le> length d \<Longrightarrow>
       d = take n (drop (frame_buffer_index w) (raw_stream (socket net) w))
       \<and> frame_buffer_index w1 = frame_buffer_index w + n \<and> 0 < rcs"
    "b = Ptr d \<Longrightarrow> length d \<le> n" by blast+
qed

lemma raw_step_spec:
  assumes ok: "ws_reading (socket net) w" and n: "0 < n" and r: "raw_step st net n rc0 w = (res, rcs, w1)"
  shows "ws_reading (socket net) w1" "frames_same w w1" "raw_stream (socket net) w1 = raw_stream (socket net) w"
    "length (frame_buffer w1) \<le> max (length (frame_buffer w)) (frame_buffer_index w + n)"
    "res = Inr d \<Longrightarrow> d = take n (drop (frame_buffer_index w) (raw_stream (socket net) w)) \<and> length d = n
       \<and> frame_buffer_index w1 = frame_buffer_index w + n \<and> 0 < rcs"
    "res = Inl e \<Longrightarrow> e = SOCKET_ERROR \<or> e = TCPSOCKET_INTERRUPTED"
proof -
  obtain b where g: "WebSocket_getRawSocketData net n rc0 w = (b, rcs, w1)"
    and res: "res = (if rcs = SOCKET_ERROR then Inl rcs
         else case b of
           NULL \<Rightarrow> Inl (if st then TCPSOCKET_INTERRUPTED else SOCKET_ERROR)
         | Ptr d \<Rightarrow> if length d < n then Inl TCPSOCKET_INTERRUPTED else Inr d)"
    using r by (auto simp: raw_step_def split: prod.splits)
  note sp = getRaw_spec [OF ok n g]
  show "ws_reading (socket net) w1" "frames_same w w1" "raw_stream (socket net) w1 = raw_stream (socket net) w"
    "length (frame_buffer w1) \<le> max (length (frame_buffer w)) (frame_buffer_index w + n)"
    by (fact sp(1-4))+
  show "res = Inr d \<Longrightarrow> d = take n (drop (frame_buffer_index w) (raw_stream (socket net) w)) \<and> length d = n
       \<and> frame_buffer_index w1 = frame_buffer_index w + n \<and> 0 < rcs"
    using res sp(5) [of d] sp(6) [of d] by (auto split: if_splits cptr.splits)
  show "res = Inl e \<Longrightarrow> e = SOCKET_ERROR \<or> e = TCPSOCKET_INTERRUPTED"
    using res by (auto split: if_splits cptr.splits)
qed

text \<open>Asking for no bytes forgets the bytes that have been collected.\<close>

lemma getRaw_zero:
  assumes ok: "ws_reading (socket net) w" and rc: "0 < rc0" and i: "frame_buffer_index w = length (frame_buffer w)"
  obtains w1 where "WebSocket_getRawSocketData net 0 rc0 w = (Ptr [], rc0, w1)" "ws_reading (socket net) w1"
    "frames_same w w1" "raw_stream (socket net) w1 = drop (frame_buffer_index w) (raw_stream (socket net) w)"
    "frame_buffer w1 = []" "frame_buffer_index w1 = 0"
proof -
  let ?s = "socket net"
  have inv: "reads_inv w" "?s \<noteq> 0" "def_free ?s w" using ok by (simp_all add: ws_reading_def)
  obtain bb v where c: "SocketBuffer_complete ?s w = (bb, v)" by fastforce
  then have g: "Socket_getdata ?s 0 w = (Ptr bb, 0, v)" by (simp add: Socket_getdata_def)
  note cs = complete_spec [OF inv c]
  have v: "rx v = rx w" "in_frames v = in_frames w" "last_frame v = last_frame w"
    using cs(2) by (auto simp: rest_same_def)
  have "saved_data (read_queue ?s v) = []" using cs(4) [of ?s] inv(2) by (simp add: saved_def)
  then show thesis
    using cs(1,3) inv(2) v i rc
    by (intro that [of "v\<lparr>frame_buffer_index := 0, frame_buffer := []\<rparr>"])
      (simp_all add: WebSocket_getRawSocketData_def Let_def g getdata_rc_def ws_reading_def frames_same_def raw_stream_def)
qed

section \<open>Receiving a frame\<close>

text \<open>The frame in which a server sends binary data \<open>p\<close>: whole and not masked.\<close>

definition server_frame :: "bytes \<Rightarrow> bytes" where
  "server_frame p =
     (if length p < 126 then [0x82, of_nat (length p)]
      else if length p < 65536 then [0x82, 126] @ be_bytes 2 (length p)
      else [0x82, 127] @ be_bytes 8 (length p)) @ p"

definition frame_head_len :: "bytes \<Rightarrow> nat" where
  "frame_head_len p = (if length p < 126 then 2 else if length p < 65536 then 4 else 10)"

lemma length_server_frame: "length (server_frame p) = frame_head_len p + length p"
  by (simp add: server_frame_def frame_head_len_def)

text \<open>The second byte of the frame, and the bytes of the extended length behind it.\<close>

definition frame_len7 :: "bytes \<Rightarrow> nat" where
  "frame_len7 p = (if length p < 126 then length p else if length p < 65536 then 126 else 127)"

lemma server_frame_parts:
  "server_frame p = 0x82 # of_nat (frame_len7 p) # drop 2 (take (frame_head_len p) (server_frame p)) @ p"
  "126 \<le> frame_len7 p \<Longrightarrow> length p < 18446744073709551616 \<Longrightarrow>
     be_value (take (frame_head_len p - 2) (drop 2 (server_frame p @ rest))) = length p"
  "frame_head_len p = (if frame_len7 p = 126 then 4 else if frame_len7 p = 127 then 10 else 2)"
  "frame_len7 p < 128" "frame_len7 p < 126 \<Longrightarrow> frame_len7 p = length p"
  by (auto simp: server_frame_def frame_len7_def frame_head_len_def be_value_be_bytes split: if_splits)

lemma server_bytes:
  "bit (0x82 :: byte) 7" "unat (0x82 AND 0x0F :: byte) = 2"
  "l < 128 \<Longrightarrow> \<not> bit (of_nat l :: byte) 7" "l < 128 \<Longrightarrow> unat (of_nat l AND 0x7F :: byte) = l"
  by (simp_all add: bit_7_iff unat_of_nat_byte unat_and_127)

lemma frame_header_spec:
  assumes ok: "ws_reading (socket net) w" and i: "frame_buffer_index w = 0"
    and st: "raw_stream (socket net) w = server_frame p @ rest" and p: "length p < 18446744073709551616"
    and r: "frame_header net opc w = (res, rcs, w1)"
  shows "ws_reading (socket net) w1" "frames_same w w1" "raw_stream (socket net) w1 = raw_stream (socket net) w"
    "length (frame_buffer w1) \<le> max (length (frame_buffer w)) (frame_head_len p)"
    "res = Inl SOCKET_ERROR \<or> res = Inl TCPSOCKET_INTERRUPTED \<or>
     res = Inr (True, 2, False, length p) \<and> frame_buffer_index w1 = frame_head_len p \<and> 0 < rcs"
proof -
  let ?s = "socket net"
  obtain res1 rcs1 v where g: "raw_step True net 2 0 w = (res1, rcs1, v)" using prod_cases3 by blast
  note sp = raw_step_spec [OF ok _ g, simplified]
  have hl: "2 \<le> frame_head_len p" by (simp add: frame_head_len_def)
  have "ws_reading ?s w1 \<and> frames_same w w1 \<and> raw_stream ?s w1 = raw_stream ?s w
    \<and> length (frame_buffer w1) \<le> max (length (frame_buffer w)) (frame_head_len p)
    \<and> (res = Inl SOCKET_ERROR \<or> res = Inl TCPSOCKET_INTERRUPTED \<or>
     res = Inr (True, 2, False, length p) \<and> frame_buffer_index w1 = frame_head_len p \<and> 0 < rcs)"
  proof (cases res1)
    case (Inl e)
    then have "res = Inl e" "w1 = v" using r g by (auto simp: frame_header_def)
    then show ?thesis using sp Inl i hl by auto
  next
    case (Inr b)
    obtain xs where xs: "server_frame p = 0x82 # of_nat (frame_len7 p) # xs" using server_frame_parts(1) by blast
    have b: "b = [0x82, of_nat (frame_len7 p)]" "frame_buffer_index v = 2" "0 < rcs1"
      using sp(5) [OF Inr] i unfolding st xs by simp_all
    show ?thesis
    proof (cases "frame_len7 p < 126")
      case True
      then have "frame_head_len p = 2" using server_frame_parts(3) [of p] by simp
      moreover have "res = Inr (True, 2, False, frame_len7 p)" "w1 = v" "rcs = rcs1"
        using r g Inr b(1) True server_bytes(1,2) server_bytes(3,4) [OF server_frame_parts(4) [of p]]
        by (auto simp: frame_header_def Let_def)
      ultimately show ?thesis using sp b i server_frame_parts(5) [OF True] by simp
    next
      case False
      then have l7: "frame_len7 p = 126 \<or> frame_len7 p = 127" using server_frame_parts(4) [of p] by linarith
      then have hl2: "(if frame_len7 p = 126 then 2 else 8) = frame_head_len p - 2" "2 < frame_head_len p"
        using server_frame_parts(3) [of p] by auto
      obtain res2 rcs2 v2 where g2: "raw_step False net (frame_head_len p - 2) rcs1 v = (res2, rcs2, v2)"
        using prod_cases3 by blast
      note sp2 = raw_step_spec [OF sp(1) _ g2]
      have r2: "(res, rcs, w1) = (case res2 of Inl e \<Rightarrow> (Inl e, rcs2, v2)
          | Inr l \<Rightarrow> (Inr (True, 2, False, be_value l), rcs2, v2))"
        using r g Inr b(1) False l7 server_bytes(1,2) server_bytes(3,4) [OF server_frame_parts(4) [of p]] g2 hl2(1)
        by (auto simp: frame_header_def Let_def split: sum.splits)
      have fl: "length (frame_buffer v2) \<le> max (length (frame_buffer w)) (frame_head_len p)"
      proof -
        have "2 + (frame_head_len p - 2) = frame_head_len p" using hl2(2) by simp
        then show ?thesis using sp(4) sp2(4) hl2(2) unfolding i b(2) by linarith
      qed
      have fs: "frames_same w v2" using sp(2) sp2(2) hl2 by (simp add: frames_same_def)
      show ?thesis
      proof (cases res2)
        case (Inl e)
        then show ?thesis using r2 sp(3) sp2(1,3) sp2(6) [OF _ Inl] hl2(2) fs fl by auto
      next
        case (Inr l)
        have "l = take (frame_head_len p - 2) (drop 2 (server_frame p @ rest))"
          using sp2(5) [OF _ Inr] hl2(2) b(2) sp(3) st by simp
        then have "be_value l = length p" using server_frame_parts(2) [of p rest] p False by simp
        moreover have "frame_buffer_index v2 = frame_head_len p" "0 < rcs2"
          using sp2(5) [OF _ Inr] hl2(2) b(2) by simp_all
        ultimately show ?thesis using Inr r2 sp(3) sp2(1,3) hl2(2) fs fl by simp
      qed
    qed
  qed
  then show "ws_reading ?s w1" "frames_same w w1" "raw_stream ?s w1 = raw_stream ?s w"
    "length (frame_buffer w1) \<le> max (length (frame_buffer w)) (frame_head_len p)"
    "res = Inl SOCKET_ERROR \<or> res = Inl TCPSOCKET_INTERRUPTED \<or>
     res = Inr (True, 2, False, length p) \<and> frame_buffer_index w1 = frame_head_len p \<and> 0 < rcs" by blast+
qed

lemma frame_payload_spec:
  assumes ok: "ws_reading (socket net) w" and i: "frame_buffer_index w = frame_head_len p"
    and st: "raw_stream (socket net) w = server_frame p @ rest" and rc: "0 < rc0"
    and l: "length (frame_buffer w) \<le> length (server_frame p)"
    and r: "frame_payload net False (length p) rc0 w = (res, rcs, w1)"
  shows "ws_reading (socket net) w1" "frames_same w w1"
    "res = Inl SOCKET_ERROR \<or>
     res = Inl TCPSOCKET_INTERRUPTED \<and> raw_stream (socket net) w1 = raw_stream (socket net) w
       \<and> length (frame_buffer w1) \<le> length (server_frame p) \<or>
     res = Inr p \<and> 0 < rcs \<and> drop (frame_buffer_index w1) (raw_stream (socket net) w1) = rest
       \<and> frame_buffer_index w1 = length (frame_buffer w1)"
proof -
  let ?s = "socket net"
  obtain res1 rcs1 v where g: "raw_step False net (length p) rc0 w = (res1, rcs1, v)" using prod_cases3 by blast
  have r2: "res = res1" "rcs = rcs1" "w1 = v"
    using r g by (auto simp: frame_payload_def split: sum.splits)
  have st2: "raw_stream ?s w = take (frame_head_len p) (server_frame p) @ p @ rest"
    using st server_frame_parts(1) [of p] by (auto simp: frame_head_len_def server_frame_def)
  have lh: "length (take (frame_head_len p) (server_frame p)) = frame_head_len p"
    by (simp add: length_server_frame)
  have "ws_reading ?s w1 \<and> frames_same w w1 \<and> (res = Inl SOCKET_ERROR \<or>
     res = Inl TCPSOCKET_INTERRUPTED \<and> raw_stream ?s w1 = raw_stream ?s w
       \<and> length (frame_buffer w1) \<le> length (server_frame p) \<or>
     res = Inr p \<and> 0 < rcs \<and> drop (frame_buffer_index w1) (raw_stream ?s w1) = rest
       \<and> frame_buffer_index w1 = length (frame_buffer w1))"
  proof (cases "p = []")
    case True
    have "frame_buffer_index w = length (frame_buffer w)"
      using l True i ok by (simp add: length_server_frame ws_reading_def)
    from getRaw_zero [OF ok rc this] obtain w2 where
      z: "WebSocket_getRawSocketData net 0 rc0 w = (Ptr [], rc0, w2)" "ws_reading ?s w2" "frames_same w w2"
        "raw_stream ?s w2 = drop (frame_buffer_index w) (raw_stream ?s w)" "frame_buffer w2 = []" "frame_buffer_index w2 = 0"
      by blast
    then have "res1 = Inr []" "rcs1 = rc0" "v = w2" using g True rc by (auto simp: raw_step_def)
    then show ?thesis using z True r2 rc i lh unfolding st2 by simp
  next
    case False
    then have n: "0 < length p" by simp
    note sp = raw_step_spec [OF ok n g]
    have fb: "length (frame_buffer v) \<le> length (server_frame p)"
      using sp(4) l i by (simp add: length_server_frame)
    show ?thesis
    proof (cases res1)
      case (Inl e)
      then show ?thesis using sp r2 fb by auto
    next
      case (Inr d)
      have "d = p" "frame_buffer_index v = length (server_frame p)" "0 < rcs1"
        using sp(5) [OF Inr] i lh unfolding st2 by (simp_all add: length_server_frame)
      moreover have "frame_buffer_index v \<le> length (frame_buffer v)" using sp(1) by (simp add: ws_reading_def)
      ultimately show ?thesis using sp(1-3) r2 fb Inr st by simp
    qed
  qed
  then show "ws_reading ?s w1" "frames_same w w1"
    "res = Inl SOCKET_ERROR \<or>
     res = Inl TCPSOCKET_INTERRUPTED \<and> raw_stream ?s w1 = raw_stream ?s w
       \<and> length (frame_buffer w1) \<le> length (server_frame p) \<or>
     res = Inr p \<and> 0 < rcs \<and> drop (frame_buffer_index w1) (raw_stream ?s w1) = rest
       \<and> frame_buffer_index w1 = length (frame_buffer w1)" by blast+
qed

text \<open>
  Between two attempts to receive the frame with \<open>p\<close>: no frame is queued, and what has been
  collected of the frame is read again from its start.
\<close>

definition ws_waiting :: "int \<Rightarrow> bytes \<Rightarrow> bytes \<Rightarrow> 'z websock_scheme \<Rightarrow> bool" where
  "ws_waiting s p rest w \<longleftrightarrow> ws_reading s w \<and> frame_buffer_index w = 0 \<and> in_frames w = []
     \<and> raw_stream s w = server_frame p @ rest \<and> length (frame_buffer w) \<le> length (server_frame p)"

lemma receive_loop_spec:
  assumes wt: "ws_waiting (socket net) p rest w" and p: "length p < 18446744073709551616"
  shows "\<exists>rc res net' w1. receive_loop (Suc fuel) net opc NULL w = Some (rc, res, net', w1)
    \<and> net' = net \<and> (rc = SOCKET_ERROR
       \<or> rc = TCPSOCKET_INTERRUPTED \<and> ws_waiting (socket net) p rest (WebSocket_rewindData w1)
       \<or> rc = TCPSOCKET_COMPLETE \<and> res = Ptr \<lparr>fr_data = p, fr_pos = 0\<rparr> \<and> in_frames w1 = []
          \<and> ws_reading (socket net) w1 \<and> raw_stream (socket net) w1 = rest \<and> frame_buffer w1 = []
          \<and> frame_buffer_index w1 = 0)"
proof -
  let ?s = "socket net"
  have ok: "ws_reading ?s w" and i: "frame_buffer_index w = 0" and e: "in_frames w = []"
    and st: "raw_stream ?s w = server_frame p @ rest" and l: "length (frame_buffer w) \<le> length (server_frame p)"
    using wt by (simp_all add: ws_waiting_def)
  obtain res1 rcs1 v where g: "frame_header net opc w = (res1, rcs1, v)" using prod_cases3 by blast
  note sp = frame_header_spec [OF ok i st p g]
  have lv: "length (frame_buffer v) \<le> length (server_frame p)" using sp(4) l by (simp add: length_server_frame)
  show ?thesis
  proof (cases res1)
    case (Inl x)
    then have "receive_loop (Suc fuel) net opc NULL w = Some (x, NULL, net, v)" by (simp add: g)
    moreover have "x = SOCKET_ERROR \<or> x = TCPSOCKET_INTERRUPTED" using sp(5) Inl by auto
    moreover have "ws_waiting ?s p rest (WebSocket_rewindData v)"
      using sp(1-3) lv st e by (simp add: ws_waiting_def WebSocket_rewindData_def frames_same_def raw_stream_def)
    ultimately show ?thesis by blast
  next
    case (Inr h)
    then have h: "h = (True, 2, False, length p)" "frame_buffer_index v = frame_head_len p" "0 < rcs1"
      using sp(5) by auto
    have stv: "raw_stream ?s v = server_frame p @ rest" using sp(3) st by simp
    obtain res2 rcs2 v2 where g2: "frame_payload net False (length p) rcs1 v = (res2, rcs2, v2)"
      using prod_cases3 by blast
    note sp2 = frame_payload_spec [OF sp(1) h(2) stv h(3) lv g2]
    have e2: "in_frames v2 = []" using sp(2) sp2(2) e by (simp add: frames_same_def)
    show ?thesis
    proof (cases res2)
      case (Inl x)
      then have "receive_loop (Suc fuel) net opc NULL w = Some (x, NULL, net, v2)" by (simp add: g g2 Inr h)
      moreover have "x = SOCKET_ERROR \<or> x = TCPSOCKET_INTERRUPTED
          \<and> ws_waiting ?s p rest (WebSocket_rewindData v2)"
        using sp2 Inl stv e2 by (auto simp: ws_waiting_def WebSocket_rewindData_def raw_stream_def)
      ultimately show ?thesis by blast
    next
      case (Inr d)
      then have d: "d = p" "0 < rcs2" "drop (frame_buffer_index v2) (raw_stream ?s v2) = rest"
          "frame_buffer_index v2 = length (frame_buffer v2)"
        using sp2(3) by auto
      obtain v3 where z: "WebSocket_getRawSocketData net 0 rcs2 v2 = (Ptr [], rcs2, v3)" "ws_reading ?s v3"
          "frames_same v2 v3" "raw_stream ?s v3 = rest" "frame_buffer v3 = []" "frame_buffer_index v3 = 0"
        using getRaw_zero [OF sp2(1) d(2,4)] d(3) by metis
      have "receive_loop (Suc fuel) net opc NULL w = Some (TCPSOCKET_COMPLETE, Ptr \<lparr>fr_data = p, fr_pos = 0\<rparr>, net, v3)"
        using d e2 z(1) by (simp add: g g2 \<open>res1 = Inr h\<close> h Inr Let_def set_first_frame_def)
      then show ?thesis using z e2 by (auto simp: frames_same_def)
    qed
  qed
qed

section \<open>Properties\<close>

text \<open>C16. \<open>WebSocket_receiveFrame\<close> can be resumed: while a server's frame with data \<open>p\<close> is being received,
  in whatever portions the socket delivers it, every call either completes and queues exactly \<open>p\<close>,
  with the bytes behind the frame still to be read, or is interrupted in a state from which the
  same frame is received again without losing or repeating a byte, or reports an error.\<close>

theorem receiveFrame_resumes:
  assumes "ws_waiting (socket net) p rest w" "length p < 18446744073709551616"
  shows "\<exists>rc a net' w'. WebSocket_receiveFrame net w = Some (rc, a, net', w') \<and> net' = net
    \<and> (rc = SOCKET_ERROR
       \<or> rc = TCPSOCKET_INTERRUPTED \<and> ws_waiting (socket net) p rest w'
       \<or> rc = TCPSOCKET_COMPLETE \<and> a = Some (length p) \<and> in_frames w' = [Some \<lparr>fr_data = p, fr_pos = 0\<rparr>]
          \<and> ws_reading (socket net) w' \<and> raw_stream (socket net) w' = rest \<and> frame_buffer w' = [])"
proof -
  let ?fuel = "length (rx w (socket net)) + length (frame_buffer w)"
  have e: "in_frames w = []" using assms(1) by (simp add: ws_waiting_def)
  obtain rc res w1 where r: "receive_loop (Suc ?fuel) net WebSocket_OP_BINARY NULL w = Some (rc, res, net, w1)"
    and c: "rc = SOCKET_ERROR
       \<or> rc = TCPSOCKET_INTERRUPTED \<and> ws_waiting (socket net) p rest (WebSocket_rewindData w1)
       \<or> rc = TCPSOCKET_COMPLETE \<and> res = Ptr \<lparr>fr_data = p, fr_pos = 0\<rparr> \<and> in_frames w1 = []
          \<and> ws_reading (socket net) w1 \<and> raw_stream (socket net) w1 = rest \<and> frame_buffer w1 = []
          \<and> frame_buffer_index w1 = 0"
    using receive_loop_spec [OF assms, of ?fuel WebSocket_OP_BINARY] by metis
  from c show ?thesis
  proof (elim disjE conjE)
    assume "rc = TCPSOCKET_COMPLETE" "res = Ptr \<lparr>fr_data = p, fr_pos = 0\<rparr>" "in_frames w1 = []"
      "ws_reading (socket net) w1" "raw_stream (socket net) w1 = rest" "frame_buffer w1 = []"
    then show ?thesis
      using e r by (simp add: WebSocket_receiveFrame_def ws_reading_def raw_stream_def)
  qed (use e r in \<open>simp_all add: WebSocket_receiveFrame_def\<close>)
qed

definition sample_net :: nethandles where
  "sample_net = \<lparr>socket = 5, lastSent = 0, lastReceived = 0, lastPing = 0, http_proxy = NULL,
     http_proxy_auth = NULL, websocket = True, websocket_key = NULL, httpHeaders = NULL\<rparr>"

definition sample_websock :: websock where
  "sample_websock = sockets.extend
     (sample_sockets\<lparr>rx := (\<lambda>_. []) (5 := [0x82, 0x02, 7, 8, 9]),
        recv_plan := (\<lambda>k. if k = 1 then Fail EAGAIN else Move 2)\<rparr>)
     (websock.fields [] NULL [] 0 (\<lambda>k. 40 * k + 3) 0 0)"

lemma sample_websock_waiting: "ws_waiting 5 [7, 8] [9] sample_websock"
  by (simp add: sample_websock_def sample_sockets_def sockets.defs websock.defs ws_waiting_def ws_reading_def
      raw_stream_def reads_inv_def def_free_def queue_ok_def server_frame_def saved_data_def
      read_queue_def clear_queue_def cur_ok_def l_empty_def)

lemma receiveFrame_resumes_witness:
  "\<exists>a w'. WebSocket_receiveFrame sample_net sample_websock = Some (TCPSOCKET_INTERRUPTED, a, sample_net, w')
     \<and> ws_waiting 5 [7, 8] [9] w'"
proof -
  have "map_option fst (WebSocket_receiveFrame sample_net sample_websock) = Some TCPSOCKET_INTERRUPTED"
    by code_simp
  moreover have "socket sample_net = 5" by (simp add: sample_net_def)
  ultimately show ?thesis
    using receiveFrame_resumes [of sample_net "[7, 8]" "[9]" sample_websock] sample_websock_waiting by auto
qed



end
