(* ===== verification/Clients.thy ===== *)
theory Clients
  imports WebSocket Properties
begin

text \<open>
  The data of a client and of the protocol module: \<open>MqttC/Clients.h\<close>, \<open>MqttC/Clients.c\<close>,
  \<open>MQTTProtocol.h\<close> and the structures of \<open>MQTTPersistence.h\<close>.

  Stored publications are shared between messages and pending writes and counted, so they live in a
  heap and are referred to by address; a message is the content of a list element. Times are
  microseconds, differences of times milliseconds. A field that \<open>malloc\<close> leaves unset is an option.
\<close>

abbreviation (input) MQTTVERSION_3_1 :: int where "MQTTVERSION_3_1 \<equiv> 3"
abbreviation (input) MQTTVERSION_3_1_1 :: int where "MQTTVERSION_3_1_1 \<equiv> 4"
abbreviation (input) MQTTVERSION_5 :: int where "MQTTVERSION_5 \<equiv> 5"
abbreviation (input) MAX_MSG_ID :: int where "MAX_MSG_ID \<equiv> 65535"
abbreviation (input) PAHO_MEMORY_ERROR :: int where "PAHO_MEMORY_ERROR \<equiv> -99"
abbreviation (input) MQTTCLIENT_PERSISTENCE_ERROR :: int where "MQTTCLIENT_PERSISTENCE_ERROR \<equiv> -2"

record publication =
  pb_topic :: "bytes cptr"
  pb_topiclen :: int
  pb_payload :: "bytes cptr"
  pb_payloadlen :: nat
  refcount :: int
  pbl_mask :: bytes

record message =
  m_qos :: nat
  m_retain :: bool
  m_msgid :: int
  m_MQTTVersion :: int
  m_properties :: mprops
  m_publish :: "nat cptr"
  lastTouch :: int
  nextMessageType :: "nat option"

record will_message =
  w_topic :: bytes
  w_payload :: bytes
  w_retained :: bool
  w_qos :: nat

record ack_request =
  messageId :: int
  ackType :: nat

record pers_message =
  struct_version :: nat
  pm_payload :: bytes
  pm_qos :: int
  pm_retained :: int
  pm_dup :: int
  pm_msgid :: int
  pm_properties :: mprops

record qentry =
  qe_msg :: pers_message
  topicName :: bytes
  topicLen :: int
  seqno :: nat

abbreviation (input) NOT_IN_PROGRESS :: int where "NOT_IN_PROGRESS \<equiv> 0"
abbreviation (input) TCP_IN_PROGRESS :: int where "TCP_IN_PROGRESS \<equiv> 1"
abbreviation (input) SSL_IN_PROGRESS :: int where "SSL_IN_PROGRESS \<equiv> 2"
abbreviation (input) WEBSOCKET_IN_PROGRESS :: int where "WEBSOCKET_IN_PROGRESS \<equiv> 3"
abbreviation (input) WAIT_FOR_CONNACK :: int where "WAIT_FOR_CONNACK \<equiv> 4"
abbreviation (input) PROXY_CONNECT_IN_PROGRESS :: int where "PROXY_CONNECT_IN_PROGRESS \<equiv> 5"
abbreviation (input) DISCONNECTING :: int where "DISCONNECTING \<equiv> -2"

text \<open>
  \<open>persistence\<close>, \<open>beforeWrite\<close> and \<open>afterRead\<close> say whether these pointers are set; the functions they
  point to are arguments of the operations that call them.
\<close>

record client =
  clientID :: bytes
  username :: "bytes cptr"
  password :: "bytes cptr"
  cleansession :: bool
  cleanstart :: bool
  connected :: bool
  good :: bool
  ping_outstanding :: bool
  ping_due :: bool
  connect_state :: int
  ping_due_time :: int
  c_net :: nethandles
  msgID :: int
  keepAliveInterval :: int
  retryInterval :: int
  maxInflightMessages :: int
  c_will :: "will_message cptr"
  inboundMsgs :: "message clist"
  outboundMsgs :: "message clist"
  connect_count :: int
  connect_sent :: int
  messageQueue :: "qentry clist"
  outboundQueue :: "ack_request clist"
  qentry_seqno :: nat
  phandle :: bytes
  persistence :: bool
  beforeWrite :: bool
  afterRead :: bool
  c_MQTTVersion :: int
  sessionExpiry :: int
  httpProxy :: "bytes cptr"
  httpsProxy :: "bytes cptr"

text \<open>The lists \<open>bstate->clients\<close>, \<open>state.publications\<close> and \<open>state.pending_writes\<close>.\<close>

record protocol = websock +
  clients :: "client clist"
  pub_heap :: "nat \<Rightarrow> publication option"
  next_pub :: nat
  publications :: "nat clist"
  msgs_received :: "32 word"
  msgs_sent :: "32 word"
  pending_writes :: "(int \<times> nat) clist"

definition clientIDCompare :: "bytes \<Rightarrow> client \<Rightarrow> bool" where
  "clientIDCompare b c \<longleftrightarrow> cstr (clientID c) = cstr b"

definition clientSocketCompare :: "int \<Rightarrow> client \<Rightarrow> bool" where
  "clientSocketCompare s c \<longleftrightarrow> socket (c_net c) = s"

text \<open>
  The client of a socket, as its position in the list; following the result of an unsuccessful
  search is undefined.
\<close>

definition find_client :: "int \<Rightarrow> 'z protocol_scheme \<Rightarrow> (nat \<times> 'z protocol_scheme) option" where
  "find_client s w =
     (case l_find (clients w) (clientSocketCompare s) of
        (None, l) \<Rightarrow> None
      | (Some k, l) \<Rightarrow> Some (k, w\<lparr>clients := l\<rparr>))"

definition client_at :: "nat \<Rightarrow> 'z protocol_scheme \<Rightarrow> client" where
  "client_at k w = items (clients w) ! k"

definition upd_client :: "nat \<Rightarrow> (client \<Rightarrow> client) \<Rightarrow> 'z protocol_scheme \<Rightarrow> 'z protocol_scheme" where
  "upd_client k f w =
     w\<lparr>clients := (clients w)\<lparr>items := (items (clients w))[k := f (client_at k w)]\<rparr>\<rparr>"

text \<open>Running an operation on the network handles of a client.\<close>

definition with_net ::
    "nat \<Rightarrow> (nethandles \<Rightarrow> 'z protocol_scheme \<Rightarrow> 'a \<times> nethandles \<times> 'z protocol_scheme)
     \<Rightarrow> 'z protocol_scheme \<Rightarrow> 'a \<times> 'z protocol_scheme" where
  "with_net k f w =
     (case f (c_net (client_at k w)) w of (r, n, w1) \<Rightarrow> (r, upd_client k (\<lambda>c. c\<lparr>c_net := n\<rparr>) w1))"

definition MQTTTime_now :: "'z websock_scheme \<Rightarrow> int" where
  "MQTTTime_now w = clock w"

definition MQTTTime_difftime :: "int \<Rightarrow> int \<Rightarrow> int" where
  "MQTTTime_difftime t_new t_old = (t_new - t_old) div 1000"

section \<open>A client to compute with\<close>

definition sample_handles :: nethandles where
  "sample_handles = \<lparr>socket = 5, lastSent = 0, lastReceived = 0, lastPing = 0, http_proxy = NULL,
     http_proxy_auth = NULL, websocket = False, websocket_key = NULL, httpHeaders = NULL\<rparr>"

definition sample_client :: client where
  "sample_client = \<lparr>clientID = [99], username = NULL, password = NULL, cleansession = True,
     cleanstart = False, connected = True, good = True, ping_outstanding = False, ping_due = False,
     connect_state = 0, ping_due_time = 0, c_net = sample_handles, msgID = 0, keepAliveInterval = 60,
     retryInterval = 0, maxInflightMessages = 10, c_will = NULL, inboundMsgs = l_empty,
     outboundMsgs = l_empty, connect_count = 0, connect_sent = 0, messageQueue = l_empty,
     outboundQueue = l_empty, qentry_seqno = 0, phandle = [], persistence = False, beforeWrite = False,
     afterRead = False, c_MQTTVersion = 4, sessionExpiry = 0, httpProxy = NULL, httpsProxy = NULL\<rparr>"

definition sample_message :: "int \<Rightarrow> nat \<Rightarrow> message" where
  "sample_message i qos = \<lparr>m_qos = qos, m_retain = False, m_msgid = i, m_MQTTVersion = 4,
     m_properties = MQTTProperties_initializer, m_publish = NULL, lastTouch = 0,
     nextMessageType = (if qos = 2 then Some PUBREC else None)\<rparr>"

text \<open>A protocol state with the given clients and an open socket 5 that accepts all writes.\<close>

definition sample_protocol :: "client list \<Rightarrow> protocol" where
  "sample_protocol cs = websock.extend
     (sockets.extend (sample_sockets\<lparr>writev_plan := (\<lambda>k. Move 1000)\<rparr>) (websock.fields [] NULL [] 0 (\<lambda>k. k) 0 7000000))
     (protocol.fields \<lparr>items = cs, cur_pos = None\<rparr> (\<lambda>_. None) 0 l_empty 0 0 l_empty)"

lemmas sample_protocol_defs = sample_protocol_def sample_sockets_def sockets.defs websock.defs protocol.defs

lemma sample_protocol_simps [simp]:
  "clients (sample_protocol cs) = \<lparr>items = cs, cur_pos = None\<rparr>" "pub_heap (sample_protocol cs) = (\<lambda>_. None)"
  "next_pub (sample_protocol cs) = 0" "publications (sample_protocol cs) = l_empty"
  "pending_writes (sample_protocol cs) = l_empty" "clock (sample_protocol cs) = 7000000"
  "pwrites (sample_protocol cs) = l_empty"
  by (simp_all add: sample_protocol_defs)

end
