(* ===== verification/PacketParse.thy ===== *)
theory PacketParse
  imports Clients
begin

text \<open>
  Incoming packets: the functions of \<open>MqttC/MQTTPacket.c\<close> and \<open>MqttC/MQTTPacketOut.c\<close> that turn the
  bytes behind the fixed header into a packet structure, and the table \<open>new_packets\<close> of them.

  A parser takes the MQTT version, the header byte and the data. Its result is \<open>None\<close> when it reads
  outside the data or uses memory that has not been set, \<open>Some NULL\<close> when the packet is refused, and
  otherwise the packet. Fields that a parser leaves unset are options.
\<close>

section \<open>Packet structures\<close>

record publish_packet =
  pu_header :: byte
  pu_topic :: "bytes cptr"
  pu_topiclen :: int
  pu_msgId :: int
  pu_payload :: "bytes cptr"
  pu_payloadlen :: nat
  pu_MQTTVersion :: int
  pu_properties :: mprops
  pu_mask :: bytes

record ack_packet =
  ack_header :: byte
  ack_msgId :: "int option"
  ack_rc :: "byte option"
  ack_MQTTVersion :: int
  ack_properties :: "mprops option"

record connack_packet =
  ca_header :: byte
  ca_flags :: byte
  ca_rc :: byte
  ca_MQTTVersion :: int
  ca_properties :: "mprops option"

record suback_packet =
  sa_header :: byte
  sa_msgId :: int
  sa_MQTTVersion :: int
  sa_properties :: "mprops option"
  sa_qoss :: "nat list"

record unsuback_packet =
  ua_header :: byte
  ua_msgId :: int
  ua_MQTTVersion :: int
  ua_properties :: "mprops option"
  ua_reasonCodes :: "nat list cptr"

datatype packet =
    Header_only byte
  | Publish_packet publish_packet
  | Ack_packet ack_packet
  | Connack_packet connack_packet
  | Suback_packet suback_packet
  | Unsuback_packet unsuback_packet

section \<open>Parsers\<close>

definition MQTTPacket_header_only :: "int \<Rightarrow> byte \<Rightarrow> bytes \<Rightarrow> packet cptr option" where
  "MQTTPacket_header_only MQTTVersion aHeader data = Some (Ptr (Header_only aHeader))"

text \<open>
  Reading the properties of a packet, when its version has them: \<open>Some None\<close> is the protocol error.
\<close>

definition read_packet_props :: "bytes \<Rightarrow> nat \<Rightarrow> (mprops \<times> nat) option option" where
  "read_packet_props data cur =
     map_option (\<lambda>(rc, props, cur'). if rc = 1 then Some (props, cur') else None)
       (MQTTProperties_read MQTTProperties_initializer data cur (length data))"

definition MQTTPacket_publish :: "int \<Rightarrow> byte \<Rightarrow> bytes \<Rightarrow> packet cptr option" where
  "MQTTPacket_publish MQTTVersion aHeader data = do {
     (topic, topiclen, cur) \<leftarrow> readUTFlen data 0 (length data);
     if topic = NULL then Some NULL
     else if hdr_qos aHeader > 0 \<and> length data < cur + 2 then Some NULL
     else do {
       (msgId, cur1) \<leftarrow> (if hdr_qos aHeader > 0 then readInt data cur else Some (0, cur));
       props \<leftarrow> (if MQTTVersion \<ge> MQTTVERSION_5 then read_packet_props data cur1
                else Some (Some (MQTTProperties_initializer, cur1)));
       case props of
         None \<Rightarrow> Some NULL
       | Some (p, cur2) \<Rightarrow>
           Some (Ptr (Publish_packet
             \<lparr>pu_header = aHeader, pu_topic = topic, pu_topiclen = topiclen, pu_msgId = msgId,
              pu_payload = Ptr (drop cur2 data), pu_payloadlen = length data - cur2,
              pu_MQTTVersion = MQTTVersion, pu_properties = p, pu_mask = [0, 0, 0, 0]\<rparr>)) } }"

text \<open>\<open>AUTH\<close> packets, which have no message id, are read as if they had one.\<close>

definition MQTTPacket_ack :: "int \<Rightarrow> byte \<Rightarrow> bytes \<Rightarrow> packet cptr option" where
  "MQTTPacket_ack MQTTVersion aHeader data =
     (let disconnect = (hdr_type aHeader = DISCONNECT); datalen = length data
      in if \<not> disconnect \<and> datalen < 2 then Some NULL
         else do {
           (msgId, cur) \<leftarrow> (if disconnect then Some (None, 0)
                           else map_option (\<lambda>(i, c). (Some i, c)) (readInt data 0));
           if MQTTVersion < MQTTVERSION_5
           then Some (Ptr (Ack_packet \<lparr>ack_header = aHeader, ack_msgId = msgId, ack_rc = None,
                                       ack_MQTTVersion = MQTTVersion, ack_properties = None\<rparr>))
           else do {
             (rc, cur1) \<leftarrow> (if datalen > 2 \<or> disconnect \<and> datalen > 0 then readChar data cur
                           else Some (0, cur));
             props \<leftarrow> (if datalen > 3 \<or> disconnect \<and> datalen > 1 then read_packet_props data cur1
                      else Some (Some (MQTTProperties_initializer, cur1)));
             case props of
               None \<Rightarrow> Some NULL
             | Some (p, _) \<Rightarrow>
                 Some (Ptr (Ack_packet \<lparr>ack_header = aHeader, ack_msgId = msgId, ack_rc = Some rc,
                                        ack_MQTTVersion = MQTTVersion, ack_properties = Some p\<rparr>)) } })"

text \<open>A version 5 packet of two bytes leaves the properties unset.\<close>

definition MQTTPacket_connack :: "int \<Rightarrow> byte \<Rightarrow> bytes \<Rightarrow> packet cptr option" where
  "MQTTPacket_connack MQTTVersion aHeader data =
     (if length data < 2 then Some NULL
      else do {
        (flags, cur) \<leftarrow> readChar data 0;
        (rc, cur1) \<leftarrow> readChar data cur;
        props \<leftarrow> (if MQTTVersion \<ge> MQTTVERSION_5 \<and> length data > 2
                 then map_option (map_option (\<lambda>(p, c). Some p)) (read_packet_props data cur1)
                 else Some (Some None));
        case props of
          None \<Rightarrow> Some NULL
        | Some p \<Rightarrow>
            Some (Ptr (Connack_packet \<lparr>ca_header = aHeader, ca_flags = flags, ca_rc = rc,
                                       ca_MQTTVersion = MQTTVersion, ca_properties = p\<rparr>)) })"

text \<open>The loop that reads the remaining bytes as codes.\<close>

definition read_codes :: "bytes \<Rightarrow> nat \<Rightarrow> nat list" where
  "read_codes data cur = map unat (drop cur data)"

text \<open>
  Before version 5 a packet without codes makes the function free the array of properties that have
  not been set: undefined.
\<close>

definition MQTTPacket_suback :: "int \<Rightarrow> byte \<Rightarrow> bytes \<Rightarrow> packet cptr option" where
  "MQTTPacket_suback MQTTVersion aHeader data =
     (if length data < 2 then Some NULL
      else do {
        (msgId, cur) \<leftarrow> readInt data 0;
        props \<leftarrow> (if MQTTVersion \<ge> MQTTVERSION_5
                 then map_option (map_option (\<lambda>(p, c). (Some p, c))) (read_packet_props data cur)
                 else Some (Some (None, cur)));
        case props of
          None \<Rightarrow> Some NULL
        | Some (p, cur1) \<Rightarrow>
            if read_codes data cur1 = [] then (if p = None then None else Some NULL)
            else Some (Ptr (Suback_packet \<lparr>sa_header = aHeader, sa_msgId = msgId,
                         sa_MQTTVersion = MQTTVersion, sa_properties = p,
                         sa_qoss = read_codes data cur1\<rparr>)) })"

definition MQTTPacket_unsuback :: "int \<Rightarrow> byte \<Rightarrow> bytes \<Rightarrow> packet cptr option" where
  "MQTTPacket_unsuback MQTTVersion aHeader data =
     (if length data < 2 then Some NULL
      else do {
        (msgId, cur) \<leftarrow> readInt data 0;
        if MQTTVersion \<ge> MQTTVERSION_5 then do {
          props \<leftarrow> read_packet_props data cur;
          case props of
            None \<Rightarrow> Some NULL
          | Some (p, cur1) \<Rightarrow>
              if read_codes data cur1 = [] then Some NULL
              else Some (Ptr (Unsuback_packet \<lparr>ua_header = aHeader, ua_msgId = msgId,
                           ua_MQTTVersion = MQTTVersion, ua_properties = Some p,
                           ua_reasonCodes = Ptr (read_codes data cur1)\<rparr>)) }
        else Some (Ptr (Unsuback_packet \<lparr>ua_header = aHeader, ua_msgId = msgId,
                     ua_MQTTVersion = MQTTVersion, ua_properties = None, ua_reasonCodes = NULL\<rparr>)) })"

text \<open>The entry of the table for a packet type; \<open>None\<close> for its null pointers.\<close>

definition new_packets :: "nat \<Rightarrow> (int \<Rightarrow> byte \<Rightarrow> bytes \<Rightarrow> packet cptr option) option" where
  "new_packets ptype =
     (if ptype = CONNACK then Some MQTTPacket_connack
      else if ptype = PUBLISH then Some MQTTPacket_publish
      else if ptype \<in> {PUBACK, PUBREC, PUBREL, PUBCOMP, DISCONNECT, AUTH} then Some MQTTPacket_ack
      else if ptype = SUBACK then Some MQTTPacket_suback
      else if ptype = UNSUBACK then Some MQTTPacket_unsuback
      else if ptype \<in> {PINGREQ, PINGRESP} then Some MQTTPacket_header_only
      else None)"

end
