(* ===== verification/MessageStore.thy ===== *)
theory MessageStore
  imports PacketParse
begin

text \<open>
  The message store of \<open>MqttC/MQTTProtocolClient.c\<close>: message identifiers, the counted publications
  that messages share, and the acknowledgements that wait for the socket.

  \<open>None\<close> stands for following a pointer to memory that has been freed or to nothing. Allocation
  succeeds; the bookkeeping of sizes (\<open>len\<close>) is left out.
\<close>

definition messageIDCompare :: "int \<Rightarrow> message \<Rightarrow> bool" where
  "messageIDCompare i m \<longleftrightarrow> m_msgid m = i"

section \<open>Message identifiers\<close>

definition next_msgid :: "int \<Rightarrow> int" where
  "next_msgid msgid = (if msgid = MAX_MSG_ID then 1 else msgid + 1)"

text \<open>
  The loop of \<open>MQTTProtocol_assignMsgId\<close>, on the list of outbound messages, whose \<open>current\<close> every
  search moves. \<open>None\<close>: the fuel has run out.
\<close>

fun assignMsgId_loop :: "nat \<Rightarrow> int \<Rightarrow> int \<Rightarrow> message clist \<Rightarrow> (int \<times> message clist) option" where
  "assignMsgId_loop 0 start_msgid msgid msgs = None"
| "assignMsgId_loop (Suc fuel) start_msgid msgid msgs =
     (case l_find msgs (messageIDCompare msgid) of
        (None, msgs1) \<Rightarrow> Some (msgid, msgs1)
      | (Some _, msgs1) \<Rightarrow>
          let msgid1 = next_msgid msgid
          in if msgid1 = start_msgid then Some (0, msgs1)
             else assignMsgId_loop fuel start_msgid msgid1 msgs1)"

definition MQTTProtocol_assignMsgId :: "nat \<Rightarrow> client \<Rightarrow> (int \<times> client) option" where
  "MQTTProtocol_assignMsgId fuel c =
     map_option (\<lambda>(msgid, msgs). (msgid, c\<lparr>outboundMsgs := msgs, msgID := (if msgid \<noteq> 0 then msgid else msgID c)\<rparr>))
       (assignMsgId_loop fuel (msgID c) (next_msgid (msgID c)) (outboundMsgs c))"

section \<open>Publications\<close>

text \<open>
  The topic and payload pointers of the packet move into the stored publication. The result is its
  address, the packet and the state.
\<close>

definition MQTTProtocol_storePublication ::
    "publish_packet \<Rightarrow> 'z protocol_scheme \<Rightarrow> (nat \<times> publish_packet \<times> 'z protocol_scheme) option" where
  "MQTTProtocol_storePublication publish w =
     (case pu_topic publish of
        NULL \<Rightarrow> None
      | Ptr _ \<Rightarrow>
          let p = next_pub w;
              pb = \<lparr>pb_topic = pu_topic publish, pb_topiclen = pu_topiclen publish,
                    pb_payload = pu_payload publish, pb_payloadlen = pu_payloadlen publish,
                    refcount = 1, pbl_mask = pu_mask publish\<rparr>
          in Some (p, publish\<lparr>pu_topic := NULL, pu_payload := NULL\<rparr>,
                   w\<lparr>pub_heap := (pub_heap w)(p \<mapsto> pb), next_pub := p + 1,
                     publications := l_append (publications w) p\<rparr>))"

definition MQTTProtocol_removePublication ::
    "nat cptr \<Rightarrow> 'z protocol_scheme \<Rightarrow> 'z protocol_scheme option" where
  "MQTTProtocol_removePublication p w =
     (case p of
        NULL \<Rightarrow> Some w
      | Ptr a \<Rightarrow>
          (case pub_heap w a of
             None \<Rightarrow> None
           | Some pb \<Rightarrow>
               let n = refcount pb - 1
               in if n = 0
                  then Some (w\<lparr>pub_heap := (pub_heap w)(a := None),
                               publications := snd (l_unlink (publications w) ((=) a))\<rparr>)
                  else Some (w\<lparr>pub_heap := (pub_heap w)(a \<mapsto> pb\<lparr>refcount := n\<rparr>)\<rparr>)))"

text \<open>
  \<open>MQTTProtocol_createMessage\<close>; \<open>old\<close> is the publication of the message that is passed in (\<open>NULL\<close>
  without such a message). A copy of the payload has the same contents, so that \<open>allocatePayload\<close>
  makes no difference here.
\<close>

definition MQTTProtocol_createMessage ::
    "publish_packet \<Rightarrow> nat cptr \<Rightarrow> nat \<Rightarrow> bool \<Rightarrow> 'z protocol_scheme
     \<Rightarrow> (message \<times> publish_packet \<times> 'z protocol_scheme) option" where
  "MQTTProtocol_createMessage publish old qos retained w =
     map_option (\<lambda>(p, publish1, w1).
        (\<lparr>m_qos = qos, m_retain = retained, m_msgid = pu_msgId publish1,
          m_MQTTVersion = pu_MQTTVersion publish1,
          m_properties = (if pu_MQTTVersion publish1 \<ge> MQTTVERSION_5
                          then MQTTProperties_copy (pu_properties publish1)
                          else MQTTProperties_initializer),
          m_publish = Ptr p, lastTouch = MQTTTime_now w1,
          nextMessageType = (if qos = 2 then Some PUBREC else None)\<rparr>, publish1, w1))
       (case old of
          NULL \<Rightarrow> MQTTProtocol_storePublication publish w
        | Ptr a \<Rightarrow>
            (case pub_heap w a of
               None \<Rightarrow> None
             | Some pb \<Rightarrow>
                 Some (a, publish, w\<lparr>pub_heap := (pub_heap w)(a \<mapsto> pb\<lparr>refcount := refcount pb + 1\<rparr>)\<rparr>)))"

text \<open>Releasing the publications of all messages of a list.\<close>

fun release_messages :: "message list \<Rightarrow> 'z protocol_scheme \<Rightarrow> 'z protocol_scheme option" where
  "release_messages [] w = Some w"
| "release_messages (m # ms) w = do {
     w1 \<leftarrow> MQTTProtocol_removePublication (m_publish m) w;
     release_messages ms w1 }"

definition MQTTProtocol_emptyMessageList ::
    "message clist \<Rightarrow> 'z protocol_scheme \<Rightarrow> (message clist \<times> 'z protocol_scheme) option" where
  "MQTTProtocol_emptyMessageList msgs w = map_option (\<lambda>w1. (l_empty, w1)) (release_messages (items msgs) w)"

definition MQTTProtocol_freeMessageList ::
    "message clist \<Rightarrow> 'z protocol_scheme \<Rightarrow> 'z protocol_scheme option" where
  "MQTTProtocol_freeMessageList msgs w = map_option snd (MQTTProtocol_emptyMessageList msgs w)"

section \<open>Queued acknowledgements\<close>

definition MQTTProtocol_queueAck :: "nat \<Rightarrow> nat \<Rightarrow> int \<Rightarrow> 'z protocol_scheme \<Rightarrow> int \<times> 'z protocol_scheme" where
  "MQTTProtocol_queueAck k type msgId w =
     (0, upd_client k (\<lambda>c. c\<lparr>outboundQueue := l_append (outboundQueue c)
            \<lparr>messageId = msgId, ackType = type\<rparr>\<rparr>) w)"

section \<open>Lemmas on identifiers\<close>

lemma next_msgid_range: "0 \<le> i \<Longrightarrow> i \<le> MAX_MSG_ID \<Longrightarrow> 1 \<le> next_msgid i \<and> next_msgid i \<le> MAX_MSG_ID"
  by (simp add: next_msgid_def)

lemma l_find_ids:
  assumes "cur_ok msgs"
  shows "fst (l_find msgs (messageIDCompare i)) = None \<longleftrightarrow> i \<notin> m_msgid ` set (items msgs)"
  using l_find_None [OF assms, of "messageIDCompare i"] by (auto simp: messageIDCompare_def)

text \<open>The \<open>k\<close>-th identifier that is tried, counted from \<open>i\<close>.\<close>

definition msgid_after :: "int \<Rightarrow> nat \<Rightarrow> int" where
  "msgid_after i k = (i - 1 + int k) mod MAX_MSG_ID + 1"

lemma msgid_after_0: "1 \<le> i \<Longrightarrow> i \<le> MAX_MSG_ID \<Longrightarrow> msgid_after i 0 = i"
  by (simp add: msgid_after_def)

lemma msgid_after_next:
  assumes "1 \<le> i" "i \<le> MAX_MSG_ID"
  shows "msgid_after (next_msgid i) k = msgid_after i (Suc k)"
proof (cases "i = MAX_MSG_ID")
  case True
  have "MAX_MSG_ID + int k = int k + MAX_MSG_ID" by simp
  then show ?thesis using True by (simp add: next_msgid_def msgid_after_def)
next
  case False
  then show ?thesis by (simp add: next_msgid_def msgid_after_def algebra_simps)
qed

text \<open>While fewer than 65535 identifiers are taken, one of those that are tried is free.\<close>

lemma free_msgid:
  assumes "finite ids" "card ids < 65535" "1 \<le> i" "i \<le> MAX_MSG_ID"
  shows "\<exists>k < 65535. msgid_after i k \<notin> ids"
proof (rule ccontr)
  assume a: "\<not> ?thesis"
  let ?f = "\<lambda>k. msgid_after i k"
  have "inj_on ?f {..<65535}"
  proof (rule inj_onI)
    fix k l :: nat assume k: "k \<in> {..<65535}" "l \<in> {..<65535}" "msgid_after i k = msgid_after i l"
    then have "(i - 1 + int k) mod 65535 = (i - 1 + int l) mod 65535" by (simp add: msgid_after_def)
    then have "int k mod 65535 = int l mod 65535"
      using mod_diff_cong [of "i - 1 + int k" 65535 "i - 1 + int l" "i - 1" "i - 1"] by simp
    then show "k = l" using k(1,2) by simp
  qed
  then have "card (?f ` {..<65535}) = 65535" by (simp add: card_image)
  moreover have "?f ` {..<65535} \<subseteq> ids" using a by auto
  then have "card (?f ` {..<65535}) \<le> card ids" by (intro card_mono assms(1))
  ultimately show False using assms(2) by simp
qed

lemma msgid_after_back:
  assumes "1 \<le> s" "s \<le> MAX_MSG_ID" "1 \<le> i" "i \<le> MAX_MSG_ID" "i \<noteq> s"
    and j: "msgid_after (next_msgid s) (Suc j) = s"
  shows "\<exists>k \<le> j. msgid_after (next_msgid s) k = i"
proof -
  have m: "msgid_after (next_msgid s) k = (s + int k) mod MAX_MSG_ID + 1" for k
    using msgid_after_next [of s k] assms by (simp add: msgid_after_def)
  have "(s + int (Suc j)) mod MAX_MSG_ID + 1 = s" using j m by simp
  then have "(s + int (Suc j)) mod MAX_MSG_ID = (s - 1) mod MAX_MSG_ID" using assms by simp
  then have "MAX_MSG_ID dvd (s + int (Suc j)) - (s - 1)" by (simp only: mod_eq_dvd_iff)
  then have d: "MAX_MSG_ID dvd 2 + int j" by simp
  then have jj: "65533 \<le> j" using zdvd_imp_le [OF d] by linarith
  define k where "k = nat ((i - 1 - s) mod MAX_MSG_ID)"
  have k: "int k = (i - 1 - s) mod MAX_MSG_ID" by (simp add: k_def)
  have "(s + int k) mod MAX_MSG_ID = (i - 1) mod MAX_MSG_ID"
    unfolding k by (simp add: mod_add_right_eq)
  then have "msgid_after (next_msgid s) k = i" using m assms by simp
  moreover have "k \<le> 65533"
  proof -
    have "int k \<noteq> 65534"
    proof
      assume "int k = 65534"
      then have "(i - 1 - s) mod MAX_MSG_ID = 65534 mod MAX_MSG_ID" using k by simp
      then have "MAX_MSG_ID dvd (i - 1 - s) - 65534" by (simp only: mod_eq_dvd_iff)
      then have "MAX_MSG_ID dvd i - s" using dvd_add [of MAX_MSG_ID "(i - 1 - s) - 65534" MAX_MSG_ID] by simp
      then have "i = s" using assms zdvd_not_zless [of "i - s" MAX_MSG_ID] zdvd_not_zless [of "s - i" MAX_MSG_ID]
        by (cases "i < s") (auto simp: dvd_diff_commute)
      then show False using assms by simp
    qed
    moreover have "int k < 65535" using k by simp
    ultimately show ?thesis by linarith
  qed
  ultimately show ?thesis using jj by (intro exI [of _ k]) simp
qed

section \<open>The search for an identifier\<close>

text \<open>
  The protocol layer and the asynchronous client look for an identifier in the same way: \<open>used\<close> is the
  search for one, which may move cursors of lists, and \<open>loop\<close> is the loop around it. What both promise
  follows from the set \<open>ids\<close> of the identifiers that are taken.
\<close>

locale id_search =
  fixes used :: "int \<Rightarrow> 's \<Rightarrow> bool \<times> 's"
    and loop :: "nat \<Rightarrow> int \<Rightarrow> int \<Rightarrow> 's \<Rightarrow> (int \<times> 's) option"
    and ids :: "'s \<Rightarrow> int set"
    and ok :: "'s \<Rightarrow> bool"
    and same :: "'s \<Rightarrow> 's \<Rightarrow> bool"
  assumes used_iff: "ok s \<Longrightarrow> used i s = (u, t) \<Longrightarrow> u \<longleftrightarrow> i \<in> ids s"
    and used_ok: "ok s \<Longrightarrow> used i s = (u, t) \<Longrightarrow> ok t"
    and used_same: "ok s \<Longrightarrow> used i s = (u, t) \<Longrightarrow> same s t"
    and same_ids: "same s t \<Longrightarrow> ids t = ids s"
    and same_trans: "same s t \<Longrightarrow> same t t' \<Longrightarrow> same s t'"
    and loop_0: "loop 0 start i s = None"
    and loop_Suc: "loop (Suc n) start i s =
      (case used i s of (u, t) \<Rightarrow> if \<not> u then Some (i, t)
         else if next_msgid i = start then Some (0, t) else loop n start (next_msgid i) t)"
begin

lemma loop_result:
  assumes "loop n start i s = Some (r, t)" "ok s" "1 \<le> i" "i \<le> MAX_MSG_ID"
  shows "same s t" "ok t" "r = 0 \<or> 1 \<le> r \<and> r \<le> MAX_MSG_ID \<and> r \<notin> ids s"
proof -
  have "same s t \<and> ok t \<and> (r = 0 \<or> 1 \<le> r \<and> r \<le> MAX_MSG_ID \<and> r \<notin> ids s)"
    using assms
  proof (induction n arbitrary: i s)
    case (Suc n)
    obtain u s1 where u: "used i s = (u, s1)" by fastforce
    note s1 = used_iff [OF Suc.prems(2) u] used_ok [OF Suc.prems(2) u] used_same [OF Suc.prems(2) u]
    have n: "1 \<le> next_msgid i" "next_msgid i \<le> MAX_MSG_ID"
      using next_msgid_range [of i] Suc.prems(3,4) by simp_all
    show ?case
    proof (cases "u \<and> next_msgid i \<noteq> start")
      case True
      then have "loop n start (next_msgid i) s1 = Some (r, t)" using Suc.prems(1) u by (simp add: loop_Suc)
      from Suc.IH [OF this s1(2) n] show ?thesis using same_trans [OF s1(3)] same_ids [OF s1(3)] by blast
    next
      case False
      then have "t = s1" "r = 0 \<or> \<not> u \<and> r = i"
        using Suc.prems(1) u by (auto simp: loop_Suc split: if_splits)
      then show ?thesis using s1 Suc.prems(3,4) by auto
    qed
  qed (simp add: loop_0)
  then show "same s t" "ok t" "r = 0 \<or> 1 \<le> r \<and> r \<le> MAX_MSG_ID \<and> r \<notin> ids s" by blast+
qed

lemma loop_returns:
  assumes "ok s" "1 \<le> i" "i \<le> MAX_MSG_ID" "msgid_after i k \<notin> ids s" "k < n"
  shows "\<exists>r t. loop n start i s = Some (r, t)"
  using assms
proof (induction n arbitrary: i s k)
  case (Suc n)
  obtain u s1 where u: "used i s = (u, s1)" by fastforce
  note s1 = used_iff [OF Suc.prems(1) u] used_ok [OF Suc.prems(1) u] same_ids [OF used_same [OF Suc.prems(1) u]]
  show ?case
  proof (cases u)
    case False
    then show ?thesis using u by (simp add: loop_Suc)
  next
    case True
    then have "k \<noteq> 0" using s1(1) Suc.prems msgid_after_0 by metis
    then obtain j where j: "k = Suc j" by (cases k) auto
    have "\<exists>r t. loop n start (next_msgid i) s1 = Some (r, t)"
      using Suc.IH [OF s1(2), of "next_msgid i" j] next_msgid_range [of i] Suc.prems msgid_after_next [of i j] j s1(3)
      by simp
    then show ?thesis using u True by (simp add: loop_Suc)
  qed
qed simp

text \<open>The loop gives up only when all identifiers that it has tried are taken.\<close>

lemma loop_zero:
  assumes "loop n start i s = Some (0, t)" "ok s" "1 \<le> i" "i \<le> MAX_MSG_ID"
  shows "\<exists>j. msgid_after i (Suc j) = start \<and> (\<forall>k \<le> j. msgid_after i k \<in> ids s)"
  using assms
proof (induction n arbitrary: i s)
  case (Suc n)
  obtain u s1 where u: "used i s = (u, s1)" by fastforce
  note s1 = used_iff [OF Suc.prems(2) u] used_ok [OF Suc.prems(2) u] same_ids [OF used_same [OF Suc.prems(2) u]]
  have n: "1 \<le> next_msgid i" "next_msgid i \<le> MAX_MSG_ID"
    using next_msgid_range [of i] Suc.prems(3,4) by simp_all
  have i: "msgid_after i 0 = i" using msgid_after_0 Suc.prems by simp
  have taken: "i \<in> ids s" using Suc.prems u s1(1) by (auto simp: loop_Suc split: if_splits)
  show ?case
  proof (cases "next_msgid i = start")
    case True
    then have "msgid_after i (Suc 0) = start"
      using msgid_after_next [of i 0] msgid_after_0 n Suc.prems by simp
    then show ?thesis using taken i by (intro exI [of _ 0]) simp
  next
    case False
    then have "loop n start (next_msgid i) s1 = Some (0, t)"
      using Suc.prems(1) u s1(1) taken by (simp add: loop_Suc)
    then obtain j where j: "msgid_after (next_msgid i) (Suc j) = start"
        "\<forall>k \<le> j. msgid_after (next_msgid i) k \<in> ids s"
      using Suc.IH [OF _ s1(2) n] s1(3) by auto
    have "msgid_after i k \<in> ids s" if "k \<le> Suc j" for k
      using that taken i j(2) msgid_after_next [of i] Suc.prems(3,4) by (cases k) auto
    then show ?thesis using j(1) msgid_after_next [of i] Suc.prems by (intro exI [of _ "Suc j"]) simp
  qed
qed (simp add: loop_0)

text \<open>The search that begins behind the last identifier.\<close>

lemma fresh_or_exhausted:
  assumes s: "ok s" "0 \<le> prev_id" "prev_id \<le> MAX_MSG_ID" and ids: "finite (ids s)" "card (ids s) < 65535" "65535 \<le> n"
  obtains r t where "loop n prev_id (next_msgid prev_id) s = Some (r, t)" "same s t" "ok t"
    "r \<noteq> 0 \<longrightarrow> 1 \<le> r \<and> r \<le> MAX_MSG_ID \<and> r \<notin> ids s"
    "r = 0 \<longrightarrow> (\<forall>i. 1 \<le> i \<and> i \<le> MAX_MSG_ID \<and> i \<noteq> prev_id \<longrightarrow> i \<in> ids s)"
proof -
  have n: "1 \<le> next_msgid prev_id" "next_msgid prev_id \<le> MAX_MSG_ID" using next_msgid_range [of prev_id] s by simp_all
  obtain k where "k < 65535" "msgid_after (next_msgid prev_id) k \<notin> ids s" using free_msgid [OF ids(1,2) n] by blast
  then obtain r t where r: "loop n prev_id (next_msgid prev_id) s = Some (r, t)"
    using loop_returns [OF s(1) n] ids(3) by (meson order_less_le_trans)
  have taken: "i \<in> ids s" if "r = 0" "1 \<le> i" "i \<le> MAX_MSG_ID" "i \<noteq> prev_id" for i
  proof -
    have r0: "loop n prev_id (next_msgid prev_id) s = Some (0, t)" using r that(1) by simp
    obtain j where j: "msgid_after (next_msgid prev_id) (Suc j) = prev_id"
        "\<forall>k \<le> j. msgid_after (next_msgid prev_id) k \<in> ids s"
      using loop_zero [OF r0 s(1) n] by blast
    have "0 \<le> (next_msgid prev_id - 1 + int (Suc j)) mod MAX_MSG_ID" by simp
    then have "1 \<le> prev_id" using j(1) unfolding msgid_after_def by linarith
    then show ?thesis using msgid_after_back [OF _ s(3) that(2-4) j(1)] j(2) by auto
  qed
  show ?thesis by (rule that [OF r]) (use loop_result [OF r s(1) n] taken in auto)
qed

end

interpretation store_ids: id_search
  "\<lambda>i msgs. case l_find msgs (messageIDCompare i) of (f, msgs1) \<Rightarrow> (f \<noteq> None, msgs1)" assignMsgId_loop
  "\<lambda>msgs. m_msgid ` set (items msgs)" cur_ok "\<lambda>s t. items t = items s"
proof unfold_locales
  fix s t :: "message clist" and i u
  assume a: "cur_ok s" "(case l_find s (messageIDCompare i) of (f, msgs1) \<Rightarrow> (f \<noteq> None, msgs1)) = (u, t)"
  obtain f where f: "l_find s (messageIDCompare i) = (f, t)" "u \<longleftrightarrow> f \<noteq> None" using a(2) by (auto split: prod.splits)
  show "u \<longleftrightarrow> i \<in> m_msgid ` set (items s)" using l_find_ids [OF a(1), of i] f by auto
  show "cur_ok t" "items t = items s"
    using cur_ok_l_find [OF a(1), of "messageIDCompare i"] items_l_find [of s "messageIDCompare i"] f(1) by simp_all
qed (auto simp: Let_def split: prod.splits option.splits)

section \<open>Properties\<close>

text \<open>C25. \<open>MQTTProtocol_assignMsgId\<close> returns within 65535 rounds as long as fewer than 65535 messages are
  in flight. The identifier is one that no message in flight has, between 1 and 65535, and becomes
  the last one used; or it is 0, and then every identifier other than the last one used, which is
  never tried, is taken. The messages in flight are not changed.\<close>

theorem assignMsgId_fresh:
  assumes "cur_ok (outboundMsgs c)" "0 \<le> msgID c" "msgID c \<le> MAX_MSG_ID"
    "length (items (outboundMsgs c)) < 65535"
  shows "\<exists>r c'. MQTTProtocol_assignMsgId 65535 c = Some (r, c') \<and> items (outboundMsgs c') = items (outboundMsgs c)
    \<and> (r \<noteq> 0 \<longrightarrow> 1 \<le> r \<and> r \<le> MAX_MSG_ID \<and> r \<notin> m_msgid ` set (items (outboundMsgs c)) \<and> msgID c' = r)
    \<and> (r = 0 \<longrightarrow> msgID c' = msgID c
         \<and> (\<forall>i. 1 \<le> i \<and> i \<le> MAX_MSG_ID \<and> i \<noteq> msgID c \<longrightarrow> i \<in> m_msgid ` set (items (outboundMsgs c))))"
proof -
  let ?ids = "m_msgid ` set (items (outboundMsgs c))"
  have n: "card ?ids < 65535"
    using assms(4) card_image_le [of "set (items (outboundMsgs c))" m_msgid] card_length [of "items (outboundMsgs c)"]
    by (meson finite_set le_less_trans)
  obtain r t where "assignMsgId_loop 65535 (msgID c) (next_msgid (msgID c)) (outboundMsgs c) = Some (r, t)"
      "items t = items (outboundMsgs c)" "r \<noteq> 0 \<longrightarrow> 1 \<le> r \<and> r \<le> MAX_MSG_ID \<and> r \<notin> ?ids"
      "r = 0 \<longrightarrow> (\<forall>i. 1 \<le> i \<and> i \<le> MAX_MSG_ID \<and> i \<noteq> msgID c \<longrightarrow> i \<in> ?ids)"
    by (rule store_ids.fresh_or_exhausted [OF assms(1-3) _ n, of 65535]) auto
  then show ?thesis by (auto simp: MQTTProtocol_assignMsgId_def)
qed

lemma assignMsgId_fresh_witness:
  "\<exists>r c'. MQTTProtocol_assignMsgId 65535
       (sample_client\<lparr>outboundMsgs := \<lparr>items = [sample_message 1 1, sample_message 2 1], cur_pos = Some 1\<rparr>\<rparr>)
     = Some (r, c') \<and> 3 \<le> r"
proof -
  let ?c = "sample_client\<lparr>outboundMsgs := \<lparr>items = [sample_message 1 1, sample_message 2 1], cur_pos = Some 1\<rparr>\<rparr>"
  obtain r c' where r: "MQTTProtocol_assignMsgId 65535 ?c = Some (r, c')"
      "r \<noteq> 0 \<longrightarrow> 1 \<le> r \<and> r \<notin> m_msgid ` set (items (outboundMsgs ?c))"
      "r = 0 \<longrightarrow> (\<forall>i. 1 \<le> i \<and> i \<le> MAX_MSG_ID \<and> i \<noteq> msgID ?c \<longrightarrow> i \<in> m_msgid ` set (items (outboundMsgs ?c)))"
    using assignMsgId_fresh [of ?c] by (auto simp: cur_ok_def sample_client_def)
  have ids: "m_msgid ` set (items (outboundMsgs ?c)) = {1, 2}" "msgID ?c = 0"
    by (simp_all add: sample_message_def sample_client_def)
  have "r \<noteq> 0" using r(3) [rule_format, of 3] unfolding ids by auto
  then have "3 \<le> r" using r(2) unfolding ids by auto
  with r(1) show ?thesis by blast
qed

end
