(* ===== verification/Persistence.thy ===== *)
theory Persistence
  imports MessageStore
begin

text \<open>
  \<open>MqttC/MQTTPersistence.c\<close>: keeping messages and the queue of undelivered messages in a store, and
  restoring them.

  The store is the structure \<open>MQTTClient_persistence\<close>, eight functions that a client supplies or that
  \<open>MqttC/MQTTPersistenceDefault.c\<close> implements: it is the argument \<open>per\<close>, together with the two
  callbacks \<open>beforeWrite\<close> and \<open>afterRead\<close>. A client refers to its store by \<open>phandle\<close>. Clients are
  given by their position in the list. \<open>None\<close> stands for undefined behaviour: reading outside a
  buffer, or taking a stored packet for one of another type.
\<close>

record 'w persist_api =
  popen :: "bytes \<Rightarrow> bytes \<Rightarrow> 'w \<Rightarrow> int \<times> bytes \<times> 'w"
  pclose :: "bytes \<Rightarrow> 'w \<Rightarrow> int \<times> 'w"
  pput :: "bytes \<Rightarrow> bytes \<Rightarrow> bytes list \<Rightarrow> 'w \<Rightarrow> int \<times> 'w"
  pget :: "bytes \<Rightarrow> bytes \<Rightarrow> 'w \<Rightarrow> int \<times> bytes \<times> 'w"
  premove :: "bytes \<Rightarrow> bytes \<Rightarrow> 'w \<Rightarrow> int \<times> 'w"
  pkeys :: "bytes \<Rightarrow> 'w \<Rightarrow> int \<times> bytes list \<times> 'w"
  pclear :: "bytes \<Rightarrow> 'w \<Rightarrow> int \<times> 'w"
  pcontainskey :: "bytes \<Rightarrow> bytes \<Rightarrow> 'w \<Rightarrow> int \<times> 'w"
  before_write :: "bytes list \<Rightarrow> 'w \<Rightarrow> int \<times> bytes list \<times> 'w"
  after_read :: "bytes \<Rightarrow> 'w \<Rightarrow> int \<times> bytes \<times> 'w"

section \<open>Keys\<close>

definition ascii :: "string \<Rightarrow> bytes" where
  "ascii s = map of_char s"

definition PERSISTENCE_PUBLISH_SENT :: bytes where "PERSISTENCE_PUBLISH_SENT = ascii ''s-''"
definition PERSISTENCE_PUBREL :: bytes where "PERSISTENCE_PUBREL = ascii ''sc-''"
definition PERSISTENCE_PUBLISH_RECEIVED :: bytes where "PERSISTENCE_PUBLISH_RECEIVED = ascii ''r-''"
definition PERSISTENCE_V5_PUBLISH_SENT :: bytes where "PERSISTENCE_V5_PUBLISH_SENT = ascii ''s5-''"
definition PERSISTENCE_V5_PUBREL :: bytes where "PERSISTENCE_V5_PUBREL = ascii ''sc5-''"
definition PERSISTENCE_V5_PUBLISH_RECEIVED :: bytes where "PERSISTENCE_V5_PUBLISH_RECEIVED = ascii ''r5-''"
definition PERSISTENCE_COMMAND_KEY :: bytes where "PERSISTENCE_COMMAND_KEY = ascii ''c-''"
definition PERSISTENCE_V5_COMMAND_KEY :: bytes where "PERSISTENCE_V5_COMMAND_KEY = ascii ''c5-''"
definition PERSISTENCE_QUEUE_KEY :: bytes where "PERSISTENCE_QUEUE_KEY = ascii ''q-''"
definition PERSISTENCE_V5_QUEUE_KEY :: bytes where "PERSISTENCE_V5_QUEUE_KEY = ascii ''q5-''"

abbreviation (input) PERSISTENCE_MAX_KEY_LENGTH :: nat where "PERSISTENCE_MAX_KEY_LENGTH \<equiv> 10"
abbreviation (input) PERSISTENCE_SEQNO_LIMIT :: nat where "PERSISTENCE_SEQNO_LIMIT \<equiv> 1000000"

lemmas key_stems = PERSISTENCE_PUBLISH_SENT_def PERSISTENCE_PUBREL_def PERSISTENCE_PUBLISH_RECEIVED_def
  PERSISTENCE_V5_PUBLISH_SENT_def PERSISTENCE_V5_PUBREL_def PERSISTENCE_V5_PUBLISH_RECEIVED_def
  PERSISTENCE_COMMAND_KEY_def PERSISTENCE_V5_COMMAND_KEY_def PERSISTENCE_QUEUE_KEY_def
  PERSISTENCE_V5_QUEUE_KEY_def ascii_def

text \<open>\<open>%d\<close> and \<open>%u\<close> of \<open>snprintf\<close>.\<close>

fun dec_digits :: "nat \<Rightarrow> bytes" where
  "dec_digits n = (if n < 10 then [of_nat (48 + n)] else dec_digits (n div 10) @ [of_nat (48 + n mod 10)])"

declare dec_digits.simps [simp del]

definition decimal :: "int \<Rightarrow> bytes" where
  "decimal i = (if i < 0 then 45 # dec_digits (nat (- i)) else dec_digits (nat i))"

text \<open>\<open>snprintf (key, keysize, "%s%d", stem, n)\<close>: the key and whether it was cut off.\<close>

definition print_key :: "bytes \<Rightarrow> int \<Rightarrow> bytes \<times> bool" where
  "print_key stem n =
     (let s = stem @ decimal n
      in (take PERSISTENCE_MAX_KEY_LENGTH s, length s \<ge> PERSISTENCE_MAX_KEY_LENGTH + 1))"

text \<open>\<open>strncmp (key, stem, strlen (stem)) == 0\<close>\<close>

definition has_stem :: "bytes \<Rightarrow> bytes \<Rightarrow> bool" where
  "has_stem stem key \<longleftrightarrow> take (length stem) (cstr key) = stem"

section \<open>Opening and closing\<close>

definition MQTTPersistence_close ::
    "'z protocol_scheme persist_api \<Rightarrow> nat \<Rightarrow> 'z protocol_scheme \<Rightarrow> int \<times> 'z protocol_scheme" where
  "MQTTPersistence_close per k w =
     (if persistence (client_at k w)
      then (case pclose per (phandle (client_at k w)) w of (rc, w1) \<Rightarrow>
              (rc, upd_client k (\<lambda>c. c\<lparr>phandle := [], persistence := False\<rparr>) w1))
      else (0, w))"

definition MQTTPersistence_clear ::
    "'z protocol_scheme persist_api \<Rightarrow> nat \<Rightarrow> 'z protocol_scheme \<Rightarrow> int \<times> 'z protocol_scheme" where
  "MQTTPersistence_clear per k w =
     (if persistence (client_at k w) then pclear per (phandle (client_at k w)) w else (0, w))"

section \<open>Storing and removing packets\<close>

definition packet_stem :: "nat \<Rightarrow> bool \<Rightarrow> int \<Rightarrow> bytes" where
  "packet_stem htype received MQTTVersion =
     (if \<not> received then
        (if htype = PUBLISH then
           (if MQTTVersion \<ge> MQTTVERSION_5 then PERSISTENCE_V5_PUBLISH_SENT else PERSISTENCE_PUBLISH_SENT)
         else if htype = PUBREL then
           (if MQTTVersion \<ge> MQTTVERSION_5 then PERSISTENCE_V5_PUBREL else PERSISTENCE_PUBREL)
         else PERSISTENCE_PUBLISH_SENT)
      else (if MQTTVersion \<ge> MQTTVERSION_5 then PERSISTENCE_V5_PUBLISH_RECEIVED
            else PERSISTENCE_PUBLISH_RECEIVED))"

definition packet_key :: "nat \<Rightarrow> int \<Rightarrow> bool \<Rightarrow> int \<Rightarrow> bytes \<times> bool" where
  "packet_key htype msgId received MQTTVersion = print_key (packet_stem htype received MQTTVersion) msgId"

definition MQTTPersistence_putPacket ::
    "'z protocol_scheme persist_api \<Rightarrow> int \<Rightarrow> bytes \<Rightarrow> bytes list \<Rightarrow> nat \<Rightarrow> int \<Rightarrow> bool \<Rightarrow> int
     \<Rightarrow> 'z protocol_scheme \<Rightarrow> (int \<times> 'z protocol_scheme) option" where
  "MQTTPersistence_putPacket per sock buf0 buffers htype msgId received MQTTVersion w = do {
     (k, w1) \<leftarrow> find_client sock w;
     let c = client_at k w1;
     Some (if \<not> persistence c then (0, w1)
           else
             let (key, toolong) = packet_key htype msgId received MQTTVersion;
                 rc0 = (if toolong then MQTTCLIENT_PERSISTENCE_ERROR else 0);
                 (rc1, bufs, w2) = (if rc0 = 0 \<and> beforeWrite c then before_write per (buf0 # buffers) w1
                                    else (rc0, buf0 # buffers, w1))
             in if rc1 = 0 then pput per (phandle c) key bufs w2 else (rc1, w2)) }"

text \<open>
  \<open>MQTTPersistence_remove\<close> tries the keys of both protocol versions, for a sent message also those of
  its \<open>PUBREL\<close>, and adds up the results. A key that is too long ends it with an error.
\<close>

fun remove_keys :: "'z protocol_scheme persist_api \<Rightarrow> bytes \<Rightarrow> bytes list \<Rightarrow> int \<Rightarrow> int
    \<Rightarrow> 'z protocol_scheme \<Rightarrow> int \<times> 'z protocol_scheme" where
  "remove_keys per handle [] msgId rc w = (rc, w)"
| "remove_keys per handle (stem # stems) msgId rc w =
     (case print_key stem msgId of (key, toolong) \<Rightarrow>
        if toolong then (MQTTCLIENT_PERSISTENCE_ERROR, w)
        else (case premove per handle key w of (r, w1) \<Rightarrow> remove_keys per handle stems msgId (rc + r) w1))"

definition MQTTPersistence_remove ::
    "'z protocol_scheme persist_api \<Rightarrow> nat \<Rightarrow> bytes \<Rightarrow> int \<Rightarrow> 'z protocol_scheme \<Rightarrow> int \<times> 'z protocol_scheme"
    where
  "MQTTPersistence_remove per k type msgId w =
     (let c = client_at k w
      in if \<not> persistence c then (0, w)
         else if type = PERSISTENCE_PUBLISH_SENT \<or> type = PERSISTENCE_V5_PUBLISH_SENT
         then remove_keys per (phandle c)
                [PERSISTENCE_V5_PUBLISH_SENT, PERSISTENCE_V5_PUBREL, PERSISTENCE_PUBLISH_SENT,
                 PERSISTENCE_PUBREL] msgId 0 w
         else remove_keys per (phandle c)
                [PERSISTENCE_V5_PUBLISH_RECEIVED, PERSISTENCE_PUBLISH_RECEIVED] msgId 0 w)"

section \<open>Restoring packets\<close>

text \<open>
  The remaining length of a stored packet: the value and the number of bytes. The fifth round of the
  loop overflows the multiplier, which is undefined.
\<close>

fun stored_length :: "bytes \<Rightarrow> nat \<Rightarrow> int \<Rightarrow> int \<Rightarrow> nat \<Rightarrow> (int \<times> nat) option" where
  "stored_length buffer 0 multiplier len cur = None"
| "stored_length buffer (Suc rounds) multiplier len cur = do {
     c \<leftarrow> rd buffer cur;
     let len1 = len + int (unat (c AND 127)) * multiplier;
     if c AND 128 \<noteq> 0 then stored_length buffer rounds (multiplier * 128) len1 (cur + 1)
     else Some (len1, cur + 1) }"

definition MQTTPersistence_restorePacket :: "int \<Rightarrow> bytes \<Rightarrow> packet cptr option" where
  "MQTTPersistence_restorePacket MQTTVersion buffer = do {
     header \<leftarrow> rd buffer 0;
     (remaining_length, cur) \<leftarrow> stored_length buffer 4 1 0 1;
     if int cur + remaining_length = int (length buffer)
     then (let ptype = hdr_type header
           in if ptype \<ge> CONNECT \<and> ptype \<le> DISCONNECT
              then (case new_packets ptype of
                      None \<Rightarrow> Some NULL
                    | Some parse \<Rightarrow> parse MQTTVersion header (drop cur buffer))
              else Some NULL)
     else Some NULL }"

text \<open>The position of the first element above, where an element is inserted.\<close>

fun first_above :: "('a \<Rightarrow> bool) \<Rightarrow> nat \<Rightarrow> 'a list \<Rightarrow> nat option" where
  "first_above gt pos [] = None"
| "first_above gt pos (x # xs) = (if gt x then Some pos else first_above gt (Suc pos) xs)"

definition MQTTPersistence_insertInOrder :: "message clist \<Rightarrow> message \<Rightarrow> message clist" where
  "MQTTPersistence_insertInOrder msgs m =
     l_insert msgs m (first_above (\<lambda>x. m_msgid m < m_msgid x) 0 (items msgs))"

text \<open>The last position at which the gap to the element before exceeds all gaps before, if any.\<close>

fun wrap_scan :: "int \<Rightarrow> nat option \<Rightarrow> nat \<Rightarrow> int \<Rightarrow> int list \<Rightarrow> nat option" where
  "wrap_scan gap wrapel pos prev [] = wrapel"
| "wrap_scan gap wrapel pos prev (i # is) =
     (if i - prev > gap then wrap_scan (i - prev) (Some pos) (Suc pos) i is
      else wrap_scan gap wrapel (Suc pos) i is)"

definition wrap_position :: "int list \<Rightarrow> nat option" where
  "wrap_position ids =
     (case ids of [] \<Rightarrow> None | i # is \<Rightarrow> wrap_scan (MAX_MSG_ID - last ids + i) None 1 i is)"

text \<open>\<open>current\<close> stays on its element.\<close>

definition rotate_list :: "nat \<Rightarrow> 'a clist \<Rightarrow> 'a clist" where
  "rotate_list j l =
     \<lparr>items = drop j (items l) @ take j (items l),
      cur_pos = map_option (\<lambda>p. if p < j then p + length (items l) - j else p - j) (cur_pos l)\<rparr>"

definition MQTTPersistence_wrapMsgID :: "client \<Rightarrow> client" where
  "MQTTPersistence_wrapMsgID c =
     (case wrap_position (map m_msgid (items (outboundMsgs c))) of
        None \<Rightarrow> c
      | Some j \<Rightarrow> c\<lparr>outboundMsgs := rotate_list j (outboundMsgs c)\<rparr>)"

text \<open>
  One restored packet, by the stem of its key. A message is referred to by the publication its packet
  has been turned into; with version 5 a received message keeps neither topic nor payload.
\<close>

definition restore_received :: "nat \<Rightarrow> publish_packet \<Rightarrow> 'z protocol_scheme \<Rightarrow> 'z protocol_scheme option" where
  "restore_received k publish w = do {
     let version = c_MQTTVersion (client_at k w);
     (m, _, w1) \<leftarrow> MQTTProtocol_createMessage (publish\<lparr>pu_MQTTVersion := version\<rparr>) NULL
                     (hdr_qos (pu_header publish)) (hdr_retain (pu_header publish)) w;
     let m1 = m\<lparr>nextMessageType := Some PUBREL\<rparr>;
     let w2 = upd_client k (\<lambda>c. c\<lparr>inboundMsgs := l_append (inboundMsgs c) m1\<rparr>) w1;
     let w3 = (if version \<ge> MQTTVERSION_5
               then (case m_publish m1 of
                       NULL \<Rightarrow> w2
                     | Ptr a \<Rightarrow> w2\<lparr>pub_heap := (pub_heap w2)
                         (a := map_option (\<lambda>p. p\<lparr>pb_topic := NULL, pb_payload := NULL\<rparr>) (pub_heap w2 a))\<rparr>)
               else w2);
     Some w3 }"

definition restore_sent ::
    "'z protocol_scheme persist_api \<Rightarrow> nat \<Rightarrow> publish_packet \<Rightarrow> int \<Rightarrow> 'z protocol_scheme
     \<Rightarrow> (int \<times> 'z protocol_scheme) option" where
  "restore_sent per k publish rc w =
     (let version = c_MQTTVersion (client_at k w);
          (key, toolong) = print_key (if version \<ge> MQTTVERSION_5 then PERSISTENCE_V5_PUBREL
                                      else PERSISTENCE_PUBREL) (pu_msgId publish)
      in if toolong then Some (MQTTCLIENT_PERSISTENCE_ERROR, w)
         else do {
           (m, _, w1) \<leftarrow> MQTTProtocol_createMessage (publish\<lparr>pu_MQTTVersion := version\<rparr>) NULL
                           (hdr_qos (pu_header publish)) (hdr_retain (pu_header publish)) w;
           let (found, w2) = pcontainskey per (phandle (client_at k w1)) key w1;
           let m1 = (if found = 0 then m\<lparr>nextMessageType := Some PUBCOMP\<rparr> else m);
           let m2 = m1\<lparr>lastTouch := 0\<rparr>;
           Some (rc, upd_client k (\<lambda>c. c\<lparr>outboundMsgs := MQTTPersistence_insertInOrder (outboundMsgs c) m2\<rparr>) w2) })"

definition restore_pubrel ::
    "'z protocol_scheme persist_api \<Rightarrow> nat \<Rightarrow> bytes \<Rightarrow> int \<Rightarrow> int \<Rightarrow> 'z protocol_scheme
     \<Rightarrow> int \<times> 'z protocol_scheme" where
  "restore_pubrel per k msgkey msgId rc w =
     (let c = client_at k w;
          (key, toolong) = print_key (if c_MQTTVersion c \<ge> MQTTVERSION_5 then PERSISTENCE_V5_PUBLISH_SENT
                                      else PERSISTENCE_PUBLISH_SENT) msgId
      in if toolong then (MQTTCLIENT_PERSISTENCE_ERROR, w)
         else case pcontainskey per (phandle c) key w of (found, w1) \<Rightarrow>
           if found \<noteq> 0 then premove per (phandle c) msgkey w1 else (rc, w1))"

text \<open>
  One round of \<open>MQTTPersistence_restorePackets\<close>: the code, whether the function is left at once, and
  the state. A packet of the wrong type under a key is taken for what the key says: undefined.
\<close>

definition restore_packet ::
    "'z protocol_scheme persist_api \<Rightarrow> nat \<Rightarrow> bytes \<Rightarrow> 'z protocol_scheme
     \<Rightarrow> (int \<times> bool \<times> 'z protocol_scheme) option" where
  "restore_packet per k msgkey w =
     (if has_stem PERSISTENCE_COMMAND_KEY msgkey \<or> has_stem PERSISTENCE_V5_COMMAND_KEY msgkey
         \<or> has_stem PERSISTENCE_QUEUE_KEY msgkey \<or> has_stem PERSISTENCE_V5_QUEUE_KEY msgkey
      then Some (0, False, w)
      else
        let c = client_at k w; (rc1, buf1, w1) = pget per (phandle c) msgkey w
        in if rc1 \<noteq> 0 then Some (rc1, False, w1)
           else
             let (rc2, buf2, w2) = (if afterRead c then after_read per buf1 w1 else (0, buf1, w1))
             in if rc2 \<noteq> 0 then Some (rc2, False, w2)
                else
                  let v5 = has_stem PERSISTENCE_V5_PUBLISH_RECEIVED msgkey
                           \<or> has_stem PERSISTENCE_V5_PUBLISH_SENT msgkey \<or> has_stem PERSISTENCE_V5_PUBREL msgkey;
                      received = (has_stem PERSISTENCE_V5_PUBLISH_RECEIVED msgkey
                                  \<or> has_stem PERSISTENCE_PUBLISH_RECEIVED msgkey);
                      sent = (has_stem PERSISTENCE_V5_PUBLISH_SENT msgkey
                              \<or> has_stem PERSISTENCE_PUBLISH_SENT msgkey);
                      pubrel = (has_stem PERSISTENCE_V5_PUBREL msgkey \<or> has_stem PERSISTENCE_PUBREL msgkey)
                  in if v5 \<and> c_MQTTVersion c < MQTTVERSION_5
                     then Some (MQTTCLIENT_PERSISTENCE_ERROR, True, w2)
                     else do {
                       pack \<leftarrow> MQTTPersistence_restorePacket
                                 (if v5 then MQTTVERSION_5 else MQTTVERSION_3_1_1) buf2;
                       case pack of
                         NULL \<Rightarrow> (case premove per (phandle c) msgkey w2 of (rc3, w3) \<Rightarrow> Some (rc3, False, w3))
                       | Ptr (Publish_packet pub) \<Rightarrow>
                           if received then map_option (\<lambda>w3. (0, False, w3)) (restore_received k pub w2)
                           else if sent
                           then map_option (\<lambda>(rc3, w3). (rc3, False, w3)) (restore_sent per k pub 0 w2)
                           else if pubrel then None
                           else Some (0, False, w2)
                       | Ptr (Ack_packet ack) \<Rightarrow>
                           if received \<or> sent then None
                           else if pubrel
                           then (case ack_msgId ack of
                                   None \<Rightarrow> None
                                 | Some i \<Rightarrow> (case restore_pubrel per k msgkey i 0 w2 of
                                               (rc3, w3) \<Rightarrow> Some (rc3, False, w3)))
                           else Some (0, False, w2)
                       | Ptr _ \<Rightarrow> if received \<or> sent \<or> pubrel then None else Some (0, False, w2) })"

fun restore_loop ::
    "'z protocol_scheme persist_api \<Rightarrow> nat \<Rightarrow> bytes list \<Rightarrow> 'z protocol_scheme
     \<Rightarrow> (int \<times> bool \<times> 'z protocol_scheme) option" where
  "restore_loop per k [] w = Some (0, False, w)"
| "restore_loop per k (key # keys) w =
     (case restore_packet per k key w of
        None \<Rightarrow> None
      | Some (rc, left, w1) \<Rightarrow> if left \<or> rc \<noteq> 0 then Some (rc, left, w1) else restore_loop per k keys w1)"

definition MQTTPersistence_restorePackets ::
    "'z protocol_scheme persist_api \<Rightarrow> nat \<Rightarrow> 'z protocol_scheme \<Rightarrow> (int \<times> 'z protocol_scheme) option" where
  "MQTTPersistence_restorePackets per k w = do {
     (rc, left, w1) \<leftarrow>
       (if persistence (client_at k w)
        then (case pkeys per (phandle (client_at k w)) w of (rc0, keys, w0) \<Rightarrow>
                if rc0 = 0 then restore_loop per k keys w0 else Some (rc0, False, w0))
        else Some (0, False, w));
     Some (rc, if left then w1 else upd_client k MQTTPersistence_wrapMsgID w1) }"

definition MQTTPersistence_initialize ::
    "'z protocol_scheme persist_api \<Rightarrow> nat \<Rightarrow> bytes \<Rightarrow> 'z protocol_scheme
     \<Rightarrow> (int \<times> 'z protocol_scheme) option" where
  "MQTTPersistence_initialize per k serverURI w =
     (if persistence (client_at k w)
      then (case popen per (clientID (client_at k w)) serverURI w of (rc, handle, w1) \<Rightarrow>
              let w2 = upd_client k (\<lambda>c. c\<lparr>phandle := handle\<rparr>) w1
              in if rc = 0 then MQTTPersistence_restorePackets per k w2 else Some (rc, w2))
      else Some (0, w))"

section \<open>The queue of undelivered messages\<close>

text \<open>An \<open>int\<close> in memory, on a little-endian machine.\<close>

definition int_bytes :: "int \<Rightarrow> bytes" where
  "int_bytes i = (let w = (of_int i :: 32 word)
                  in [ucast w, ucast (drop_bit 8 w), ucast (drop_bit 16 w), ucast (drop_bit 24 w)])"

definition read_int :: "bytes \<Rightarrow> nat \<Rightarrow> (int \<times> nat) option" where
  "read_int mem cur = do {
     a \<leftarrow> rd mem cur; b \<leftarrow> rd mem (cur + 1); c \<leftarrow> rd mem (cur + 2); d \<leftarrow> rd mem (cur + 3);
     Some (sint (ucast a OR push_bit 8 (ucast b) OR push_bit 16 (ucast c) OR push_bit 24 (ucast d) :: 32 word),
           cur + 4) }"

definition queue_key :: "int \<Rightarrow> nat \<Rightarrow> bytes \<times> bool" where
  "queue_key MQTTVersion n =
     print_key (if MQTTVersion \<ge> MQTTVERSION_5 then PERSISTENCE_V5_QUEUE_KEY else PERSISTENCE_QUEUE_KEY) (int n)"

definition MQTTPersistence_unpersistQueueEntry ::
    "'z protocol_scheme persist_api \<Rightarrow> nat \<Rightarrow> qentry \<Rightarrow> 'z protocol_scheme \<Rightarrow> int \<times> 'z protocol_scheme" where
  "MQTTPersistence_unpersistQueueEntry per k qe w =
     (case queue_key (c_MQTTVersion (client_at k w)) (seqno qe) of (key, toolong) \<Rightarrow>
        if toolong then (MQTTCLIENT_PERSISTENCE_ERROR, w)
        else premove per (phandle (client_at k w)) key w)"

definition entry_buffers :: "qentry \<Rightarrow> bytes list" where
  "entry_buffers qe =
     [int_bytes (int (length (pm_payload (qe_msg qe)))), pm_payload (qe_msg qe), int_bytes (pm_qos (qe_msg qe)),
      int_bytes (pm_retained (qe_msg qe)), int_bytes (pm_dup (qe_msg qe)), int_bytes (pm_msgid (qe_msg qe)),
      cstr (topicName qe) @ [0], int_bytes (topicLen qe)]"

text \<open>
  With version 5 the code is left at the number of bytes the properties take; only the callback can
  set it to zero, which the store is only written for.
\<close>

definition MQTTPersistence_persistQueueEntry ::
    "'z protocol_scheme persist_api \<Rightarrow> nat \<Rightarrow> qentry \<Rightarrow> 'z protocol_scheme
     \<Rightarrow> int \<times> qentry \<times> 'z protocol_scheme" where
  "MQTTPersistence_persistQueueEntry per k qe w =
     (let n = (if qentry_seqno (client_at k w) + 1 = PERSISTENCE_SEQNO_LIMIT then 0
               else qentry_seqno (client_at k w) + 1);
          w1 = upd_client k (\<lambda>c. c\<lparr>qentry_seqno := n\<rparr>) w;
          c = client_at k w1;
          props = (if struct_version (qe_msg qe) \<ge> 1 then pm_properties (qe_msg qe)
                   else MQTTProperties_initializer);
          (rc0, bufs) = (if c_MQTTVersion c \<ge> MQTTVERSION_5
                         then (case MQTTProperties_write (Ptr props) of (r, out) \<Rightarrow> (r, entry_buffers qe @ [out]))
                         else (0, entry_buffers qe));
          (key, toolong) = queue_key (c_MQTTVersion c) n
      in if toolong then (MQTTCLIENT_PERSISTENCE_ERROR, qe, w1)
         else
           let (rc1, bufs1, w2) = (if beforeWrite c then before_write per bufs w1 else (rc0, bufs, w1))
           in if rc1 = 0
              then (case pput per (phandle c) key bufs1 w2 of (rc2, w3) \<Rightarrow> (rc2, qe\<lparr>seqno := n\<rparr>, w3))
              else (rc1, qe\<lparr>seqno := n\<rparr>, w2))"

text \<open>The string at the cursor, up to its NUL, and the cursor behind it.\<close>

definition read_cstr :: "bytes \<Rightarrow> nat \<Rightarrow> (bytes \<times> nat) option" where
  "read_cstr mem cur =
     (let s = cstr (drop cur mem)
      in if cur + length s < length mem then Some (s, cur + length s + 1) else None)"

definition MQTTPersistence_restoreQueueEntry :: "bytes \<Rightarrow> int \<Rightarrow> qentry cptr option" where
  "MQTTPersistence_restoreQueueEntry buffer MQTTVersion = do {
     (payloadlen, cur1) \<leftarrow> read_int buffer 0;
     if payloadlen < 0 then Some NULL
     else do {
       payload \<leftarrow> (if cur1 + nat payloadlen \<le> length buffer
                  then Some (take (nat payloadlen) (drop cur1 buffer)) else None);
       (qos, cur2) \<leftarrow> read_int buffer (cur1 + nat payloadlen);
       (retained, cur3) \<leftarrow> read_int buffer cur2;
       (dup, cur4) \<leftarrow> read_int buffer cur3;
       (msgid, cur5) \<leftarrow> read_int buffer cur4;
       (topic, cur6) \<leftarrow> read_cstr buffer cur5;
       (tlen, cur7) \<leftarrow> read_int buffer cur6;
       props \<leftarrow> (if MQTTVersion \<ge> MQTTVERSION_5
                then map_option (\<lambda>(rc, p, c). p)
                       (MQTTProperties_read MQTTProperties_initializer buffer cur7 (length buffer))
                else Some MQTTProperties_initializer);
       Some (Ptr \<lparr>qe_msg = \<lparr>struct_version = 1, pm_payload = payload, pm_qos = qos, pm_retained = retained,
                              pm_dup = dup, pm_msgid = msgid, pm_properties = props\<rparr>,
                  topicName = topic, topicLen = tlen, seqno = 0\<rparr>) } }"

definition MQTTPersistence_insertInSeqOrder :: "qentry clist \<Rightarrow> qentry \<Rightarrow> qentry clist" where
  "MQTTPersistence_insertInSeqOrder entries qe =
     l_insert entries qe (first_above (\<lambda>x. seqno qe < seqno x) 0 (items entries))"

text \<open>\<open>atoi\<close> on the digits behind the first dash of a key.\<close>

definition digits_value :: "bytes \<Rightarrow> nat" where
  "digits_value s = foldl (\<lambda>n d. 10 * n + (unat d - 48)) 0 (takeWhile (\<lambda>d. 48 \<le> unat d \<and> unat d \<le> 57) s)"

definition key_number :: "bytes \<Rightarrow> nat" where
  "key_number key = digits_value (tl (dropWhile (\<lambda>b. b \<noteq> 45) (cstr key)))"

fun restore_queue_loop ::
    "'z protocol_scheme persist_api \<Rightarrow> nat \<Rightarrow> bytes list \<Rightarrow> 'z protocol_scheme
     \<Rightarrow> (int \<times> 'z protocol_scheme) option" where
  "restore_queue_loop per k [] w = Some (0, w)"
| "restore_queue_loop per k (key # keys) w =
     (if \<not> has_stem PERSISTENCE_QUEUE_KEY key \<and> \<not> has_stem PERSISTENCE_V5_QUEUE_KEY key
      then restore_queue_loop per k keys w
      else
        let c = client_at k w; (rc1, buf1, w1) = pget per (phandle c) key w
        in if rc1 \<noteq> 0 then Some (rc1, w1)
           else
             let (rc2, buf2, w2) = (if afterRead c then after_read per buf1 w1 else (0, buf1, w1))
             in if rc2 \<noteq> 0 then Some (rc2, w2)
                else do {
                  qe \<leftarrow> MQTTPersistence_restoreQueueEntry buf2
                          (if has_stem PERSISTENCE_V5_QUEUE_KEY key then MQTTVERSION_5 else MQTTVERSION_3_1_1);
                  restore_queue_loop per k keys
                    (case qe of
                       NULL \<Rightarrow> w2
                     | Ptr q \<Rightarrow>
                         let q1 = q\<lparr>seqno := key_number key\<rparr>
                         in upd_client k (\<lambda>c. c\<lparr>messageQueue := MQTTPersistence_insertInSeqOrder (messageQueue c) q1,
                                               qentry_seqno := max (qentry_seqno c) (seqno q1)\<rparr>) w2) })"

definition MQTTPersistence_restoreMessageQueue ::
    "'z protocol_scheme persist_api \<Rightarrow> nat \<Rightarrow> 'z protocol_scheme \<Rightarrow> (int \<times> 'z protocol_scheme) option" where
  "MQTTPersistence_restoreMessageQueue per k w =
     (if persistence (client_at k w)
      then (case pkeys per (phandle (client_at k w)) w of (rc0, keys, w0) \<Rightarrow>
              if rc0 = 0 then restore_queue_loop per k keys w0 else Some (rc0, w0))
      else Some (0, w))"

section \<open>Keys and numbers\<close>

text \<open>A key that can be the start of a file name with an extension.\<close>

definition valid_key :: "bytes \<Rightarrow> bool" where
  "valid_key key \<longleftrightarrow> 0 \<notin> set key \<and> 46 \<notin> set key \<and> 47 \<notin> set key"

definition is_digit :: "byte \<Rightarrow> bool" where
  "is_digit d \<longleftrightarrow> 48 \<le> unat d \<and> unat d \<le> 57"

lemma is_digit_of_nat [simp]: "n < 10 \<Longrightarrow> is_digit (of_nat (48 + n))"
  by (simp add: is_digit_def unat_of_nat del: of_nat_add)

lemma dec_digits_digits: "d \<in> set (dec_digits n) \<Longrightarrow> is_digit d"
  by (induction n rule: dec_digits.induct) (subst (asm) (2) dec_digits.simps, auto split: if_splits simp del: of_nat_add)

lemma dec_digits_ne [simp]: "dec_digits n \<noteq> []"
  by (subst dec_digits.simps) simp

lemma length_dec_digits: "n < 10 ^ k \<Longrightarrow> 0 < k \<Longrightarrow> length (dec_digits n) \<le> k"
proof (induction n arbitrary: k rule: dec_digits.induct)
  case (1 n)
  show ?case
  proof (cases "n < 10")
    case False
    then obtain j where k: "k = Suc j" "0 < j" using 1(2,3) by (cases k; cases "k - 1") auto
    have "n div 10 < 10 ^ j" using 1(2) k by (simp add: less_mult_imp_div_less mult.commute)
    then show ?thesis using 1(1) [OF False _ k(2)] k by (subst dec_digits.simps) simp
  qed (use 1(3) in \<open>simp add: dec_digits.simps\<close>)
qed

lemma digits_value_append:
  assumes "\<forall>d \<in> set s. is_digit d" "is_digit d"
  shows "digits_value (s @ [d]) = 10 * digits_value s + (unat d - 48)"
proof -
  let ?P = "\<lambda>d :: byte. 48 \<le> unat d \<and> unat d \<le> 57"
  have 1: "takeWhile ?P s = s" using assms(1) by (simp add: takeWhile_eq_all_conv is_digit_def)
  have 2: "takeWhile ?P (s @ [d]) = s @ [d]" using assms by (simp only: takeWhile_eq_all_conv) (auto simp: is_digit_def)
  show ?thesis unfolding digits_value_def 1 2 by simp
qed

lemma digits_value_dec: "digits_value (dec_digits n) = n"
proof (induction n rule: dec_digits.induct)
  case (1 n)
  have d: "unat (of_nat (48 + k) :: byte) - 48 = k" if "k < 10" for k
    using that by (simp add: unat_of_nat del: of_nat_add)
  show ?case
  proof (cases "n < 10")
    case True
    then have "digits_value (dec_digits n) = digits_value ([] @ [of_nat (48 + n)])" by (simp add: dec_digits.simps)
    also have "\<dots> = n" using True d [of n] by (subst digits_value_append) (simp_all add: digits_value_def del: of_nat_add)
    finally show ?thesis .
  next
    case False
    have "digits_value (dec_digits n) = digits_value (dec_digits (n div 10) @ [of_nat (48 + n mod 10)])"
      using False by (subst dec_digits.simps) simp
    also have "\<dots> = 10 * (n div 10) + n mod 10"
      using 1 [OF False] d [of "n mod 10"] dec_digits_digits
      by (subst digits_value_append) (simp_all del: of_nat_add)
    finally show ?thesis by simp
  qed
qed

lemma decimal_nonneg: "0 \<le> i \<Longrightarrow> decimal i = dec_digits (nat i)"
  by (simp add: decimal_def)

text \<open>A stem is made of other characters and ends in a dash.\<close>

definition key_stem :: "bytes \<Rightarrow> bool" where
  "key_stem stem \<longleftrightarrow> stem \<noteq> [] \<and> last stem = 45 \<and> 45 \<notin> set (butlast stem) \<and> valid_key stem \<and> length stem \<le> 4"

lemma key_stems_ok [simp]:
  "key_stem PERSISTENCE_PUBLISH_SENT" "key_stem PERSISTENCE_PUBREL" "key_stem PERSISTENCE_PUBLISH_RECEIVED"
  "key_stem PERSISTENCE_V5_PUBLISH_SENT" "key_stem PERSISTENCE_V5_PUBREL"
  "key_stem PERSISTENCE_V5_PUBLISH_RECEIVED" "key_stem PERSISTENCE_COMMAND_KEY"
  "key_stem PERSISTENCE_V5_COMMAND_KEY" "key_stem PERSISTENCE_QUEUE_KEY" "key_stem PERSISTENCE_V5_QUEUE_KEY"
  by (simp_all add: key_stem_def valid_key_def key_stems of_char_def)

lemma print_key_ok:
  assumes "key_stem stem" "0 \<le> i" "i < 1000000"
  shows "print_key stem i = (stem @ dec_digits (nat i), False)" "valid_key (stem @ dec_digits (nat i))"
proof -
  have "length (dec_digits (nat i)) \<le> 6" using assms by (intro length_dec_digits) auto
  then show "print_key stem i = (stem @ dec_digits (nat i), False)"
    using assms unfolding key_stem_def by (auto simp: print_key_def decimal_nonneg)
  have "\<not> is_digit 0" "\<not> is_digit 46" "\<not> is_digit 47" by (simp_all add: is_digit_def)
  then show "valid_key (stem @ dec_digits (nat i))"
    using assms(1) dec_digits_digits [of _ "nat i"] by (auto simp: valid_key_def key_stem_def)
qed

lemma stem_prefix:
  assumes "key_stem stem" "\<forall>d \<in> set ds. is_digit d"
  shows "takeWhile (\<lambda>b. b \<noteq> 45) (stem @ ds) = butlast stem" "tl (dropWhile (\<lambda>b. b \<noteq> 45) (stem @ ds)) = ds"
proof -
  have s: "stem @ ds = butlast stem @ 45 # ds" using assms(1) append_butlast_last_id [of stem] by (simp add: key_stem_def)
  have "\<forall>b \<in> set (butlast stem). b \<noteq> 45" using assms(1) by (auto simp: key_stem_def)
  then show "takeWhile (\<lambda>b. b \<noteq> 45) (stem @ ds) = butlast stem" "tl (dropWhile (\<lambda>b. b \<noteq> 45) (stem @ ds)) = ds"
    unfolding s by (auto simp: takeWhile_append2 dropWhile_append2)
qed

lemma key_of_inj:
  assumes "key_stem s1" "key_stem s2" "s1 @ dec_digits m = s2 @ dec_digits n"
  shows "s1 = s2 \<and> m = n"
proof -
  have "butlast s1 = butlast s2" "dec_digits m = dec_digits n"
    using stem_prefix [OF assms(1), of "dec_digits m"] stem_prefix [OF assms(2), of "dec_digits n"]
      assms(3) dec_digits_digits by simp_all
  moreover have "s1 = butlast s1 @ [45]" "s2 = butlast s2 @ [45]"
    using assms(1,2) append_butlast_last_id by (metis key_stem_def)+
  ultimately show ?thesis using digits_value_dec by metis
qed

lemma cstr_valid: "valid_key key \<Longrightarrow> cstr key = key"
  by (simp add: valid_key_def)

lemma has_stem_key:
  assumes "key_stem stem" "key_stem s" "0 \<le> i" "i < 1000000"
  shows "has_stem stem (s @ dec_digits (nat i)) \<longleftrightarrow> stem = s"
proof
  assume "has_stem stem (s @ dec_digits (nat i))"
  then have t: "take (length stem) (s @ dec_digits (nat i)) = stem"
    using cstr_valid print_key_ok(2) [OF assms(2-4)] by (simp add: has_stem_def)
  let ?rest = "drop (length stem) (s @ dec_digits (nat i))"
  have "stem @ ?rest = s @ dec_digits (nat i)" using t append_take_drop_id by metis
  then have e: "butlast stem @ 45 # ?rest = butlast s @ 45 # dec_digits (nat i)"
    using assms(1,2) append_butlast_last_id [of stem] append_butlast_last_id [of s]
    by (simp add: key_stem_def) (metis append_Cons append_assoc append_Nil)
  have "takeWhile (\<lambda>b. b \<noteq> 45) (butlast x @ 45 # r) = butlast x" if "key_stem x" for x r
  proof -
    have "\<forall>b \<in> set (butlast x). b \<noteq> 45" using that by (auto simp: key_stem_def)
    then show ?thesis by (simp add: takeWhile_append2)
  qed
  then have "butlast stem = butlast s" using e assms(1,2) by metis
  then show "stem = s" using assms(1,2) append_butlast_last_id by (metis key_stem_def)
next
  assume "stem = s"
  then show "has_stem stem (s @ dec_digits (nat i))"
    using cstr_valid print_key_ok(2) [OF assms(2-4)] by (simp add: has_stem_def)
qed

lemma key_number_key:
  "key_stem s \<Longrightarrow> 0 \<le> i \<Longrightarrow> i < 1000000 \<Longrightarrow> key_number (s @ dec_digits (nat i)) = nat i"
  using print_key_ok(2) [of s i] stem_prefix(2) [of s "dec_digits (nat i)"] dec_digits_digits
  by (auto simp: key_number_def cstr_valid digits_value_dec)

section \<open>The contract of a store\<close>

text \<open>
  What the client relies on. A store and its callbacks change only their own part of the state,
  whatever happens; \<open>same\<close> relates states that differ in that part at most.
\<close>

locale store_frame =
  fixes per :: "'z protocol_scheme persist_api"
    and same :: "'z protocol_scheme \<Rightarrow> 'z protocol_scheme \<Rightarrow> bool"
  assumes put_frame: "same w (snd (pput per h key bufs w))"
    and get_frame: "same w (snd (snd (pget per h key w)))"
    and remove_frame: "same w (snd (premove per h key w))"
    and contains_frame: "same w (snd (pcontainskey per h key w))"
    and keys_frame: "same w (snd (snd (pkeys per h w)))"
    and before_write_frame: "same w (snd (snd (before_write per bufs w)))"
    and after_read_frame: "same w (snd (snd (after_read per buf w)))"
    and same_trans: "same w1 w2 \<Longrightarrow> same w2 w3 \<Longrightarrow> same w1 w3"
    and same_refl: "same w w"
    and same_protocol: "same w w' \<Longrightarrow> protocol.truncate w' = protocol.truncate w"

text \<open>
  While the store of the handle \<open>h\<close> is ready, its operations are those of a finite map from keys to
  records.
\<close>

locale record_store = store_frame per same
  for per :: "'z protocol_scheme persist_api" and same +
  fixes ready :: "bytes \<Rightarrow> 'z protocol_scheme \<Rightarrow> bool"
    and recs :: "bytes \<Rightarrow> 'z protocol_scheme \<Rightarrow> bytes \<Rightarrow> bytes option"
  assumes put_law: "ready h w \<Longrightarrow> valid_key key \<Longrightarrow>
      \<exists>w'. pput per h key bufs w = (0, w') \<and> ready h w' \<and> recs h w' = (recs h w)(key \<mapsto> concat bufs) \<and> same w w'"
    and get_law: "ready h w \<Longrightarrow> recs h w key = Some bs \<Longrightarrow>
      \<exists>w'. pget per h key w = (0, bs, w') \<and> ready h w' \<and> recs h w' = recs h w \<and> same w w'"
    and remove_law: "ready h w \<Longrightarrow> valid_key key \<Longrightarrow>
      \<exists>w'. premove per h key w = (0, w') \<and> ready h w' \<and> recs h w' = (recs h w)(key := None) \<and> same w w'"
    and contains_law: "ready h w \<Longrightarrow> valid_key key \<Longrightarrow>
      \<exists>rc w'. pcontainskey per h key w = (rc, w') \<and> (rc = 0 \<longleftrightarrow> recs h w key \<noteq> None)
        \<and> ready h w' \<and> recs h w' = recs h w \<and> same w w'"
    and keys_law: "ready h w \<Longrightarrow>
      \<exists>ks w'. pkeys per h w = (0, ks, w') \<and> set ks = dom (recs h w) \<and> distinct ks
        \<and> ready h w' \<and> recs h w' = recs h w \<and> same w w'"
    and clients_irrelevant: "ready h (w\<lparr>clients := cs\<rparr>) = ready h w" "recs h (w\<lparr>clients := cs\<rparr>) = recs h w"

text \<open>The fields of the protocol that two states agree on.\<close>

lemma truncate_eqD:
  assumes "protocol.truncate w' = protocol.truncate w"
  shows "clients w' = clients w" "tx w' = tx w" "rx w' = rx w" "pwrites w' = pwrites w"
    "write_pending w' = write_pending w" "pub_heap w' = pub_heap w" "clock w' = clock w" "next_pub w' = next_pub w"
    "publications w' = publications w" "msgs_received w' = msgs_received w" "msgs_sent w' = msgs_sent w"
    "pending_writes w' = pending_writes w"
  using assms by (simp_all add: protocol.defs)

text \<open>Finding a client only moves \<open>current\<close> of the list.\<close>

lemma find_client_Some:
  assumes "find_client s w = Some (k, w1)"
  shows "\<exists>l. w1 = w\<lparr>clients := l\<rparr> \<and> items l = items (clients w)" "client_at j w1 = client_at j w"
proof -
  obtain f l where l: "l_find (clients w) (clientSocketCompare s) = (f, l)" by fastforce
  then have "items l = items (clients w)" using items_l_find [of "clients w" "clientSocketCompare s"] by simp
  moreover have "w1 = w\<lparr>clients := l\<rparr>" using assms l by (auto simp: find_client_def split: option.splits)
  ultimately obtain l where "w1 = w\<lparr>clients := l\<rparr>" "items l = items (clients w)" by blast
  then show "\<exists>l. w1 = w\<lparr>clients := l\<rparr> \<and> items l = items (clients w)" "client_at j w1 = client_at j w"
    by (auto simp: client_at_def)
qed

definition number_keys :: "bytes list \<Rightarrow> int \<Rightarrow> bytes set" where
  "number_keys stems msgId = (\<lambda>s. s @ dec_digits (nat msgId)) ` set stems"

definition sent_stems :: "bytes list" where
  "sent_stems = [PERSISTENCE_V5_PUBLISH_SENT, PERSISTENCE_V5_PUBREL, PERSISTENCE_PUBLISH_SENT, PERSISTENCE_PUBREL]"

definition received_stems :: "bytes list" where
  "received_stems = [PERSISTENCE_V5_PUBLISH_RECEIVED, PERSISTENCE_PUBLISH_RECEIVED]"

lemma packet_stem_ok:
  "key_stem (packet_stem htype received v)"
  "packet_stem htype received v \<in> set (if received then received_stems else sent_stems)"
  by (simp_all add: packet_stem_def received_stems_def sent_stems_def)

lemma packet_key_eq:
  "0 \<le> msgId \<Longrightarrow> msgId < 1000000 \<Longrightarrow>
     packet_key htype msgId received v = (packet_stem htype received v @ dec_digits (nat msgId), False)"
  by (simp add: packet_key_def print_key_ok packet_stem_ok)

text \<open>Two states agree on the protocol, but for \<open>current\<close> of the list of clients.\<close>

definition protocol_agrees :: "'z protocol_scheme \<Rightarrow> 'z protocol_scheme \<Rightarrow> bool" where
  "protocol_agrees w w' \<longleftrightarrow> items (clients w') = items (clients w)
     \<and> (cur_ok (clients w) \<longrightarrow> cur_ok (clients w')) \<and> protocol.truncate (w'\<lparr>clients := clients w\<rparr>) = protocol.truncate w"

lemma protocol_agrees_fields:
  assumes "protocol_agrees w w'"
  shows "client_at k w' = client_at k w" "tx w' = tx w" "rx w' = rx w" "pwrites w' = pwrites w"
    "write_pending w' = write_pending w" "pub_heap w' = pub_heap w" "clock w' = clock w" "next_pub w' = next_pub w"
    "publications w' = publications w" "msgs_received w' = msgs_received w" "msgs_sent w' = msgs_sent w"
    "pending_writes w' = pending_writes w"
  using assms truncate_eqD [of "w'\<lparr>clients := clients w\<rparr>" w] by (simp_all add: protocol_agrees_def client_at_def)

lemma find_client_agrees:
  assumes "find_client s w = Some (k, w1)"
  shows "protocol_agrees w w1"
proof -
  obtain f l where l: "l_find (clients w) (clientSocketCompare s) = (f, l)" by fastforce
  then have "w1 = w\<lparr>clients := l\<rparr>" using assms by (auto simp: find_client_def split: option.splits)
  then show ?thesis
    using l items_l_find [of "clients w" "clientSocketCompare s"]
      cur_ok_l_find [of "clients w" "clientSocketCompare s"]
    by (simp add: protocol_agrees_def)
qed

lemma protocol_agrees_trans: "protocol_agrees w1 w2 \<Longrightarrow> protocol_agrees w2 w3 \<Longrightarrow> protocol_agrees w1 w3"
  by (simp add: protocol_agrees_def protocol.defs)

lemma truncate_agrees: "protocol.truncate w' = protocol.truncate w \<Longrightarrow> protocol_agrees w w'"
  by (simp add: protocol_agrees_def protocol.defs)

context store_frame
begin

lemma same_client_at: "same w w' \<Longrightarrow> client_at k w' = client_at k w"
  by (simp add: client_at_def truncate_eqD [OF same_protocol])

lemma putPacket_same:
  assumes "MQTTPersistence_putPacket per s buf0 bufs htype msgId received v w = Some (rc, w')"
    and f: "find_client s w = Some (k, w1)"
  shows "same w1 w'"
proof -
  define c where "c = client_at k w1"
  obtain key toolong where k: "packet_key htype msgId received v = (key, toolong)" by fastforce
  define rc0 :: int where "rc0 = (if toolong then MQTTCLIENT_PERSISTENCE_ERROR else 0)"
  obtain rc1 bufs1 w2 where r: "(if rc0 = 0 \<and> beforeWrite c then before_write per (buf0 # bufs) w1
      else (rc0, buf0 # bufs, w1)) = (rc1, bufs1, w2)" by (metis prod_cases3)
  have "same w1 w2"
    using r before_write_frame [of w1 "buf0 # bufs"] same_refl [of w1] by (cases "rc0 = 0 \<and> beforeWrite c") auto
  moreover have "MQTTPersistence_putPacket per s buf0 bufs htype msgId received v w = Some
      (if \<not> persistence c then (0, w1) else if rc1 = 0 then pput per (phandle c) key bufs1 w2 else (rc1, w2))"
    unfolding MQTTPersistence_putPacket_def f bind.simps Let_def k prod.case c_def [symmetric] rc0_def [symmetric] r ..
  ultimately show "same w1 w'"
    using assms(1) put_frame [of w2 "phandle c" key bufs1] same_refl [of w1] same_trans [of w1 w2]
    by (cases "pput per (phandle c) key bufs1 w2") (auto split: if_splits)
qed

lemma putPacket_finds:
  assumes "MQTTPersistence_putPacket per s buf0 bufs htype msgId received v w = Some r"
  obtains k w1 where "find_client s w = Some (k, w1)"
  using assms by (auto simp: MQTTPersistence_putPacket_def split: bind_splits)

lemma putPacket_frame:
  assumes "MQTTPersistence_putPacket per s buf0 bufs htype msgId received v w = Some (rc, w')"
  shows "protocol_agrees w w'"
proof -
  obtain k w1 where f: "find_client s w = Some (k, w1)" using putPacket_finds [OF assms] .
  then show ?thesis
    using find_client_agrees [OF f] truncate_agrees [OF same_protocol [OF putPacket_same [OF assms f]]]
      protocol_agrees_trans by blast
qed

end

context record_store
begin

lemma putPacket_stores:
  assumes "find_client s w = Some (k, w1)" "persistence (client_at k w)" "\<not> beforeWrite (client_at k w)"
    and "ready (phandle (client_at k w)) w" "0 \<le> msgId" "msgId < 1000000"
  shows "\<exists>w'. MQTTPersistence_putPacket per s buf0 bufs htype msgId received v w = Some (0, w')
      \<and> ready (phandle (client_at k w)) w' \<and> (\<forall>j. client_at j w' = client_at j w)
      \<and> recs (phandle (client_at k w)) w'
          = (recs (phandle (client_at k w)) w)(fst (packet_key htype msgId received v) \<mapsto> buf0 @ concat bufs)"
proof -
  define stem where "stem = packet_stem htype received v"
  have k: "packet_key htype msgId received v = (stem @ dec_digits (nat msgId), False)" "key_stem stem"
    using packet_key_eq [OF assms(5,6)] packet_stem_ok(1) by (simp_all add: stem_def)
  note w1 = find_client_Some [OF assms(1)]
  then have r: "ready (phandle (client_at k w)) w1" "recs (phandle (client_at k w)) w1 = recs (phandle (client_at k w)) w"
    using assms(4) clients_irrelevant by auto
  obtain w' where "pput per (phandle (client_at k w)) (stem @ dec_digits (nat msgId)) (buf0 # bufs) w1 = (0, w')"
      "ready (phandle (client_at k w)) w'" "same w1 w'"
      "recs (phandle (client_at k w)) w' = (recs (phandle (client_at k w)) w1)(stem @ dec_digits (nat msgId) \<mapsto> concat (buf0 # bufs))"
    using put_law [OF r(1) print_key_ok(2) [OF k(2) assms(5,6)], of "buf0 # bufs"] by blast
  then show ?thesis
    using assms w1(2) k r same_client_at by (auto simp: MQTTPersistence_putPacket_def)
qed

lemma remove_keys_removes:
  assumes "\<forall>s \<in> set stems. key_stem s" "ready h w" "0 \<le> msgId" "msgId < 1000000"
  shows "\<exists>w'. remove_keys per h stems msgId rc w = (rc, w') \<and> ready h w' \<and> same w w'
      \<and> recs h w' = (\<lambda>key. if key \<in> number_keys stems msgId then None else recs h w key)"
  using assms
proof (induction stems arbitrary: w)
  case (Cons stem stems)
  obtain w1 where w1: "premove per h (stem @ dec_digits (nat msgId)) w = (0, w1)" "ready h w1" "same w w1"
      "recs h w1 = (recs h w)(stem @ dec_digits (nat msgId) := None)"
    using remove_law [OF Cons.prems(2) print_key_ok(2)] Cons.prems by auto metis
  obtain w2 where w2: "remove_keys per h stems msgId rc w1 = (rc, w2)" "ready h w2" "same w1 w2"
      "recs h w2 = (\<lambda>key. if key \<in> number_keys stems msgId then None else recs h w1 key)"
    using Cons.IH [OF _ w1(2)] Cons.prems by auto
  show ?case
    using w1 w2 Cons.prems print_key_ok(1) [of stem msgId] same_trans
    by (auto simp: number_keys_def fun_eq_iff)
qed (auto simp: number_keys_def same_refl)

lemma remove_removes:
  assumes "persistence (client_at k w)" "ready (phandle (client_at k w)) w" "0 \<le> msgId" "msgId < 1000000"
    and "stem \<in> set (if sent then [PERSISTENCE_PUBLISH_SENT, PERSISTENCE_V5_PUBLISH_SENT] else received_stems)"
  shows "\<exists>w'. MQTTPersistence_remove per k stem msgId w = (0, w') \<and> ready (phandle (client_at k w)) w' \<and> same w w'
      \<and> recs (phandle (client_at k w)) w'
          = (\<lambda>key. if key \<in> number_keys (if sent then sent_stems else received_stems) msgId then None
                   else recs (phandle (client_at k w)) w key)"
proof -
  have "(stem = PERSISTENCE_PUBLISH_SENT \<or> stem = PERSISTENCE_V5_PUBLISH_SENT) = sent"
    using assms(5) by (auto simp: key_stems received_stems_def of_char_def split: if_splits)
  then have "MQTTPersistence_remove per k stem msgId w
      = remove_keys per (phandle (client_at k w)) (if sent then sent_stems else received_stems) msgId 0 w"
    using assms(1) by (simp add: MQTTPersistence_remove_def Let_def sent_stems_def received_stems_def del: remove_keys.simps)
  then show ?thesis
    using remove_keys_removes [of "if sent then sent_stems else received_stems", OF _ assms(2-4)]
    by (simp add: sent_stems_def received_stems_def)
qed

end

end
