(* ===== verification/PersistenceDefault.thy ===== *)
theory PersistenceDefault
  imports Persistence
begin

text \<open>
  \<open>MqttC/MQTTPersistenceDefault.c\<close>, the store that keeps every record in a file of a directory for
  the client and server, in the variant for Unix; and \<open>MQTTPersistence_create\<close>, which chooses a store.

  The file system is part of the state: the directories, and the regular files with their contents,
  in the order in which a directory lists them. A call that opens, transfers, makes or unlinks takes
  its outcome from \<open>fs_plan\<close>: \<open>None\<close> is a failure (of an existing, permitted target), \<open>Some n\<close> success with
  at most \<open>n\<close> bytes transferred; when the plan is empty every call succeeds. A path is absolute or
  relative to the working directory, with its components. The handle \<open>NULL\<close> is the empty string.
\<close>

type_synonym path = "bool \<times> bytes list"

record disk = protocol +
  fs_files :: "(path \<times> bytes) list"
  fs_dirs :: "path list"
  fs_plan :: "nat option list"

section \<open>Paths and the calls of the operating system\<close>

fun split_on :: "(byte \<Rightarrow> bool) \<Rightarrow> bytes \<Rightarrow> bytes \<Rightarrow> bytes list" where
  "split_on sep acc [] = [rev acc]"
| "split_on sep acc (b # bs) = (if sep b then rev acc # split_on sep [] bs else split_on sep (b # acc) bs)"

definition resolve :: "bytes \<Rightarrow> path" where
  "resolve s = (s \<noteq> [] \<and> hd s = 47, filter (\<lambda>c. c \<noteq> [] \<and> c \<noteq> [46]) (split_on (\<lambda>b. b = 47) [] s))"

definition parent_dir :: "path \<Rightarrow> path" where
  "parent_dir p = (fst p, butlast (snd p))"

definition is_dir :: "path \<Rightarrow> 'z disk_scheme \<Rightarrow> bool" where
  "is_dir p w \<longleftrightarrow> snd p = [] \<or> p \<in> set (fs_dirs w)"

definition is_file :: "path \<Rightarrow> 'z disk_scheme \<Rightarrow> bool" where
  "is_file p w \<longleftrightarrow> p \<in> fst ` set (fs_files w)"

definition next_outcome :: "'z disk_scheme \<Rightarrow> nat option option \<times> 'z disk_scheme" where
  "next_outcome w = (case fs_plan w of [] \<Rightarrow> (None, w) | p # ps \<Rightarrow> (Some p, w\<lparr>fs_plan := ps\<rparr>))"

text \<open>Whether a call fails, and how many of \<open>n\<close> bytes it transfers.\<close>

definition os_fails :: "'z disk_scheme \<Rightarrow> bool \<times> 'z disk_scheme" where
  "os_fails w = (case next_outcome w of (p, w1) \<Rightarrow> (p = Some None, w1))"

definition os_count :: "nat \<Rightarrow> 'z disk_scheme \<Rightarrow> nat \<times> 'z disk_scheme" where
  "os_count n w =
     (case next_outcome w of (p, w1) \<Rightarrow>
        ((case p of None \<Rightarrow> n | Some None \<Rightarrow> 0 | Some (Some k) \<Rightarrow> min n k), w1))"

definition write_file :: "path \<Rightarrow> bytes \<Rightarrow> 'z disk_scheme \<Rightarrow> 'z disk_scheme" where
  "write_file p bs w =
     w\<lparr>fs_files := (if is_file p w then map (\<lambda>(q, c). (q, if q = p then bs else c)) (fs_files w)
                    else fs_files w @ [(p, bs)])\<rparr>"

definition delete_file :: "path \<Rightarrow> 'z disk_scheme \<Rightarrow> 'z disk_scheme" where
  "delete_file p w = w\<lparr>fs_files := filter (\<lambda>(q, c). q \<noteq> p) (fs_files w)\<rparr>"

text \<open>The names of the regular files that a directory lists.\<close>

definition list_dir :: "path \<Rightarrow> 'z disk_scheme \<Rightarrow> bytes list" where
  "list_dir d w = map (last \<circ> snd \<circ> fst) (filter (\<lambda>(p, c). snd p \<noteq> [] \<and> parent_dir p = d) (fs_files w))"

section \<open>Opening and closing\<close>

definition pstmkdir :: "bytes \<Rightarrow> 'z disk_scheme \<Rightarrow> int \<times> 'z disk_scheme" where
  "pstmkdir pPathname w =
     (let p = resolve pPathname
      in if is_dir p w \<or> is_file p w then (0, w)
         else if \<not> is_dir (parent_dir p) w then (MQTTCLIENT_PERSISTENCE_ERROR, w)
         else case os_fails w of (fails, w1) \<Rightarrow>
           if fails then (MQTTCLIENT_PERSISTENCE_ERROR, w1) else (0, w1\<lparr>fs_dirs := p # fs_dirs w1\<rparr>))"

definition is_separator :: "byte \<Rightarrow> bool" where
  "is_separator b \<longleftrightarrow> b = 47 \<or> b = 92"

text \<open>The tokens \<open>strtok_r\<close> finds between separators.\<close>

definition tokens :: "bytes \<Rightarrow> bytes list" where
  "tokens s = filter (\<lambda>t. t \<noteq> []) (split_on is_separator [] s)"

text \<open>The loop that makes one directory level after the other; the first failure ends it.\<close>

fun make_dirs :: "bytes \<Rightarrow> bytes list \<Rightarrow> 'z disk_scheme \<Rightarrow> int \<times> 'z disk_scheme" where
  "make_dirs crt [] w = (0, w)"
| "make_dirs crt (t # ts) w =
     (case pstmkdir (crt @ [47] @ t) w of (rc, w1) \<Rightarrow>
        if rc = 0 then make_dirs (crt @ [47] @ t) ts w1 else (rc, w1))"

definition client_dir :: "bytes \<Rightarrow> bytes \<Rightarrow> bytes \<Rightarrow> bytes" where
  "client_dir dataDir cid serverURI =
     dataDir @ [47] @ cid @ [45] @ map (\<lambda>b. if b = 58 then 45 else b) serverURI"

definition pstopen ::
    "bytes \<Rightarrow> bytes \<Rightarrow> bytes \<Rightarrow> 'z disk_scheme \<Rightarrow> int \<times> bytes \<times> 'z disk_scheme" where
  "pstopen dataDir cid serverURI w =
     (let clientDir = client_dir (cstr dataDir) (cstr cid) (cstr serverURI);
          start = (if is_separator (hd clientDir) then [hd clientDir] else []);
          ts = tokens clientDir;
          (rc, w1) = pstmkdir (start @ hd ts) w;
          (rc2, w2) = (if rc = 0 then make_dirs (start @ hd ts) (tl ts) w1 else (rc, w1))
      in (rc2, clientDir, w2))"

definition pstclose :: "bytes \<Rightarrow> 'z disk_scheme \<Rightarrow> int \<times> 'z disk_scheme" where
  "pstclose handle w =
     (if handle = [] then (MQTTCLIENT_PERSISTENCE_ERROR, w)
      else
        let d = resolve handle
        in if is_file d w then (MQTTCLIENT_PERSISTENCE_ERROR, w)
           else if \<not> is_dir d w then (0, w)
           else if (\<exists>p \<in> fst ` set (fs_files w) \<union> set (fs_dirs w). snd p \<noteq> [] \<and> parent_dir p = d) then (0, w)
           else case os_fails w of (fails, w1) \<Rightarrow>
             if fails then (MQTTCLIENT_PERSISTENCE_ERROR, w1)
             else (0, w1\<lparr>fs_dirs := filter (\<lambda>p. p \<noteq> d) (fs_dirs w1)\<rparr>))"

section \<open>Records\<close>

definition MESSAGE_FILENAME_EXTENSION :: bytes where
  "MESSAGE_FILENAME_EXTENSION = ascii ''.msg''"

definition record_path :: "bytes \<Rightarrow> bytes \<Rightarrow> path" where
  "record_path handle key = resolve (handle @ [47] @ cstr key @ MESSAGE_FILENAME_EXTENSION)"

definition pstremove :: "bytes \<Rightarrow> bytes \<Rightarrow> 'z disk_scheme \<Rightarrow> int \<times> 'z disk_scheme" where
  "pstremove handle key w =
     (if handle = [] then (MQTTCLIENT_PERSISTENCE_ERROR, w)
      else
        let p = record_path handle key
        in if is_dir p w then (MQTTCLIENT_PERSISTENCE_ERROR, w)
           else if \<not> is_file p w then (0, w)
           else case os_fails w of (fails, w1) \<Rightarrow>
             if fails then (MQTTCLIENT_PERSISTENCE_ERROR, w1) else (0, delete_file p w1))"

text \<open>The loop of \<open>fwrite\<close>s: what reaches the file.\<close>

fun write_buffers :: "bytes list \<Rightarrow> 'z disk_scheme \<Rightarrow> bytes \<times> 'z disk_scheme" where
  "write_buffers [] w = ([], w)"
| "write_buffers (b # bs) w =
     (case os_count (length b) w of (n, w1) \<Rightarrow>
        case write_buffers bs w1 of (out, w2) \<Rightarrow> (take n b @ out, w2))"

definition pstput :: "bytes \<Rightarrow> bytes \<Rightarrow> bytes list \<Rightarrow> 'z disk_scheme \<Rightarrow> int \<times> 'z disk_scheme" where
  "pstput handle key bufs w =
     (if handle = [] then (MQTTCLIENT_PERSISTENCE_ERROR, w)
      else
        let p = record_path handle key; (fails, w1) = os_fails w
        in if fails \<or> is_dir p w1 \<or> \<not> is_dir (parent_dir p) w1 then (MQTTCLIENT_PERSISTENCE_ERROR, w1)
           else
             case write_buffers bufs w1 of (out, w2) \<Rightarrow>
               let w3 = write_file p out w2
               in if length out \<noteq> length (concat bufs)
                  then (MQTTCLIENT_PERSISTENCE_ERROR, snd (pstremove handle key w3))
                  else (0, w3))"

definition pstget :: "bytes \<Rightarrow> bytes \<Rightarrow> 'z disk_scheme \<Rightarrow> int \<times> bytes \<times> 'z disk_scheme" where
  "pstget handle key w =
     (if handle = [] then (MQTTCLIENT_PERSISTENCE_ERROR, [], w)
      else
        let p = record_path handle key; (fails, w1) = os_fails w
        in case (if fails then None else map_of (fs_files w1) p) of
             None \<Rightarrow> (MQTTCLIENT_PERSISTENCE_ERROR, [], w1)
           | Some content \<Rightarrow>
               (case os_count (length content) w1 of (n, w2) \<Rightarrow>
                  (if n \<noteq> length content then MQTTCLIENT_PERSISTENCE_ERROR else 0, take n content, w2)))"

text \<open>A file name up to its first extension \<open>.msg\<close>, if it has one.\<close>

fun strip_extension :: "bytes \<Rightarrow> bytes" where
  "strip_extension [] = []"
| "strip_extension (b # bs) =
     (if take 4 (b # bs) = MESSAGE_FILENAME_EXTENSION then [] else b # strip_extension bs)"

definition containskeyUnix :: "bytes \<Rightarrow> bytes \<Rightarrow> 'z disk_scheme \<Rightarrow> int \<times> 'z disk_scheme" where
  "containskeyUnix dirname key w =
     (if is_dir (resolve dirname) w \<and> cstr key \<in> strip_extension ` set (list_dir (resolve dirname) w)
      then (0, w) else (MQTTCLIENT_PERSISTENCE_ERROR, w))"

definition pstcontainskey :: "bytes \<Rightarrow> bytes \<Rightarrow> 'z disk_scheme \<Rightarrow> int \<times> 'z disk_scheme" where
  "pstcontainskey handle key w =
     (if handle = [] then (MQTTCLIENT_PERSISTENCE_ERROR, w) else containskeyUnix handle key w)"

definition keysUnix :: "bytes \<Rightarrow> 'z disk_scheme \<Rightarrow> int \<times> bytes list \<times> 'z disk_scheme" where
  "keysUnix dirname w =
     (if is_dir (resolve dirname) w then (0, map strip_extension (list_dir (resolve dirname) w), w)
      else (MQTTCLIENT_PERSISTENCE_ERROR, [], w))"

definition pstkeys :: "bytes \<Rightarrow> 'z disk_scheme \<Rightarrow> int \<times> bytes list \<times> 'z disk_scheme" where
  "pstkeys handle w = (if handle = [] then (MQTTCLIENT_PERSISTENCE_ERROR, [], w) else keysUnix handle w)"

text \<open>
  The loop of \<open>clearUnix\<close> looks every name of the directory up in the working directory, because it
  does not put the directory in front.
\<close>

fun clear_names :: "bytes list \<Rightarrow> 'z disk_scheme \<Rightarrow> int \<times> 'z disk_scheme" where
  "clear_names [] w = (0, w)"
| "clear_names (name # names) w =
     (if is_file (resolve name) w
      then (case os_fails w of (fails, w1) \<Rightarrow>
              if fails then (MQTTCLIENT_PERSISTENCE_ERROR, w1)
              else clear_names names (delete_file (resolve name) w1))
      else clear_names names w)"

definition clearUnix :: "bytes \<Rightarrow> 'z disk_scheme \<Rightarrow> int \<times> 'z disk_scheme" where
  "clearUnix dirname w =
     (if is_dir (resolve dirname) w then clear_names (list_dir (resolve dirname) w) w
      else (MQTTCLIENT_PERSISTENCE_ERROR, w))"

definition pstclear :: "bytes \<Rightarrow> 'z disk_scheme \<Rightarrow> int \<times> 'z disk_scheme" where
  "pstclear handle w = (if handle = [] then (MQTTCLIENT_PERSISTENCE_ERROR, w) else clearUnix handle w)"

section \<open>Choosing a store\<close>

abbreviation (input) MQTTCLIENT_PERSISTENCE_DEFAULT :: int where "MQTTCLIENT_PERSISTENCE_DEFAULT \<equiv> 0"
abbreviation (input) MQTTCLIENT_PERSISTENCE_NONE :: int where "MQTTCLIENT_PERSISTENCE_NONE \<equiv> 1"
abbreviation (input) MQTTCLIENT_PERSISTENCE_USER :: int where "MQTTCLIENT_PERSISTENCE_USER \<equiv> 2"

text \<open>What the context of the client points to: a directory name, or a store with all or not all of
  its functions set.\<close>

datatype 'w persist_context = Null_context | Directory bytes | Functions bool "'w persist_api"

text \<open>The callbacks belong to the client, not to the store; by default they change nothing.\<close>

definition default_store :: "bytes \<Rightarrow> 'z disk_scheme persist_api" where
  "default_store dir = \<lparr>popen = pstopen dir, pclose = pstclose, pput = pstput, pget = pstget,
     premove = pstremove, pkeys = pstkeys, pclear = pstclear, pcontainskey = pstcontainskey,
     before_write = (\<lambda>bufs w. (0, bufs, w)), after_read = (\<lambda>buf w. (0, buf, w))\<rparr>"

definition MQTTPersistence_create ::
    "int \<Rightarrow> 'z disk_scheme persist_context \<Rightarrow> (int \<times> 'z disk_scheme persist_api cptr) option" where
  "MQTTPersistence_create type pcontext =
     (if type = MQTTCLIENT_PERSISTENCE_NONE then Some (0, NULL)
      else if type = MQTTCLIENT_PERSISTENCE_DEFAULT
      then (case pcontext of
              Null_context \<Rightarrow> Some (0, Ptr (default_store [46]))
            | Directory dir \<Rightarrow> Some (0, Ptr (default_store dir))
            | Functions _ _ \<Rightarrow> None)
      else if type = MQTTCLIENT_PERSISTENCE_USER
      then (case pcontext of
              Null_context \<Rightarrow> Some (MQTTCLIENT_PERSISTENCE_ERROR, NULL)
            | Directory _ \<Rightarrow> None
            | Functions complete api \<Rightarrow>
                Some (if complete then 0 else MQTTCLIENT_PERSISTENCE_ERROR, Ptr api))
      else Some (MQTTCLIENT_PERSISTENCE_ERROR, NULL))"

section \<open>The store as a finite map\<close>

text \<open>A directory that holds nothing but records.\<close>

definition record_name :: "bytes \<Rightarrow> bytes" where
  "record_name key = key @ MESSAGE_FILENAME_EXTENSION"

definition store_ready :: "bytes \<Rightarrow> 'z disk_scheme \<Rightarrow> bool" where
  "store_ready h w \<longleftrightarrow> h \<noteq> [] \<and> fs_plan w = [] \<and> is_dir (resolve h) w \<and> distinct (map fst (fs_files w))
     \<and> (\<forall>p \<in> set (fs_dirs w). snd p \<noteq> [] \<longrightarrow> parent_dir p \<noteq> resolve h)
     \<and> (\<forall>name \<in> set (list_dir (resolve h) w). \<exists>key. valid_key key \<and> name = record_name key)"

definition records :: "bytes \<Rightarrow> 'z disk_scheme \<Rightarrow> bytes \<Rightarrow> bytes option" where
  "records h w key = (if valid_key key then map_of (fs_files w) (record_path h key) else None)"

text \<open>Everything but the file system.\<close>

definition same_but_disk :: "'z disk_scheme \<Rightarrow> 'z disk_scheme \<Rightarrow> bool" where
  "same_but_disk w w' \<longleftrightarrow> (\<exists>fs ds pl. w' = w\<lparr>fs_files := fs, fs_dirs := ds, fs_plan := pl\<rparr>)"

lemma same_but_diskI: "w' = w\<lparr>fs_files := fs, fs_dirs := ds, fs_plan := pl\<rparr> \<Longrightarrow> same_but_disk w w'"
  by (auto simp: same_but_disk_def)

lemma same_but_disk_refl [simp]: "same_but_disk w w"
  by (rule same_but_diskI [where fs = "fs_files w" and ds = "fs_dirs w" and pl = "fs_plan w"]) simp

lemma same_but_disk_trans: "same_but_disk w1 w2 \<Longrightarrow> same_but_disk w2 w3 \<Longrightarrow> same_but_disk w1 w3"
  by (fastforce simp: same_but_disk_def)

lemma same_but_disk_protocol: "same_but_disk w w' \<Longrightarrow> protocol.truncate w' = protocol.truncate w"
  by (auto simp: same_but_disk_def protocol.defs)

lemma split_on_no_sep: "(\<forall>b \<in> set s. \<not> sep b) \<Longrightarrow> split_on sep acc s = [rev acc @ s]"
  by (induction sep acc s rule: split_on.induct) auto

lemma split_on_append_sep:
  "sep b \<Longrightarrow> split_on sep acc (s @ b # t) = split_on sep acc s @ split_on sep [] t"
  by (induction sep acc s rule: split_on.induct) auto

lemma extension_bytes: "MESSAGE_FILENAME_EXTENSION = [46, 109, 115, 103]"
  by (simp add: MESSAGE_FILENAME_EXTENSION_def ascii_def of_char_def)

lemma record_path_eq:
  assumes "h \<noteq> []" "valid_key key"
  shows "record_path h key = (fst (resolve h), snd (resolve h) @ [record_name key])"
proof -
  have "record_name key \<noteq> []" "record_name key \<noteq> [46]" "\<forall>b \<in> set (record_name key). b \<noteq> 47"
    using assms(2) by (auto simp: record_name_def extension_bytes valid_key_def)
  then show ?thesis
    using assms by (auto simp: record_path_def resolve_def valid_key_def split_on_append_sep
        split_on_no_sep hd_append record_name_def [symmetric])
qed

lemma strip_record_name: "46 \<notin> set key \<Longrightarrow> strip_extension (record_name key) = key"
proof (induction key)
  case (Cons b bs)
  have "take 4 ((b # bs) @ [46, 109, 115, 103]) \<noteq> [46, 109, 115, 103]" using Cons.prems by auto
  then show ?case using Cons by (simp add: record_name_def extension_bytes)
qed (simp add: record_name_def extension_bytes)

lemma record_name_inj: "record_name k1 = record_name k2 \<longleftrightarrow> k1 = k2"
  by (simp add: record_name_def)

lemma record_path_inj:
  "h \<noteq> [] \<Longrightarrow> valid_key k1 \<Longrightarrow> valid_key k2 \<Longrightarrow> record_path h k1 = record_path h k2 \<longleftrightarrow> k1 = k2"
  by (simp add: record_path_eq record_name_inj)

lemma record_path_parts:
  assumes "h \<noteq> []" "valid_key key"
  shows "parent_dir (record_path h key) = resolve h" "snd (record_path h key) \<noteq> []"
    "last (snd (record_path h key)) = record_name key"
  using assms by (simp_all add: record_path_eq parent_dir_def)

lemma record_not_dir: "store_ready h w \<Longrightarrow> valid_key key \<Longrightarrow> \<not> is_dir (record_path h key) w"
  using record_path_parts [of h key] by (auto simp: store_ready_def is_dir_def)

lemma no_plan [simp]:
  "fs_plan w = [] \<Longrightarrow> os_fails w = (False, w)" "fs_plan w = [] \<Longrightarrow> os_count n w = (n, w)"
  by (simp_all add: os_fails_def os_count_def next_outcome_def)

lemma write_buffers_whole: "fs_plan w = [] \<Longrightarrow> write_buffers bufs w = (concat bufs, w)"
  by (induction bufs) simp_all

lemma path_parent: "snd p \<noteq> [] \<Longrightarrow> p = (fst (parent_dir p), snd (parent_dir p) @ [last (snd p)])"
  by (cases p) (simp add: parent_dir_def)

text \<open>Writing and deleting a file as operations on the association list.\<close>

lemma map_of_write_file:
  "map_of (fs_files (write_file p bs w)) = (map_of (fs_files w))(p \<mapsto> bs)"
proof (cases "is_file p w")
  case True
  have "map_of (map (\<lambda>(q, c). (q, if q = p then bs else c)) xs)
      = (if p \<in> fst ` set xs then (map_of xs)(p \<mapsto> bs) else map_of xs)" for xs :: "(path \<times> bytes) list"
  proof (induction xs)
    case (Cons y ys)
    then show ?case
      by (cases y; cases "p \<in> fst ` set ys") (auto simp: fun_eq_iff simp del: split_paired_All)
  qed simp
  with True show ?thesis by (simp add: write_file_def is_file_def)
next
  case False
  then have "map_of (fs_files w) p = None" by (simp add: is_file_def map_of_eq_None_iff)
  with False show ?thesis
    by (auto simp: write_file_def map_add_def fun_eq_iff split: option.splits)
qed

lemma fst_write_file:
  "map fst (fs_files (write_file p bs w)) = (if is_file p w then map fst (fs_files w) else map fst (fs_files w) @ [p])"
  by (simp add: write_file_def comp_def case_prod_beta)

lemma map_of_delete_file: "map_of (fs_files (delete_file p w)) = (map_of (fs_files w))(p := None)"
proof -
  have "map_of (filter (\<lambda>(q, c). q \<noteq> p) xs) = (map_of xs)(p := None)" for xs :: "(path \<times> bytes) list"
    by (induction xs) (auto simp: fun_eq_iff)
  then show ?thesis by (simp add: delete_file_def)
qed

lemma map_of_iff_file: "map_of (fs_files w) p = None \<longleftrightarrow> \<not> is_file p w"
  by (simp add: is_file_def map_of_eq_None_iff)

lemma set_list_dir:
  "set (list_dir d w) = {last (snd p) |p. is_file p w \<and> snd p \<noteq> [] \<and> parent_dir p = d}"
  unfolding list_dir_def is_file_def by (force simp: image_iff)

lemma files_of_store:
  assumes "store_ready h w"
  shows "is_file p w \<and> snd p \<noteq> [] \<and> parent_dir p = resolve h
      \<longleftrightarrow> (\<exists>key. valid_key key \<and> p = record_path h key \<and> records h w key \<noteq> None)"
proof
  assume p: "is_file p w \<and> snd p \<noteq> [] \<and> parent_dir p = resolve h"
  then have "last (snd p) \<in> set (list_dir (resolve h) w)" unfolding set_list_dir by blast
  then obtain key where k: "valid_key key" "last (snd p) = record_name key"
    using assms by (auto simp: store_ready_def)
  have "p = record_path h key"
    using path_parent [of p] p k assms by (simp add: record_path_eq store_ready_def)
  then show "\<exists>key. valid_key key \<and> p = record_path h key \<and> records h w key \<noteq> None"
    using p k(1) by (intro exI [of _ key]) (auto simp: records_def map_of_iff_file simp del: not_None_eq)
next
  assume "\<exists>key. valid_key key \<and> p = record_path h key \<and> records h w key \<noteq> None"
  then show "is_file p w \<and> snd p \<noteq> [] \<and> parent_dir p = resolve h"
    using record_path_parts assms map_of_iff_file [of w p]
    by (auto simp: records_def store_ready_def simp del: not_None_eq)
qed

lemma store_ready_files:
  assumes "store_ready h w" "fs_plan w' = []" "fs_dirs w' = fs_dirs w" "distinct (map fst (fs_files w'))"
    and "\<And>p. is_file p w' \<Longrightarrow> is_file p w \<or> (\<exists>key. valid_key key \<and> p = record_path h key)"
  shows "store_ready h w'"
proof -
  have "\<exists>key. valid_key key \<and> name = record_name key" if name: "name \<in> set (list_dir (resolve h) w')" for name
  proof -
    obtain p where p: "name = last (snd p)" "is_file p w'" "snd p \<noteq> []" "parent_dir p = resolve h"
      using name unfolding set_list_dir by blast
    have h: "h \<noteq> []" "\<forall>name \<in> set (list_dir (resolve h) w). \<exists>key. valid_key key \<and> name = record_name key"
      using assms(1) by (simp_all add: store_ready_def)
    from assms(5) [OF p(2)] show ?thesis
    proof
      assume "is_file p w"
      then have "name \<in> set (list_dir (resolve h) w)" using p unfolding set_list_dir by blast
      then show ?thesis using h(2) by blast
    next
      assume "\<exists>key. valid_key key \<and> p = record_path h key"
      then show ?thesis using p(1) record_path_parts(3) [OF h(1)] by blast
    qed
  qed
  then show ?thesis using assms(1-4) by (simp add: store_ready_def is_dir_def)
qed

lemma records_update:
  assumes "h \<noteq> []" "valid_key key" "map_of (fs_files w') = (map_of (fs_files w))(record_path h key := r)"
  shows "records h w' = (records h w)(key := r)"
  by (intro ext) (simp add: records_def assms record_path_inj)

lemma records_same: "fs_files w' = fs_files w \<Longrightarrow> records h w' = records h w"
  by (simp add: records_def fun_eq_iff)

lemma is_file_iff: "is_file p w \<longleftrightarrow> map_of (fs_files w) p \<noteq> None"
  by (simp add: map_of_iff_file)

lemma write_file_simps [simp]:
  "fs_plan (write_file p bs w) = fs_plan w" "fs_dirs (write_file p bs w) = fs_dirs w"
  "is_file q (write_file p bs w) \<longleftrightarrow> q = p \<or> is_file q w"
  "same_but_disk w (write_file p bs w)"
  by (simp_all add: is_file_iff map_of_write_file) 
    (auto simp: write_file_def intro: same_but_diskI [where ds = "fs_dirs w" and pl = "fs_plan w"])

lemma delete_file_simps [simp]:
  "fs_plan (delete_file p w) = fs_plan w" "fs_dirs (delete_file p w) = fs_dirs w"
  "is_file q (delete_file p w) \<longleftrightarrow> q \<noteq> p \<and> is_file q w"
  "same_but_disk w (delete_file p w)"
  by (simp_all add: is_file_iff map_of_delete_file)
    (auto simp: delete_file_def intro: same_but_diskI [where ds = "fs_dirs w" and pl = "fs_plan w"])

lemma distinct_delete_file: "distinct (map fst (fs_files w)) \<Longrightarrow> distinct (map fst (fs_files (delete_file p w)))"
  by (simp add: delete_file_def distinct_map inj_on_def)

lemma distinct_write_file: "distinct (map fst (fs_files w)) \<Longrightarrow> distinct (map fst (fs_files (write_file p bs w)))"
  by (auto simp: fst_write_file is_file_def)

lemma pstput_ready:
  assumes "store_ready h w" "valid_key key"
  shows "\<exists>w'. pstput h key bufs w = (0, w') \<and> store_ready h w'
      \<and> records h w' = (records h w)(key \<mapsto> concat bufs) \<and> same_but_disk w w'"
proof -
  let ?p = "record_path h key" and ?w = "write_file (record_path h key) (concat bufs) w"
  have h: "h \<noteq> []" "fs_plan w = []" "is_dir (parent_dir ?p) w" "distinct (map fst (fs_files w))"
    using assms record_path_parts [of h key] by (simp_all add: store_ready_def)
  have "pstput h key bufs w = (0, ?w)"
    using h record_not_dir [OF assms] by (simp add: pstput_def Let_def write_buffers_whole)
  moreover have "store_ready h ?w"
    using h assms by (intro store_ready_files [OF assms(1)]) (auto simp: distinct_write_file)
  moreover have "records h ?w = (records h w)(key \<mapsto> concat bufs)"
    using h assms by (intro records_update) (simp_all add: map_of_write_file)
  ultimately show ?thesis by simp
qed

lemma pstget_ready:
  assumes "store_ready h w" "records h w key = Some bs"
  shows "pstget h key w = (0, bs, w)"
  using assms by (auto simp: pstget_def records_def store_ready_def Let_def split: if_splits)

lemma pstremove_ready:
  assumes "store_ready h w" "valid_key key"
  shows "\<exists>w'. pstremove h key w = (0, w') \<and> store_ready h w'
      \<and> records h w' = (records h w)(key := None) \<and> same_but_disk w w'"
proof (cases "is_file (record_path h key) w")
  case True
  let ?p = "record_path h key" and ?w = "delete_file (record_path h key) w"
  have h: "h \<noteq> []" "fs_plan w = []" "distinct (map fst (fs_files w))" using assms by (simp_all add: store_ready_def)
  have "pstremove h key w = (0, ?w)"
    using h True record_not_dir [OF assms] by (simp add: pstremove_def Let_def)
  moreover have "store_ready h ?w"
    using h by (intro store_ready_files [OF assms(1)]) (auto simp: distinct_delete_file)
  moreover have "records h ?w = (records h w)(key := None)"
    using h assms by (intro records_update) (simp_all add: map_of_delete_file)
  ultimately show ?thesis by simp
next
  case False
  have "pstremove h key w = (0, w)"
    using False record_not_dir [OF assms] assms by (simp add: pstremove_def Let_def store_ready_def)
  moreover have "records h w = (records h w)(key := None)"
    using False map_of_iff_file [of w "record_path h key"] by (auto simp: records_def fun_eq_iff)
  ultimately show ?thesis using assms by simp
qed

lemma dom_records:
  assumes "store_ready h w"
  shows "dom (records h w) = strip_extension ` set (list_dir (resolve h) w)"
proof -
  have h: "h \<noteq> []" using assms by (simp add: store_ready_def)
  have "{p. is_file p w \<and> snd p \<noteq> [] \<and> parent_dir p = resolve h} = record_path h ` dom (records h w)"
    using files_of_store [OF assms] by (auto simp: records_def split: if_splits)
  then have "set (list_dir (resolve h) w) = (\<lambda>p. last (snd p)) ` record_path h ` dom (records h w)"
    unfolding set_list_dir by blast
  then have "set (list_dir (resolve h) w) = record_name ` dom (records h w)"
    unfolding image_image using record_path_parts(3) [OF h]
    by (simp only:) (intro image_cong refl, auto simp: records_def split: if_splits)
  moreover have "strip_extension (record_name key) = key" if "key \<in> dom (records h w)" for key
    using that by (intro strip_record_name) (auto simp: records_def valid_key_def split: if_splits)
  ultimately show ?thesis by (force simp: image_image)
qed

lemma distinct_list_dir:
  assumes "distinct (map fst (fs_files w))"
  shows "distinct (list_dir d w)"
proof -
  let ?P = "\<lambda>(p, c). snd p \<noteq> [] \<and> parent_dir p = d"
  let ?xs = "map fst (filter ?P (fs_files w))"
  have "x = (fst d, snd d @ [last (snd x)])" if x: "x \<in> set ?xs" for x
  proof -
    have "snd x \<noteq> [] \<and> parent_dir x = d"
      using x by (auto simp only: set_map set_filter case_prod_beta mem_Collect_eq image_iff)
    then show ?thesis using path_parent [of x] by simp
  qed
  then have "inj_on (\<lambda>p. last (snd p)) (set ?xs)"
    by (intro inj_onI) (metis (no_types))
  moreover have "distinct ?xs" using assms by (rule distinct_map_filter)
  ultimately have "distinct (map (\<lambda>p. last (snd p)) ?xs)"
    by (simp only: distinct_map [of "\<lambda>p. last (snd p)"])
  then show ?thesis by (simp only: list_dir_def map_map comp_def)
qed

lemma pstkeys_ready:
  assumes "store_ready h w"
  shows "\<exists>ks. pstkeys h w = (0, ks, w) \<and> set ks = dom (records h w) \<and> distinct ks"
proof -
  let ?ks = "map strip_extension (list_dir (resolve h) w)"
  have "inj_on strip_extension (set (list_dir (resolve h) w))"
    using assms by (intro inj_onI)
      (metis (no_types, lifting) store_ready_def strip_record_name valid_key_def)
  then have "distinct ?ks"
    using distinct_list_dir [of w "resolve h"] assms by (simp add: distinct_map store_ready_def)
  moreover have "pstkeys h w = (0, ?ks, w)" using assms by (simp add: pstkeys_def keysUnix_def store_ready_def)
  ultimately show ?thesis using dom_records [OF assms] by simp
qed

lemma pstcontainskey_ready:
  assumes "store_ready h w" "valid_key key"
  shows "pstcontainskey h key w = (if records h w key \<noteq> None then 0 else -2, w)"
proof -
  have "key \<in> strip_extension ` set (list_dir (resolve h) w) \<longleftrightarrow> records h w key \<noteq> None"
    using dom_records [OF assms(1)] by auto
  then show ?thesis
    using assms by (simp add: pstcontainskey_def containskeyUnix_def store_ready_def valid_key_def)
qed

text \<open>Any outcome of the calls changes nothing but the plan.\<close>

lemma next_outcome_state: "snd (next_outcome w) = w\<lparr>fs_plan := tl (fs_plan w)\<rparr>"
proof (cases "fs_plan w")
  case Nil
  have "w\<lparr>fs_plan := fs_plan w\<rparr> = w" by simp
  with Nil show ?thesis by (simp add: next_outcome_def)
qed (simp add: next_outcome_def)

lemma os_fails_cases: "\<exists>b. os_fails w = (b, w\<lparr>fs_plan := tl (fs_plan w)\<rparr>)"
  using next_outcome_state [of w] by (cases "next_outcome w") (simp add: os_fails_def)

lemma os_count_cases: "\<exists>k. os_count n w = (k, w\<lparr>fs_plan := tl (fs_plan w)\<rparr>) \<and> k \<le> n"
  using next_outcome_state [of w]
  by (cases "next_outcome w") (simp add: os_count_def split: option.splits)

lemma write_buffers_cases:
  "\<exists>out pl. write_buffers bufs w = (out, w\<lparr>fs_plan := pl\<rparr>) \<and> length out \<le> length (concat bufs)
     \<and> (length out = length (concat bufs) \<longrightarrow> out = concat bufs)"
proof (induction bufs arbitrary: w)
  case Nil
  have "w = w\<lparr>fs_plan := fs_plan w\<rparr>" by simp
  then show ?case by (metis concat.simps(1) le_refl write_buffers.simps(1))
next
  case (Cons b bs)
  obtain n where n: "os_count (length b) w = (n, w\<lparr>fs_plan := tl (fs_plan w)\<rparr>)" "n \<le> length b"
    using os_count_cases by metis
  obtain out pl2 where out: "write_buffers bs (w\<lparr>fs_plan := tl (fs_plan w)\<rparr>) = (out, w\<lparr>fs_plan := pl2\<rparr>)"
      "length out \<le> length (concat bs)" "length out = length (concat bs) \<longrightarrow> out = concat bs"
    using Cons.IH [of "w\<lparr>fs_plan := tl (fs_plan w)\<rparr>"] by auto
  show ?case using n out by auto
qed

text \<open>No operation of the store changes anything but the file system.\<close>

lemma plan_same [simp]: "same_but_disk w (w\<lparr>fs_plan := pl\<rparr>)"
  by (rule same_but_diskI [where fs = "fs_files w" and ds = "fs_dirs w"]) simp

lemma write_file_same: "same_but_disk w (write_file p bs (w\<lparr>fs_plan := pl\<rparr>))"
  using same_but_disk_trans [OF plan_same write_file_simps(4)] .

lemma delete_file_same: "same_but_disk w (delete_file p (w\<lparr>fs_plan := pl\<rparr>))"
  using same_but_disk_trans [OF plan_same delete_file_simps(4)] .

lemma pstremove_same: "same_but_disk w (snd (pstremove h key w))"
  using os_fails_cases [of w] by (auto simp: pstremove_def Let_def delete_file_same)

lemma pstput_same: "same_but_disk w (snd (pstput h key bufs w))"
proof -
  obtain b where b: "os_fails w = (b, w\<lparr>fs_plan := tl (fs_plan w)\<rparr>)" using os_fails_cases by metis
  obtain out pl where "write_buffers bufs (w\<lparr>fs_plan := tl (fs_plan w)\<rparr>) = (out, w\<lparr>fs_plan := pl\<rparr>)"
    using write_buffers_cases [of bufs "w\<lparr>fs_plan := tl (fs_plan w)\<rparr>"] by auto
  with b show ?thesis
    by (simp add: pstput_def Let_def write_file_same same_but_disk_trans [OF write_file_same pstremove_same])
qed

lemma pstget_same: "same_but_disk w (snd (snd (pstget h key w)))"
proof -
  obtain b where b: "os_fails w = (b, w\<lparr>fs_plan := tl (fs_plan w)\<rparr>)" using os_fails_cases by metis
  obtain k where "os_count n (w\<lparr>fs_plan := tl (fs_plan w)\<rparr>) = (k n, w\<lparr>fs_plan := tl (tl (fs_plan w))\<rparr>)" for n
    using os_count_cases [of _ "w\<lparr>fs_plan := tl (fs_plan w)\<rparr>"] by simp metis
  with b show ?thesis by (auto simp: pstget_def Let_def split: option.split)
qed

interpretation disk_store: record_store "default_store dir" same_but_disk store_ready records for dir
proof
  show "same_but_disk w (snd (pput (default_store dir) h key bufs w))"
    "same_but_disk w (snd (snd (pget (default_store dir) h key w)))"
    "same_but_disk w (snd (premove (default_store dir) h key w))"
    "same_but_disk w (snd (pcontainskey (default_store dir) h key w))"
    "same_but_disk w (snd (snd (pkeys (default_store dir) h w)))"
    "same_but_disk w (snd (snd (before_write (default_store dir) bufs w)))"
    "same_but_disk w (snd (snd (after_read (default_store dir) buf w)))" for w h key bufs buf
    by (simp_all add: default_store_def pstput_same pstget_same pstremove_same pstcontainskey_def containskeyUnix_def
        pstkeys_def keysUnix_def)
  show "\<exists>w'. pput (default_store dir) h key bufs w = (0, w') \<and> store_ready h w'
      \<and> records h w' = (records h w)(key \<mapsto> concat bufs) \<and> same_but_disk w w'"
    if "store_ready h w" "valid_key key" for h w key bufs
    using pstput_ready [OF that] by (simp add: default_store_def)
  show "\<exists>w'. pget (default_store dir) h key w = (0, bs, w') \<and> store_ready h w'
      \<and> records h w' = records h w \<and> same_but_disk w w'"
    if "store_ready h w" "records h w key = Some bs" for h w key bs
    using pstget_ready [OF that] that by (simp add: default_store_def)
  show "\<exists>w'. premove (default_store dir) h key w = (0, w') \<and> store_ready h w'
      \<and> records h w' = (records h w)(key := None) \<and> same_but_disk w w'"
    if "store_ready h w" "valid_key key" for h w key
    using pstremove_ready [OF that] by (simp add: default_store_def)
  show "\<exists>rc w'. pcontainskey (default_store dir) h key w = (rc, w') \<and> (rc = 0 \<longleftrightarrow> records h w key \<noteq> None)
      \<and> store_ready h w' \<and> records h w' = records h w \<and> same_but_disk w w'"
    if "store_ready h w" "valid_key key" for h w key
    using pstcontainskey_ready [OF that] that by (simp add: default_store_def)
  show "\<exists>ks w'. pkeys (default_store dir) h w = (0, ks, w') \<and> set ks = dom (records h w) \<and> distinct ks
      \<and> store_ready h w' \<and> records h w' = records h w \<and> same_but_disk w w'"
    if "store_ready h w" for h w
    using pstkeys_ready [OF that] that by (auto simp: default_store_def)
qed (auto intro: same_but_disk_trans same_but_disk_protocol simp: store_ready_def is_dir_def list_dir_def
    records_def fun_eq_iff)

section \<open>Failures\<close>

text \<open>What a failed attempt can leave of a record.\<close>

definition record_left :: "bytes \<Rightarrow> bytes option \<Rightarrow> bytes option \<Rightarrow> bool" where
  "record_left content old new \<longleftrightarrow>
     new = old \<or> new = None \<or> (\<exists>part. new = Some part \<and> length part < length content)"

lemma pstremove_cases:
  assumes "h \<noteq> []"
  shows "\<exists>rc w'. pstremove h key w = (rc, w')
      \<and> (map_of (fs_files w') = map_of (fs_files w) \<or> map_of (fs_files w') = (map_of (fs_files w))(record_path h key := None))"
proof -
  obtain b pl where "os_fails w = (b, w\<lparr>fs_plan := pl\<rparr>)" using os_fails_cases by metis
  then show ?thesis using assms by (auto simp: pstremove_def Let_def map_of_delete_file)
qed

lemma pstput_outcome:
  assumes "valid_key key"
  shows "\<exists>rc w'. pstput h key bufs w = (rc, w')
      \<and> (rc = 0 \<longrightarrow> records h w' = (records h w)(key \<mapsto> concat bufs))
      \<and> (rc \<noteq> 0 \<longrightarrow> rc = MQTTCLIENT_PERSISTENCE_ERROR \<and> (\<forall>k. k \<noteq> key \<longrightarrow> records h w' k = records h w k)
           \<and> record_left (concat bufs) (records h w key) (records h w' key))"
proof (cases "h = []")
  case True
  then show ?thesis by (simp add: pstput_def record_left_def)
next
  case h: False
  let ?p = "record_path h key"
  obtain b pl where f: "os_fails w = (b, w\<lparr>fs_plan := pl\<rparr>)" using os_fails_cases by metis
  let ?w1 = "w\<lparr>fs_plan := pl\<rparr>"
  show ?thesis
  proof (cases "b \<or> is_dir ?p ?w1 \<or> \<not> is_dir (parent_dir ?p) ?w1")
    case True
    then show ?thesis using h f by (auto simp: pstput_def record_left_def records_same [of ?w1 w])
  next
    case False
    obtain out pl2 where out: "write_buffers bufs ?w1 = (out, w\<lparr>fs_plan := pl2\<rparr>)"
        "length out \<le> length (concat bufs)" "length out = length (concat bufs) \<longrightarrow> out = concat bufs"
      using write_buffers_cases [of bufs ?w1] by auto
    let ?w3 = "write_file ?p out (w\<lparr>fs_plan := pl2\<rparr>)"
    have w3: "records h ?w3 = (records h w)(key \<mapsto> out)"
      using h assms by (intro records_update) (simp_all add: map_of_write_file)
    show ?thesis
    proof (cases "length out = length (concat bufs)")
      case True
      then show ?thesis using h f out w3 False by (simp add: pstput_def Let_def)
    next
      case short: False
      obtain rc w4 where w4: "pstremove h key ?w3 = (rc, w4)"
          "map_of (fs_files w4) = map_of (fs_files ?w3) \<or> map_of (fs_files w4) = (map_of (fs_files ?w3))(?p := None)"
        using pstremove_cases [OF h] by blast
      have "records h w4 = records h ?w3 \<or> records h w4 = (records h ?w3)(key := None)"
        using w4(2) records_update [OF h assms, of w4 ?w3] by (auto simp: records_def)
      then show ?thesis using h f out w3 False short w4(1) by (auto simp: pstput_def Let_def record_left_def)
    qed
  qed
qed

text \<open>\<open>pstclear\<close> removes only what has the same name in the working directory.\<close>

lemma clear_names_keeps:
  "\<exists>rc w'. clear_names names w = (rc, w') \<and> (\<forall>p. length (snd p) > 1 \<longrightarrow> map_of (fs_files w') p = map_of (fs_files w) p)"
  if "\<forall>name \<in> set names. length (snd (resolve name)) \<le> 1" for names and w :: "'z disk_scheme"
  using that
proof (induction names arbitrary: w)
  case (Cons name names)
  obtain b where f: "os_fails w = (b, w\<lparr>fs_plan := tl (fs_plan w)\<rparr>)" using os_fails_cases by metis
  show ?case
  proof (cases "is_file (resolve name) w \<and> \<not> b")
    case True
    let ?w = "delete_file (resolve name) (w\<lparr>fs_plan := tl (fs_plan w)\<rparr>)"
    obtain rc w' where "clear_names names ?w = (rc, w')"
        "\<forall>p. length (snd p) > 1 \<longrightarrow> map_of (fs_files w') p = map_of (fs_files ?w) p"
      using Cons.IH [of ?w] Cons.prems by auto
    moreover have "map_of (fs_files ?w) p = map_of (fs_files w) p" if "length (snd p) > 1" for p
      using that Cons.prems by (auto simp: map_of_delete_file)
    ultimately show ?thesis using True f by simp
  next
    case False
    then show ?thesis using f Cons.IH [of w] Cons.prems by (cases "is_file (resolve name) w") simp_all
  qed
qed simp

section \<open>Properties\<close>

definition sample_disk :: "client list \<Rightarrow> disk" where
  "sample_disk cs = protocol.extend (sample_protocol cs) (disk.fields [] [(False, [[100]])] [])"

definition sample_store_client :: client where
  "sample_store_client = sample_client\<lparr>persistence := True, phandle := [100]\<rparr>"

lemma sample_disk_simps [simp]:
  "fs_files (sample_disk cs) = []" "fs_dirs (sample_disk cs) = [(False, [[100]])]" "fs_plan (sample_disk cs) = []"
  "clients (sample_disk cs) = \<lparr>items = cs, cur_pos = None\<rparr>"
  by (simp_all add: sample_disk_def protocol.defs disk.defs sample_protocol_defs)

lemma sample_disk_ready: "store_ready [100] (sample_disk cs)"
  by (simp add: store_ready_def resolve_def is_dir_def list_dir_def parent_dir_def)

lemma sample_disk_find:
  "find_client 5 (sample_disk [sample_store_client])
    = Some (0, (sample_disk [sample_store_client])\<lparr>clients := \<lparr>items = [sample_store_client], cur_pos = Some 0\<rparr>\<rparr>)"
  by (simp add: find_client_def l_find_def clientSocketCompare_def sample_store_client_def sample_client_def
      sample_handles_def)





text \<open>A directory with one record.\<close>

definition sample_full_disk :: disk where
  "sample_full_disk = (sample_disk [])\<lparr>fs_files := [(record_path [100] [99, 45, 49], [1])]\<rparr>"

text \<open>C33. \<open>pstclear\<close> keeps what it should remove: it takes the names of the entries of the directory for names in the
  working directory, so that every record of the store is still there afterwards.\<close>

theorem pstclear_keeps:
  assumes "store_ready h w" "length (snd (resolve h)) \<ge> 1"
  shows "\<exists>rc w'. pstclear h w = (rc, w') \<and> records h w' = records h w"
proof -
  have "length (snd (resolve name)) \<le> 1" if "name \<in> set (list_dir (resolve h) w)" for name
  proof -
    have "\<exists>key. valid_key key \<and> name = record_name key" using assms(1) that by (simp add: store_ready_def)
    then obtain key where "valid_key key" "name = record_name key" by (elim exE conjE)
    then have "\<forall>b \<in> set name. b \<noteq> 47" by (auto simp: record_name_def extension_bytes valid_key_def)
    then show ?thesis by (simp add: resolve_def split_on_no_sep)
  qed
  then obtain rc w' where w': "clear_names (list_dir (resolve h) w) w = (rc, w')"
      "\<forall>p. length (snd p) > 1 \<longrightarrow> map_of (fs_files w') p = map_of (fs_files w) p"
    using clear_names_keeps [of "list_dir (resolve h) w" w] by auto
  have "length (snd (record_path h key)) > 1" if "valid_key key" for key
    using that assms by (cases "snd (resolve h)") (simp_all add: record_path_eq store_ready_def)
  then have "records h w' = records h w" unfolding records_def using w'(2) [rule_format] by (intro ext) presburger
  then show ?thesis using assms(1) w'(1) by (simp add: pstclear_def clearUnix_def store_ready_def)
qed

lemma pstclear_keeps_witness:
  "\<exists>rc w'. pstclear [100] sample_full_disk = (rc, w') \<and> records [100] w' [99, 45, 49] = Some [1]"
proof -
  have v: "valid_key [99, 45, 49]" by (simp add: valid_key_def)
  have d: "fs_files sample_full_disk = [(record_path [100] [99, 45, 49], [1])]" "fs_dirs sample_full_disk = [(False, [[100]])]"
      "fs_plan sample_full_disk = []" by (simp_all add: sample_full_disk_def)
  have l: "list_dir (resolve [100]) sample_full_disk = [record_name [99, 45, 49]]"
    using record_path_parts [OF _ v, of "[100]"] by (simp add: list_dir_def d)
  have r: "resolve [100] = (False, [[100]])" by (simp add: resolve_def)
  have "store_ready [100] sample_full_disk" using v unfolding store_ready_def l d by (auto simp: r is_dir_def parent_dir_def d)
  moreover have "records [100] sample_full_disk [99, 45, 49] = Some [1]" using v by (simp add: records_def d)
  ultimately show ?thesis using pstclear_keeps [of "[100]" sample_full_disk] r by fastforce
qed

end
