(* ===== verification/Packet.thy ===== *)
theory Packet
  imports Persistence
begin

text \<open>
  Packets on the wire: \<open>MQTTPacket_Factory\<close>, which reads one packet from the connection, and the
  functions of \<open>MqttC/MQTTPacket.c\<close> and \<open>MqttC/MQTTPacketOut.c\<close> that build and send packets.

  The network handles of the client are passed and returned. A send hands the header, the remaining
  length and the buffers to \<open>WebSocket_putdatas\<close>. A buffer of a computed size that is not filled
  exactly, or overrun, is undefined (\<open>None\<close>).
\<close>

section \<open>Reading a packet\<close>

text \<open>\<open>WebSocket_getch\<close> on a state that may have become undefined.\<close>

type_synonym 'z wire = "(nethandles \<times> 'z protocol_scheme) option"

definition wire_getch :: "'z wire \<Rightarrow> int \<times> byte \<times> 'z wire" where
  "wire_getch st =
     (case st of
        None \<Rightarrow> (SOCKET_ERROR, 0, None)
      | Some (net, w) \<Rightarrow>
          (case WebSocket_getch net w of
             None \<Rightarrow> (SOCKET_ERROR, 0, None)
           | Some (rc, c, net1, w1) \<Rightarrow> (rc, c, Some (net1, w1))))"

text \<open>
  Turning the data into a packet: the code, the packet and the state. A type without a parser is
  skipped with the code that says the packet has been read.
\<close>

definition factory_parse ::
    "'z protocol_scheme persist_api \<Rightarrow> int \<Rightarrow> nethandles \<Rightarrow> byte \<Rightarrow> bytes \<Rightarrow> 'z protocol_scheme
     \<Rightarrow> (int \<times> packet cptr \<times> 'z protocol_scheme) option" where
  "factory_parse per MQTTVersion net header data w =
     (let ptype = hdr_type header
      in if ptype < CONNECT \<or> MQTTVersion < MQTTVERSION_5 \<and> ptype \<ge> DISCONNECT
            \<or> MQTTVersion \<ge> MQTTVERSION_5 \<and> ptype > AUTH
         then Some (TCPSOCKET_COMPLETE, NULL, w)
         else case new_packets ptype of
           None \<Rightarrow> Some (TCPSOCKET_COMPLETE, NULL, w)
         | Some parse \<Rightarrow>
             (case parse MQTTVersion header data of
                None \<Rightarrow> None
              | Some NULL \<Rightarrow> Some (SOCKET_ERROR, NULL, w)
              | Some (Ptr pack) \<Rightarrow>
                  (case pack of
                     Publish_packet pub \<Rightarrow>
                       if hdr_qos header = 2
                       then map_option (\<lambda>(rc, w1). (rc, Ptr pack, w1))
                              (MQTTPersistence_putPacket per (socket net)
                                 (header # MQTTPacket_encode (length data)) [data] PUBLISH (pu_msgId pub) True
                                 MQTTVersion w)
                       else Some (TCPSOCKET_COMPLETE, Ptr pack, w)
                   | _ \<Rightarrow> Some (TCPSOCKET_COMPLETE, Ptr pack, w))))"

text \<open>The code, the packet, the network handles and the state.\<close>

definition MQTTPacket_Factory ::
    "'z protocol_scheme persist_api \<Rightarrow> int \<Rightarrow> nethandles \<Rightarrow> 'z protocol_scheme
     \<Rightarrow> (int \<times> packet cptr \<times> nethandles \<times> 'z protocol_scheme) option" where
  "MQTTPacket_Factory per MQTTVersion net w = do {
     headerWsFramePos \<leftarrow> WebSocket_framePos w;
     (error, pack, net3, w3) \<leftarrow>
       (case WebSocket_getch net w of
          None \<Rightarrow> None
        | Some (rc1, header, net1, w1) \<Rightarrow>
            if rc1 \<noteq> TCPSOCKET_COMPLETE then Some (rc1, NULL, net1, w1)
            else (case MQTTPacket_decode wire_getch (Some (net1, w1)) of
                    (_, _, None) \<Rightarrow> None
                  | (rc2, remaining_length, Some (net2, w2)) \<Rightarrow>
                      if rc2 \<noteq> TCPSOCKET_COMPLETE then Some (rc2, NULL, net2, w2)
                      else (case WebSocket_getdata net2 remaining_length w2 of
                              None \<Rightarrow> None
                            | Some (data, actual_len, net3, w3) \<Rightarrow>
                                if remaining_length > 0 \<and> data = NULL then Some (SOCKET_ERROR, NULL, net3, w3)
                                else if actual_len < remaining_length
                                then Some (TCPSOCKET_INTERRUPTED, NULL, net3\<lparr>lastReceived := MQTTTime_now w3\<rparr>, w3)
                                else map_option
                                       (\<lambda>(rc, pack, w4).
                                          (rc, pack, if pack = NULL then net3
                                                     else net3\<lparr>lastReceived := MQTTTime_now w4\<rparr>, w4))
                                       (factory_parse per MQTTVersion net3 header
                                          (case data of NULL \<Rightarrow> [] | Ptr d \<Rightarrow> take remaining_length d) w3))));
     w4 \<leftarrow> (if error = TCPSOCKET_INTERRUPTED then WebSocket_framePosSeekTo headerWsFramePos w3 else Some w3);
     Some (error, pack, net3, w4) }"

section \<open>Sending\<close>

text \<open>The result of the store is overwritten by that of the connection.\<close>

definition MQTTPacket_send ::
    "'z protocol_scheme persist_api \<Rightarrow> nethandles \<Rightarrow> byte \<Rightarrow> bytes \<Rightarrow> bool \<Rightarrow> int \<Rightarrow> 'z protocol_scheme
     \<Rightarrow> (int \<times> nethandles \<times> 'z protocol_scheme) option" where
  "MQTTPacket_send per net header buffer freeData MQTTVersion w = do {
     let buf = header # MQTTPacket_encode (length buffer);
     w1 \<leftarrow> (if hdr_type header = PUBREL
           then do {
             (msgId, _) \<leftarrow> readInt buffer 0;
             map_option snd (MQTTPersistence_putPacket per (socket net) buf [buffer] PUBREL msgId False MQTTVersion w) }
           else Some w);
     let (rc, _, w2) = WebSocket_putdatas net buf
                         \<lparr>pb_buffers = [buffer], pb_frees = [freeData], pb_mask = [0, 0, 0, 0]\<rparr> w1;
     Some (rc, if rc = TCPSOCKET_COMPLETE then net\<lparr>lastSent := MQTTTime_now w2\<rparr> else net, w2) }"

text \<open>
  The buffers are returned, masked in place while the write is not complete. Buffer 2 of a \<open>PUBLISH\<close>
  with QoS 1 or 2 starts with its identifier.
\<close>

definition MQTTPacket_sends ::
    "'z protocol_scheme persist_api \<Rightarrow> nethandles \<Rightarrow> byte \<Rightarrow> packet_buffers \<Rightarrow> int \<Rightarrow> 'z protocol_scheme
     \<Rightarrow> (int \<times> packet_buffers \<times> nethandles \<times> 'z protocol_scheme) option" where
  "MQTTPacket_sends per net header bufs MQTTVersion w = do {
     let buf = header # MQTTPacket_encode (length (concat (pb_buffers bufs)));
     w1 \<leftarrow> (if hdr_type header = PUBLISH \<and> hdr_qos header \<noteq> 0
           then (if length (pb_buffers bufs) \<le> 2 then None
                 else do {
                   (msgId, _) \<leftarrow> readInt (pb_buffers bufs ! 2) 0;
                   map_option snd (MQTTPersistence_putPacket per (socket net) buf (pb_buffers bufs) PUBLISH msgId
                                     False MQTTVersion w) })
           else Some w);
     let (rc, bufs2, w2) = WebSocket_putdatas net buf bufs w1;
     Some (rc, bufs2, if rc = TCPSOCKET_COMPLETE then net\<lparr>lastSent := MQTTTime_now w2\<rparr> else net, w2) }"

definition MQTTPacket_send_disconnect ::
    "'z protocol_scheme persist_api \<Rightarrow> nat \<Rightarrow> int \<Rightarrow> mprops cptr \<Rightarrow> 'z protocol_scheme
     \<Rightarrow> (int \<times> 'z protocol_scheme) option" where
  "MQTTPacket_send_disconnect per k reason props w = do {
     let c = client_at k w;
     let header = mk_header DISCONNECT 0 0 0;
     (rc, net, w1) \<leftarrow>
       (if c_MQTTVersion c \<ge> 5 \<and> (props \<noteq> NULL \<or> reason \<noteq> 0)
        then (let buf = writeChar (of_int reason) @ (if props = NULL then [] else snd (MQTTProperties_write props));
                  buflen = 1 + (if props = NULL then 0 else MQTTProperties_len props)
              in if int (length buf) \<noteq> buflen then None
                 else MQTTPacket_send per (c_net c) header buf True (c_MQTTVersion c) w)
        else MQTTPacket_send per (c_net c) header [] False (c_MQTTVersion c) w);
     Some (rc, upd_client k (\<lambda>c. c\<lparr>c_net := net\<rparr>) w1) }"

section \<open>Acknowledgements\<close>

definition ack_header_byte :: "nat \<Rightarrow> bool \<Rightarrow> byte" where
  "ack_header_byte type dup = mk_header type (of_bool dup) (if type = PUBREL then 1 else 0) 0"

definition MQTTPacket_send_ack ::
    "'z protocol_scheme persist_api \<Rightarrow> int \<Rightarrow> nat \<Rightarrow> int \<Rightarrow> bool \<Rightarrow> nethandles \<Rightarrow> 'z protocol_scheme
     \<Rightarrow> (int \<times> nethandles \<times> 'z protocol_scheme) option" where
  "MQTTPacket_send_ack per MQTTVersion type msgid dup net w =
     MQTTPacket_send per net (ack_header_byte type dup) (writeInt msgid) True MQTTVersion w"

definition MQTTPacket_send_puback where
  "MQTTPacket_send_puback per MQTTVersion msgid net w = MQTTPacket_send_ack per MQTTVersion PUBACK msgid False net w"

definition MQTTPacket_send_pubrec where
  "MQTTPacket_send_pubrec per MQTTVersion msgid net w = MQTTPacket_send_ack per MQTTVersion PUBREC msgid False net w"

definition MQTTPacket_send_pubrel where
  "MQTTPacket_send_pubrel per MQTTVersion msgid dup net w = MQTTPacket_send_ack per MQTTVersion PUBREL msgid dup net w"

definition MQTTPacket_send_pubcomp where
  "MQTTPacket_send_pubcomp per MQTTVersion msgid net w = MQTTPacket_send_ack per MQTTVersion PUBCOMP msgid False net w"

section \<open>Publications\<close>

text \<open>The bytes between topic and payload, of the computed size.\<close>

definition publish_middle :: "publish_packet \<Rightarrow> nat \<Rightarrow> bytes option" where
  "publish_middle pack qos =
     (let v5 = (pu_MQTTVersion pack \<ge> 5);
          buf = (if qos > 0 then writeInt (pu_msgId pack) else [])
                @ (if v5 then snd (MQTTProperties_write (Ptr (pu_properties pack))) else []);
          buflen = (if qos > 0 then 2 else 0) + (if v5 then MQTTProperties_len (Ptr (pu_properties pack)) else 0)
      in if int (length buf) = buflen then Some buf else None)"

definition publish_payload :: "publish_packet \<Rightarrow> bytes option" where
  "publish_payload pack =
     (case pu_payload pack of
        NULL \<Rightarrow> if pu_payloadlen pack = 0 then Some [] else None
      | Ptr p \<Rightarrow> if pu_payloadlen pack \<le> length p then Some (take (pu_payloadlen pack) p) else None)"

text \<open>Overwriting the start of the memory a pointer refers to.\<close>

definition put_back :: "bytes \<Rightarrow> bytes cptr \<Rightarrow> bytes cptr" where
  "put_back bs p = (case p of NULL \<Rightarrow> NULL | Ptr q \<Rightarrow> Ptr (bs @ drop (length bs) q))"

text \<open>The buffers behind the fixed header, and which of them are freed after the write.\<close>

definition publish_buffers :: "publish_packet \<Rightarrow> nat \<Rightarrow> (bytes list \<times> bool list) option" where
  "publish_buffers pack qos =
     (case pu_topic pack of
        NULL \<Rightarrow> None
      | Ptr topic \<Rightarrow> do {
          payload \<leftarrow> publish_payload pack;
          let topiclen = writeInt (int (strlen topic));
          if qos > 0 \<or> pu_MQTTVersion pack \<ge> 5
          then do {
            middle \<leftarrow> publish_middle pack qos;
            Some ([topiclen, cstr topic, middle, payload], [True, False, True, False]) }
          else Some ([topiclen, cstr topic, payload], [True, False, False]) })"

text \<open>The packet is returned with its mask, and with topic and payload as the mask left them.\<close>

definition masked_packet :: "publish_packet \<Rightarrow> packet_buffers \<Rightarrow> publish_packet" where
  "masked_packet pack bufs =
     pack\<lparr>pu_mask := pb_mask bufs, pu_topic := put_back (pb_buffers bufs ! 1) (pu_topic pack),
          pu_payload := put_back (last (pb_buffers bufs)) (pu_payload pack)\<rparr>"

definition MQTTPacket_send_publish ::
    "'z protocol_scheme persist_api \<Rightarrow> publish_packet \<Rightarrow> bool \<Rightarrow> nat \<Rightarrow> bool \<Rightarrow> nethandles \<Rightarrow> 'z protocol_scheme
     \<Rightarrow> (int \<times> publish_packet \<times> nethandles \<times> 'z protocol_scheme) option" where
  "MQTTPacket_send_publish per pack dup qos retained net w = do {
     (bufs, frees) \<leftarrow> publish_buffers pack qos;
     (rc, bufs1, net1, w1) \<leftarrow>
       MQTTPacket_sends per net (mk_header PUBLISH (of_bool dup) (int qos) (of_bool retained))
         \<lparr>pb_buffers = bufs, pb_frees = frees, pb_mask = pu_mask pack\<rparr> (pu_MQTTVersion pack) w;
     Some (rc, masked_packet pack bufs1, net1, w1) }"

section \<open>Connecting, subscribing and pinging\<close>

definition connect_flags :: "client \<Rightarrow> int \<Rightarrow> byte" where
  "connect_flags c MQTTVersion =
     push_bit 1 (of_bool (if MQTTVersion \<ge> MQTTVERSION_5 then cleanstart c else cleansession c))
     OR (case c_will c of
           NULL \<Rightarrow> 0
         | Ptr wm \<Rightarrow> push_bit 2 1 OR push_bit 3 (of_nat (w_qos wm mod 4)) OR push_bit 5 (of_bool (w_retained wm)))
     OR push_bit 6 (of_bool (password c \<noteq> NULL)) OR push_bit 7 (of_bool (username c \<noteq> NULL))"

definition connect_protocol :: "int \<Rightarrow> bytes option" where
  "connect_protocol MQTTVersion =
     (if MQTTVersion = MQTTVERSION_3_1 then Some (writeUTF (ascii ''MQIsdp'') @ writeChar 3)
      else if MQTTVersion = MQTTVERSION_3_1_1 \<or> MQTTVersion = MQTTVERSION_5
      then Some (writeUTF (ascii ''MQTT'') @ writeChar (of_int MQTTVersion))
      else None)"

definition opt_ptr :: "('a \<Rightarrow> bytes) \<Rightarrow> 'a cptr \<Rightarrow> bytes" where
  "opt_ptr f p = (case p of NULL \<Rightarrow> [] | Ptr x \<Rightarrow> f x)"

definition connect_body :: "client \<Rightarrow> int \<Rightarrow> mprops cptr \<Rightarrow> mprops cptr \<Rightarrow> bytes" where
  "connect_body c MQTTVersion connectProperties willProperties =
     writeChar (connect_flags c MQTTVersion) @ writeInt (keepAliveInterval c)
     @ (if MQTTVersion \<ge> MQTTVERSION_5 then snd (MQTTProperties_write connectProperties) else [])
     @ writeUTF (clientID c)
     @ opt_ptr (\<lambda>wm. (if MQTTVersion \<ge> MQTTVERSION_5 then snd (MQTTProperties_write willProperties) else [])
                     @ writeUTF (w_topic wm) @ writeData (w_payload wm)) (c_will c)
     @ opt_ptr writeUTF (username c) @ opt_ptr writeData (password c)"

definition connect_len :: "client \<Rightarrow> int \<Rightarrow> mprops cptr \<Rightarrow> mprops cptr \<Rightarrow> int" where
  "connect_len c MQTTVersion connectProperties willProperties =
     (if MQTTVersion = MQTTVERSION_3_1 then 12 else 10) + int (strlen (clientID c)) + 2
     + (case c_will c of NULL \<Rightarrow> 0
        | Ptr wm \<Rightarrow> int (strlen (w_topic wm)) + 2 + int (length (w_payload wm)) + 2)
     + (case username c of NULL \<Rightarrow> 0 | Ptr u \<Rightarrow> int (strlen u) + 2)
     + (case password c of NULL \<Rightarrow> 0 | Ptr p \<Rightarrow> int (length p) + 2)
     + (if MQTTVersion \<ge> MQTTVERSION_5
        then MQTTProperties_len connectProperties
             + (if c_will c = NULL then 0 else MQTTProperties_len willProperties) else 0)"

definition MQTTPacket_send_connect ::
    "'z protocol_scheme persist_api \<Rightarrow> nat \<Rightarrow> int \<Rightarrow> mprops cptr \<Rightarrow> mprops cptr \<Rightarrow> 'z protocol_scheme
     \<Rightarrow> (int \<times> 'z protocol_scheme) option" where
  "MQTTPacket_send_connect per k MQTTVersion connectProperties willProperties w =
     (let c = client_at k w
      in case connect_protocol MQTTVersion of
           None \<Rightarrow> Some (SOCKET_ERROR, w)
         | Some start \<Rightarrow>
             let buf = start @ connect_body c MQTTVersion connectProperties willProperties
             in if int (length buf) \<noteq> connect_len c MQTTVersion connectProperties willProperties then None
                else map_option (\<lambda>(rc, net, w1). (rc, upd_client k (\<lambda>c. c\<lparr>c_net := net\<rparr>) w1))
                       (MQTTPacket_send per (c_net c) (mk_header CONNECT 0 0 0) buf True MQTTVersion w))"

definition MQTTPacket_send_pingreq ::
    "'z protocol_scheme persist_api \<Rightarrow> nethandles \<Rightarrow> 'z protocol_scheme
     \<Rightarrow> (int \<times> nethandles \<times> 'z protocol_scheme) option" where
  "MQTTPacket_send_pingreq per net w =
     MQTTPacket_send per net (mk_header PINGREQ 0 0 0) [] False MQTTVERSION_3_1_1 w"

record subscribe_options =
  noLocal :: byte
  retainAsPublished :: byte
  retainHandling :: byte

text \<open>The topics with their options; a list of QoSs or of options that is too short is overrun.\<close>

fun subscribe_topics :: "bool \<Rightarrow> bytes list \<Rightarrow> int list \<Rightarrow> subscribe_options list cptr \<Rightarrow> bytes option" where
  "subscribe_topics v5 [] qoss opts = Some []"
| "subscribe_topics v5 (t # ts) [] opts = None"
| "subscribe_topics v5 (t # ts) (q # qoss) opts =
     (case (if v5 then opts else NULL) of
        NULL \<Rightarrow> map_option (\<lambda>r. writeUTF t @ writeChar (of_int q) @ r) (subscribe_topics v5 ts qoss opts)
      | Ptr [] \<Rightarrow> None
      | Ptr (o1 # os) \<Rightarrow>
          map_option (\<lambda>r. writeUTF t @ writeChar (of_int q OR push_bit 2 (noLocal o1)
                            OR push_bit 3 (retainAsPublished o1) OR push_bit 4 (retainHandling o1)) @ r)
            (subscribe_topics v5 ts qoss (Ptr os)))"

definition MQTTPacket_send_subscribe ::
    "'z protocol_scheme persist_api \<Rightarrow> bytes list \<Rightarrow> int list \<Rightarrow> subscribe_options list cptr \<Rightarrow> mprops cptr
     \<Rightarrow> int \<Rightarrow> bool \<Rightarrow> nat \<Rightarrow> 'z protocol_scheme \<Rightarrow> (int \<times> 'z protocol_scheme) option" where
  "MQTTPacket_send_subscribe per topics qoss opts props msgid dup k w = do {
     let c = client_at k w;
     let v5 = (c_MQTTVersion c \<ge> MQTTVERSION_5);
     ts \<leftarrow> subscribe_topics v5 topics qoss opts;
     let data = writeInt msgid @ (if v5 then snd (MQTTProperties_write props) else []) @ ts;
     let datalen = 2 + int (length topics) * 3 + (\<Sum>t\<leftarrow>topics. int (strlen t))
                   + (if v5 then MQTTProperties_len props else 0);
     if int (length data) \<noteq> datalen then None
     else map_option (\<lambda>(rc, net, w1). (rc, upd_client k (\<lambda>c. c\<lparr>c_net := net\<rparr>) w1))
            (MQTTPacket_send per (c_net c) (mk_header SUBSCRIBE (of_bool dup) 1 0) data True (c_MQTTVersion c) w) }"

definition MQTTPacket_send_unsubscribe ::
    "'z protocol_scheme persist_api \<Rightarrow> bytes list \<Rightarrow> mprops cptr \<Rightarrow> int \<Rightarrow> bool \<Rightarrow> nat \<Rightarrow> 'z protocol_scheme
     \<Rightarrow> (int \<times> 'z protocol_scheme) option" where
  "MQTTPacket_send_unsubscribe per topics props msgid dup k w = do {
     let c = client_at k w;
     let v5 = (c_MQTTVersion c \<ge> MQTTVERSION_5);
     let data = writeInt msgid @ (if v5 then snd (MQTTProperties_write props) else []) @ concat (map writeUTF topics);
     let datalen = 2 + int (length topics) * 2 + (\<Sum>t\<leftarrow>topics. int (strlen t))
                   + (if v5 then MQTTProperties_len props else 0);
     if int (length data) \<noteq> datalen then None
     else map_option (\<lambda>(rc, net, w1). (rc, upd_client k (\<lambda>c. c\<lparr>c_net := net\<rparr>) w1))
            (MQTTPacket_send per (c_net c) (mk_header UNSUBSCRIBE (of_bool dup) 1 0) data True (c_MQTTVersion c) w) }"

end
