(* ===== verification/PacketWire.thy ===== *)
theory PacketWire
  imports Packet PersistenceDefault
begin

text \<open>
  What is sent is what is read. The bytes of a packet on the wire, and those of its record in the
  store, are turned back into the packet by the parsers: for publications and acknowledgements, sent
  by a client with any store over a connection whose writes may be cut short.
\<close>

section \<open>Packets as bytes\<close>

definition wire :: "byte \<Rightarrow> bytes \<Rightarrow> bytes" where
  "wire header body = header # MQTTPacket_encode (length body) @ body"

lemma stored_length_encode:
  assumes "holds_at buffer cur (MQTTPacket_encode n)" "n < 128 ^ r" "0 < r"
  shows "stored_length buffer r multiplier len cur
    = Some (len + int n * multiplier, cur + length (MQTTPacket_encode n))"
  using assms
proof (induction r arbitrary: n multiplier len cur)
  case (Suc r)
  show ?case
  proof (cases "n < 128")
    case True
    then show ?thesis
      using Suc.prems by (auto simp: codec_simps rd_def and_128_iff unat_and_127 encode_byte_small)
  next
    case False
    let ?c = "of_nat (n mod 128) OR 128 :: byte"
    have c: "unat ?c = n mod 128 + 128" by (rule or_128) simp
    have h: "cur < length buffer" "buffer ! cur = ?c" "holds_at buffer (Suc cur) (MQTTPacket_encode (n div 128))"
      using Suc.prems(1) False by (simp_all add: MQTTPacket_encode_large codec_simps)
    have r: "0 < r" using Suc.prems(2) False by (cases r) auto
    have "n div 128 < 128 ^ r" using Suc.prems(2) by (simp add: less_mult_imp_div_less mult.commute)
    then have "stored_length buffer r (multiplier * 128) (len + int (n mod 128) * multiplier) (Suc cur)
        = Some (len + int (n mod 128) * multiplier + int (n div 128) * (multiplier * 128),
                Suc cur + length (MQTTPacket_encode (n div 128)))"
      using Suc.IH [OF h(3) _ r] by simp
    moreover have "int (n mod 128) * multiplier + int (n div 128) * (multiplier * 128) = int n * multiplier"
    proof -
      have "int n = int (n mod 128) + int (n div 128) * 128" by (simp add: zmod_int zdiv_int)
      then show ?thesis by (metis distrib_right mult.assoc mult.commute)
    qed
    ultimately show ?thesis
      using h False by (simp add: rd_def and_128_iff unat_and_127 c MQTTPacket_encode_large)
  qed
qed simp

text \<open>A packet with a parser is restored from its bytes as that parser reads its body.\<close>

lemma restorePacket_wire:
  assumes "length body < 268435456" "new_packets (hdr_type header) = Some parse" "CONNECT \<le> hdr_type header"
    "hdr_type header \<le> DISCONNECT"
  shows "MQTTPersistence_restorePacket v (wire header body) = parse v header body"
proof -
  have h: "holds_at (wire header body) 1 (MQTTPacket_encode (length body))"
    using holds_at_prefix [of "[header]" "MQTTPacket_encode (length body)" body] by (simp add: wire_def)
  have "stored_length (wire header body) 4 1 0 1 = Some (int (length body), 1 + length (MQTTPacket_encode (length body)))"
    using stored_length_encode [OF h, of 4 1 0] assms(1) by simp
  moreover have "rd (wire header body) 0 = Some header" by (simp add: rd_def wire_def)
  ultimately show ?thesis
    using assms(2-4) by (simp add: MQTTPersistence_restorePacket_def Let_def) (simp add: wire_def rd_def)
qed

section \<open>Publications\<close>

text \<open>A packet whose fields the wire format can carry.\<close>

definition publish_ok :: "publish_packet \<Rightarrow> nat \<Rightarrow> bool" where
  "publish_ok pack qos \<longleftrightarrow>
     (\<exists>topic. pu_topic pack = Ptr topic \<and> strlen topic < 65536)
     \<and> (qos > 0 \<longrightarrow> 0 \<le> pu_msgId pack \<and> pu_msgId pack \<le> MAX_MSG_ID) \<and> qos < 4
     \<and> (pu_MQTTVersion pack \<ge> 5 \<longrightarrow> props_inv (pu_properties pack) \<and> p_length (pu_properties pack) < 268435456)
     \<and> publish_payload pack \<noteq> None"

text \<open>What a packet says, apart from the representation of its fields.\<close>

definition publish_same :: "publish_packet \<Rightarrow> bool \<Rightarrow> nat \<Rightarrow> bool \<Rightarrow> publish_packet \<Rightarrow> bool" where
  "publish_same pack dup qos retained q \<longleftrightarrow>
     hdr_type (pu_header q) = PUBLISH \<and> hdr_dup (pu_header q) = dup \<and> hdr_qos (pu_header q) = qos
     \<and> hdr_retain (pu_header q) = retained
     \<and> pu_topic q = (case pu_topic pack of NULL \<Rightarrow> NULL | Ptr t \<Rightarrow> Ptr (cstr t))
     \<and> pu_msgId q = (if qos > 0 then pu_msgId pack else 0)
     \<and> publish_payload q = publish_payload pack \<and> pu_MQTTVersion q = pu_MQTTVersion pack
     \<and> props_items (pu_properties q)
         = (if pu_MQTTVersion pack \<ge> 5 then map norm_prop (props_items (pu_properties pack)) else [])"

definition publish_body :: "publish_packet \<Rightarrow> nat \<Rightarrow> bytes" where
  "publish_body pack qos =
     (case pu_topic pack of NULL \<Rightarrow> [] | Ptr t \<Rightarrow> writeUTF t)
     @ (if qos > 0 then writeInt (pu_msgId pack) else [])
     @ (if pu_MQTTVersion pack \<ge> 5 then snd (MQTTProperties_write (Ptr (pu_properties pack))) else [])
     @ the (publish_payload pack)"

lemma publish_middle_ok:
  assumes "publish_ok pack qos"
  shows "publish_middle pack qos = Some ((if qos > 0 then writeInt (pu_msgId pack) else [])
     @ (if pu_MQTTVersion pack \<ge> 5 then snd (MQTTProperties_write (Ptr (pu_properties pack))) else []))"
  using assms MQTTProperties_len_written [of "Ptr (pu_properties pack)"]
  by (auto simp: publish_middle_def publish_ok_def Let_def)

text \<open>Reading at the end of what has been read.\<close>

lemma read_packet_props_prefix:
  assumes "props_inv p" "p_length p < 268435456" "data = pre @ snd (MQTTProperties_write (Ptr p)) @ post"
  obtains q where "read_packet_props data (length pre)
      = Some (Some (q, length pre + length (snd (MQTTProperties_write (Ptr p)))))"
    "props_items q = map norm_prop (props_items p)" "p_length q = p_length p"
proof -
  have "holds_at data (length pre) (snd (MQTTProperties_write (Ptr p)))" using assms(3) holds_at_prefix by metis
  moreover have "length pre + length (snd (MQTTProperties_write (Ptr p))) \<le> length data" using assms(3) by simp
  moreover have "\<forall>q. Ptr p = Ptr q \<longrightarrow> props_inv q \<and> p_length q < 268435456" using assms(1,2) by simp
  ultimately obtain q where q: "MQTTProperties_read MQTTProperties_initializer data (length pre) (length data)
      = Some (1, q, length pre + length (snd (MQTTProperties_write (Ptr p))))"
      "props_items q = [] @ map norm_prop (props_items p)" "p_length q = p_length p"
    using MQTTProperties_read_write [OF _ _ _ array_inv_initializer, of data "length pre" "Ptr p" "length data"]
    by auto
  have "read_packet_props data (length pre) = Some (Some (q, length pre + length (snd (MQTTProperties_write (Ptr p)))))"
    unfolding read_packet_props_def q(1) by simp
  with q that show thesis by simp
qed

lemma publish_parse:
  assumes ok: "publish_ok pack qos" and h: "hdr_type header = PUBLISH" "hdr_dup header = dup" "hdr_qos header = qos"
    "hdr_retain header = retained"
  shows "\<exists>q. MQTTPacket_publish (pu_MQTTVersion pack) header (publish_body pack qos)
      = Some (Ptr (Publish_packet q)) \<and> publish_same pack dup qos retained q"
proof -
  obtain topic where t: "pu_topic pack = Ptr topic" "strlen topic < 65536" using ok by (auto simp: publish_ok_def)
  obtain payload where pl: "publish_payload pack = Some payload" using ok by (auto simp: publish_ok_def)
  let ?v5 = "pu_MQTTVersion pack \<ge> 5"
  let ?id = "if qos > 0 then writeInt (pu_msgId pack) else []"
  let ?props = "if ?v5 then snd (MQTTProperties_write (Ptr (pu_properties pack))) else []"
  define data where "data = publish_body pack qos"
  have data: "data = writeUTF topic @ ?id @ ?props @ payload"
    by (simp add: data_def publish_body_def t pl)
  have u: "readUTFlen data 0 (length data) = Some (Ptr (cstr topic), int (strlen topic), 2 + strlen topic)"
    using readUTFlen_writeData [of data 0 "cstr topic" "length data"] holds_at_prefix [of "[]" "writeUTF topic"] t(2)
    by (simp add: data writeUTF_cstr strlen_def)
  have i: "(if qos > 0 then readInt data (2 + strlen topic) else Some (0, 2 + strlen topic))
      = Some (if qos > 0 then pu_msgId pack else 0, length (writeUTF topic @ ?id))"
    using ok holds_at_prefix [of "writeUTF topic" "writeInt (pu_msgId pack)" "?props @ payload"]
      readInt_writeInt [of data "2 + strlen topic" "pu_msgId pack"]
    by (auto simp: data publish_ok_def)
  define n where "n = length (writeUTF topic @ ?id @ ?props)"
  obtain q where q: "(if ?v5 then read_packet_props data (length (writeUTF topic @ ?id))
        else Some (Some (MQTTProperties_initializer, length (writeUTF topic @ ?id))))
      = Some (Some (q, n))"
      "props_items q = (if ?v5 then map norm_prop (props_items (pu_properties pack)) else [])"
  proof (cases ?v5)
    case True
    obtain q where "read_packet_props data (length (writeUTF topic @ ?id)) = Some (Some (q,
        length (writeUTF topic @ ?id) + length (snd (MQTTProperties_write (Ptr (pu_properties pack))))))"
        "props_items q = map norm_prop (props_items (pu_properties pack))"
      using read_packet_props_prefix [of "pu_properties pack" data "writeUTF topic @ ?id" payload] ok True
      by (auto simp: data publish_ok_def)
    with True that [of q] show thesis by (simp add: n_def)
  qed (use that [of MQTTProperties_initializer] in \<open>simp add: n_def\<close>)
  have d: "drop n data = payload" "length data - n = length payload" by (simp_all add: data n_def)
  have len: "\<not> (qos > 0 \<and> length data < 2 + strlen topic + 2)" by (simp add: data)
  have "MQTTPacket_publish (pu_MQTTVersion pack) header data = Some (Ptr (Publish_packet
      \<lparr>pu_header = header, pu_topic = Ptr (cstr topic), pu_topiclen = int (strlen topic),
       pu_msgId = (if qos > 0 then pu_msgId pack else 0), pu_payload = Ptr payload, pu_payloadlen = length payload,
       pu_MQTTVersion = pu_MQTTVersion pack, pu_properties = q, pu_mask = [0, 0, 0, 0]\<rparr>))"
    unfolding MQTTPacket_publish_def u bind.simps prod.case h(3) i q(1) if_not_P [OF len] by (simp add: d)
  then show ?thesis
    using h q(2) t pl unfolding data_def by (simp add: publish_same_def publish_payload_def)
qed

section \<open>Acknowledgements\<close>

lemma ack_header_byte [simp]:
  "type < 16 \<Longrightarrow> hdr_type (ack_header_byte type dup) = type" "hdr_dup (ack_header_byte type dup) = dup"
  by (simp_all add: ack_header_byte_def)

lemma ack_parse:
  assumes "0 \<le> msgid" "msgid \<le> MAX_MSG_ID" "hdr_type header \<noteq> DISCONNECT"
  shows "\<exists>a. MQTTPacket_ack v header (writeInt msgid) = Some (Ptr (Ack_packet a))
      \<and> ack_header a = header \<and> ack_msgId a = Some msgid \<and> ack_MQTTVersion a = v
      \<and> (v \<ge> MQTTVERSION_5 \<longrightarrow> ack_rc a = Some 0 \<and> ack_properties a = Some MQTTProperties_initializer)"
  using assms readInt_writeInt [of "writeInt msgid" 0 msgid] by (simp add: MQTTPacket_ack_def Let_def)

section \<open>What a send changes\<close>

text \<open>The states agree on everything that the flows of the protocol depend on.\<close>

definition flows_same :: "'z protocol_scheme \<Rightarrow> 'z protocol_scheme \<Rightarrow> bool" where
  "flows_same w w' \<longleftrightarrow> items (clients w') = items (clients w)
     \<and> (cur_ok (clients w) \<longrightarrow> cur_ok (clients w')) \<and> pub_heap w' = pub_heap w
     \<and> next_pub w' = next_pub w \<and> publications w' = publications w \<and> msgs_received w' = msgs_received w
     \<and> msgs_sent w' = msgs_sent w \<and> pending_writes w' = pending_writes w \<and> clock w' = clock w"

lemma flows_same_refl [simp]: "flows_same w w"
  by (simp add: flows_same_def)

lemma flows_same_trans: "flows_same w1 w2 \<Longrightarrow> flows_same w2 w3 \<Longrightarrow> flows_same w1 w3"
  by (simp add: flows_same_def)

lemma flows_same_client: "flows_same w w' \<Longrightarrow> client_at k w' = client_at k w"
  by (simp add: flows_same_def client_at_def)

lemma agrees_flows: "protocol_agrees w w' \<Longrightarrow> flows_same w w'"
  using protocol_agrees_fields [of w w'] by (simp add: flows_same_def protocol_agrees_def)

lemma more_flows:
  fixes w w' :: "'z protocol_scheme"
  shows "websock.more w' = websock.more w \<Longrightarrow> clock w' = clock w \<Longrightarrow> flows_same w w'"
  by (cases w; cases w') (simp add: flows_same_def)

lemma noPendingWrites_more [simp]: "sockets.more (snd (Socket_noPendingWrites s w)) = sockets.more w"
  by (simp add: Socket_noPendingWrites_def split: prod.splits)

lemma writev_more [simp]: "sockets.more (snd (snd (Socket_writev s vs w))) = sockets.more w"
  by (simp add: Socket_writev_def os_writev_def Let_def split: prod.splits sum.splits io_plan.splits)

lemma putdatas_more: "sockets.more (snd (Socket_putdatas s buf0 bufs frees w)) = sockets.more w"
proof -
  obtain ok w1 where n: "Socket_noPendingWrites s w = (ok, w1)" by fastforce
  obtain rc n w2 where v: "Socket_writev s (buf0 # bufs) w1 = (rc, n, w2)" by (metis prod_cases3)
  have "sockets.more w1 = sockets.more w" "sockets.more w2 = sockets.more w1"
    using n v noPendingWrites_more [of s w] writev_more [of s "buf0 # bufs" w1] by simp_all
  then show ?thesis by (simp add: Socket_putdatas_def Let_def n v SocketBuffer_pendingWrite_def)
qed

lemma sockets_more_websock:
  fixes w w' :: "'z websock_scheme"
  shows "sockets.more w' = sockets.more w \<Longrightarrow> websock.more w' = websock.more w \<and> clock w' = clock w"
  by (cases w; cases w') simp

lemma new_ws_mask_more: "websock.more (snd (new_ws_mask w)) = websock.more w" "clock (snd (new_ws_mask w)) = clock w"
  by (simp_all add: new_ws_mask_def next_rand_def split: prod.splits)

lemma buildFrame_more:
  "websock.more (snd (snd (WebSocket_buildFrame net op m buf0 bufs w))) = websock.more w"
  "clock (snd (snd (WebSocket_buildFrame net op m buf0 bufs w))) = clock w"
  using new_ws_mask_more [of w] by (cases "new_ws_mask w"; simp add: WebSocket_buildFrame_def Let_def)+

lemma websock_putdatas_more:
  "websock.more (snd (snd (WebSocket_putdatas net buf0 bufs w))) = websock.more w
   \<and> clock (snd (snd (WebSocket_putdatas net buf0 bufs w))) = clock w"
proof (cases "websocket net")
  case True
  obtain b bufs1 w1 where f: "WebSocket_buildFrame net WebSocket_OP_BINARY True (Ptr buf0) bufs w = (b, bufs1, w1)"
    by (metis prod_cases3)
  obtain rc w2 where p: "Socket_putdatas (socket net) b (pb_buffers bufs1) (pb_frees bufs1) w1 = (rc, w2)" by fastforce
  show ?thesis
    using True f p buildFrame_more [of net WebSocket_OP_BINARY True "Ptr buf0" bufs w]
      sockets_more_websock [of w2 w1] putdatas_more [of "socket net" b "pb_buffers bufs1" "pb_frees bufs1" w1]
    by (simp add: WebSocket_putdatas_def)
next
  case False
  obtain rc w2 where p: "Socket_putdatas (socket net) buf0 (pb_buffers bufs) (pb_frees bufs) w = (rc, w2)" by fastforce
  show ?thesis
    using False p sockets_more_websock [of w2 w] putdatas_more [of "socket net" buf0 "pb_buffers bufs" "pb_frees bufs" w]
    by (simp add: WebSocket_putdatas_def)
qed

lemma putdatas_flows: "flows_same w (snd (snd (WebSocket_putdatas net buf0 bufs w)))"
  using websock_putdatas_more by (intro more_flows) blast+

lemma noPendingWrites_flows: "flows_same w (snd (Socket_noPendingWrites s w))"
  using sockets_more_websock [OF noPendingWrites_more] by (intro more_flows) blast+

text \<open>On a connection without websockets a packet is put behind the bytes of the packets before, or refused.\<close>

definition stream_adds :: "int \<Rightarrow> bytes \<Rightarrow> 'z sockets_scheme \<Rightarrow> 'z sockets_scheme \<Rightarrow> bool" where
  "stream_adds s bs w w' \<longleftrightarrow> writes_inv w' \<and> outstream s w' = outstream s w @ bs
     \<and> (\<forall>t. t \<noteq> s \<longrightarrow> outstream t w' = outstream t w)"

lemma stream_adds_cong:
  assumes "stream_adds s bs w1 w'" "protocol_agrees w w1"
  shows "stream_adds s bs w w'"
  using assms protocol_agrees_fields [OF assms(2)] by (simp add: stream_adds_def outstream_def unsent_def)

lemma agrees_writes_inv: "protocol_agrees w w1 \<Longrightarrow> writes_inv w \<Longrightarrow> writes_inv w1"
  using protocol_agrees_fields [of w w1] by (simp add: writes_inv_def)

lemma putdatas_adds:
  assumes "\<not> websocket net" "writes_inv w" "WebSocket_putdatas net buf0 bufs w = (rc, bufs', w')"
  shows "stream_adds (socket net) (if rc = SOCKET_ERROR then [] else buf0 @ concat (pb_buffers bufs)) w w'" "bufs' = bufs"
proof -
  obtain w2 where p: "Socket_putdatas (socket net) buf0 (pb_buffers bufs) (pb_frees bufs) w = (rc, w2)" "w' = w2" "bufs' = bufs"
    using assms(1,3) by (auto simp: WebSocket_putdatas_def split: prod.splits)
  then show "bufs' = bufs" "stream_adds (socket net) (if rc = SOCKET_ERROR then [] else buf0 @ concat (pb_buffers bufs)) w w'"
    using putdatas_spec [OF assms(2) p(1)] by (auto simp: stream_adds_def)
qed

context store_frame
begin

lemma send_cases:
  assumes "MQTTPacket_send per net header buffer freeData v w = Some (rc, net', w')"
  obtains w1 where "protocol_agrees w w1"
    "w1 = w \<or> (\<exists>r b bs t i. MQTTPersistence_putPacket per (socket net) b bs t i False v w = Some (r, w1))"
    "\<exists>b. WebSocket_putdatas net (header # MQTTPacket_encode (length buffer))
       \<lparr>pb_buffers = [buffer], pb_frees = [freeData], pb_mask = [0, 0, 0, 0]\<rparr> w1 = (rc, b, w')"
    "net' = (if rc = TCPSOCKET_COMPLETE then net\<lparr>lastSent := MQTTTime_now w'\<rparr> else net)"
proof -
  obtain w1 where "(if hdr_type header = PUBREL
      then do { (msgId, _) \<leftarrow> readInt buffer 0;
                map_option snd (MQTTPersistence_putPacket per (socket net)
                  (header # MQTTPacket_encode (length buffer)) [buffer] PUBREL msgId False v w) }
      else Some w) = Some w1" (is "?x = _")
    using assms unfolding MQTTPacket_send_def Let_def by (cases ?x) simp_all
  note w1 = this
  have put: "w1 = w \<or> (\<exists>r b bs t i. MQTTPersistence_putPacket per (socket net) b bs t i False v w = Some (r, w1))"
    using w1 by (auto split: if_splits bind_splits prod.splits)
  then have "protocol_agrees w w1" using putPacket_frame by (auto simp: protocol_agrees_def)
  moreover have "Some (rc, net', w') = (case WebSocket_putdatas net (header # MQTTPacket_encode (length buffer))
       \<lparr>pb_buffers = [buffer], pb_frees = [freeData], pb_mask = [0, 0, 0, 0]\<rparr> w1 of (rc, _, w2) \<Rightarrow>
         Some (rc, if rc = TCPSOCKET_COMPLETE then net\<lparr>lastSent := MQTTTime_now w2\<rparr> else net, w2))"
    using assms unfolding MQTTPacket_send_def Let_def w1 by simp
  ultimately show thesis using put by (intro that) (auto split: prod.splits)
qed

lemma send_flows:
  assumes "MQTTPacket_send per net header buffer freeData v w = Some (rc, net', w')"
  shows "flows_same w w'" "socket net' = socket net"
proof -
  obtain w1 where a: "protocol_agrees w w1" and p: "\<exists>b. WebSocket_putdatas net (header # MQTTPacket_encode (length buffer))
       \<lparr>pb_buffers = [buffer], pb_frees = [freeData], pb_mask = [0, 0, 0, 0]\<rparr> w1 = (rc, b, w')"
    and n: "net' = (if rc = TCPSOCKET_COMPLETE then net\<lparr>lastSent := MQTTTime_now w'\<rparr> else net)"
    using send_cases [OF assms] by metis
  show "flows_same w w'" using flows_same_trans [OF agrees_flows [OF a]] putdatas_flows p by (metis snd_conv)
  show "socket net' = socket net" by (simp add: n)
qed

lemma send_adds:
  assumes "MQTTPacket_send per net header buffer freeData v w = Some (rc, net', w')" "\<not> websocket net" "writes_inv w"
  shows "stream_adds (socket net) (if rc = SOCKET_ERROR then [] else wire header buffer) w w'"
proof -
  obtain w1 b where a: "protocol_agrees w w1" and p: "WebSocket_putdatas net (header # MQTTPacket_encode (length buffer))
       \<lparr>pb_buffers = [buffer], pb_frees = [freeData], pb_mask = [0, 0, 0, 0]\<rparr> w1 = (rc, b, w')"
    using send_cases [OF assms(1)] by metis
  show ?thesis
    using stream_adds_cong [OF putdatas_adds(1) [OF assms(2) agrees_writes_inv [OF a assms(3)] p] a]
    by (cases "rc = SOCKET_ERROR") (simp_all add: wire_def)
qed

lemma sends_cases:
  assumes "MQTTPacket_sends per net header bufs v w = Some (rc, bufs', net', w')"
  obtains w1 where "protocol_agrees w w1"
    "w1 = w \<or> (\<exists>r b bs t i. MQTTPersistence_putPacket per (socket net) b bs t i False v w = Some (r, w1))"
    "WebSocket_putdatas net (header # MQTTPacket_encode (length (concat (pb_buffers bufs)))) bufs w1 = (rc, bufs', w')"
    "net' = (if rc = TCPSOCKET_COMPLETE then net\<lparr>lastSent := MQTTTime_now w'\<rparr> else net)"
proof -
  obtain w1 where "(if hdr_type header = PUBLISH \<and> hdr_qos header \<noteq> 0
      then (if length (pb_buffers bufs) \<le> 2 then None
            else do { (msgId, _) \<leftarrow> readInt (pb_buffers bufs ! 2) 0;
                map_option snd (MQTTPersistence_putPacket per (socket net)
                  (header # MQTTPacket_encode (length (concat (pb_buffers bufs)))) (pb_buffers bufs) PUBLISH msgId False v w) })
      else Some w) = Some w1" (is "?x = _")
    using assms unfolding MQTTPacket_sends_def Let_def by (cases ?x) simp_all
  note w1 = this
  have put: "w1 = w \<or> (\<exists>r b bs t i. MQTTPersistence_putPacket per (socket net) b bs t i False v w = Some (r, w1))"
    using w1 by (auto split: if_splits bind_splits prod.splits)
  then have "protocol_agrees w w1" using putPacket_frame by (auto simp: protocol_agrees_def)
  moreover have "Some (rc, bufs', net', w') = (case WebSocket_putdatas net
        (header # MQTTPacket_encode (length (concat (pb_buffers bufs)))) bufs w1 of (rc, bufs2, w2) \<Rightarrow>
         Some (rc, bufs2, if rc = TCPSOCKET_COMPLETE then net\<lparr>lastSent := MQTTTime_now w2\<rparr> else net, w2))"
    using assms unfolding MQTTPacket_sends_def Let_def w1 by simp
  ultimately show thesis using put by (intro that) (auto split: prod.splits)
qed

lemma sends_flows:
  assumes "MQTTPacket_sends per net header bufs v w = Some (rc, bufs', net', w')"
  shows "flows_same w w'" "socket net' = socket net"
proof -
  obtain w1 where a: "protocol_agrees w w1"
    and p: "WebSocket_putdatas net (header # MQTTPacket_encode (length (concat (pb_buffers bufs)))) bufs w1 = (rc, bufs', w')"
    and n: "net' = (if rc = TCPSOCKET_COMPLETE then net\<lparr>lastSent := MQTTTime_now w'\<rparr> else net)"
    using sends_cases [OF assms] by metis
  show "flows_same w w'" using flows_same_trans [OF agrees_flows [OF a]] putdatas_flows p by (metis snd_conv)
  show "socket net' = socket net" by (simp add: n)
qed

lemma sends_adds:
  assumes "MQTTPacket_sends per net header bufs v w = Some (rc, bufs', net', w')" "\<not> websocket net" "writes_inv w"
  shows "stream_adds (socket net) (if rc = SOCKET_ERROR then [] else wire header (concat (pb_buffers bufs))) w w'"
    "bufs' = bufs"
proof -
  obtain w1 where a: "protocol_agrees w w1"
    and p: "WebSocket_putdatas net (header # MQTTPacket_encode (length (concat (pb_buffers bufs)))) bufs w1 = (rc, bufs', w')"
    using sends_cases [OF assms(1)] by metis
  note q = putdatas_adds [OF assms(2) agrees_writes_inv [OF a assms(3)] p]
  show "bufs' = bufs" by (rule q(2))
  show "stream_adds (socket net) (if rc = SOCKET_ERROR then [] else wire header (concat (pb_buffers bufs))) w w'"
    using stream_adds_cong [OF q(1) a] by (cases "rc = SOCKET_ERROR") (simp_all add: wire_def)
qed

text \<open>A publication is sent as its body behind a header.\<close>

lemma send_publish_cases:
  assumes "MQTTPacket_send_publish per pack dup qos retained net w = Some (rc, pack', net', w')"
  obtains bufs frees bufs' where "publish_buffers pack qos = Some (bufs, frees)"
    "MQTTPacket_sends per net (mk_header PUBLISH (of_bool dup) (int qos) (of_bool retained))
       \<lparr>pb_buffers = bufs, pb_frees = frees, pb_mask = pu_mask pack\<rparr> (pu_MQTTVersion pack) w
     = Some (rc, bufs', net', w')" "pack' = masked_packet pack bufs'"
proof -
  obtain bufs frees where b: "publish_buffers pack qos = Some (bufs, frees)"
  proof (cases "publish_buffers pack qos")
    case None
    then show ?thesis using assms by (simp add: MQTTPacket_send_publish_def)
  qed (use that in force)
  let ?sends = "MQTTPacket_sends per net (mk_header PUBLISH (of_bool dup) (int qos) (of_bool retained))
       \<lparr>pb_buffers = bufs, pb_frees = frees, pb_mask = pu_mask pack\<rparr> (pu_MQTTVersion pack) w"
  obtain rc2 bufs' net2 w2 where s: "?sends = Some (rc2, bufs', net2, w2)"
  proof (cases ?sends)
    case None
    then show ?thesis using assms unfolding MQTTPacket_send_publish_def b by simp
  next
    case (Some r)
    then show ?thesis using that by (cases r) simp
  qed
  then have "rc2 = rc" "masked_packet pack bufs' = pack'" "net2 = net'" "w2 = w'"
    using assms unfolding MQTTPacket_send_publish_def b by simp_all
  with b s that show thesis by simp
qed

text \<open>The buffers are the body of the packet, and without a mask the packet is left as it is.\<close>

lemma publish_buffers_body:
  assumes "publish_buffers pack qos = Some (bufs, frees)"
  shows "publish_ok pack qos \<Longrightarrow> concat bufs = publish_body pack qos"
    "masked_packet pack \<lparr>pb_buffers = bufs, pb_frees = frees, pb_mask = pu_mask pack\<rparr> = pack"
proof -
  obtain topic where t: "pu_topic pack = Ptr topic"
    using assms by (cases "pu_topic pack") (simp_all add: publish_buffers_def)
  obtain payload where pl: "publish_payload pack = Some payload"
    using assms by (cases "publish_payload pack") (simp_all add: publish_buffers_def t)
  have "put_back (cstr topic) (Ptr topic) = pu_topic pack"
    using takeWhile_eq_take [of "\<lambda>b. b \<noteq> 0" topic] append_take_drop_id [of "length (cstr topic)" topic]
    by (simp add: put_back_def cstr_def t)
  moreover have "put_back payload (pu_payload pack) = pu_payload pack"
    using pl by (auto simp: put_back_def publish_payload_def split: cptr.splits if_splits)
  moreover have "bufs ! 1 = cstr topic" "last bufs = payload"
    using assms by (cases "publish_middle pack qos"; auto simp: publish_buffers_def t pl Let_def split: if_splits)+
  ultimately show "masked_packet pack \<lparr>pb_buffers = bufs, pb_frees = frees, pb_mask = pu_mask pack\<rparr> = pack"
    unfolding masked_packet_def by (simp add: t)
  show "concat bufs = publish_body pack qos" if "publish_ok pack qos"
    using assms publish_middle_ok [OF that]
    by (auto simp: publish_buffers_def publish_body_def t pl writeUTF_def Let_def split: if_splits)
qed

lemma send_publish_flows:
  assumes "MQTTPacket_send_publish per pack dup qos retained net w = Some (rc, pack', net', w')"
  shows "flows_same w w'" "socket net' = socket net"
  using send_publish_cases [OF assms] sends_flows by metis+

lemma send_publish_adds:
  assumes "MQTTPacket_send_publish per pack dup qos retained net w = Some (rc, pack', net', w')"
    "\<not> websocket net" "writes_inv w" "publish_ok pack qos"
  shows "stream_adds (socket net) (if rc = SOCKET_ERROR then []
      else wire (mk_header PUBLISH (of_bool dup) (int qos) (of_bool retained)) (publish_body pack qos)) w w'"
    "pack' = pack"
proof -
  obtain bufs frees bufs' where b: "publish_buffers pack qos = Some (bufs, frees)"
      "MQTTPacket_sends per net (mk_header PUBLISH (of_bool dup) (int qos) (of_bool retained))
         \<lparr>pb_buffers = bufs, pb_frees = frees, pb_mask = pu_mask pack\<rparr> (pu_MQTTVersion pack) w
       = Some (rc, bufs', net', w')" "pack' = masked_packet pack bufs'"
    using send_publish_cases [OF assms(1)] by blast
  note q = sends_adds [OF b(2) assms(2,3)]
  show "stream_adds (socket net) (if rc = SOCKET_ERROR then []
      else wire (mk_header PUBLISH (of_bool dup) (int qos) (of_bool retained)) (publish_body pack qos)) w w'"
    using q(1) publish_buffers_body(1) [OF b(1) assms(4)] by (cases "rc = SOCKET_ERROR") simp_all
  show "pack' = pack" using b(3) q(2) publish_buffers_body(2) [OF b(1)] by simp
qed

end

section \<open>Properties\<close>

text \<open>C8. A publication that \<open>MQTTPacket_send_publish\<close> accepts is put on the stream of the connection as the
  bytes of one packet, behind everything sent before, and the parser of incoming packets reads from
  these bytes what the packet says: flags, topic, identifier, payload and properties. The same holds of
  the record a store keeps of it, since it is made of these bytes.\<close>

theorem publish_wire:
  assumes "writes_inv w" "\<not> websocket net" "publish_ok pack qos" "length (publish_body pack qos) < 268435456"
    and "MQTTPacket_send_publish (default_store dir) pack dup qos retained net w = Some (rc, pack', net', w')"
    and "rc \<noteq> SOCKET_ERROR"
  shows "pack' = pack \<and> (\<exists>bs q. stream_adds (socket net) bs w w'
      \<and> MQTTPersistence_restorePacket (pu_MQTTVersion pack) bs = Some (Ptr (Publish_packet q))
      \<and> publish_same pack dup qos retained q)"
proof -
  let ?h = "mk_header PUBLISH (of_bool dup) (int qos) (of_bool retained)"
  note adds = disk_store.send_publish_adds [OF assms(5,2,1,3)]
  have h: "hdr_type ?h = PUBLISH" "hdr_dup ?h = dup" "hdr_qos ?h = qos" "hdr_retain ?h = retained"
    using assms(3) by (simp_all add: publish_ok_def)
  have "MQTTPersistence_restorePacket (pu_MQTTVersion pack) (wire ?h (publish_body pack qos))
      = MQTTPacket_publish (pu_MQTTVersion pack) ?h (publish_body pack qos)"
    by (rule restorePacket_wire [OF assms(4)]) (simp_all add: h(1) new_packets_def)
  then show ?thesis
    using adds assms(6) publish_parse [OF assms(3) h] by auto
qed

definition sample_publish :: publish_packet where
  "sample_publish = \<lparr>pu_header = 0, pu_topic = Ptr [116, 47, 97], pu_topiclen = 3, pu_msgId = 300,
     pu_payload = Ptr [1, 2, 3], pu_payloadlen = 3, pu_MQTTVersion = 5, pu_properties = sample_props,
     pu_mask = [0, 0, 0, 0]\<rparr>"

lemma sample_publish_ok:
  "publish_ok sample_publish 1" "length (publish_body sample_publish 1) = 24"
proof -
  have "length (snd (MQTTProperties_write (Ptr sample_props))) = 14"
    using MQTTProperties_len_written [of "Ptr sample_props"] sample_props_ok
    by (simp add: MQTTProperties_len_def MQTTPacket_VBIlen_def)
  then show "publish_ok sample_publish 1" "length (publish_body sample_publish 1) = 24"
    using sample_props_ok
    by (simp_all add: publish_ok_def publish_body_def sample_publish_def publish_payload_def strlen_def cstr_def)
qed

lemma publish_wire_witness:
  "\<exists>net' w' bs q. MQTTPacket_send_publish (default_store [46]) sample_publish False 1 False sample_handles
       (sample_disk [sample_client]) = Some (0, sample_publish, net', w')
     \<and> outstream 5 w' = bs \<and> MQTTPersistence_restorePacket 5 bs = Some (Ptr (Publish_packet q))
     \<and> pu_msgId q = 300 \<and> publish_payload q = Some [1, 2, 3]"
proof -
  let ?send = "MQTTPacket_send_publish (default_store [46]) sample_publish False 1 False sample_handles
       (sample_disk [sample_client])"
  have inv: "writes_inv (sample_disk [sample_client])"
    by (simp add: writes_inv_def sample_disk_def protocol.defs disk.defs sample_protocol_defs)
  have "(case ?send of None \<Rightarrow> False | Some (rc, _) \<Rightarrow> rc = 0)" by code_simp
  then obtain pack' net' w' where s: "?send = Some (0, pack', net', w')"
    by (cases ?send) auto
  have n: "\<not> websocket sample_handles" "socket sample_handles = 5" by (simp_all add: sample_handles_def)
  have o: "outstream 5 (sample_disk [sample_client]) = []"
    by (simp add: outstream_def unsent_def sample_disk_def protocol.defs disk.defs sample_protocol_defs)
  obtain bs q where "pack' = sample_publish" "stream_adds 5 bs (sample_disk [sample_client]) w'"
      "MQTTPersistence_restorePacket (pu_MQTTVersion sample_publish) bs = Some (Ptr (Publish_packet q))"
      "publish_same sample_publish False 1 False q"
    using publish_wire [OF inv n(1) sample_publish_ok(1) _ s] sample_publish_ok(2) n(2) by auto
  then show ?thesis
    using s o by (auto simp: stream_adds_def publish_same_def) (simp add: sample_publish_def publish_payload_def)
qed

end
