(* ===== verification/Utf8.thy ===== *)
theory Utf8
  imports MqttPrelude
begin

text \<open>
  \<open>MqttC/utf-8.c\<close>: checking that a string is well-formed UTF-8. A pointer into the string is the rest of
  the string; \<open>char\<close> is signed, so that the ranges are compared as signed numbers.
\<close>

definition valid_ranges :: "(byte \<times> byte) list list" where
  "valid_ranges =
     [[(0, 0x7F)],
      [(0xC2, 0xDF), (0x80, 0xBF)],
      [(0xE0, 0xE0), (0xA0, 0xBF), (0x80, 0xBF)],
      [(0xE1, 0xEC), (0x80, 0xBF), (0x80, 0xBF)],
      [(0xED, 0xED), (0x80, 0x9F), (0x80, 0xBF)],
      [(0xEE, 0xEF), (0x80, 0xBF), (0x80, 0xBF)],
      [(0xF0, 0xF0), (0x90, 0xBF), (0x80, 0xBF), (0x80, 0xBF)],
      [(0xF1, 0xF3), (0x80, 0xBF), (0x80, 0xBF), (0x80, 0xBF)],
      [(0xF4, 0xF4), (0x80, 0x8F), (0x80, 0xBF), (0x80, 0xBF)]]"

definition charlen :: "byte \<Rightarrow> nat" where
  "charlen d = (if d AND 128 = 0 then 1 else if d AND 0xF0 = 0xF0 then 4 else if d AND 0xE0 = 0xE0 then 3 else 2)"

definition in_range :: "byte \<times> byte \<Rightarrow> byte \<Rightarrow> bool" where
  "in_range r d = (case r of (lower, upper) \<Rightarrow> \<not> (sint d < sint lower \<or> sint d > sint upper))"

text \<open>The number of bytes of the character at the start; \<open>None\<close> for the null pointer.\<close>

definition UTF8_char_validate :: "bytes \<Rightarrow> nat option" where
  "UTF8_char_validate data =
     (case data of
        [] \<Rightarrow> None
      | d # _ \<Rightarrow>
          if charlen d > length data then None
          else if \<exists>row \<in> set valid_ranges. length row = charlen d \<and> list_all2 in_range row (take (charlen d) data)
          then Some (charlen d) else None)"

lemma charlen_pos: "0 < charlen d"
  by (simp add: charlen_def)

lemma char_validate_pos: "UTF8_char_validate data = Some n \<Longrightarrow> 0 < n \<and> n \<le> length data"
  using charlen_pos by (auto simp: UTF8_char_validate_def split: list.splits if_splits)

function validate_loop :: "bytes \<Rightarrow> bool" where
  "validate_loop data =
     (case UTF8_char_validate data of
        None \<Rightarrow> False
      | Some n \<Rightarrow> if n < length data then validate_loop (drop n data) else True)"
  by pat_completeness auto
termination by (relation "measure length") (auto dest: char_validate_pos)

declare validate_loop.simps [simp del]

definition MQTT_UTF8_validate :: "bytes cptr \<Rightarrow> bool" where
  "MQTT_UTF8_validate data = (case data of NULL \<Rightarrow> True | Ptr d \<Rightarrow> d = [] \<or> validate_loop d)"

text \<open>The string up to its NUL.\<close>

definition MQTT_UTF8_validateString :: "bytes cptr \<Rightarrow> bool" where
  "MQTT_UTF8_validateString string =
     (case string of NULL \<Rightarrow> False | Ptr s \<Rightarrow> MQTT_UTF8_validate (Ptr (takeWhile (\<lambda>b. b \<noteq> 0) s)))"

section \<open>The encoding of RFC 3629\<close>

definition scalar_value :: "nat \<Rightarrow> bool" where
  "scalar_value cp \<longleftrightarrow> cp < 0xD800 \<or> 0xE000 \<le> cp \<and> cp < 0x110000"

definition utf8_encode :: "nat \<Rightarrow> bytes" where
  "utf8_encode cp =
     map of_nat
       (if cp < 0x80 then [cp]
        else if cp < 0x800 then [0xC0 + cp div 64, 0x80 + cp mod 64]
        else if cp < 0x10000 then [0xE0 + cp div 4096, 0x80 + cp div 64 mod 64, 0x80 + cp mod 64]
        else [0xF0 + cp div 262144, 0x80 + cp div 4096 mod 64, 0x80 + cp div 64 mod 64, 0x80 + cp mod 64])"

lemma sint_byte: "sint (d :: byte) = (if unat d < 128 then int (unat d) else int (unat d) - 256)"
proof -
  have b: "bit (uint d) 7 \<longleftrightarrow> 128 \<le> unat d" using bit_7_iff [of d] by (simp add: bit_unsigned_iff)
  have "take_bit 8 (uint d) = uint d" using bintr_uint [of 8 d] by simp
  moreover have "sint d = signed_take_bit 7 (uint d)" by (simp add: sint_uint)
  ultimately have "sint d = uint d - 256 * of_bool (bit (uint d) 7)"
    by (simp add: signed_take_bit_eq_take_bit_minus)
  then show ?thesis by (simp add: b)
qed

section \<open>The ranges as numbers\<close>

lemma byte_all:
  assumes "list_all P (map of_nat [0..<256])"
  shows "P (d :: byte)"
proof -
  have "d = of_nat (unat d)" by simp
  moreover have "unat d \<in> set [0..<256]" using unat_byte_less [of d] by simp
  ultimately show ?thesis using assms unfolding list_all_iff by (metis image_eqI list.set_map)
qed

lemma charlen_unat:
  "charlen d = (if unat d < 128 then 1 else if 240 \<le> unat d then 4 else if 224 \<le> unat d then 3 else 2)"
  by (rule byte_all [where P = "\<lambda>d. charlen d =
      (if unat d < 128 then 1 else if 240 \<le> unat d then 4 else if 224 \<le> unat d then 3 else 2)"]) code_simp

lemma in_range_low: "in_range (0, 0x7F) d \<longleftrightarrow> unat d < 128"
  using unat_byte_less [of d] by (auto simp: in_range_def sint_byte simp del: of_nat_unat)

lemma in_range_high:
  assumes "128 \<le> unat lower" "128 \<le> unat upper"
  shows "in_range (lower, upper) d \<longleftrightarrow> unat lower \<le> unat d \<and> unat d \<le> unat upper"
  using assms unat_byte_less [of d] unat_byte_less [of lower] unat_byte_less [of upper]
  by (auto simp: in_range_def sint_byte simp del: of_nat_unat)

definition in_high :: "nat \<Rightarrow> nat \<Rightarrow> byte \<Rightarrow> bool" where
  "in_high l u d \<longleftrightarrow> l \<le> unat d \<and> unat d \<le> u"

text \<open>The rows of the table, by the number of bytes.\<close>

lemma validate_1: "unat a < 128 \<Longrightarrow> UTF8_char_validate (a # ds) = Some 1"
  by (simp add: UTF8_char_validate_def charlen_unat valid_ranges_def in_range_low)

lemma validate_2:
  assumes "128 \<le> unat a" "unat a < 224"
  shows "UTF8_char_validate (a # ds) =
    (case ds of b # _ \<Rightarrow> if 0xC2 \<le> unat a \<and> in_high 0x80 0xBF b then Some 2 else None | _ \<Rightarrow> None)"
proof -
  have t: "take 2 (a # b # r) = [a, b]" for b r by (simp add: numeral_2_eq_2)
  show ?thesis
    using assms
    by (cases ds) (auto simp: UTF8_char_validate_def charlen_unat valid_ranges_def in_range_high in_high_def t)
qed

lemma validate_3:
  assumes "224 \<le> unat a" "unat a < 240"
  shows "UTF8_char_validate (a # ds) =
    (case ds of b # c # _ \<Rightarrow>
       if in_high (if unat a = 0xE0 then 0xA0 else 0x80) (if unat a = 0xED then 0x9F else 0xBF) b \<and> in_high 0x80 0xBF c
       then Some 3 else None
     | _ \<Rightarrow> None)"
proof -
  have c: "charlen a = 3" using assms by (simp add: charlen_unat)
  have t: "take 3 (a # b # d # r) = [a, b, d]" for b d r by (simp add: numeral_3_eq_3)
  show ?thesis
  proof (cases "length ds < 2")
    case True
    then show ?thesis using c by (auto simp: UTF8_char_validate_def split: list.splits)
  next
    case False
    then obtain b d r where ds: "ds = b # d # r" by (cases ds; cases "tl ds") auto
    show ?thesis
      using assms c unfolding ds
      by (auto simp: UTF8_char_validate_def valid_ranges_def in_range_high in_high_def t)
  qed
qed

lemma validate_4:
  assumes "240 \<le> unat a"
  shows "UTF8_char_validate (a # ds) =
    (case ds of b # c # d # _ \<Rightarrow>
       if unat a \<le> 0xF4 \<and> in_high (if unat a = 0xF0 then 0x90 else 0x80) (if unat a = 0xF4 then 0x8F else 0xBF) b
          \<and> in_high 0x80 0xBF c \<and> in_high 0x80 0xBF d
       then Some 4 else None
     | _ \<Rightarrow> None)"
proof -
  have c: "charlen a = 4" using assms by (simp add: charlen_unat)
  show ?thesis
  proof (cases "length ds < 3")
    case True
    then show ?thesis using c by (auto simp: UTF8_char_validate_def split: list.splits)
  next
    case False
    then obtain b d e r where ds: "ds = b # d # e # r" by (cases ds; cases "tl ds"; cases "tl (tl ds)") auto
    have t: "take 4 (a # b # d # e # r) = [a, b, d, e]" by (simp add: numeral_eq_Suc)
    show ?thesis
      using assms c unfolding ds
      by (auto simp: UTF8_char_validate_def valid_ranges_def in_range_high in_high_def t)
  qed
qed

section \<open>Characters\<close>

lemma of_nat_is: "unat d = n \<Longrightarrow> (of_nat n :: byte) = d"
  by auto

lemma unat_of_nat_less: "n < 256 \<Longrightarrow> unat (of_nat n :: byte) = n"
  by (simp add: unat_of_nat_byte)

lemma encode_2:
  "a < 0x20 \<Longrightarrow> 2 \<le> a \<Longrightarrow> b < 64 \<Longrightarrow> utf8_encode (a * 64 + b) = [of_nat (0xC0 + a), of_nat (0x80 + b)]"
  by (simp add: utf8_encode_def)

text \<open>Digits in base 64.\<close>

lemma digit64: "c < 64 \<Longrightarrow> ((a::nat) * 64 + c) div 64 = a" "c < 64 \<Longrightarrow> (a * 64 + c) mod 64 = c"
  by simp_all

lemma div64s: "(n::nat) div 4096 = n div 64 div 64" "n div 262144 = n div 64 div 64 div 64"
  by (simp_all add: div_mult2_eq [symmetric])

lemma digits64: "(n::nat) = (n div 64) * 64 + n mod 64"
  by simp

lemma encode_3:
  assumes "a < 16" "b < 64" "c < 64" "a = 0 \<Longrightarrow> 0x20 \<le> b"
  shows "utf8_encode ((a * 64 + b) * 64 + c) = [of_nat (0xE0 + a), of_nat (0x80 + b), of_nat (0x80 + c)]"
proof -
  let ?n = "(a * 64 + b) * 64 + c"
  have "0x20 \<le> a * 64 + b" using assms(4) by (cases "a = 0") simp_all
  then have n: "\<not> ?n < 0x80" "\<not> ?n < 0x800" "?n < 0x10000" using assms(1-3) by (simp_all add: add_mult_distrib)
  show ?thesis
    unfolding utf8_encode_def if_not_P [OF n(1)] if_not_P [OF n(2)] if_P [OF n(3)] div64s
    by (simp only: digit64 assms list.map)
qed

lemma encode_4:
  assumes "a < 8" "b < 64" "c < 64" "d < 64" "a = 0 \<Longrightarrow> 0x10 \<le> b"
  shows "utf8_encode (((a * 64 + b) * 64 + c) * 64 + d)
    = [of_nat (0xF0 + a), of_nat (0x80 + b), of_nat (0x80 + c), of_nat (0x80 + d)]"
proof -
  let ?n = "((a * 64 + b) * 64 + c) * 64 + d"
  have "0x10 \<le> a * 64 + b" using assms(5) by (cases "a = 0") simp_all
  then have n: "\<not> ?n < 0x80" "\<not> ?n < 0x800" "\<not> ?n < 0x10000" using assms(1-4) by (simp_all add: add_mult_distrib)
  show ?thesis
    unfolding utf8_encode_def if_not_P [OF n(1)] if_not_P [OF n(2)] if_not_P [OF n(3)] div64s
    by (simp only: digit64 assms list.map)
qed

lemma high_offset: "in_high l u d \<Longrightarrow> 0x80 \<le> l \<Longrightarrow> u \<le> 0xBF \<Longrightarrow> \<exists>b. d = of_nat (0x80 + b) \<and> unat d = 0x80 + b \<and> b < 64"
  by (rule exI [of _ "unat d - 0x80"]) (auto simp: in_high_def intro: of_nat_is [symmetric])

lemma high_if: "(0x80::nat) \<le> (if p then 0xA0 else 0x80)" "(0x80::nat) \<le> (if p then 0x90 else 0x80)"
    "(if p then 0x9F else 0xBF) \<le> (0xBF::nat)" "(if p then 0x8F else 0xBF) \<le> (0xBF::nat)"
  by simp_all

lemma char_decode:
  assumes "UTF8_char_validate data = Some n"
  shows "\<exists>cp. scalar_value cp \<and> utf8_encode cp = take n data"
proof (cases data)
  case Nil
  then show ?thesis using assms by (simp add: UTF8_char_validate_def)
next
  case (Cons a ds)
  note v = assms [unfolded Cons]
  consider "unat a < 128" | "128 \<le> unat a" "unat a < 224" | "224 \<le> unat a" "unat a < 240" | "240 \<le> unat a" by linarith
  then show ?thesis
  proof cases
    case 1
    then have "n = 1" "utf8_encode (unat a) = [a]" "scalar_value (unat a)"
      using v validate_1 [of a ds] by (simp_all add: utf8_encode_def scalar_value_def)
    then show ?thesis using Cons by (intro exI [of _ "unat a"]) simp
  next
    case 2
    then obtain b r where b: "ds = b # r" "0xC2 \<le> unat a" "in_high 0x80 0xBF b" "n = 2"
      using v validate_2 [OF 2, of ds] by (auto split: list.splits if_splits)
    obtain y where y: "b = of_nat (0x80 + y)" "y < 64" using high_offset [OF b(3)] by auto
    define x where "x = unat a - 0xC0"
    have x: "a = of_nat (0xC0 + x)" "x < 0x20" "2 \<le> x" using 2 b(2) by (auto simp: x_def intro: of_nat_is [symmetric])
    then show ?thesis
      using y b Cons encode_2 [of x y] by (intro exI [of _ "x * 64 + y"]) (simp add: scalar_value_def numeral_2_eq_2)
  next
    case 3
    then obtain b c r where b: "ds = b # c # r" "n = 3" "in_high 0x80 0xBF c"
        "in_high (if unat a = 0xE0 then 0xA0 else 0x80) (if unat a = 0xED then 0x9F else 0xBF) b"
      using v validate_3 [OF 3, of ds] by (auto split: list.splits if_splits)
    obtain y where y: "b = of_nat (0x80 + y)" "unat b = 0x80 + y" "y < 64" using high_offset [OF b(4) high_if(1,3)] by blast
    obtain z where z: "c = of_nat (0x80 + z)" "z < 64" using high_offset [OF b(3)] by auto
    define x where "x = unat a - 0xE0"
    have x: "a = of_nat (0xE0 + x)" "x < 16" using 3 by (auto simp: x_def intro: of_nat_is [symmetric])
    have lim: "x = 0 \<Longrightarrow> 0x20 \<le> y" "x = 13 \<Longrightarrow> y < 0x20"
      using b(4) y(2) 3 by (auto simp: in_high_def x_def split: if_splits)
    have "scalar_value ((x * 64 + y) * 64 + z)"
    proof (cases "x < 13")
      case True
      then show ?thesis using y(3) z(2) by (simp add: scalar_value_def)
    next
      case False
      then show ?thesis using lim(2) x(2) y(3) z(2) by (cases "x = 13") (auto simp: scalar_value_def)
    qed
    moreover have "take 3 data = [a, b, c]" by (simp add: Cons b(1) numeral_3_eq_3)
    ultimately show ?thesis using encode_3 [OF x(2) y(3) z(2) lim(1)] x(1) y(1) z(1) b(2) by metis
  next
    case 4
    then obtain b c d r where b: "ds = b # c # d # r" "n = 4" "in_high 0x80 0xBF c" "in_high 0x80 0xBF d" "unat a \<le> 0xF4"
        "in_high (if unat a = 0xF0 then 0x90 else 0x80) (if unat a = 0xF4 then 0x8F else 0xBF) b"
      using v validate_4 [OF 4, of ds] by (auto split: list.splits if_splits)
    obtain y where y: "b = of_nat (0x80 + y)" "unat b = 0x80 + y" "y < 64" using high_offset [OF b(6) high_if(2,4)] by blast
    obtain z where z: "c = of_nat (0x80 + z)" "z < 64" using high_offset [OF b(3)] by auto
    obtain u where u: "d = of_nat (0x80 + u)" "u < 64" using high_offset [OF b(4)] by auto
    define x where "x = unat a - 0xF0"
    have x: "a = of_nat (0xF0 + x)" "x < 8" "x \<le> 4" using 4 b(5) by (auto simp: x_def intro: of_nat_is [symmetric])
    have lim: "x = 0 \<Longrightarrow> 0x10 \<le> y" "x = 4 \<Longrightarrow> y < 0x10"
      using b(6) y(2) 4 by (auto simp: in_high_def x_def split: if_splits)
    have "scalar_value (((x * 64 + y) * 64 + z) * 64 + u)"
      using lim x(3) y(3) z(2) u(2) by (cases "x = 0"; cases "x = 4") (auto simp: scalar_value_def)
    moreover have "take 4 data = [a, b, c, d]" by (simp add: Cons b(1) numeral_eq_Suc)
    ultimately show ?thesis using encode_4 [OF x(2) y(3) z(2) u(2) lim(1)] x(1) y(1) z(1) u(1) b(2) by metis
  qed
qed

lemma char_encode:
  assumes "scalar_value cp"
  shows "UTF8_char_validate (utf8_encode cp @ rest) = Some (length (utf8_encode cp))"
proof -
  consider "cp < 0x80" | "0x80 \<le> cp" "cp < 0x800" | "0x800 \<le> cp" "cp < 0x10000" | "0x10000 \<le> cp" by linarith
  then show ?thesis
  proof cases
    case 1
    then show ?thesis using validate_1 [of "of_nat cp" rest] by (simp add: utf8_encode_def unat_of_nat_less)
  next
    case 2
    define a b where "a = cp div 64" and "b = cp mod 64"
    have cp: "cp = a * 64 + b" "b < 64" by (simp_all add: a_def b_def)
    then have a: "2 \<le> a" "a < 0x20" using 2 by linarith+
    show ?thesis
      unfolding cp(1) encode_2 [OF a(2,1) cp(2)]
      using a cp(2) validate_2 [of "of_nat (0xC0 + a)"]
      by (simp add: unat_of_nat_less in_high_def del: of_nat_add)
  next
    case 3
    define a b c where "a = cp div 64 div 64" and "b = cp div 64 mod 64" and "c = cp mod 64"
    have cp: "cp = (a * 64 + b) * 64 + c" "b < 64" "c < 64" by (simp_all add: a_def b_def c_def)
    have a: "a < 16" using cp 3 by (simp add: add_mult_distrib)
    have a0: "a = 0 \<Longrightarrow> 0x20 \<le> b" using cp 3 by simp
    have s: "a = 13 \<Longrightarrow> b < 0x20" using assms cp by (auto simp: scalar_value_def)
    have e: "utf8_encode cp = [of_nat (0xE0 + a), of_nat (0x80 + b), of_nat (0x80 + c)]"
      unfolding cp(1) by (rule encode_3 [OF a cp(2,3) a0])
    show ?thesis
      unfolding e
      using a a0 s cp(2,3) validate_3 [of "of_nat (0xE0 + a)"]
      by (auto simp add: unat_of_nat_less in_high_def simp del: of_nat_add)
  next
    case 4
    define a b c d where "a = cp div 64 div 64 div 64" and "b = cp div 64 div 64 mod 64"
      and "c = cp div 64 mod 64" and "d = cp mod 64"
    have cp: "cp = ((a * 64 + b) * 64 + c) * 64 + d" "b < 64" "c < 64" "d < 64"
      by (simp_all add: a_def b_def c_def d_def)
    have u: "cp < 0x110000" using assms 4 by (auto simp: scalar_value_def)
    then have a: "a < 8" "a \<le> 4" using cp 4 by (simp_all add: add_mult_distrib)
    have a0: "a = 0 \<Longrightarrow> 0x10 \<le> b" "a = 4 \<Longrightarrow> b < 0x10" using cp 4 u by simp_all
    have e: "utf8_encode cp = [of_nat (0xF0 + a), of_nat (0x80 + b), of_nat (0x80 + c), of_nat (0x80 + d)]"
      unfolding cp(1) by (rule encode_4 [OF a(1) cp(2-4) a0(1)])
    show ?thesis
      unfolding e
      using a a0 cp(2-4) validate_4 [of "of_nat (0xF0 + a)"]
      by (auto simp add: unat_of_nat_less in_high_def simp del: of_nat_add)
  qed
qed

lemma utf8_encode_ne: "utf8_encode cp \<noteq> []"
  by (simp add: utf8_encode_def)

lemma validate_loop_encoded:
  "data \<noteq> [] \<Longrightarrow> validate_loop data \<Longrightarrow> \<exists>cps. (\<forall>cp \<in> set cps. scalar_value cp) \<and> data = concat (map utf8_encode cps)"
proof (induction data rule: validate_loop.induct)
  case (1 data)
  obtain n where n: "UTF8_char_validate data = Some n"
    using 1(3) by (subst (asm) validate_loop.simps) (auto split: option.splits)
  obtain cp where cp: "scalar_value cp" "utf8_encode cp = take n data" using char_decode [OF n] by blast
  show ?case
  proof (cases "n < length data")
    case True
    then have "validate_loop (drop n data)" using 1(3) n by (subst (asm) validate_loop.simps) simp
    then obtain cps where "\<forall>cp \<in> set cps. scalar_value cp" "drop n data = concat (map utf8_encode cps)"
      using 1(1) [OF n True] True by auto
    then show ?thesis using cp by (intro exI [of _ "cp # cps"]) (metis append_take_drop_id concat.simps(2) list.simps(9) set_ConsD)
  next
    case False
    then show ?thesis using cp by (intro exI [of _ "[cp]"]) simp
  qed
qed

lemma encoded_validate_loop:
  "cps \<noteq> [] \<Longrightarrow> \<forall>cp \<in> set cps. scalar_value cp \<Longrightarrow> validate_loop (concat (map utf8_encode cps))"
proof (induction cps)
  case (Cons cp cps)
  show ?case
    using Cons char_encode [of cp "concat (map utf8_encode cps)"]
    by (cases cps) (simp_all add: validate_loop.simps [of "utf8_encode _ @ _"] validate_loop.simps [of "utf8_encode cp"] utf8_encode_ne)
qed simp

section \<open>Properties\<close>

text \<open>C28. \<open>MQTT_UTF8_validate\<close> accepts a string exactly when it is the UTF-8 encoding, as RFC 3629 defines it,
  of a sequence of Unicode scalar values: no overlong forms, no surrogates, nothing above \<open>U+10FFFF\<close> and
  no character that is cut off.\<close>

theorem utf8_validate_rfc3629:
  "MQTT_UTF8_validate (Ptr data)
    \<longleftrightarrow> (\<exists>cps. list_all scalar_value cps \<and> data = concat (map utf8_encode cps))"
proof (cases "data = []")
  case True
  then show ?thesis by (auto simp: MQTT_UTF8_validate_def intro: exI [of _ "[]"])
next
  case False
  have "cps \<noteq> []" if "data = concat (map utf8_encode cps)" for cps using False that by auto
  then show ?thesis
    using False validate_loop_encoded [OF False] encoded_validate_loop
    by (auto simp: MQTT_UTF8_validate_def list_all_iff)
qed

end
