(* ===== verification/ProtocolClient.thy ===== *)
theory ProtocolClient
  imports Packet
begin

text \<open>
  \<open>MqttC/MQTTProtocolClient.c\<close>: the flows of the MQTT protocol. Starting to publish, handling
  \<open>PUBLISH\<close>, \<open>PUBACK\<close>, \<open>PUBREC\<close>, \<open>PUBREL\<close> and \<open>PUBCOMP\<close> packets, keeping the connection alive,
  repeating packets that have not been acknowledged and sending queued acknowledgements.

  The protocol calls back the layer above it for a publication that has arrived and for a session
  that has to be closed; these two functions are the argument \<open>app\<close>. A client is the position of
  its structure in \<open>bstate->clients\<close>. A message received has no time of its last use; it is 0 here.
\<close>

record 'w application =
  process_publication :: "publish_packet \<Rightarrow> nat \<Rightarrow> bool \<Rightarrow> 'w \<Rightarrow> 'w option"
  close_session :: "nat \<Rightarrow> 'w \<Rightarrow> 'w option"

text \<open>Sending on the network handles of a client.\<close>

definition send_on ::
    "nat \<Rightarrow> (nethandles \<Rightarrow> 'z protocol_scheme \<Rightarrow> (int \<times> nethandles \<times> 'z protocol_scheme) option)
     \<Rightarrow> 'z protocol_scheme \<Rightarrow> (int \<times> 'z protocol_scheme) option" where
  "send_on k f w =
     map_option (\<lambda>(rc, net, w1). (rc, upd_client k (\<lambda>c. c\<lparr>c_net := net\<rparr>) w1)) (f (c_net (client_at k w)) w)"

text \<open>\<open>ListRemove\<close> of the content at a position, and an assignment to the content there.\<close>

definition l_remove_at :: "nat \<Rightarrow> 'a clist \<Rightarrow> 'a clist" where
  "l_remove_at i l =
     \<lparr>items = drop_nth i (items l), cur_pos = pos_after_removal (length (items l)) i (cur_pos l)\<rparr>"

definition l_update :: "nat \<Rightarrow> ('a \<Rightarrow> 'a) \<Rightarrow> 'a clist \<Rightarrow> 'a clist" where
  "l_update i f l = l\<lparr>items := (items l)[i := f (items l ! i)]\<rparr>"

section \<open>Publishing\<close>

definition MQTTProtocol_storeQoS0 ::
    "nat \<Rightarrow> publish_packet \<Rightarrow> 'z protocol_scheme \<Rightarrow> (publish_packet \<times> 'z protocol_scheme) option" where
  "MQTTProtocol_storeQoS0 k publish w = do {
     (p, publish1, w1) \<leftarrow> MQTTProtocol_storePublication publish w;
     let s = socket (c_net (client_at k w1));
     let w2 = w1\<lparr>pending_writes := l_append (pending_writes w1) (s, p)\<rparr>;
     let bytes_of = (\<lambda>x. case x of NULL \<Rightarrow> [] | Ptr b \<Rightarrow> b);
     let w3 = snd (SocketBuffer_updateWrite s (bytes_of (pu_topic publish)) (bytes_of (pu_payload publish)) w2);
     Some (publish1, w3) }"

definition MQTTProtocol_startPublishCommon ::
    "'z protocol_scheme persist_api \<Rightarrow> nat \<Rightarrow> publish_packet \<Rightarrow> nat \<Rightarrow> bool \<Rightarrow> 'z protocol_scheme
     \<Rightarrow> (int \<times> publish_packet \<times> 'z protocol_scheme) option" where
  "MQTTProtocol_startPublishCommon per k publish qos retained w = do {
     (rc, publish1, net, w1) \<leftarrow> MQTTPacket_send_publish per publish False qos retained (c_net (client_at k w)) w;
     let w2 = upd_client k (\<lambda>c. c\<lparr>c_net := net\<rparr>) w1;
     if qos = 0 \<and> rc = TCPSOCKET_INTERRUPTED
     then map_option (\<lambda>(publish2, w3). (rc, publish2, w3)) (MQTTProtocol_storeQoS0 k publish1 w2)
     else Some (rc, publish1, w2) }"

text \<open>What a send leaves in a stored publication: the mask, and the masked bytes.\<close>

definition save_masked :: "nat \<Rightarrow> publish_packet \<Rightarrow> 'z protocol_scheme \<Rightarrow> 'z protocol_scheme" where
  "save_masked p publish w =
     w\<lparr>pub_heap := (pub_heap w)(p := map_option (\<lambda>pb. pb\<lparr>pb_topic := pu_topic publish,
          pb_payload := pu_payload publish, pbl_mask := pu_mask publish\<rparr>) (pub_heap w p))\<rparr>"

text \<open>
  The result is the code, the packet of the caller, whose pointers a message takes over, and the
  message with QoS 1 or 2, which is the last one of \<open>outboundMsgs\<close>; \<open>old\<close> is the publication of the
  message that is passed in.
\<close>

definition MQTTProtocol_startPublish ::
    "'z protocol_scheme persist_api \<Rightarrow> nat \<Rightarrow> publish_packet \<Rightarrow> nat \<Rightarrow> bool \<Rightarrow> nat cptr \<Rightarrow> 'z protocol_scheme
     \<Rightarrow> (int \<times> publish_packet \<times> message option \<times> 'z protocol_scheme) option" where
  "MQTTProtocol_startPublish per k publish qos retained old w =
     (if qos > 0
      then do {
        (m, publish1, w1) \<leftarrow> MQTTProtocol_createMessage publish old qos retained w;
        let w2 = upd_client k (\<lambda>c. c\<lparr>outboundMsgs := l_append (outboundMsgs c) m\<rparr>) w1;
        (case m_publish m of
           NULL \<Rightarrow> None
         | Ptr p \<Rightarrow> do {
             pb \<leftarrow> pub_heap w2 p;
             (rc, publish2, w3) \<leftarrow> MQTTProtocol_startPublishCommon per k
                (publish\<lparr>pu_topic := pb_topic pb, pu_payload := pb_payload pb, pu_properties := m_properties m,
                         pu_MQTTVersion := m_MQTTVersion m\<rparr>) qos retained w2;
             Some (rc, publish1, Some m, save_masked p publish2 w3) }) }
      else map_option (\<lambda>(rc, publish1, w1). (rc, publish1, None, w1))
             (MQTTProtocol_startPublishCommon per k publish qos retained w))"

section \<open>Incoming publications\<close>

text \<open>The acknowledgement is sent, or queued while a write is pending.\<close>

definition acknowledge ::
    "'z protocol_scheme persist_api \<Rightarrow> nat \<Rightarrow> bool \<Rightarrow> nat \<Rightarrow> int \<Rightarrow> int \<Rightarrow> 'z protocol_scheme
     \<Rightarrow> (int \<times> 'z protocol_scheme) option" where
  "acknowledge per k pending type MQTTVersion msgId w =
     (if pending then Some (MQTTProtocol_queueAck k type msgId w)
      else send_on k (MQTTPacket_send_ack per MQTTVersion type msgId False) w)"

text \<open>The message a \<open>PUBLISH\<close> with QoS 2 is kept as, and the packet it is delivered with.\<close>

definition inbound_message :: "publish_packet \<Rightarrow> nat \<Rightarrow> message" where
  "inbound_message publish p =
     \<lparr>m_qos = hdr_qos (pu_header publish), m_retain = hdr_retain (pu_header publish),
      m_msgid = pu_msgId publish, m_MQTTVersion = pu_MQTTVersion publish,
      m_properties = (if pu_MQTTVersion publish \<ge> MQTTVERSION_5
                      then MQTTProperties_copy (pu_properties publish) else MQTTProperties_initializer),
      m_publish = Ptr p, lastTouch = 0, nextMessageType = Some PUBREL\<rparr>"

definition message_publish :: "message \<Rightarrow> publication option \<Rightarrow> publish_packet" where
  "message_publish m pb =
     \<lparr>pu_header = mk_header 0 0 (int (m_qos m)) (of_bool (m_retain m)),
      pu_topic = (case pb of None \<Rightarrow> NULL | Some b \<Rightarrow> pb_topic b),
      pu_topiclen = (case pb of None \<Rightarrow> 0 | Some b \<Rightarrow> pb_topiclen b), pu_msgId = m_msgid m,
      pu_payload = (case pb of None \<Rightarrow> NULL | Some b \<Rightarrow> pb_payload b),
      pu_payloadlen = (case pb of None \<Rightarrow> 0 | Some b \<Rightarrow> pb_payloadlen b),
      pu_MQTTVersion = m_MQTTVersion m,
      pu_properties = (if m_MQTTVersion m \<ge> MQTTVERSION_5 then m_properties m else MQTTProperties_initializer),
      pu_mask = [0, 0, 0, 0]\<rparr>"

text \<open>
  Storing the message of a \<open>PUBLISH\<close> with QoS 2: a message with its identifier is replaced. The
  result is the position and whether the identifier was there.
\<close>

definition store_inbound ::
    "nat \<Rightarrow> message \<Rightarrow> 'z protocol_scheme \<Rightarrow> (nat \<times> bool \<times> 'z protocol_scheme) option" where
  "store_inbound k m w =
     (case l_find (inboundMsgs (client_at k w)) (messageIDCompare (m_msgid m)) of
        (Some i, msgs) \<Rightarrow> do {
          w1 \<leftarrow> MQTTProtocol_removePublication (m_publish (items msgs ! i)) w;
          Some (i, True, upd_client k (\<lambda>c. c\<lparr>inboundMsgs := l_remove_at (Suc i) (l_insert msgs m (Some i))\<rparr>) w1) }
      | (None, msgs) \<Rightarrow>
          Some (length (items msgs), False, upd_client k (\<lambda>c. c\<lparr>inboundMsgs := l_append msgs m\<rparr>) w))"

text \<open>\<open>ListRemove\<close> of a stored publication, without its topic and payload.\<close>

definition drop_publication :: "nat \<Rightarrow> 'z protocol_scheme \<Rightarrow> 'z protocol_scheme" where
  "drop_publication p w =
     w\<lparr>pub_heap := (pub_heap w)(p := None), publications := snd (l_unlink (publications w) ((=) p))\<rparr>"

text \<open>
  With version 5 a message is delivered when its \<open>PUBLISH\<close> arrives for the first time, before with
  its \<open>PUBREL\<close>.
\<close>

definition MQTTProtocol_handlePublishes ::
    "'z protocol_scheme persist_api \<Rightarrow> 'z protocol_scheme application \<Rightarrow> publish_packet \<Rightarrow> int
     \<Rightarrow> 'z protocol_scheme \<Rightarrow> (int \<times> 'z protocol_scheme) option" where
  "MQTTProtocol_handlePublishes per app publish sock w = do {
     (k, w0) \<leftarrow> find_client sock w;
     let qos = hdr_qos (pu_header publish);
     if qos = 0 then map_option (\<lambda>w1. (TCPSOCKET_COMPLETE, w1)) (process_publication app publish k True w0)
     else do {
       let (idle, w1) = Socket_noPendingWrites sock w0;
       if qos = 1 then do {
         w2 \<leftarrow> process_publication app publish k True w1;
         acknowledge per k (\<not> idle) PUBACK (pu_MQTTVersion publish) (pu_msgId publish) w2 }
       else if qos = 2 then do {
         (p, _, w2) \<leftarrow> MQTTProtocol_storePublication publish w1;
         let m = inbound_message publish p;
         (i, already_received, w3) \<leftarrow> store_inbound k m w2;
         w4 \<leftarrow> (if m_MQTTVersion m \<ge> MQTTVERSION_5 \<and> \<not> already_received
               then do {
                 w5 \<leftarrow> process_publication app (message_publish m (pub_heap w3 p)) k True w3;
                 Some (upd_client k (\<lambda>c. c\<lparr>inboundMsgs := l_update i (\<lambda>m. m\<lparr>m_publish := NULL\<rparr>) (inboundMsgs c)\<rparr>)
                         (drop_publication p w5)) }
               else Some w3);
         acknowledge per k (\<not> idle) PUBREC (pu_MQTTVersion publish) (pu_msgId publish) w4 }
       else Some (TCPSOCKET_COMPLETE, w1) } }"

section \<open>Acknowledgements of outgoing messages\<close>

text \<open>
  Ending the exchange of the message at a position: its publication is handed to the caller, or
  released when the caller does not want it.
\<close>

definition finish_outbound ::
    "'z protocol_scheme persist_api \<Rightarrow> nat \<Rightarrow> nat \<Rightarrow> bytes \<Rightarrow> bool \<Rightarrow> 'z protocol_scheme
     \<Rightarrow> (int \<times> nat cptr \<times> 'z protocol_scheme) option" where
  "finish_outbound per k i stem wantPub w = do {
     let m = items (outboundMsgs (client_at k w)) ! i;
     let (rc, w1) = MQTTPersistence_remove per k stem (m_msgid m) w;
     w2 \<leftarrow> (if wantPub then Some w1 else MQTTProtocol_removePublication (m_publish m) w1);
     Some (rc, if wantPub then m_publish m else NULL,
           upd_client k (\<lambda>c. c\<lparr>outboundMsgs := l_remove_at i (outboundMsgs c)\<rparr>) w2) }"

definition sent_stem :: "int \<Rightarrow> bytes" where
  "sent_stem MQTTVersion =
     (if MQTTVersion \<ge> MQTTVERSION_5 then PERSISTENCE_V5_PUBLISH_SENT else PERSISTENCE_PUBLISH_SENT)"

definition count_sent :: "'z protocol_scheme \<Rightarrow> 'z protocol_scheme" where
  "count_sent w = w\<lparr>msgs_sent := msgs_sent w + 1\<rparr>"

text \<open>
  \<open>wantPub\<close> says whether \<open>pubToRemove\<close> is not \<open>NULL\<close>; what is stored there is part of the result.
\<close>

definition MQTTProtocol_handlePubacks ::
    "'z protocol_scheme persist_api \<Rightarrow> ack_packet \<Rightarrow> int \<Rightarrow> bool \<Rightarrow> 'z protocol_scheme
     \<Rightarrow> (int \<times> nat cptr \<times> 'z protocol_scheme) option" where
  "MQTTProtocol_handlePubacks per puback sock wantPub w = do {
     (k, w0) \<leftarrow> find_client sock w;
     msgId \<leftarrow> ack_msgId puback;
     (case l_find (outboundMsgs (client_at k w0)) (messageIDCompare msgId) of
        (None, msgs) \<Rightarrow> Some (TCPSOCKET_COMPLETE, NULL, upd_client k (\<lambda>c. c\<lparr>outboundMsgs := msgs\<rparr>) w0)
      | (Some i, msgs) \<Rightarrow>
          let w1 = upd_client k (\<lambda>c. c\<lparr>outboundMsgs := msgs\<rparr>) w0; m = items msgs ! i
          in if m_qos m \<noteq> 1 then Some (TCPSOCKET_COMPLETE, NULL, w1)
             else finish_outbound per k i (sent_stem (m_MQTTVersion m)) wantPub w1) }"

text \<open>A \<open>PUBREC\<close> of version 5 with an error ends the exchange; otherwise a \<open>PUBREL\<close> is always sent.\<close>

definition MQTTProtocol_handlePubrecs ::
    "'z protocol_scheme persist_api \<Rightarrow> ack_packet \<Rightarrow> int \<Rightarrow> bool \<Rightarrow> 'z protocol_scheme
     \<Rightarrow> (int \<times> nat cptr \<times> 'z protocol_scheme) option" where
  "MQTTProtocol_handlePubrecs per pubrec sock wantPub w = do {
     (k, w0) \<leftarrow> find_client sock w;
     msgId \<leftarrow> ack_msgId pubrec;
     let (found, msgs) = l_find ((outboundMsgs (client_at k w0))\<lparr>cur_pos := None\<rparr>) (messageIDCompare msgId);
     let w1 = upd_client k (\<lambda>c. c\<lparr>outboundMsgs := msgs\<rparr>) w0;
     (rc, pub, send_pubrel, w2) \<leftarrow>
       (case found of
          None \<Rightarrow> Some (TCPSOCKET_COMPLETE, NULL, True, w1)
        | Some i \<Rightarrow>
            let m = items msgs ! i
            in if m_qos m \<noteq> 2 \<or> nextMessageType m \<noteq> Some PUBREC
               then Some (TCPSOCKET_COMPLETE, NULL, True, w1)
               else if ack_MQTTVersion pubrec \<ge> MQTTVERSION_5
                       \<and> (case ack_rc pubrec of None \<Rightarrow> False | Some r \<Rightarrow> unat r \<ge> 128)
               then map_option (\<lambda>(rc, pub, w2). (rc, pub, False, count_sent w2))
                      (finish_outbound per k i (sent_stem (ack_MQTTVersion pubrec)) wantPub w1)
               else Some (TCPSOCKET_COMPLETE, NULL, True,
                          upd_client k (\<lambda>c. c\<lparr>outboundMsgs := l_update i
                            (\<lambda>m. m\<lparr>nextMessageType := Some PUBCOMP, lastTouch := MQTTTime_now w1\<rparr>)
                            (outboundMsgs c)\<rparr>) w1));
     if \<not> send_pubrel then Some (rc, pub, w2)
     else (case Socket_noPendingWrites sock w2 of
             (idle, w3) \<Rightarrow>
               map_option (\<lambda>(rc, w4). (rc, pub, w4))
                 (acknowledge per k (\<not> idle) PUBREL (ack_MQTTVersion pubrec) msgId w3)) }"

definition MQTTProtocol_handlePubcomps ::
    "'z protocol_scheme persist_api \<Rightarrow> ack_packet \<Rightarrow> int \<Rightarrow> bool \<Rightarrow> 'z protocol_scheme
     \<Rightarrow> (int \<times> nat cptr \<times> 'z protocol_scheme) option" where
  "MQTTProtocol_handlePubcomps per pubcomp sock wantPub w = do {
     (k, w0) \<leftarrow> find_client sock w;
     msgId \<leftarrow> ack_msgId pubcomp;
     (case l_find (outboundMsgs (client_at k w0)) (messageIDCompare msgId) of
        (None, msgs) \<Rightarrow> Some (TCPSOCKET_COMPLETE, NULL, upd_client k (\<lambda>c. c\<lparr>outboundMsgs := msgs\<rparr>) w0)
      | (Some i, msgs) \<Rightarrow>
          let w1 = upd_client k (\<lambda>c. c\<lparr>outboundMsgs := msgs\<rparr>) w0; m = items msgs ! i
          in if m_qos m \<noteq> 2 \<or> nextMessageType m \<noteq> Some PUBCOMP then Some (TCPSOCKET_COMPLETE, NULL, w1)
             else map_option (\<lambda>(rc, pub, w2). (rc, pub, count_sent w2))
                    (finish_outbound per k i (sent_stem (m_MQTTVersion m)) wantPub w1)) }"

text \<open>
  A \<open>PUBREL\<close> delivers the message before version 5 and ends the exchange; a \<open>PUBCOMP\<close> is always sent,
  and its result replaces that of the store.
\<close>

definition MQTTProtocol_handlePubrels ::
    "'z protocol_scheme persist_api \<Rightarrow> 'z protocol_scheme application \<Rightarrow> ack_packet \<Rightarrow> int
     \<Rightarrow> 'z protocol_scheme \<Rightarrow> (int \<times> 'z protocol_scheme) option" where
  "MQTTProtocol_handlePubrels per app pubrel sock w = do {
     (k, w0) \<leftarrow> find_client sock w;
     msgId \<leftarrow> ack_msgId pubrel;
     let (found, msgs) = l_find (inboundMsgs (client_at k w0)) (messageIDCompare msgId);
     let w1 = upd_client k (\<lambda>c. c\<lparr>inboundMsgs := msgs\<rparr>) w0;
     w2 \<leftarrow>
       (case found of
          None \<Rightarrow> Some w1
        | Some i \<Rightarrow>
            let m = items msgs ! i
            in if m_qos m \<noteq> 2 \<or> nextMessageType m \<noteq> Some PUBREL then Some w1
               else do {
                 pb \<leftarrow> (case m_publish m of NULL \<Rightarrow> Some None | Ptr p \<Rightarrow> map_option Some (pub_heap w1 p));
                 w3 \<leftarrow> (if m_MQTTVersion m \<ge> MQTTVERSION_5 then Some w1
                       else process_publication app (message_publish m pb) k False w1);
                 let w4 = snd (MQTTPersistence_remove per k
                                (if m_MQTTVersion m \<ge> MQTTVERSION_5 then PERSISTENCE_V5_PUBLISH_RECEIVED
                                 else PERSISTENCE_PUBLISH_RECEIVED) msgId w3);
                 let w5 = (case m_publish m of NULL \<Rightarrow> w4 | Ptr p \<Rightarrow> drop_publication p w4);
                 Some (upd_client k (\<lambda>c. c\<lparr>inboundMsgs := l_remove_at i (inboundMsgs c)\<rparr>)
                         (w5\<lparr>msgs_received := msgs_received w5 + 1\<rparr>)) });
     let (idle, w6) = Socket_noPendingWrites sock w2;
     acknowledge per k (\<not> idle) PUBCOMP (ack_MQTTVersion pubrel) msgId w6 }"

section \<open>Keeping the connection alive\<close>

definition try_ping ::
    "'z protocol_scheme persist_api \<Rightarrow> 'z protocol_scheme application \<Rightarrow> int \<Rightarrow> nat \<Rightarrow> 'z protocol_scheme
     \<Rightarrow> 'z protocol_scheme option" where
  "try_ping per app now k w = do {
     (rc, w1) \<leftarrow> send_on k (MQTTPacket_send_pingreq per) w;
     if rc \<noteq> TCPSOCKET_COMPLETE then close_session app k w1
     else Some (upd_client k (\<lambda>c. c\<lparr>ping_due := False, c_net := (c_net c)\<lparr>lastPing := now\<rparr>,
                                   ping_outstanding := True\<rparr>) w1) }"

definition keepalive_client ::
    "'z protocol_scheme persist_api \<Rightarrow> 'z protocol_scheme application \<Rightarrow> int \<Rightarrow> nat \<Rightarrow> 'z protocol_scheme
     \<Rightarrow> 'z protocol_scheme option" where
  "keepalive_client per app now k w =
     (let c = client_at k w; n = c_net c; interval = keepAliveInterval c
      in if \<not> connected c \<or> interval = 0 then Some w
         else if ping_outstanding c
         then (if MQTTTime_difftime now (lastPing n) \<ge> interval * 1500
                  \<and> MQTTTime_difftime now (lastReceived n) \<ge> interval * 1500
               then close_session app k w else Some w)
         else if ping_due c \<and> MQTTTime_difftime now (ping_due_time c) \<ge> interval * 1500
         then (if MQTTTime_difftime now (ping_due_time c) \<le> MQTTTime_difftime now (lastReceived n)
               then close_session app k w else Some w)
         else if MQTTTime_difftime now (lastSent n) \<ge> interval * 1000
         then (case Socket_noPendingWrites (socket n) w of
                 (idle, w1) \<Rightarrow>
                   if idle then try_ping per app now k w1
                   else if \<not> ping_due c
                   then Some (upd_client k (\<lambda>c. c\<lparr>ping_due := True, ping_due_time := now\<rparr>) w1)
                   else Some w1)
         else if MQTTTime_difftime now (lastReceived n) \<ge> interval * 1000
         then (case Socket_noPendingWrites (socket n) w of
                 (idle, w1) \<Rightarrow> if idle then try_ping per app now k w1 else Some w1)
         else Some w)"

text \<open>The loops over the clients.\<close>

fun for_clients :: "(nat \<Rightarrow> 'w \<Rightarrow> 'w option) \<Rightarrow> nat list \<Rightarrow> 'w \<Rightarrow> 'w option" where
  "for_clients f [] w = Some w"
| "for_clients f (k # ks) w = do { w1 \<leftarrow> f k w; for_clients f ks w1 }"

definition MQTTProtocol_keepalive ::
    "'z protocol_scheme persist_api \<Rightarrow> 'z protocol_scheme application \<Rightarrow> int \<Rightarrow> 'z protocol_scheme
     \<Rightarrow> 'z protocol_scheme option" where
  "MQTTProtocol_keepalive per app now w =
     for_clients (keepalive_client per app now) [0..<length (items (clients w))] w"

section \<open>Repeating packets\<close>

text \<open>
  Repeating the message at a position; \<open>None\<close> in the second component ends the loop because the
  session has been closed.
\<close>

definition retry_message ::
    "'z protocol_scheme persist_api \<Rightarrow> 'z protocol_scheme application \<Rightarrow> nat \<Rightarrow> nat \<Rightarrow> 'z protocol_scheme
     \<Rightarrow> (bool \<times> 'z protocol_scheme) option" where
  "retry_message per app k i w =
     (let m = items (outboundMsgs (client_at k w)) ! i;
          touch = (\<lambda>w. upd_client k (\<lambda>c. c\<lparr>outboundMsgs :=
                      l_update i (\<lambda>m. m\<lparr>lastTouch := MQTTTime_now w\<rparr>) (outboundMsgs c)\<rparr>) w);
          fail = (\<lambda>w. map_option (\<lambda>w1. (False, w1)) (close_session app k (upd_client k (\<lambda>c. c\<lparr>good := False\<rparr>) w)))
      in if m_qos m = 1 \<or> m_qos m = 2 \<and> nextMessageType m = Some PUBREC
         then (case m_publish m of
                 NULL \<Rightarrow> None
               | Ptr p \<Rightarrow> do {
                   pb \<leftarrow> pub_heap w p;
                   (rc, publish, net, w1) \<leftarrow> MQTTPacket_send_publish per
                      ((message_publish m (Some pb))\<lparr>pu_properties := m_properties m, pu_mask := pbl_mask pb\<rparr>)
                      True (m_qos m) (m_retain m) (c_net (client_at k w)) w;
                   let w2 = save_masked p publish (upd_client k (\<lambda>c. c\<lparr>c_net := net\<rparr>) w1);
                   if rc = SOCKET_ERROR then fail w2 else Some (True, touch w2) })
         else if m_qos m \<noteq> 0 \<and> nextMessageType m = Some PUBCOMP
         then do {
           (rc, w1) \<leftarrow> send_on k (MQTTPacket_send_pubrel per (m_MQTTVersion m) (m_msgid m) False) w;
           if rc \<noteq> TCPSOCKET_COMPLETE then fail w1 else Some (True, touch w1) }
         else Some (True, w))"

fun retries_loop ::
    "'z protocol_scheme persist_api \<Rightarrow> 'z protocol_scheme application \<Rightarrow> int \<Rightarrow> nat \<Rightarrow> bool \<Rightarrow> nat list
     \<Rightarrow> 'z protocol_scheme \<Rightarrow> 'z protocol_scheme option" where
  "retries_loop per app now k regardless [] w = Some w"
| "retries_loop per app now k regardless (i # is) w =
     (let c = client_at k w
      in if \<not> connected c \<or> \<not> good c then Some w
         else case Socket_noPendingWrites (socket (c_net c)) w of
           (idle, w1) \<Rightarrow>
             if \<not> idle then Some w1
             else if regardless \<or> MQTTTime_difftime now (lastTouch (items (outboundMsgs c) ! i))
                                    > max (retryInterval c) 10 * 1000
             then do {
               let w2 = (if regardless then upd_client k (\<lambda>c. c\<lparr>connect_sent := connect_sent c + 1\<rparr>) w1 else w1);
               (goes_on, w3) \<leftarrow> retry_message per app k i w2;
               if goes_on then retries_loop per app now k regardless is w3 else Some w3 }
             else retries_loop per app now k regardless is w1)"

definition MQTTProtocol_retries ::
    "'z protocol_scheme persist_api \<Rightarrow> 'z protocol_scheme application \<Rightarrow> int \<Rightarrow> nat \<Rightarrow> bool \<Rightarrow> 'z protocol_scheme
     \<Rightarrow> 'z protocol_scheme option" where
  "MQTTProtocol_retries per app now k regardless w =
     (let c = client_at k w; n = length (items (outboundMsgs c))
      in if \<not> regardless \<and> retryInterval c \<le> 0 \<and> connect_sent c = connect_count c then Some w
         else retries_loop per app now k (regardless \<or> connect_sent c < connect_count c) [0..<n]
                (if regardless then upd_client k (\<lambda>c. c\<lparr>connect_count := int n\<rparr>) w else w))"

definition retry_client ::
    "'z protocol_scheme persist_api \<Rightarrow> 'z protocol_scheme application \<Rightarrow> int \<Rightarrow> bool \<Rightarrow> bool \<Rightarrow> nat
     \<Rightarrow> 'z protocol_scheme \<Rightarrow> 'z protocol_scheme option" where
  "retry_client per app now doRetry regardless k w =
     (let c = client_at k w
      in if \<not> connected c then Some w
         else if \<not> good c then close_session app k w
         else case Socket_noPendingWrites (socket (c_net c)) w of
           (idle, w1) \<Rightarrow>
             if idle \<and> doRetry then MQTTProtocol_retries per app now k regardless w1 else Some w1)"

definition MQTTProtocol_retry ::
    "'z protocol_scheme persist_api \<Rightarrow> 'z protocol_scheme application \<Rightarrow> int \<Rightarrow> bool \<Rightarrow> bool \<Rightarrow> 'z protocol_scheme
     \<Rightarrow> 'z protocol_scheme option" where
  "MQTTProtocol_retry per app now doRetry regardless w =
     for_clients (retry_client per app now doRetry regardless) [0..<length (items (clients w))] w"

section \<open>Queued acknowledgements and the end of a client\<close>

text \<open>The loop ends after the first acknowledgement that is not sent completely.\<close>

fun send_acks ::
    "'z protocol_scheme persist_api \<Rightarrow> nat \<Rightarrow> ack_request list \<Rightarrow> 'z protocol_scheme
     \<Rightarrow> (int \<times> 'z protocol_scheme) option" where
  "send_acks per k [] w = Some (0, w)"
| "send_acks per k (a # as) w = do {
     (rc, w1) \<leftarrow> (if ackType a \<in> {PUBACK, PUBREC, PUBREL, PUBCOMP}
                 then send_on k (MQTTPacket_send_ack per (c_MQTTVersion (client_at k w)) (ackType a) (messageId a) False) w
                 else Some (0, w));
     if rc = 0 then send_acks per k as w1 else Some (rc, w1) }"

definition MQTTProtocol_writeAvailable ::
    "'z protocol_scheme persist_api \<Rightarrow> int \<Rightarrow> 'z protocol_scheme \<Rightarrow> 'z protocol_scheme option" where
  "MQTTProtocol_writeAvailable per sock w = do {
     (k, w0) \<leftarrow> find_client sock w;
     (rc, w1) \<leftarrow> send_acks per k (items (outboundQueue (client_at k w0))) w0;
     Some (upd_client k (\<lambda>c. c\<lparr>outboundQueue := l_empty\<rparr>) w1) }"

definition MQTTProtocol_freeClient :: "nat \<Rightarrow> 'z protocol_scheme \<Rightarrow> 'z protocol_scheme option" where
  "MQTTProtocol_freeClient k w = do {
     w1 \<leftarrow> MQTTProtocol_freeMessageList (outboundMsgs (client_at k w)) w;
     w2 \<leftarrow> MQTTProtocol_freeMessageList (inboundMsgs (client_at k w)) w1;
     Some (upd_client k (\<lambda>c. c\<lparr>outboundMsgs := l_empty, inboundMsgs := l_empty, messageQueue := l_empty,
             outboundQueue := l_empty, clientID := [], c_will := NULL, username := NULL, password := NULL,
             httpProxy := NULL, httpsProxy := NULL\<rparr>) w2) }"

section \<open>Strings\<close>

text \<open>The string that \<open>dest\<close> holds; a destination of size 0 is overrun.\<close>

definition MQTTStrncpy :: "bytes \<Rightarrow> nat \<Rightarrow> bytes option" where
  "MQTTStrncpy src dest_size = (if dest_size = 0 then None else Some (take (dest_size - 1) (cstr src)))"

definition MQTTStrdup :: "bytes \<Rightarrow> bytes option" where
  "MQTTStrdup src = MQTTStrncpy src (strlen src + 1)"

end
