(* ===== verification/ProtocolFlows.thy ===== *)
theory ProtocolFlows
  imports PacketWire ProtocolClient "HOL-Library.Multiset"
begin

text \<open>
  The flows of \<open>MqttC/MQTTProtocolClient.c\<close> keep the protocol state consistent: the stored publications
  are referred to exactly once, the messages of a client are in the states their QoS allows, and no
  handler of an incoming packet goes wrong. What the layer above promises the protocol is the locale
  \<open>protocol_layer\<close>.
\<close>

section \<open>Updates of clients\<close>

lemma clients_upd_client [simp]:
  "items (clients (upd_client k f w)) = (items (clients w))[k := f (client_at k w)]"
  "cur_ok (clients (upd_client k f w)) = cur_ok (clients w)"
  "length (items (clients (upd_client k f w))) = length (items (clients w))"
  by (simp_all add: upd_client_def cur_ok_def)

lemma client_at_upd_client [simp]:
  "k < length (items (clients w)) \<Longrightarrow> client_at k (upd_client k f w) = f (client_at k w)"
  "j \<noteq> k \<Longrightarrow> client_at j (upd_client k f w) = client_at j w"
  by (simp_all add: client_at_def upd_client_def)

lemma upd_client_fields [simp]:
  "pub_heap (upd_client k f w) = pub_heap w" "next_pub (upd_client k f w) = next_pub w"
  "publications (upd_client k f w) = publications w" "pending_writes (upd_client k f w) = pending_writes w"
  "msgs_received (upd_client k f w) = msgs_received w" "msgs_sent (upd_client k f w) = msgs_sent w"
  "clock (upd_client k f w) = clock w" "tx (upd_client k f w) = tx w" "pwrites (upd_client k f w) = pwrites w"
  "protocol.more (upd_client k f w) = protocol.more w"
  by (simp_all add: upd_client_def)

lemma client_at_pub_updates [simp]:
  "client_at k (w\<lparr>pub_heap := h\<rparr>) = client_at k w" "client_at k (w\<lparr>next_pub := n\<rparr>) = client_at k w"
  "client_at k (w\<lparr>publications := l\<rparr>) = client_at k w" "client_at k (w\<lparr>pending_writes := pw\<rparr>) = client_at k w"
  "client_at k (w\<lparr>msgs_received := r\<rparr>) = client_at k w" "client_at k (w\<lparr>msgs_sent := s\<rparr>) = client_at k w"
  by (simp_all add: client_at_def)

section \<open>References to stored publications\<close>

fun ptr_refs :: "nat cptr \<Rightarrow> nat multiset" where
  "ptr_refs NULL = {#}"
| "ptr_refs (Ptr p) = {#p#}"

definition refs_of :: "message list \<Rightarrow> nat multiset" where
  "refs_of ms = (\<Sum>m\<leftarrow>ms. ptr_refs (m_publish m))"

definition client_refs :: "client \<Rightarrow> nat multiset" where
  "client_refs c = refs_of (items (inboundMsgs c)) + refs_of (items (outboundMsgs c))"

definition all_refs :: "'z protocol_scheme \<Rightarrow> nat multiset" where
  "all_refs w = (\<Sum>c\<leftarrow>items (clients w). client_refs c) + mset (map snd (items (pending_writes w)))"

text \<open>
  Every stored publication has one reference: in a message, in a pending write, or among \<open>E\<close>, which
  are held by the caller. What is stored and what is referred to are the same.
\<close>

definition pub_inv :: "nat multiset \<Rightarrow> 'z protocol_scheme \<Rightarrow> bool" where
  "pub_inv E w \<longleftrightarrow> cur_ok (publications w) \<and> distinct (items (publications w))
     \<and> mset (items (publications w)) = all_refs w + E
     \<and> (\<forall>p. (pub_heap w p \<noteq> None) = (p \<in> set (items (publications w))))
     \<and> (\<forall>p pb. pub_heap w p = Some pb \<longrightarrow> p < next_pub w \<and> refcount pb = 1)"

lemma refs_of_simps [simp]:
  "refs_of [] = {#}" "refs_of (m # ms) = ptr_refs (m_publish m) + refs_of ms"
  "refs_of (ms @ ns) = refs_of ms + refs_of ns"
  by (simp_all add: refs_of_def)

lemma refs_of_update:
  "i < length ms \<Longrightarrow> refs_of (ms[i := m]) + refs_of [ms ! i] = refs_of ms + refs_of [m]"
  by (induction ms arbitrary: i) (auto simp: nth_Cons' less_Suc_eq_0_disj split: nat.splits)

lemma refs_of_drop_nth: "i < length ms \<Longrightarrow> refs_of (drop_nth i ms) + refs_of [ms ! i] = refs_of ms"
proof -
  assume i: "i < length ms"
  have "refs_of ms = refs_of (take i ms @ ms ! i # drop (Suc i) ms)" using id_take_nth_drop [OF i] by simp
  then show ?thesis by (simp add: drop_nth_def ac_simps)
qed

lemma sum_refs_update:
  "k < length cs \<Longrightarrow> (\<Sum>c\<leftarrow>cs[k := c']. client_refs c) + client_refs (cs ! k) = (\<Sum>c\<leftarrow>cs. client_refs c) + client_refs c'"
proof (induction cs arbitrary: k)
  case (Cons c cs)
  then show ?case by (cases k) (simp_all add: ac_simps)
qed simp

lemma all_refs_upd_client:
  assumes "k < length (items (clients w))"
  shows "all_refs (upd_client k f w) + client_refs (client_at k w) = all_refs w + client_refs (f (client_at k w))"
  using sum_refs_update [OF assms, of "f (client_at k w)"]
  by (simp add: all_refs_def client_at_def ac_simps)

lemma all_refs_upd_same:
  assumes "client_refs (f (client_at k w)) = client_refs (client_at k w)"
  shows "all_refs (upd_client k f w) = all_refs w"
proof (cases "k < length (items (clients w))")
  case True
  then show ?thesis using all_refs_upd_client [OF True, of f] assms by simp
qed (simp add: all_refs_def list_update_beyond)

text \<open>What the references depend on.\<close>

lemma pub_inv_cong:
  assumes "pub_inv E w" "all_refs w' + E' = all_refs w + E" "pub_heap w' = pub_heap w" "next_pub w' = next_pub w"
    "publications w' = publications w"
  shows "pub_inv E' w'"
  using assms by (simp add: pub_inv_def)

text \<open>Taking over a packet.\<close>

lemma storePublication_inv:
  assumes "pub_inv E w" "pu_topic publish = Ptr topic"
  obtains p w' where
    "MQTTProtocol_storePublication publish w = Some (p, publish\<lparr>pu_topic := NULL, pu_payload := NULL\<rparr>, w')"
    "pub_inv (add_mset p E) w'" "pub_heap w p = None" "all_refs w' = all_refs w" "p \<notin># all_refs w"
    "w' = w\<lparr>pub_heap := (pub_heap w)(p \<mapsto>
        \<lparr>pb_topic = pu_topic publish, pb_topiclen = pu_topiclen publish, pb_payload = pu_payload publish,
         pb_payloadlen = pu_payloadlen publish, refcount = 1, pbl_mask = pu_mask publish\<rparr>),
        next_pub := p + 1, publications := l_append (publications w) p\<rparr>"
proof -
  define p where "p = next_pub w"
  have fresh: "pub_heap w p = None" "p \<notin> set (items (publications w))"
    using assms(1) unfolding pub_inv_def p_def by (metis less_irrefl not_None_eq)+
  then have nr: "p \<notin># all_refs w"
    using assms(1) unfolding pub_inv_def by (metis set_mset_mset union_iff)
  define w' where "w' = w\<lparr>pub_heap := (pub_heap w)(p \<mapsto>
        \<lparr>pb_topic = pu_topic publish, pb_topiclen = pu_topiclen publish, pb_payload = pu_payload publish,
         pb_payloadlen = pu_payloadlen publish, refcount = 1, pbl_mask = pu_mask publish\<rparr>),
        next_pub := p + 1, publications := l_append (publications w) p\<rparr>"
  have s: "MQTTProtocol_storePublication publish w = Some (p, publish\<lparr>pu_topic := NULL, pu_payload := NULL\<rparr>, w')"
    by (simp add: MQTTProtocol_storePublication_def assms(2) Let_def p_def w'_def)
  have r: "all_refs w' = all_refs w" by (simp add: all_refs_def w'_def)
  have "pub_inv (add_mset p E) w'"
    using assms(1) fresh unfolding pub_inv_def r
    by (auto simp: w'_def l_append_def cur_ok_def less_Suc_eq p_def split: option.splits)
  with s fresh(1) r nr show thesis using that w'_def by blast
qed

text \<open>Dropping the only reference.\<close>

lemma unlink_inv:
  assumes "pub_inv (add_mset p E) w" "w' = w\<lparr>pub_heap := (pub_heap w)(p := None),
      publications := snd (l_unlink (publications w) ((=) p))\<rparr>"
  shows "pub_inv E w'" "p \<notin># all_refs w" "p \<notin># E"
proof -
  let ?l = "publications w"
  have c: "cur_ok ?l" "distinct (items ?l)" "mset (items ?l) = all_refs w + add_mset p E"
      "\<forall>q. (pub_heap w q \<noteq> None) = (q \<in> set (items ?l))"
    using assms(1) by (simp_all add: pub_inv_def)
  have "p \<in># mset (items ?l)" using c(3) by simp
  then have p: "p \<in> set (items ?l)" by simp
  have "\<not> (\<forall>x \<in> set (items ?l). p \<noteq> x)" using p by blast
  then obtain i where i: "i < length (items ?l)" "p = items ?l ! i"
      "items (snd (l_unlink ?l ((=) p))) = drop_nth i (items ?l)" "cur_ok (snd (l_unlink ?l ((=) p)))"
    using l_unlink_cases [OF c(1), of "(=) p"] cur_ok_l_unlink [OF c(1), of "(=) p"] by metis
  have m: "mset (drop_nth i (items ?l)) + {#p#} = mset (items ?l)"
  proof -
    have "mset (items ?l) = mset (take i (items ?l) @ items ?l ! i # drop (Suc i) (items ?l))"
      using id_take_nth_drop [OF i(1)] by simp
    then show ?thesis by (simp add: drop_nth_def i(2))
  qed
  have d: "distinct (drop_nth i (items ?l))" using c(2) by (rule drop_nth_distinct)
  have n: "p \<notin> set (drop_nth i (items ?l))"
  proof
    assume "p \<in> set (drop_nth i (items ?l))"
    then have "count (mset (drop_nth i (items ?l))) p > 0" by simp
    then have "count (mset (items ?l)) p > 1" using m by (metis count_add_mset count_greater_zero_iff
        less_Suc_eq_0_disj add_mset_add_single not_less_eq One_nat_def zero_less_Suc)
    then show False using c(2) by (auto simp: distinct_count_atmost_1 split: if_splits)
  qed
  have set: "set (drop_nth i (items ?l)) = set (items ?l) - {p}"
  proof -
    have "set_mset (mset (drop_nth i (items ?l)) + {#p#}) = set_mset (mset (items ?l))" using m by simp
    then show ?thesis using n by auto
  qed
  have "mset (drop_nth i (items ?l)) = all_refs w + E" using m c(3) by simp
  moreover have "all_refs w' = all_refs w" by (simp add: all_refs_def assms(2))
  ultimately show "pub_inv E w'"
    using assms(1) d i(3,4) set unfolding pub_inv_def by (auto simp: assms(2))
  have "p \<notin># all_refs w + E" using n \<open>mset (drop_nth i (items ?l)) = all_refs w + E\<close> by (metis set_mset_mset)
  then show "p \<notin># all_refs w" "p \<notin># E" by simp_all
qed

lemma removePublication_inv:
  assumes "pub_inv (ptr_refs q + E) w"
  obtains w' where "MQTTProtocol_removePublication q w = Some w'" "pub_inv E w'" "all_refs w' = all_refs w"
    "w' = w\<lparr>pub_heap := pub_heap w', publications := publications w'\<rparr>"
    "\<And>p. p \<in># all_refs w + E \<Longrightarrow> pub_heap w' p = pub_heap w p"
proof (cases q)
  case NULL
  then show thesis
    using assms by (intro that [of w]) (simp_all add: MQTTProtocol_removePublication_def)
next
  case (Ptr p)
  then have i: "pub_inv (add_mset p E) w" using assms by simp
  have "p \<in># mset (items (publications w))" using i by (simp add: pub_inv_def)
  then obtain pb where pb: "pub_heap w p = Some pb" "refcount pb = 1"
    using i unfolding pub_inv_def by (metis not_None_eq set_mset_mset)
  define w' where "w' = w\<lparr>pub_heap := (pub_heap w)(p := None), publications := snd (l_unlink (publications w) ((=) p))\<rparr>"
  have "MQTTProtocol_removePublication q w = Some w'"
    by (simp add: MQTTProtocol_removePublication_def Ptr pb w'_def)
  moreover have "all_refs w' = all_refs w" by (simp add: all_refs_def w'_def)
  moreover have "pub_heap w' r = pub_heap w r" if "r \<in># all_refs w + E" for r
    using that unlink_inv(2,3) [OF i w'_def] by (auto simp: w'_def)
  moreover have "w' = w\<lparr>pub_heap := pub_heap w', publications := publications w'\<rparr>" by (simp add: w'_def)
  ultimately show thesis using that unlink_inv(1) [OF i w'_def] by blast
qed

section \<open>The messages of a client\<close>

text \<open>The client of a socket, found by every search.\<close>

definition client_of :: "int \<Rightarrow> nat \<Rightarrow> 'z protocol_scheme \<Rightarrow> bool" where
  "client_of s k w \<longleftrightarrow> cur_ok (clients w) \<and> k < length (items (clients w)) \<and> socket (c_net (client_at k w)) = s
     \<and> (\<forall>j < length (items (clients w)). socket (c_net (client_at j w)) = s \<longrightarrow> j = k)"

text \<open>A message that can be delivered: its publication is stored, with a topic and the whole payload.\<close>

definition held_ok :: "(nat \<Rightarrow> publication option) \<Rightarrow> message \<Rightarrow> bool" where
  "held_ok heap m \<longleftrightarrow> (\<exists>p pb t. m_publish m = Ptr p \<and> heap p = Some pb \<and> pb_topic pb = Ptr t
     \<and> publish_payload (message_publish m (Some pb)) \<noteq> None)"

definition inbound_ok :: "(nat \<Rightarrow> publication option) \<Rightarrow> message clist \<Rightarrow> bool" where
  "inbound_ok heap l \<longleftrightarrow> cur_ok l \<and> distinct (map m_msgid (items l))
     \<and> (\<forall>m \<in> set (items l). m_qos m = 2 \<and> nextMessageType m = Some PUBREL
          \<and> (m_MQTTVersion m < MQTTVERSION_5 \<longrightarrow> held_ok heap m))"

datatype out_phase = Await_ack | Await_rec | Await_comp

definition phase :: "message \<Rightarrow> out_phase" where
  "phase m = (if m_qos m = 1 then Await_ack else if nextMessageType m = Some PUBREC then Await_rec else Await_comp)"

definition outbound_ok :: "message clist \<Rightarrow> bool" where
  "outbound_ok l \<longleftrightarrow> cur_ok l \<and> distinct (map m_msgid (items l))
     \<and> (\<forall>m \<in> set (items l). m_publish m \<noteq> NULL
          \<and> (m_qos m = 1 \<or> m_qos m = 2 \<and> nextMessageType m \<in> {Some PUBREC, Some PUBCOMP}))"

definition flow_inv :: "nat multiset \<Rightarrow> 'z protocol_scheme \<Rightarrow> bool" where
  "flow_inv E w \<longleftrightarrow> pub_inv E w \<and> (\<forall>c \<in> set (items (clients w)).
     inbound_ok (pub_heap w) (inboundMsgs c) \<and> outbound_ok (outboundMsgs c))"

text \<open>The messages as maps from identifiers.\<close>

definition by_id :: "message list \<Rightarrow> int \<Rightarrow> message option" where
  "by_id ms i = List.find (\<lambda>m. m_msgid m = i) ms"

definition outgoing :: "nat \<Rightarrow> 'z protocol_scheme \<Rightarrow> int \<Rightarrow> out_phase option" where
  "outgoing k w i = map_option phase (by_id (items (outboundMsgs (client_at k w))) i)"

lemma by_id_simps [simp]:
  "by_id [] = (\<lambda>_. None)" "by_id (ms @ [m]) i = (case by_id ms i of None \<Rightarrow> if m_msgid m = i then Some m else None | r \<Rightarrow> r)"
  by (auto simp: by_id_def fun_eq_iff find_append split: option.splits)

lemma by_id_None: "by_id ms i = None \<longleftrightarrow> i \<notin> m_msgid ` set ms"
  by (auto simp: by_id_def find_None_iff)

lemma by_id_nth:
  assumes "distinct (map m_msgid ms)" "j < length ms"
  shows "by_id ms (m_msgid (ms ! j)) = Some (ms ! j)"
  using assms unfolding by_id_def find_Some_iff
  by (auto intro!: exI [of _ j] simp: nth_eq_iff_index_eq distinct_conv_nth)

lemma by_id_drop_nth:
  assumes "distinct (map m_msgid ms)" "j < length ms"
  shows "by_id (drop_nth j ms) = (by_id ms)(m_msgid (ms ! j) := None)"
  using assms
proof (induction ms arbitrary: j)
  case (Cons m ms)
  show ?case
  proof (cases j)
    case 0
    then show ?thesis using Cons.prems by (auto simp: drop_nth_def by_id_def fun_eq_iff find_None_iff image_iff)
  next
    case (Suc i)
    then have "by_id (drop_nth i ms) = (by_id ms)(m_msgid (ms ! i) := None)"
      using Cons.IH [of i] Cons.prems by (simp add: fun_upd_def)
    moreover have "ms ! i \<in> set ms" using Cons.prems Suc by simp
    then have "m_msgid (ms ! i) \<noteq> m_msgid m" using Cons.prems by (auto simp: image_iff)
    ultimately show ?thesis using Suc by (auto simp: drop_nth_def by_id_def fun_eq_iff)
  qed
qed simp

lemma by_id_update:
  assumes "distinct (map m_msgid ms)" "j < length ms" "m_msgid m = m_msgid (ms ! j)"
  shows "by_id (ms[j := m]) = (by_id ms)(m_msgid m \<mapsto> m)"
  using assms
proof (induction ms arbitrary: j)
  case (Cons n ms)
  show ?case
  proof (cases j)
    case 0
    then show ?thesis using Cons.prems by (auto simp: by_id_def fun_eq_iff)
  next
    case (Suc i)
    then have "by_id (ms[i := m]) = (by_id ms)(m_msgid m \<mapsto> m)"
      using Cons.IH [of i] Cons.prems by (simp add: fun_upd_def)
    moreover have "m_msgid (ms ! i) \<in> m_msgid ` set ms" using Cons.prems Suc by simp
    then have "m_msgid m \<noteq> m_msgid n" using Cons.prems Suc by fastforce
    ultimately show ?thesis using Suc by (auto simp: by_id_def fun_eq_iff)
  qed
qed simp

text \<open>Searching by identifier.\<close>

lemma find_message:
  assumes "cur_ok l" "distinct (map m_msgid (items l))"
  obtains l' where "l_find l (messageIDCompare i) = (None, l')" "items l' = items l" "cur_ok l'" "by_id (items l) i = None"
  | j l' where "l_find l (messageIDCompare i) = (Some j, l')" "items l' = items l" "cur_ok l'" "j < length (items l)"
      "m_msgid (items l ! j) = i" "by_id (items l) i = Some (items l ! j)"
proof -
  obtain r l' where f: "l_find l (messageIDCompare i) = (r, l')" by fastforce
  then have l: "items l' = items l" "cur_ok l'"
    using items_l_find [of l "messageIDCompare i"] cur_ok_l_find [OF assms(1), of "messageIDCompare i"] by simp_all
  show thesis
  proof (cases r)
    case None
    then show thesis using that(1) [of l'] f l l_find_ids [OF assms(1), of i] by (simp add: by_id_None)
  next
    case (Some j)
    then have j: "j < length (items l)" "m_msgid (items l ! j) = i"
      using l_find_Some [OF assms(1), of "messageIDCompare i" j] f by (simp_all add: messageIDCompare_def)
    then show thesis using that(2) [of j l'] f l Some by_id_nth [OF assms(2) j(1)] by simp
  qed
qed

lemma l_remove_at_items [simp]: "items (l_remove_at j l) = drop_nth j (items l)"
  by (simp add: l_remove_at_def)

lemma cur_ok_l_remove_at: "cur_ok l \<Longrightarrow> j < length (items l) \<Longrightarrow> cur_ok (l_remove_at j l)"
  using cur_ok_pos_after_removal [of l j] by (simp add: l_remove_at_def)

lemma l_update_items [simp]: "items (l_update j f l) = (items l)[j := f (items l ! j)]" "cur_ok (l_update j f l) = cur_ok l"
  by (simp_all add: l_update_def cur_ok_def)

section \<open>What leaves the messages alone\<close>

definition messages_kept :: "'z protocol_scheme \<Rightarrow> 'z protocol_scheme \<Rightarrow> bool" where
  "messages_kept w w' \<longleftrightarrow> length (items (clients w')) = length (items (clients w))
     \<and> (cur_ok (clients w) \<longrightarrow> cur_ok (clients w')) \<and> pub_heap w' = pub_heap w \<and> next_pub w' = next_pub w
     \<and> publications w' = publications w \<and> pending_writes w' = pending_writes w
     \<and> (\<forall>j < length (items (clients w)). socket (c_net (client_at j w')) = socket (c_net (client_at j w))
          \<and> items (inboundMsgs (client_at j w')) = items (inboundMsgs (client_at j w))
          \<and> (cur_ok (inboundMsgs (client_at j w)) \<longrightarrow> cur_ok (inboundMsgs (client_at j w')))
          \<and> items (outboundMsgs (client_at j w')) = items (outboundMsgs (client_at j w))
          \<and> (cur_ok (outboundMsgs (client_at j w)) \<longrightarrow> cur_ok (outboundMsgs (client_at j w'))))"

lemma messages_kept_refl [simp]: "messages_kept w w"
  by (simp add: messages_kept_def)

lemma messages_kept_trans: "messages_kept w1 w2 \<Longrightarrow> messages_kept w2 w3 \<Longrightarrow> messages_kept w1 w3"
  by (simp add: messages_kept_def)

lemma flows_same_kept: "flows_same w w' \<Longrightarrow> messages_kept w w'"
  by (simp add: flows_same_def messages_kept_def client_at_def)

lemma client_in_set: "c \<in> set (items (clients w)) \<longleftrightarrow> (\<exists>j < length (items (clients w)). c = client_at j w)"
  by (auto simp: client_at_def in_set_conv_nth)

lemma kept_refs:
  assumes "messages_kept w w'"
  shows "all_refs w' = all_refs w"
proof -
  have "map client_refs (items (clients w')) = map client_refs (items (clients w))"
    using assms by (intro nth_equalityI) (simp_all add: messages_kept_def client_refs_def client_at_def)
  then show ?thesis using assms by (simp add: all_refs_def messages_kept_def)
qed

lemma kept_flow_inv:
  assumes "messages_kept w w'" "flow_inv E w"
  shows "flow_inv E w'"
  unfolding flow_inv_def
proof (intro conjI ballI)
  show "pub_inv E w'"
    using assms pub_inv_cong [of E w w' E] kept_refs [OF assms(1)] by (simp add: flow_inv_def messages_kept_def)
  fix c assume "c \<in> set (items (clients w'))"
  then obtain j where j: "j < length (items (clients w))" "c = client_at j w'"
    using assms(1) by (auto simp: client_in_set messages_kept_def)
  then have "inbound_ok (pub_heap w) (inboundMsgs (client_at j w)) \<and> outbound_ok (outboundMsgs (client_at j w))"
    using assms(2) client_in_set by (auto simp: flow_inv_def)
  then show "inbound_ok (pub_heap w') (inboundMsgs c)" "outbound_ok (outboundMsgs c)"
    using assms(1) j by (simp_all add: messages_kept_def inbound_ok_def outbound_ok_def)
qed

lemma kept_client_of: "messages_kept w w' \<Longrightarrow> client_of s k w \<Longrightarrow> client_of s k w'"
  by (auto simp: messages_kept_def client_of_def)

lemma kept_outgoing: "messages_kept w w' \<Longrightarrow> k < length (items (clients w)) \<Longrightarrow> outgoing k w' = outgoing k w"
  by (simp add: messages_kept_def outgoing_def fun_eq_iff)

lemma find_client_of:
  assumes "client_of s k w"
  obtains w1 where "find_client s w = Some (k, w1)" "flows_same w w1" "protocol.more w1 = protocol.more w"
proof -
  let ?P = "clientSocketCompare s"
  obtain r l where f: "l_find (clients w) ?P = (r, l)" by fastforce
  have "\<not> (\<forall>c \<in> set (items (clients w)). \<not> ?P c)"
    using assms client_in_set by (auto simp: client_of_def clientSocketCompare_def)
  then have "r \<noteq> None" using l_find_None [of "clients w" ?P] assms f by (simp add: client_of_def)
  then obtain j where j: "r = Some j" by blast
  then have "j < length (items (clients w)) \<and> ?P (client_at j w)"
    using l_find_Some [of "clients w" ?P j] assms f by (simp add: client_of_def client_at_def)
  then have "j = k" using assms by (simp add: client_of_def clientSocketCompare_def)
  then have "find_client s w = Some (k, w\<lparr>clients := l\<rparr>)" by (simp add: find_client_def f j)
  moreover from this have "flows_same w (w\<lparr>clients := l\<rparr>)" using agrees_flows find_client_agrees by blast
  ultimately show thesis using that by simp
qed

text \<open>An update of a client that its messages do not take part in.\<close>

lemma upd_client_kept:
  assumes "socket (c_net (f (client_at k w))) = socket (c_net (client_at k w))"
    "items (inboundMsgs (f (client_at k w))) = items (inboundMsgs (client_at k w))"
    "cur_ok (inboundMsgs (client_at k w)) \<Longrightarrow> cur_ok (inboundMsgs (f (client_at k w)))"
    "items (outboundMsgs (f (client_at k w))) = items (outboundMsgs (client_at k w))"
    "cur_ok (outboundMsgs (client_at k w)) \<Longrightarrow> cur_ok (outboundMsgs (f (client_at k w)))"
  shows "messages_kept w (upd_client k f w)"
  unfolding messages_kept_def
proof (intro conjI allI impI)
  fix j assume j: "j < length (items (clients w))"
  show "socket (c_net (client_at j (upd_client k f w))) = socket (c_net (client_at j w))"
    "items (inboundMsgs (client_at j (upd_client k f w))) = items (inboundMsgs (client_at j w))"
    "items (outboundMsgs (client_at j (upd_client k f w))) = items (outboundMsgs (client_at j w))"
    using assms(1,2,4) j by (cases "j = k"; simp)+
  show "cur_ok (inboundMsgs (client_at j (upd_client k f w)))" if "cur_ok (inboundMsgs (client_at j w))"
    using assms(3) j that by (cases "j = k"; simp)
  show "cur_ok (outboundMsgs (client_at j (upd_client k f w)))" if "cur_ok (outboundMsgs (client_at j w))"
    using assms(5) j that by (cases "j = k"; simp)
qed simp_all

text \<open>The stored publications and the clients are independent.\<close>

lemma removePublication_upd:
  "MQTTProtocol_removePublication q (upd_client k f w) = map_option (upd_client k f) (MQTTProtocol_removePublication q w)"
  by (auto simp: MQTTProtocol_removePublication_def upd_client_def client_at_def Let_def split: cptr.splits option.splits)

lemma drop_publication_upd: "drop_publication p (upd_client k f w) = upd_client k f (drop_publication p w)"
  by (simp add: drop_publication_def upd_client_def client_at_def)

lemma drop_publication_fields [simp]:
  "clients (drop_publication p w) = clients w" "client_at k (drop_publication p w) = client_at k w"
  "pub_heap (drop_publication p w) = (pub_heap w)(p := None)" "all_refs (drop_publication p w) = all_refs w"
  by (simp_all add: drop_publication_def client_at_def all_refs_def)

lemma drop_publication_inv:
  "pub_inv (add_mset p E) w \<Longrightarrow> pub_inv E (drop_publication p w)"
  "pub_inv (add_mset p E) w \<Longrightarrow> p \<notin># all_refs w"
  using unlink_inv [of p E w] by (simp_all add: drop_publication_def)

lemma refs_in_all:
  assumes "k < length (items (clients w))"
  shows "refs_of (items (inboundMsgs (client_at k w))) \<subseteq># all_refs w"
    "refs_of (items (outboundMsgs (client_at k w))) \<subseteq># all_refs w"
proof -
  have "client_refs (client_at k w) \<in># mset (map client_refs (items (clients w)))"
    using assms by (simp add: client_at_def)
  then have "client_refs (client_at k w) \<subseteq># (\<Sum>c\<leftarrow>items (clients w). client_refs c)"
    using sum_mset.remove [of "client_refs (client_at k w)" "mset (map client_refs (items (clients w)))"]
    by (metis mset_subset_eq_add_left sum_mset_sum_list)
  then have "client_refs (client_at k w) \<subseteq># all_refs w"
    unfolding all_refs_def by (meson mset_subset_eq_add_left subset_mset.order_trans)
  then show "refs_of (items (inboundMsgs (client_at k w))) \<subseteq># all_refs w"
      "refs_of (items (outboundMsgs (client_at k w))) \<subseteq># all_refs w"
    unfolding client_refs_def
    by (meson mset_subset_eq_add_left mset_subset_eq_add_right subset_mset.order_trans)+
qed

lemma ref_in_refs_of: "m \<in> set ms \<Longrightarrow> m_publish m = Ptr p \<Longrightarrow> p \<in># refs_of ms"
  by (induction ms) auto

lemma inbound_ok_heap:
  assumes "inbound_ok h l" "\<And>p. p \<in># refs_of (items l) \<Longrightarrow> h' p = h p"
  shows "inbound_ok h' l"
proof -
  have "held_ok h' m" if "m \<in> set (items l)" "held_ok h m" for m
  proof -
    obtain p pb t where p: "m_publish m = Ptr p" "h p = Some pb" "pb_topic pb = Ptr t"
        "publish_payload (message_publish m (Some pb)) \<noteq> None" using \<open>held_ok h m\<close> by (auto simp: held_ok_def)
    then have "h' p = Some pb" using assms(2) ref_in_refs_of [OF \<open>m \<in> set (items l)\<close>] by simp
    with p show ?thesis by (auto simp: held_ok_def)
  qed
  then show ?thesis using assms(1) by (simp add: inbound_ok_def)
qed

text \<open>Putting the invariant together after the messages of one client have changed.\<close>

lemma flow_inv_upd:
  assumes "pub_inv E (upd_client k f w)" "k < length (items (clients w))"
    and "\<And>j. j < length (items (clients w)) \<Longrightarrow> j \<noteq> k \<Longrightarrow> inbound_ok (pub_heap w) (inboundMsgs (client_at j w))"
    and "\<And>j. j < length (items (clients w)) \<Longrightarrow> j \<noteq> k \<Longrightarrow> outbound_ok (outboundMsgs (client_at j w))"
    and "inbound_ok (pub_heap w) (inboundMsgs (f (client_at k w)))" "outbound_ok (outboundMsgs (f (client_at k w)))"
  shows "flow_inv E (upd_client k f w)"
  unfolding flow_inv_def
proof (intro conjI ballI)
  fix c assume "c \<in> set (items (clients (upd_client k f w)))"
  then obtain j where j: "j < length (items (clients w))" "c = client_at j (upd_client k f w)"
    unfolding client_in_set by auto
  show "inbound_ok (pub_heap (upd_client k f w)) (inboundMsgs c)"
    using assms(2,3,5) j by (cases "j = k") auto
  show "outbound_ok (outboundMsgs c)"
    using assms(2,4,6) j by (cases "j = k") auto
qed (rule assms(1))

lemma flow_invD:
  assumes "flow_inv E w" "j < length (items (clients w))"
  shows "inbound_ok (pub_heap w) (inboundMsgs (client_at j w))" "outbound_ok (outboundMsgs (client_at j w))"
  using assms client_in_set by (auto simp: flow_inv_def)

lemma client_of_upd:
  assumes "client_of s k w" "socket (c_net (f (client_at k w))) = socket (c_net (client_at k w))"
  shows "client_of s k (upd_client k f w)"
proof -
  have k: "k < length (items (clients w))" "socket (c_net (client_at k w)) = s"
    using assms(1) by (simp_all add: client_of_def)
  have j: "socket (c_net (client_at j (upd_client k f w))) = socket (c_net (client_at j w))"
    if "j < length (items (clients w))" for j
    using assms(2) that by (cases "j = k") auto
  have "\<forall>i < length (items (clients w)). socket (c_net (client_at i (upd_client k f w))) = s \<longrightarrow> i = k"
    using assms(1) j unfolding client_of_def by metis
  moreover have "cur_ok (clients w)" using assms(1) by (simp add: client_of_def)
  ultimately show ?thesis using k j [OF k(1)] unfolding client_of_def clients_upd_client length_list_update by metis
qed

end
