(* ===== verification/ProtocolLayer.thy ===== *)
theory ProtocolLayer
  imports ProtocolFlows
begin

text \<open>
  The handlers of \<open>MqttC/MQTTProtocolClient.c\<close> as transitions: for each incoming packet what happens to
  the messages, to what the layer above is given, and to the stored publications. The interface to
  that layer is the locale \<open>protocol_layer\<close>.
\<close>

text \<open>
  \<open>delivered k w\<close> is what the layer above has been given for client \<open>k\<close>, \<open>content\<close> what it is given of a
  packet, and \<open>layer_same\<close> that two states agree on what this layer keeps for itself.
\<close>

locale protocol_layer = store_frame per same
  for per :: "'z protocol_scheme persist_api" and same +
  fixes app :: "'z protocol_scheme application"
    and delivered :: "nat \<Rightarrow> 'z protocol_scheme \<Rightarrow> 'm list"
    and content :: "publish_packet \<Rightarrow> 'm"
    and layer_same :: "'z protocol_scheme \<Rightarrow> 'z protocol_scheme \<Rightarrow> bool"
  assumes layer_trans: "layer_same w1 w2 \<Longrightarrow> layer_same w2 w3 \<Longrightarrow> layer_same w1 w3"
    and layer_store: "same w w' \<Longrightarrow> layer_same w w'"
    and layer_more: "protocol.more w' = protocol.more w \<Longrightarrow> layer_same w w'"
    and layer_delivered: "layer_same w w' \<Longrightarrow> messageQueue (client_at j w') = messageQueue (client_at j w)
      \<Longrightarrow> delivered j w' = delivered j w"
    and publication_law: "k < length (items (clients w)) \<Longrightarrow> pu_topic pub = Ptr t \<Longrightarrow> publish_payload pub \<noteq> None
      \<Longrightarrow> \<exists>w'. process_publication app pub k ap w = Some w' \<and> messages_kept w w'
          \<and> delivered k w' = delivered k w @ [content pub] \<and> (\<forall>j. j \<noteq> k \<longrightarrow> delivered j w' = delivered j w)"
begin

lemma layer_refl: "layer_same w w"
  by (rule layer_more) simp

definition quiet :: "'z protocol_scheme \<Rightarrow> 'z protocol_scheme \<Rightarrow> bool" where
  "quiet w w' \<longleftrightarrow> messages_kept w w' \<and> (\<forall>j < length (items (clients w)). delivered j w' = delivered j w)"

lemma quiet_refl: "quiet w w"
  by (simp add: quiet_def)

lemma quiet_trans: "quiet w1 w2 \<Longrightarrow> quiet w2 w3 \<Longrightarrow> quiet w1 w3"
  using messages_kept_trans by (simp add: quiet_def messages_kept_def)

lemma flows_quiet: "flows_same w w' \<Longrightarrow> layer_same w w' \<Longrightarrow> quiet w w'"
proof -
  assume f: "flows_same w w'" and l: "layer_same w w'"
  have "delivered j w' = delivered j w" for j using layer_delivered [OF l] flows_same_client [OF f] by simp
  then show "quiet w w'" using flows_same_kept [OF f] by (simp add: quiet_def)
qed

lemma upd_client_quiet:
  assumes "messages_kept w (upd_client k f w)" "messageQueue (f (client_at k w)) = messageQueue (client_at k w)"
  shows "quiet w (upd_client k f w)"
proof -
  have "messageQueue (client_at j (upd_client k f w)) = messageQueue (client_at j w)"
    if "j < length (items (clients w))" for j
    using assms(2) that by (cases "j = k") simp_all
  then have "delivered j (upd_client k f w) = delivered j w" if "j < length (items (clients w))" for j
    using that by (intro layer_delivered layer_more) simp_all
  then show ?thesis using assms(1) by (simp add: quiet_def)
qed

lemma find_quiet: "client_of s k w \<Longrightarrow> \<exists>w1. find_client s w = Some (k, w1) \<and> quiet w w1"
  using find_client_of flows_quiet layer_more by metis

lemma noPendingWrites_quiet: "quiet w (snd (Socket_noPendingWrites s w))"
proof (intro flows_quiet noPendingWrites_flows layer_more)
  have "websock.more (snd (Socket_noPendingWrites s w)) = websock.more w"
    using sockets_more_websock [OF noPendingWrites_more] by blast
  then show "protocol.more (snd (Socket_noPendingWrites s w)) = protocol.more w"
    by (cases "snd (Socket_noPendingWrites s w)"; cases w) simp
qed

lemma putdatas_layer: "layer_same w (snd (snd (WebSocket_putdatas net buf0 bufs w)))"
proof (rule layer_more)
  have "websock.more (snd (snd (WebSocket_putdatas net buf0 bufs w))) = websock.more w"
    using websock_putdatas_more by blast
  then show "protocol.more (snd (snd (WebSocket_putdatas net buf0 bufs w))) = protocol.more w"
    by (cases "snd (snd (WebSocket_putdatas net buf0 bufs w))"; cases w) simp
qed

lemma putPacket_layer:
  assumes "MQTTPersistence_putPacket per s buf0 bufs htype msgId received v w = Some (rc, w')"
  shows "layer_same w w'"
proof -
  obtain k w1 where f: "find_client s w = Some (k, w1)" using putPacket_finds [OF assms] .
  then have "protocol.more w1 = protocol.more w" using find_client_Some(1) [OF f] by auto
  then show ?thesis using layer_trans [OF layer_more layer_store [OF putPacket_same [OF assms f]]] by blast
qed

lemma send_quiet:
  assumes "MQTTPacket_send per net header buffer freeData v w = Some (rc, net', w')"
  shows "quiet w w'"
proof -
  obtain w1 b where "w1 = w \<or> (\<exists>r b bs t i. MQTTPersistence_putPacket per (socket net) b bs t i False v w = Some (r, w1))"
      "WebSocket_putdatas net (header # MQTTPacket_encode (length buffer))
         \<lparr>pb_buffers = [buffer], pb_frees = [freeData], pb_mask = [0, 0, 0, 0]\<rparr> w1 = (rc, b, w')"
    using send_cases [OF assms] by metis
  then have "layer_same w w1" "layer_same w1 w'"
    using layer_refl putPacket_layer putdatas_layer by (metis, metis snd_conv)
  then show ?thesis using flows_quiet send_flows(1) [OF assms] layer_trans by blast
qed

lemma send_publish_quiet:
  assumes "MQTTPacket_send_publish per pack dup qos retained net w = Some (rc, pack', net', w')"
  shows "quiet w w'"
proof -
  obtain bufs frees bufs' where s: "MQTTPacket_sends per net (mk_header PUBLISH (of_bool dup) (int qos) (of_bool retained))
       \<lparr>pb_buffers = bufs, pb_frees = frees, pb_mask = pu_mask pack\<rparr> (pu_MQTTVersion pack) w
     = Some (rc, bufs', net', w')"
    using send_publish_cases [OF assms] by metis
  obtain w1 where "w1 = w \<or> (\<exists>r b bs t i. MQTTPersistence_putPacket per (socket net) b bs t i False (pu_MQTTVersion pack) w
        = Some (r, w1))" "layer_same w1 w'"
    using sends_cases [OF s] putdatas_layer by (metis snd_conv)
  then have "layer_same w w'" using layer_refl putPacket_layer layer_trans by metis
  then show ?thesis using flows_quiet send_publish_flows(1) [OF assms] by blast
qed

text \<open>The store of the removed message.\<close>

lemma remove_keys_same: "same w (snd (remove_keys per h stems msgId rc w))"
proof (induction stems arbitrary: rc w)
  case (Cons stem stems)
  obtain key toolong where k: "print_key stem msgId = (key, toolong)" by fastforce
  obtain r w1 where "premove per h key w = (r, w1)" by fastforce
  then show ?case
    using Cons.IH [of w1 "rc + r"] remove_frame [of w h key] same_trans same_refl by (auto simp: k)
qed (simp add: same_refl)

lemma remove_quiet: "quiet w (snd (MQTTPersistence_remove per k stem msgId w))"
proof -
  have "same w (snd (MQTTPersistence_remove per k stem msgId w))"
    using remove_keys_same same_refl by (simp add: MQTTPersistence_remove_def Let_def del: remove_keys.simps)
  then show ?thesis using flows_quiet agrees_flows truncate_agrees same_protocol layer_store by blast
qed

text \<open>An acknowledgement is sent or queued, and nothing else happens.\<close>

lemma putPacket_defined:
  assumes "client_of s k w"
  shows "\<exists>r. MQTTPersistence_putPacket per s b bs t i received v w = Some r"
proof -
  obtain w1 where f: "find_client s w = Some (k, w1)" using find_client_of [OF assms] by blast
  show ?thesis unfolding MQTTPersistence_putPacket_def f bind.simps Let_def prod.case by (simp del: split_paired_Ex)
qed

lemma send_defined:
  assumes "client_of (socket net) k w" "2 \<le> length buffer"
  shows "\<exists>rc net' w'. MQTTPacket_send per net header buffer freeData v w = Some (rc, net', w')"
proof -
  obtain a b bs where "buffer = a # b # bs" using assms(2) by (cases buffer; cases "tl buffer") auto
  then obtain i where "readInt buffer 0 = Some i" by (auto simp: readInt_def rd_def)
  moreover obtain r where "MQTTPersistence_putPacket per (socket net) (header # MQTTPacket_encode (length buffer)) [buffer]
      PUBREL (fst i) False v w = Some r" using putPacket_defined [OF assms(1)] by blast
  ultimately show ?thesis by (cases i) (auto simp: MQTTPacket_send_def Let_def split: prod.splits)
qed

lemma acknowledge_quiet:
  assumes "client_of s k w"
  shows "\<exists>rc w'. acknowledge per k waiting type v msgId w = Some (rc, w') \<and> quiet w w'"
proof (cases waiting)
  case True
  have "messages_kept w (upd_client k (\<lambda>c. c\<lparr>outboundQueue := l_append (outboundQueue c)
      \<lparr>messageId = msgId, ackType = type\<rparr>\<rparr>) w)" by (rule upd_client_kept) simp_all
  then show ?thesis using True upd_client_quiet by (simp add: acknowledge_def MQTTProtocol_queueAck_def)
next
  case False
  let ?net = "c_net (client_at k w)"
  have "client_of (socket ?net) k w" using assms by (simp add: client_of_def)
  then obtain rc net' w1 where s: "MQTTPacket_send_ack per v type msgId False ?net w = Some (rc, net', w1)"
    unfolding MQTTPacket_send_ack_def using send_defined [of ?net k w "writeInt msgId"] by fastforce
  note s' = s [unfolded MQTTPacket_send_ack_def]
  have w1: "quiet w w1" "socket net' = socket ?net" "flows_same w w1"
    using send_quiet [OF s'] send_flows [OF s'] by simp_all
  have "client_at k w1 = client_at k w" using w1(3) by (rule flows_same_client)
  then have "messages_kept w1 (upd_client k (\<lambda>c. c\<lparr>c_net := net'\<rparr>) w1)"
    using w1(2) by (intro upd_client_kept) simp_all
  then have "quiet w1 (upd_client k (\<lambda>c. c\<lparr>c_net := net'\<rparr>) w1)" using upd_client_quiet by simp
  then show ?thesis using False s w1(1) quiet_trans by (auto simp: acknowledge_def send_on_def)
qed

end

end
