(* ===== verification/ProtocolSteps.thy ===== *)
theory ProtocolSteps
  imports ProtocolLayer
begin

text \<open>
  The handlers as transitions of what the messages of a client stand for: \<open>outgoing\<close> gives the phase of
  each message that is being sent, \<open>arriving\<close> what each message that is being received still has to
  deliver.
\<close>

lemma map_drop_nth: "map f (drop_nth j xs) = drop_nth j (map f xs)"
  by (simp add: drop_nth_def take_map drop_map)

lemma drop_nth_subset: "set (drop_nth j xs) \<subseteq> set xs"
  using set_take_subset set_drop_subset by (auto simp: drop_nth_def dest: in_set_takeD in_set_dropD)

lemma client_of_less: "client_of s k w \<Longrightarrow> k < length (items (clients w))"
  by (simp add: client_of_def)

lemma refs_cancel:
  fixes x :: "nat multiset"
  shows "x + a = r + d \<Longrightarrow> d + p = a \<Longrightarrow> x + p = r"
  by (metis add.assoc add.commute add_right_cancel)

lemma outbound_ok_remove: "outbound_ok l \<Longrightarrow> j < length (items l) \<Longrightarrow> outbound_ok (l_remove_at j l)"
  using cur_ok_l_remove_at [of l j] drop_nth_subset [of j "items l"]
  by (auto simp: outbound_ok_def map_drop_nth drop_nth_distinct)

lemma inbound_ok_remove: "inbound_ok h l \<Longrightarrow> j < length (items l) \<Longrightarrow> inbound_ok h (l_remove_at j l)"
  using cur_ok_l_remove_at [of l j] drop_nth_subset [of j "items l"]
  by (auto simp: inbound_ok_def map_drop_nth drop_nth_distinct)

text \<open>A \<open>PUBREC\<close> of version 5 that refuses the message.\<close>

definition pubrec_refused :: "ack_packet \<Rightarrow> bool" where
  "pubrec_refused a \<longleftrightarrow> ack_MQTTVersion a \<ge> MQTTVERSION_5 \<and> (case ack_rc a of None \<Rightarrow> False | Some r \<Rightarrow> unat r \<ge> 128)"

section \<open>Messages that are being sent\<close>

context protocol_layer
begin

definition holds :: "(nat \<Rightarrow> publication option) \<Rightarrow> message \<Rightarrow> 'm option" where
  "holds heap m = (if m_MQTTVersion m \<ge> MQTTVERSION_5 then None
     else Some (content (message_publish m (case m_publish m of NULL \<Rightarrow> None | Ptr p \<Rightarrow> heap p))))"

definition arriving :: "nat \<Rightarrow> 'z protocol_scheme \<Rightarrow> int \<Rightarrow> 'm option option" where
  "arriving k w i = map_option (holds (pub_heap w)) (by_id (items (inboundMsgs (client_at k w))) i)"

text \<open>All clients but for one, and that one but for the messages it sends.\<close>

definition inbound_same :: "'z protocol_scheme \<Rightarrow> 'z protocol_scheme \<Rightarrow> bool" where
  "inbound_same w w' \<longleftrightarrow> length (items (clients w')) = length (items (clients w))
     \<and> (\<forall>j < length (items (clients w)). arriving j w' = arriving j w \<and> delivered j w' = delivered j w)"

lemma inbound_same_refl: "inbound_same w w"
  by (simp add: inbound_same_def)

lemma inbound_same_trans: "inbound_same w1 w2 \<Longrightarrow> inbound_same w2 w3 \<Longrightarrow> inbound_same w1 w3"
  by (simp add: inbound_same_def)

lemma quiet_arriving: "quiet w w' \<Longrightarrow> j < length (items (clients w)) \<Longrightarrow> arriving j w' = arriving j w"
  unfolding quiet_def messages_kept_def arriving_def by simp

lemma quiet_inbound: "quiet w w' \<Longrightarrow> inbound_same w w'"
  using quiet_arriving by (auto simp: inbound_same_def quiet_def messages_kept_def)

lemma by_id_set: "by_id ms i = Some m \<Longrightarrow> m \<in> set ms"
  by (auto simp: by_id_def find_Some_iff)

lemma arriving_heap:
  assumes "items (inboundMsgs (client_at j w')) = items (inboundMsgs (client_at j w))"
    and "\<And>p. p \<in># refs_of (items (inboundMsgs (client_at j w))) \<Longrightarrow> pub_heap w' p = pub_heap w p"
  shows "arriving j w' = arriving j w"
proof
  fix i
  show "arriving j w' i = arriving j w i"
  proof (cases "by_id (items (inboundMsgs (client_at j w))) i")
    case (Some m)
    then have "holds (pub_heap w') m = holds (pub_heap w) m"
      using assms(2) ref_in_refs_of [OF by_id_set [OF Some]] by (auto simp: holds_def split: cptr.splits)
    then show ?thesis using Some assms(1) by (simp add: arriving_def)
  qed (simp add: arriving_def assms(1))
qed

text \<open>A change of the messages a client sends.\<close>

lemma upd_outbound_inbound:
  assumes "\<And>c. inboundMsgs (f c) = inboundMsgs c" "\<And>c. messageQueue (f c) = messageQueue c"
  shows "inbound_same w (upd_client k f w)"
proof -
  have c: "inboundMsgs (client_at j (upd_client k f w)) = inboundMsgs (client_at j w)"
      "messageQueue (client_at j (upd_client k f w)) = messageQueue (client_at j w)"
    if "j < length (items (clients w))" for j
    using assms that by (cases "j = k"; simp)+
  have "delivered j (upd_client k f w) = delivered j w" if "j < length (items (clients w))" for j
    using c(2) [OF that] by (intro layer_delivered layer_more) simp_all
  moreover have "arriving j (upd_client k f w) = arriving j w" if "j < length (items (clients w))" for j
    using c(1) [OF that] by (intro arriving_heap) simp_all
  ultimately show ?thesis by (simp add: inbound_same_def)
qed

lemma heap_inbound:
  assumes "w' = w\<lparr>pub_heap := pub_heap w', publications := publications w'\<rparr>"
    and "\<And>p. p \<in># all_refs w \<Longrightarrow> pub_heap w' p = pub_heap w p"
  shows "inbound_same w w'"
proof -
  have c: "clients w' = clients w" "protocol.more w' = protocol.more w" by (subst assms(1); simp)+
  then have cj: "client_at j w' = client_at j w" for j by (simp add: client_at_def)
  have "delivered j w' = delivered j w" for j using layer_delivered [OF layer_more [OF c(2)]] cj by simp
  moreover have "arriving j w' = arriving j w" if "j < length (items (clients w))" for j
    using cj assms(2) refs_in_all(1) [OF that] by (intro arriving_heap) (auto dest: mset_subset_eqD)
  ultimately show ?thesis using c by (simp add: inbound_same_def)
qed

text \<open>Releasing a publication that nothing else refers to.\<close>

lemma release_step:
  assumes "flow_inv (ptr_refs q + E) w"
  obtains w' where "MQTTProtocol_removePublication q w = Some w'" "flow_inv E w'" "clients w' = clients w"
    "inbound_same w w'" "\<And>p. p \<in># all_refs w \<Longrightarrow> pub_heap w' p = pub_heap w p"
proof -
  have p: "pub_inv (ptr_refs q + E) w" using assms by (simp add: flow_inv_def)
  obtain w' where w': "MQTTProtocol_removePublication q w = Some w'" "pub_inv E w'"
      "w' = w\<lparr>pub_heap := pub_heap w', publications := publications w'\<rparr>"
      "\<And>p. p \<in># all_refs w + E \<Longrightarrow> pub_heap w' p = pub_heap w p"
    using removePublication_inv [OF p] by metis
  have cl: "clients w' = clients w" by (subst w'(3)) simp
  have h: "pub_heap w' p = pub_heap w p" if "p \<in># all_refs w" for p using w'(4) that by simp
  have "flow_inv E w'"
    unfolding flow_inv_def cl
  proof (intro conjI ballI)
    fix c assume "c \<in> set (items (clients w))"
    then obtain i where i: "i < length (items (clients w))" "c = client_at i w" by (auto simp: client_in_set)
    show "outbound_ok (outboundMsgs c)" using flow_invD(2) [OF assms i(1)] i(2) by simp
    have "pub_heap w' p = pub_heap w p" if "p \<in># refs_of (items (inboundMsgs (client_at i w)))" for p
      using h mset_subset_eqD [OF refs_in_all(1) [OF i(1)] that] .
    then show "inbound_ok (pub_heap w') (inboundMsgs c)"
      using inbound_ok_heap [OF flow_invD(1) [OF assms i(1)]] i(2) by simp
  qed (rule w'(2))
  then show thesis using that w'(1) cl heap_inbound [OF w'(3) h] h by blast
qed

text \<open>Taking a message out of those that are sent; the caller gets its publication.\<close>

lemma remove_outbound_step:
  assumes "flow_inv E w" "client_of s k w" "j < length (items (outboundMsgs (client_at k w)))"
    and "m = items (outboundMsgs (client_at k w)) ! j"
    and "w' = upd_client k (\<lambda>c. c\<lparr>outboundMsgs := l_remove_at j (outboundMsgs c)\<rparr>) w"
  shows "flow_inv (ptr_refs (m_publish m) + E) w'" "client_of s k w'" "inbound_same w w'"
    "outgoing k w' = (outgoing k w)(m_msgid m := None)" "m_publish m \<noteq> NULL"
    "\<And>i. i < length (items (clients w)) \<Longrightarrow> i \<noteq> k \<Longrightarrow> outgoing i w' = outgoing i w"
proof -
  note k = client_of_less [OF assms(2)]
  note ok = flow_invD [OF assms(1) k]
  define f :: "client \<Rightarrow> client" where "f = (\<lambda>c. c\<lparr>outboundMsgs := l_remove_at j (outboundMsgs c)\<rparr>)"
  have f [simp]: "outboundMsgs (f c) = l_remove_at j (outboundMsgs c)" "inboundMsgs (f c) = inboundMsgs c"
      "c_net (f c) = c_net c" "messageQueue (f c) = messageQueue c" for c
    by (simp_all add: f_def)
  have w': "w' = upd_client k f w" by (simp add: assms(5) f_def)
  let ?ms = "items (outboundMsgs (client_at k w))"
  have "all_refs w' + refs_of ?ms = all_refs w + refs_of (drop_nth j ?ms)"
    using all_refs_upd_client [OF k, of f] by (simp add: w' client_refs_def)
  moreover have "refs_of (drop_nth j ?ms) + ptr_refs (m_publish m) = refs_of ?ms"
    using refs_of_drop_nth [OF assms(3)] by (simp add: assms(4))
  ultimately have refs: "all_refs w' + ptr_refs (m_publish m) = all_refs w" by (rule refs_cancel)
  have "pub_inv (ptr_refs (m_publish m) + E) w'"
    using assms(1) refs pub_inv_cong [of E w w' "ptr_refs (m_publish m) + E"]
    by (simp add: flow_inv_def w' add.assoc [symmetric])
  then show "flow_inv (ptr_refs (m_publish m) + E) w'"
    using flow_invD [OF assms(1)] ok outbound_ok_remove [OF ok(2) assms(3)] unfolding w'
    by (intro flow_inv_upd [OF _ k]) simp_all
  show "client_of s k w'" unfolding w' by (rule client_of_upd [OF assms(2)]) simp
  show "inbound_same w w'" unfolding w' by (rule upd_outbound_inbound) simp_all
  have d: "distinct (map m_msgid ?ms)" using ok(2) by (simp add: outbound_ok_def)
  show "outgoing k w' = (outgoing k w)(m_msgid m := None)"
    using k by (auto simp: outgoing_def w' assms(4) fun_eq_iff by_id_drop_nth [OF d assms(3)])
  show "outgoing i w' = outgoing i w" if "i < length (items (clients w))" "i \<noteq> k" for i
    using that by (simp add: outgoing_def w' fun_eq_iff)
  show "m_publish m \<noteq> NULL" using ok(2) assms(3,4) by (simp add: outbound_ok_def)
qed

text \<open>
  Ending an exchange: the message is gone, its publication is released or handed to the caller.
\<close>

lemma finish_outbound_step:
  assumes "flow_inv E w" "client_of s k w" "j < length (items (outboundMsgs (client_at k w)))"
    and m: "m = items (outboundMsgs (client_at k w)) ! j"
  obtains rc pub w' where "finish_outbound per k j stem wantPub w = Some (rc, pub, w')"
    "flow_inv (ptr_refs pub + E) w'" "client_of s k w'" "inbound_same w w'" "(pub = NULL) = (\<not> wantPub)"
    "outgoing k w' = (outgoing k w)(m_msgid m := None)"
    "\<And>i. i < length (items (clients w)) \<Longrightarrow> i \<noteq> k \<Longrightarrow> outgoing i w' = outgoing i w"
proof -
  obtain rc w1 where r: "MQTTPersistence_remove per k stem (m_msgid m) w = (rc, w1)" by fastforce
  then have q: "quiet w w1" using remove_quiet [of w k stem "m_msgid m"] by simp
  then have kept: "messages_kept w w1" by (simp add: quiet_def)
  note i1 = kept_flow_inv [OF kept assms(1)] and c1 = kept_client_of [OF kept assms(2)]
  note k = client_of_less [OF assms(2)]
  have o1: "items (outboundMsgs (client_at k w1)) = items (outboundMsgs (client_at k w))"
    using kept k by (simp add: messages_kept_def)
  have n1: "length (items (clients w1)) = length (items (clients w))" using kept by (simp add: messages_kept_def)
  define w2 where "w2 = upd_client k (\<lambda>c. c\<lparr>outboundMsgs := l_remove_at j (outboundMsgs c)\<rparr>) w1"
  have j1: "j < length (items (outboundMsgs (client_at k w1)))" using assms(3) by (simp only: o1)
  have m1: "m = items (outboundMsgs (client_at k w1)) ! j" using m by (simp only: o1)
  note w2 = remove_outbound_step [OF i1 c1 j1 m1 w2_def]
  note og = w2(4) [unfolded kept_outgoing [OF kept k]]
  have oo: "outgoing i w2 = outgoing i w" if "i < length (items (clients w))" "i \<noteq> k" for i
    using w2(6) [of i] kept_outgoing [OF kept that(1)] that n1 by simp
  note s2 = inbound_same_trans [OF quiet_inbound [OF q] w2(3)]
  show thesis
  proof (cases wantPub)
    case True
    then have "finish_outbound per k j stem wantPub w = Some (rc, m_publish m, w2)"
      by (simp add: finish_outbound_def Let_def r m [symmetric] w2_def)
    then show thesis using that [OF _ w2(1,2) s2 _ og oo] True w2(5) by simp
  next
    case False
    obtain w3 where w3: "MQTTProtocol_removePublication (m_publish m) w2 = Some w3" "flow_inv E w3"
        "clients w3 = clients w2" "inbound_same w2 w3"
      using release_step [OF w2(1)] by blast
    have ca: "client_at i w3 = client_at i w2" for i by (simp add: client_at_def w3(3))
    have c3: "client_of s k w3" using w2(2) unfolding client_of_def w3(3) ca .
    have o3: "outgoing i w3 = outgoing i w2" for i by (simp add: outgoing_def fun_eq_iff ca)
    obtain w4 where "MQTTProtocol_removePublication (m_publish m) w1 = Some w4"
        "w3 = upd_client k (\<lambda>c. c\<lparr>outboundMsgs := l_remove_at j (outboundMsgs c)\<rparr>) w4"
      using w3(1) unfolding w2_def removePublication_upd by auto
    then have "finish_outbound per k j stem wantPub w = Some (rc, NULL, w3)"
      using False by (simp add: finish_outbound_def Let_def r m [symmetric])
    then show thesis
      using that [of rc NULL w3] False w3(2) c3 inbound_same_trans [OF s2 w3(4)] og oo by (simp add: o3)
  qed
qed

section \<open>The handlers of acknowledgements\<close>

text \<open>A search in the messages that are sent.\<close>

lemma find_outbound_step:
  assumes "flow_inv E w" "client_of s k w" "l_find ((outboundMsgs (client_at k w))\<lparr>cur_pos := p\<rparr>) (messageIDCompare i) = (r, l)"
    and p: "p = cur_pos (outboundMsgs (client_at k w)) \<or> p = None"
    and w': "w' = upd_client k (\<lambda>c. c\<lparr>outboundMsgs := l\<rparr>) w"
  shows "quiet w w'" "items l = items (outboundMsgs (client_at k w))"
    "r = None \<Longrightarrow> outgoing k w i = None"
    "r = Some j \<Longrightarrow> j < length (items l) \<and> m_msgid (items l ! j) = i \<and> outgoing k w i = Some (phase (items l ! j))"
    "client_at k w' = (client_at k w)\<lparr>outboundMsgs := l\<rparr>"
proof -
  note k = client_of_less [OF assms(2)]
  let ?l = "(outboundMsgs (client_at k w))\<lparr>cur_pos := p\<rparr>"
  have ok: "cur_ok ?l" "distinct (map m_msgid (items ?l))" "cur_ok (outboundMsgs (client_at k w))"
    using flow_invD(2) [OF assms(1) k] p by (auto simp: outbound_ok_def cur_ok_def)
  show l: "items l = items (outboundMsgs (client_at k w))"
    using items_l_find [of ?l "messageIDCompare i"] assms(3) by simp
  have c: "cur_ok l" using cur_ok_l_find [OF ok(1), of "messageIDCompare i"] assms(3) by simp
  have "messages_kept w w'" unfolding w' by (rule upd_client_kept) (simp_all add: l c)
  then show "quiet w w'" unfolding w' by (rule upd_client_quiet) simp
  show "r = None \<Longrightarrow> outgoing k w i = None"
    using l_find_ids [OF ok(1), of i] assms(3) by (simp add: outgoing_def by_id_None)
  show "client_at k w' = (client_at k w)\<lparr>outboundMsgs := l\<rparr>" using k by (simp add: w')
  assume "r = Some j"
  then have j: "j < length (items ?l)" "m_msgid (items ?l ! j) = i"
    using l_find_Some [OF ok(1), of "messageIDCompare i" j] assms(3) by (simp_all add: messageIDCompare_def)
  then show "j < length (items l) \<and> m_msgid (items l ! j) = i \<and> outgoing k w i = Some (phase (items l ! j))"
    using by_id_nth [OF ok(2) j(1)] by (simp add: outgoing_def l)
qed

lemma phase_cases:
  assumes "flow_inv E w" "client_of s k w" "m \<in> set (items (outboundMsgs (client_at k w)))"
  shows "phase m = Await_ack \<longleftrightarrow> m_qos m = 1"
    "phase m = Await_rec \<longleftrightarrow> m_qos m = 2 \<and> nextMessageType m = Some PUBREC"
    "phase m = Await_comp \<longleftrightarrow> m_qos m = 2 \<and> nextMessageType m = Some PUBCOMP"
  using flow_invD(2) [OF assms(1) client_of_less [OF assms(2)]] assms(3) by (auto simp: phase_def outbound_ok_def)

text \<open>
  What a handler leaves: the invariant with the publication it hands out, the client of the socket, and
  nothing new for the messages that arrive.
\<close>

definition ack_step ::
    "nat multiset \<Rightarrow> int \<Rightarrow> nat \<Rightarrow> nat cptr \<Rightarrow> (int \<Rightarrow> out_phase option) \<Rightarrow> 'z protocol_scheme \<Rightarrow> 'z protocol_scheme \<Rightarrow> bool" where
  "ack_step E s k pub out w w' \<longleftrightarrow> flow_inv (ptr_refs pub + E) w' \<and> client_of s k w' \<and> inbound_same w w'
     \<and> outgoing k w' = out \<and> (\<forall>i < length (items (clients w)). i \<noteq> k \<longrightarrow> outgoing i w' = outgoing i w)"

lemma quiet_ack_step:
  assumes "flow_inv E w" "client_of s k w" "quiet w w'"
  shows "ack_step E s k NULL (outgoing k w) w w'"
proof -
  have kept: "messages_kept w w'" using assms(3) by (simp add: quiet_def)
  show ?thesis
    using kept_flow_inv [OF kept assms(1)] kept_client_of [OF kept assms(2)] quiet_inbound [OF assms(3)]
      kept_outgoing [OF kept] client_of_less [OF assms(2)] by (simp add: ack_step_def)
qed

lemma ack_step_quiet:
  assumes "ack_step E s k pub out w w1" "quiet w1 w2"
  shows "ack_step E s k pub out w w2"
proof -
  have kept: "messages_kept w1 w2" using assms(2) by (simp add: quiet_def)
  have a: "flow_inv (ptr_refs pub + E) w1" "client_of s k w1" "inbound_same w w1" "outgoing k w1 = out"
      "\<forall>i < length (items (clients w)). i \<noteq> k \<longrightarrow> outgoing i w1 = outgoing i w"
    using assms(1) by (simp_all add: ack_step_def)
  have n: "length (items (clients w1)) = length (items (clients w))" using a(3) by (simp add: inbound_same_def)
  show ?thesis
    using kept_flow_inv [OF kept a(1)] kept_client_of [OF kept a(2)] inbound_same_trans [OF a(3) quiet_inbound [OF assms(2)]]
      kept_outgoing [OF kept] client_of_less [OF a(2)] a(4,5) n by (simp add: ack_step_def)
qed

lemma quiet_then_ack:
  assumes "quiet w w1" "ack_step E s k pub out w1 w2"
  shows "ack_step E s k pub out w w2"
proof -
  have kept: "messages_kept w w1" using assms(1) by (simp add: quiet_def)
  then have n: "length (items (clients w1)) = length (items (clients w))" by (simp add: messages_kept_def)
  show ?thesis
    using assms(2) inbound_same_trans [OF quiet_inbound [OF assms(1)]] kept_outgoing [OF kept] n
    by (simp add: ack_step_def)
qed

text \<open>The handlers start by finding the client and the message.\<close>

definition found_sent ::
    "nat multiset \<Rightarrow> int \<Rightarrow> nat \<Rightarrow> int \<Rightarrow> nat option \<Rightarrow> message list \<Rightarrow> 'z protocol_scheme \<Rightarrow> 'z protocol_scheme \<Rightarrow> bool" where
  "found_sent E s k i r ms w w1 \<longleftrightarrow> quiet w w1 \<and> flow_inv E w1 \<and> client_of s k w1
     \<and> items (outboundMsgs (client_at k w1)) = ms
     \<and> (case r of None \<Rightarrow> outgoing k w i = None
        | Some j \<Rightarrow> j < length ms \<and> m_msgid (ms ! j) = i \<and> outgoing k w i = Some (phase (ms ! j)))"

lemma find_start:
  assumes "flow_inv E w" "client_of s k w" "p = cur_pos \<or> p = (\<lambda>_. None)"
  shows "\<exists>w0 r l w1. find_client s w = Some (k, w0)
    \<and> l_find ((outboundMsgs (client_at k w0))\<lparr>cur_pos := p (outboundMsgs (client_at k w0))\<rparr>) (messageIDCompare i) = (r, l)
    \<and> w1 = upd_client k (\<lambda>c. c\<lparr>outboundMsgs := l\<rparr>) w0 \<and> found_sent E s k i r (items l) w w1"
proof -
  obtain w0 where f: "find_client s w = Some (k, w0)" "quiet w w0" using find_quiet [OF assms(2)] by blast
  then have kept: "messages_kept w w0" by (simp add: quiet_def)
  note i0 = kept_flow_inv [OF kept assms(1)] and c0 = kept_client_of [OF kept assms(2)]
  obtain r l where l: "l_find ((outboundMsgs (client_at k w0))\<lparr>cur_pos := p (outboundMsgs (client_at k w0))\<rparr>)
      (messageIDCompare i) = (r, l)" by fastforce
  define w1 where "w1 = upd_client k (\<lambda>c. c\<lparr>outboundMsgs := l\<rparr>) w0"
  have "p (outboundMsgs (client_at k w0)) = cur_pos (outboundMsgs (client_at k w0)) \<or> p (outboundMsgs (client_at k w0)) = None"
    using assms(3) by auto
  note w1 = find_outbound_step [OF i0 c0 l this w1_def]
  have kept1: "messages_kept w0 w1" using w1(1) by (simp add: quiet_def)
  have og: "outgoing k w0 = outgoing k w" using kept_outgoing [OF kept client_of_less [OF assms(2)]] .
  have "case r of None \<Rightarrow> outgoing k w i = None
      | Some j \<Rightarrow> j < length (items l) \<and> m_msgid (items l ! j) = i \<and> outgoing k w i = Some (phase (items l ! j))"
    using w1(3,4) unfolding og by (cases r) simp_all
  moreover have "items (outboundMsgs (client_at k w1)) = items l" by (simp add: w1(5))
  ultimately have "found_sent E s k i r (items l) w w1"
    unfolding found_sent_def
    using quiet_trans [OF f(2) w1(1)] kept_flow_inv [OF kept1 i0] kept_client_of [OF kept1 c0] by blast
  then show ?thesis using f(1) l w1_def by blast
qed

lemma quiet_outgoing: "quiet w w' \<Longrightarrow> client_of s k w \<Longrightarrow> outgoing k w' = outgoing k w"
  unfolding quiet_def using kept_outgoing client_of_less by blast

lemma finish_ack_step:
  assumes "flow_inv E w" "client_of s k w" "j < length (items (outboundMsgs (client_at k w)))"
  obtains rc pub w' where "finish_outbound per k j stem wantPub w = Some (rc, pub, w')" "\<not> wantPub \<Longrightarrow> pub = NULL"
    "ack_step E s k pub ((outgoing k w)(m_msgid (items (outboundMsgs (client_at k w)) ! j) := None)) w w'"
  using finish_outbound_step [OF assms refl, of stem wantPub] unfolding ack_step_def by metis

lemma count_sent_quiet: "quiet w (count_sent w)"
proof -
  have "client_at j (count_sent w) = client_at j w" "protocol.more (count_sent w) = protocol.more w" for j
    by (simp_all add: count_sent_def)
  then have "delivered j (count_sent w) = delivered j w" for j by (intro layer_delivered layer_more) simp_all
  moreover have "messages_kept w (count_sent w)" by (simp add: messages_kept_def count_sent_def client_at_def)
  ultimately show ?thesis by (simp add: quiet_def)
qed

lemma handlePubacks_step:
  assumes "flow_inv E w" "client_of s k w" "ack_msgId puback = Some i"
  shows "\<exists>rc pub w'. MQTTProtocol_handlePubacks per puback s wantPub w = Some (rc, pub, w') \<and> (\<not> wantPub \<longrightarrow> pub = NULL)
    \<and> ack_step E s k pub (if outgoing k w i = Some Await_ack then (outgoing k w)(i := None) else outgoing k w) w w'"
proof -
  obtain w0 r l w1 where f: "find_client s w = Some (k, w0)"
      and l: "l_find (outboundMsgs (client_at k w0)) (messageIDCompare i) = (r, l)"
      and w1: "w1 = upd_client k (\<lambda>c. c\<lparr>outboundMsgs := l\<rparr>) w0" and "found_sent E s k i r (items l) w w1"
    using find_start [OF assms(1,2), of cur_pos i] by force
  then have q: "quiet w w1" and i1: "flow_inv E w1" and c1: "client_of s k w1"
      and o1: "items (outboundMsgs (client_at k w1)) = items l"
      and r: "case r of None \<Rightarrow> outgoing k w i = None
        | Some j \<Rightarrow> j < length (items l) \<and> m_msgid (items l ! j) = i \<and> outgoing k w i = Some (phase (items l ! j))"
    unfolding found_sent_def by blast+
  note og = quiet_outgoing [OF q assms(2)]
  have d: "MQTTProtocol_handlePubacks per puback s wantPub w =
      (case r of None \<Rightarrow> Some (TCPSOCKET_COMPLETE, NULL, w1)
       | Some j \<Rightarrow> if m_qos (items l ! j) \<noteq> 1 then Some (TCPSOCKET_COMPLETE, NULL, w1)
                   else finish_outbound per k j (sent_stem (m_MQTTVersion (items l ! j))) wantPub w1)"
    by (cases r) (simp_all add: MQTTProtocol_handlePubacks_def f assms(3) l w1 Let_def)
  show ?thesis
  proof (cases "outgoing k w i = Some Await_ack")
    case True
    then obtain j where j: "r = Some j" "j < length (items l)" "m_msgid (items l ! j) = i" "phase (items l ! j) = Await_ack"
      using r by (cases r) auto
    then have "m_qos (items l ! j) = 1" using phase_cases(1) [OF i1 c1, of "items l ! j"] o1 by simp
    moreover obtain rc pub w' where "finish_outbound per k j (sent_stem (m_MQTTVersion (items l ! j))) wantPub w1 = Some (rc, pub, w')"
        "\<not> wantPub \<Longrightarrow> pub = NULL" "ack_step E s k pub ((outgoing k w)(i := None)) w1 w'"
      using finish_ack_step [OF i1 c1, of j] j o1 og by metis
    ultimately show ?thesis using d j(1) quiet_then_ack [OF q] True by auto
  next
    case False
    have "r = None \<or> (\<exists>j. r = Some j \<and> m_qos (items l ! j) \<noteq> 1)"
      using False r phase_cases(1) [OF i1 c1, unfolded o1] by (cases r) auto
    then have "MQTTProtocol_handlePubacks per puback s wantPub w = Some (TCPSOCKET_COMPLETE, NULL, w1)"
      using d by auto
    then show ?thesis using quiet_ack_step [OF assms(1,2) q] False by auto
  qed
qed

lemma handlePubcomps_step:
  assumes "flow_inv E w" "client_of s k w" "ack_msgId pubcomp = Some i"
  shows "\<exists>rc pub w'. MQTTProtocol_handlePubcomps per pubcomp s wantPub w = Some (rc, pub, w') \<and> (\<not> wantPub \<longrightarrow> pub = NULL)
    \<and> ack_step E s k pub (if outgoing k w i = Some Await_comp then (outgoing k w)(i := None) else outgoing k w) w w'"
proof -
  obtain w0 r l w1 where f: "find_client s w = Some (k, w0)"
      and l: "l_find (outboundMsgs (client_at k w0)) (messageIDCompare i) = (r, l)"
      and w1: "w1 = upd_client k (\<lambda>c. c\<lparr>outboundMsgs := l\<rparr>) w0" and "found_sent E s k i r (items l) w w1"
    using find_start [OF assms(1,2), of cur_pos i] by force
  then have q: "quiet w w1" and i1: "flow_inv E w1" and c1: "client_of s k w1"
      and o1: "items (outboundMsgs (client_at k w1)) = items l"
      and r: "case r of None \<Rightarrow> outgoing k w i = None
        | Some j \<Rightarrow> j < length (items l) \<and> m_msgid (items l ! j) = i \<and> outgoing k w i = Some (phase (items l ! j))"
    unfolding found_sent_def by blast+
  note og = quiet_outgoing [OF q assms(2)]
  have d: "MQTTProtocol_handlePubcomps per pubcomp s wantPub w =
      (case r of None \<Rightarrow> Some (TCPSOCKET_COMPLETE, NULL, w1)
       | Some j \<Rightarrow> if m_qos (items l ! j) \<noteq> 2 \<or> nextMessageType (items l ! j) \<noteq> Some PUBCOMP
                   then Some (TCPSOCKET_COMPLETE, NULL, w1)
                   else map_option (\<lambda>(rc, pub, w2). (rc, pub, count_sent w2))
                     (finish_outbound per k j (sent_stem (m_MQTTVersion (items l ! j))) wantPub w1))"
    by (cases r) (simp_all add: MQTTProtocol_handlePubcomps_def f assms(3) l w1 Let_def)
  show ?thesis
  proof (cases "outgoing k w i = Some Await_comp")
    case True
    then obtain j where j: "r = Some j" "j < length (items l)" "m_msgid (items l ! j) = i" "phase (items l ! j) = Await_comp"
      using r by (cases r) auto
    then have "m_qos (items l ! j) = 2" "nextMessageType (items l ! j) = Some PUBCOMP"
      using phase_cases(3) [OF i1 c1, of "items l ! j"] o1 by simp_all
    moreover obtain rc pub w' where "finish_outbound per k j (sent_stem (m_MQTTVersion (items l ! j))) wantPub w1 = Some (rc, pub, w')"
        "\<not> wantPub \<Longrightarrow> pub = NULL" "ack_step E s k pub ((outgoing k w)(i := None)) w1 w'"
      using finish_ack_step [OF i1 c1, of j] j o1 og by metis
    ultimately show ?thesis using d j(1) quiet_then_ack [OF q ack_step_quiet [OF _ count_sent_quiet]] True by auto
  next
    case False
    have "r = None \<or> (\<exists>j. r = Some j \<and> (m_qos (items l ! j) \<noteq> 2 \<or> nextMessageType (items l ! j) \<noteq> Some PUBCOMP))"
      using False r phase_cases(3) [OF i1 c1, unfolded o1] by (cases r) auto
    then have "MQTTProtocol_handlePubcomps per pubcomp s wantPub w = Some (TCPSOCKET_COMPLETE, NULL, w1)"
      using d by auto
    then show ?thesis using quiet_ack_step [OF assms(1,2) q] False by auto
  qed
qed

text \<open>The message waits for its \<open>PUBCOMP\<close> from now on.\<close>

lemma await_comp_step:
  assumes "flow_inv E w" "client_of s k w" "j < length (items (outboundMsgs (client_at k w)))"
    and m: "m = items (outboundMsgs (client_at k w)) ! j" "m_qos m = 2"
    and w': "w' = upd_client k (\<lambda>c. c\<lparr>outboundMsgs := l_update j
       (\<lambda>m. m\<lparr>nextMessageType := Some PUBCOMP, lastTouch := t\<rparr>) (outboundMsgs c)\<rparr>) w"
  shows "ack_step E s k NULL ((outgoing k w)(m_msgid m \<mapsto> Await_comp)) w w'"
proof -
  note k = client_of_less [OF assms(2)]
  note ok = flow_invD [OF assms(1) k]
  define g :: "message \<Rightarrow> message" where "g = (\<lambda>m. m\<lparr>nextMessageType := Some PUBCOMP, lastTouch := t\<rparr>)"
  define f :: "client \<Rightarrow> client" where "f = (\<lambda>c. c\<lparr>outboundMsgs := l_update j g (outboundMsgs c)\<rparr>)"
  have f [simp]: "outboundMsgs (f c) = l_update j g (outboundMsgs c)" "inboundMsgs (f c) = inboundMsgs c"
      "c_net (f c) = c_net c" "messageQueue (f c) = messageQueue c" for c
    by (simp_all add: f_def)
  have g [simp]: "m_publish (g m) = m_publish m" "m_qos (g m) = m_qos m" "m_msgid (g m) = m_msgid m"
      "nextMessageType (g m) = Some PUBCOMP" for m
    by (simp_all add: g_def)
  have w': "w' = upd_client k f w" by (simp add: w' f_def g_def)
  let ?ms = "items (outboundMsgs (client_at k w))"
  have mem: "m \<in> set ?ms" using assms(3) m(1) by simp
  have "refs_of (?ms[j := g m]) + ptr_refs (m_publish m) = refs_of ?ms + ptr_refs (m_publish m)"
    using refs_of_update [OF assms(3), of "g m"] m(1) by simp
  then have refs: "all_refs w' = all_refs w"
    unfolding w' using m(1) by (intro all_refs_upd_same) (simp add: client_refs_def)
  have p: "pub_inv E w'"
    using assms(1) refs pub_inv_cong [of E w w' E] by (simp add: flow_inv_def w')
  have d: "distinct (map m_msgid ?ms)" "cur_ok (outboundMsgs (client_at k w))"
    using ok(2) by (simp_all add: outbound_ok_def)
  have ids: "map m_msgid (?ms[j := g m]) = map m_msgid ?ms"
    using assms(3) m(1) by (simp add: map_update list_update_same_conv)
  have out: "outbound_ok (l_update j g (outboundMsgs (client_at k w)))"
    unfolding outbound_ok_def l_update_items m(1) [symmetric] ids
  proof (intro conjI ballI)
    fix m' assume "m' \<in> set (?ms[j := g m])"
    then have "m' \<in> set ?ms \<or> m' = g m" using set_update_subset_insert [of ?ms j "g m"] by blast
    then show "m_publish m' \<noteq> NULL"
      "m_qos m' = 1 \<or> m_qos m' = 2 \<and> nextMessageType m' \<in> {Some PUBREC, Some PUBCOMP}"
      using ok(2) mem m(2) by (auto simp: outbound_ok_def)
  qed (use d in simp_all)
  have i': "flow_inv E w'"
    using p out ok(1) flow_invD [OF assms(1)] unfolding w' by (intro flow_inv_upd [OF _ k]) simp_all
  have c': "client_of s k w'" unfolding w' by (rule client_of_upd [OF assms(2)]) simp
  have s': "inbound_same w w'" unfolding w' by (rule upd_outbound_inbound) simp_all
  have "by_id (?ms[j := g m]) = (by_id ?ms)(m_msgid m \<mapsto> g m)"
    using by_id_update [OF d(1) assms(3), of "g m"] m(1) by simp
  then have o': "outgoing k w' = (outgoing k w)(m_msgid m \<mapsto> Await_comp)"
    using k m by (auto simp: outgoing_def w' fun_eq_iff phase_def)
  have "outgoing i w' = outgoing i w" if "i < length (items (clients w))" "i \<noteq> k" for i
    using that by (simp add: outgoing_def w' fun_eq_iff)
  then show ?thesis using i' c' s' o' by (simp add: ack_step_def)
qed

lemma ack_step_acknowledge:
  assumes "ack_step E s k NULL out w w1"
  shows "\<exists>rc w'. (case Socket_noPendingWrites s w1 of
             (idle, w2) \<Rightarrow> map_option (\<lambda>(rc, w3). (rc, pub, w3)) (acknowledge per k (\<not> idle) type v i w2))
     = Some (rc, pub, w') \<and> ack_step E s k NULL out w w'"
proof -
  obtain idle w2 where n: "Socket_noPendingWrites s w1 = (idle, w2)" by fastforce
  then have q: "quiet w1 w2" using noPendingWrites_quiet [of w1 s] by simp
  have a: "ack_step E s k NULL out w w2" using ack_step_quiet [OF assms q] .
  then have "client_of s k w2" by (simp add: ack_step_def)
  then obtain rc w3 where "acknowledge per k (\<not> idle) type v i w2 = Some (rc, w3)" "quiet w2 w3"
    using acknowledge_quiet by blast
  then show ?thesis using n ack_step_quiet [OF a] by auto
qed


lemma handlePubrecs_step:
  assumes "flow_inv E w" "client_of s k w" "ack_msgId pubrec = Some i"
  shows "\<exists>rc pub w'. MQTTProtocol_handlePubrecs per pubrec s wantPub w = Some (rc, pub, w') \<and> (\<not> wantPub \<longrightarrow> pub = NULL)
    \<and> ack_step E s k pub
        (if outgoing k w i = Some Await_rec
         then (if pubrec_refused pubrec then (outgoing k w)(i := None) else (outgoing k w)(i \<mapsto> Await_comp))
         else outgoing k w) w w'"
proof -
  obtain w0 r l w1 where f: "find_client s w = Some (k, w0)"
      and l: "l_find ((outboundMsgs (client_at k w0))\<lparr>cur_pos := None\<rparr>) (messageIDCompare i) = (r, l)"
      and w1: "w1 = upd_client k (\<lambda>c. c\<lparr>outboundMsgs := l\<rparr>) w0" and "found_sent E s k i r (items l) w w1"
    using find_start [OF assms(1,2), of "\<lambda>_. None" i] by force
  then have q: "quiet w w1" and i1: "flow_inv E w1" and c1: "client_of s k w1"
      and o1: "items (outboundMsgs (client_at k w1)) = items l"
      and r: "case r of None \<Rightarrow> outgoing k w i = None
        | Some j \<Rightarrow> j < length (items l) \<and> m_msgid (items l ! j) = i \<and> outgoing k w i = Some (phase (items l ! j))"
    unfolding found_sent_def by blast+
  note og = quiet_outgoing [OF q assms(2)]
  define answer where "answer = (\<lambda>w2. case Socket_noPendingWrites s w2 of
             (idle, w3) \<Rightarrow> map_option (\<lambda>(rc, w4). (rc, NULL :: nat cptr, w4))
               (acknowledge per k (\<not> idle) PUBREL (ack_MQTTVersion pubrec) i w3))"
  define next_state where "next_state = (\<lambda>j. upd_client k (\<lambda>c. c\<lparr>outboundMsgs := l_update j
     (\<lambda>m. m\<lparr>nextMessageType := Some PUBCOMP, lastTouch := MQTTTime_now w1\<rparr>) (outboundMsgs c)\<rparr>) w1)"
  have d: "MQTTProtocol_handlePubrecs per pubrec s wantPub w =
      (case r of None \<Rightarrow> answer w1
       | Some j \<Rightarrow> if m_qos (items l ! j) \<noteq> 2 \<or> nextMessageType (items l ! j) \<noteq> Some PUBREC then answer w1
                   else if pubrec_refused pubrec
                   then map_option (\<lambda>(rc, pub, w2). (rc, pub, count_sent w2))
                     (finish_outbound per k j (sent_stem (ack_MQTTVersion pubrec)) wantPub w1)
                   else answer (next_state j))"
  proof (cases r)
    case None
    then show ?thesis by (simp add: MQTTProtocol_handlePubrecs_def f assms(3) l w1 [symmetric] answer_def)
  next
    case (Some j)
    obtain x where x: "finish_outbound per k j (sent_stem (ack_MQTTVersion pubrec)) wantPub w1 = x" by simp
    show ?thesis
      unfolding MQTTProtocol_handlePubrecs_def f bind.simps prod.case assms(3) l Let_def w1 [symmetric] Some option.case
        pubrec_refused_def [symmetric] x
      by (cases x) (auto simp: answer_def next_state_def split: prod.splits)
  qed
  show ?thesis
  proof (cases "outgoing k w i = Some Await_rec")
    case True
    then obtain j where j: "r = Some j" "j < length (items l)" "m_msgid (items l ! j) = i" "phase (items l ! j) = Await_rec"
      using r by (cases r) auto
    then have m: "m_qos (items l ! j) = 2" "nextMessageType (items l ! j) = Some PUBREC"
      using phase_cases(2) [OF i1 c1, of "items l ! j"] o1 by simp_all
    show ?thesis
    proof (cases "pubrec_refused pubrec")
      case refused: True
      obtain rc pub w' where "finish_outbound per k j (sent_stem (ack_MQTTVersion pubrec)) wantPub w1 = Some (rc, pub, w')"
          "\<not> wantPub \<Longrightarrow> pub = NULL" "ack_step E s k pub ((outgoing k w)(i := None)) w1 w'"
        using finish_ack_step [OF i1 c1, of j] j o1 og by metis
      then show ?thesis
        using d j(1) m quiet_then_ack [OF q ack_step_quiet [OF _ count_sent_quiet]] True refused by auto
    next
      case False
      have "ack_step E s k NULL ((outgoing k w)(i \<mapsto> Await_comp)) w1 (next_state j)"
        using await_comp_step [OF i1 c1, of j "items l ! j" "next_state j"] j o1 og m by (simp add: next_state_def)
      then have a: "ack_step E s k NULL ((outgoing k w)(i \<mapsto> Await_comp)) w (next_state j)" by (rule quiet_then_ack [OF q])
      show ?thesis
        using ack_step_acknowledge [OF a, where pub = "NULL :: nat cptr" and type = PUBREL and v = "ack_MQTTVersion pubrec" and i = i]
          d j(1) m True False by (auto simp: answer_def)
    qed
  next
    case False
    have "r = None \<or> (\<exists>j. r = Some j \<and> (m_qos (items l ! j) \<noteq> 2 \<or> nextMessageType (items l ! j) \<noteq> Some PUBREC))"
      using False r phase_cases(2) [OF i1 c1, unfolded o1] by (cases r) auto
    then have "MQTTProtocol_handlePubrecs per pubrec s wantPub w = answer w1" using d by auto
    then show ?thesis
      using ack_step_acknowledge [OF quiet_ack_step [OF assms(1,2) q], where pub = "NULL :: nat cptr" and type = PUBREL
          and v = "ack_MQTTVersion pubrec" and i = i] False by (auto simp: answer_def)
  qed
qed

end

end
