(* ===== verification/ProtocolReceive.thy ===== *)
theory ProtocolReceive
  imports ProtocolSteps
begin

text \<open>
  The handlers of \<open>PUBLISH\<close> and \<open>PUBREL\<close> as transitions of the messages that arrive.
\<close>

text \<open>The packet that a message with QoS 2 is delivered with.\<close>

definition received_packet :: "publish_packet \<Rightarrow> publish_packet" where
  "received_packet p = p\<lparr>pu_header := mk_header 0 0 (int (hdr_qos (pu_header p))) (of_bool (hdr_retain (pu_header p))),
     pu_properties := (if pu_MQTTVersion p \<ge> MQTTVERSION_5 then MQTTProperties_copy (pu_properties p)
                       else MQTTProperties_initializer), pu_mask := [0, 0, 0, 0]\<rparr>"

lemma message_publish_received:
  assumes "pb_topic pb = pu_topic publish" "pb_topiclen pb = pu_topiclen publish" "pb_payload pb = pu_payload publish"
    "pb_payloadlen pb = pu_payloadlen publish"
  shows "message_publish (inbound_message publish p) (Some pb) = received_packet publish"
  using assms by (simp add: message_publish_def inbound_message_def received_packet_def)

lemma received_packet_simps [simp]:
  "pu_topic (received_packet p) = pu_topic p" "pu_msgId (received_packet p) = pu_msgId p"
  "publish_payload (received_packet p) = publish_payload p"
  by (auto simp: received_packet_def publish_payload_def split: cptr.splits)

lemma inbound_message_simps [simp]:
  "m_msgid (inbound_message publish p) = pu_msgId publish" "m_qos (inbound_message publish p) = hdr_qos (pu_header publish)"
  "m_MQTTVersion (inbound_message publish p) = pu_MQTTVersion publish" "m_publish (inbound_message publish p) = Ptr p"
  "nextMessageType (inbound_message publish p) = Some PUBREL"
  by (simp_all add: inbound_message_def)

lemma items_replace:
  "j < length (items l) \<Longrightarrow> items (l_remove_at (Suc j) (l_insert l m (Some j))) = (items l)[j := m]"
  by (simp add: l_remove_at_def l_insert_def drop_nth_def upd_conv_take_nth_drop min_def)

lemma cur_ok_replace:
  "cur_ok l \<Longrightarrow> j < length (items l) \<Longrightarrow> cur_ok (l_remove_at (Suc j) (l_insert l m (Some j)))"
  by (intro cur_ok_l_remove_at cur_ok_l_insert) (auto simp: l_insert_def)

text \<open>
  What is expected of a \<open>PUBLISH\<close> with the content \<open>c\<close>, or \<open>c2\<close> once it has been stored: which messages
  are being received afterwards, with what they still have to deliver, and what is delivered now.
\<close>

definition receive_publish ::
    "nat \<Rightarrow> bool \<Rightarrow> int \<Rightarrow> 'm \<Rightarrow> 'm \<Rightarrow> (int \<Rightarrow> 'm option option) \<Rightarrow> (int \<Rightarrow> 'm option option) \<times> 'm list" where
  "receive_publish qos v5 i c c2 pend =
     (if qos = 2 then (if v5 then (pend(i \<mapsto> None), if pend i = None then [c2] else [])
                       else (pend(i \<mapsto> Some c2), []))
      else (pend, if qos < 2 then [c] else []))"

context protocol_layer
begin

definition arrive_step ::
    "nat multiset \<Rightarrow> int \<Rightarrow> nat \<Rightarrow> (int \<Rightarrow> 'm option option) \<Rightarrow> 'm list \<Rightarrow> 'z protocol_scheme \<Rightarrow> 'z protocol_scheme \<Rightarrow> bool" where
  "arrive_step E s k pend ms w w' \<longleftrightarrow> flow_inv E w' \<and> client_of s k w'
     \<and> length (items (clients w')) = length (items (clients w))
     \<and> arriving k w' = pend \<and> delivered k w' = delivered k w @ ms
     \<and> (\<forall>i < length (items (clients w)). outgoing i w' = outgoing i w
          \<and> (i \<noteq> k \<longrightarrow> arriving i w' = arriving i w \<and> delivered i w' = delivered i w))"

lemma arrive_step_trans:
  assumes "arrive_step E s k pend ms w w1" "arrive_step E' s k pend' ms' w1 w2"
  shows "arrive_step E' s k pend' (ms @ ms') w w2"
  using assms by (simp add: arrive_step_def)

lemma quiet_arrive:
  assumes "flow_inv E w" "client_of s k w" "quiet w w'"
  shows "arrive_step E s k (arriving k w) [] w w'"
proof -
  have kept: "messages_kept w w'" and d: "\<forall>j < length (items (clients w)). delivered j w' = delivered j w"
    using assms(3) by (simp_all add: quiet_def)
  note k = client_of_less [OF assms(2)]
  have "outgoing i w' = outgoing i w" "arriving i w' = arriving i w" "delivered i w' = delivered i w"
    if "i < length (items (clients w))" for i
    using kept_outgoing [OF kept that] quiet_arriving [OF assms(3) that] d that by simp_all
  then show ?thesis
    using kept_flow_inv [OF kept assms(1)] kept_client_of [OF kept assms(2)] k kept
    by (simp add: arrive_step_def messages_kept_def)
qed

lemma arrive_quiet:
  assumes "arrive_step E s k pend ms w w1" "quiet w1 w2"
  shows "arrive_step E s k pend ms w w2"
proof -
  have "flow_inv E w1" "client_of s k w1" "arriving k w1 = pend" using assms(1) by (simp_all add: arrive_step_def)
  then show ?thesis using arrive_step_trans [OF assms(1) quiet_arrive [OF _ _ assms(2)]] by simp
qed

lemma quiet_then_arrive:
  assumes "flow_inv E w" "client_of s k w" "quiet w w1" "arrive_step E' s k pend ms w1 w2"
  shows "arrive_step E' s k pend ms w w2"
  using arrive_step_trans [OF quiet_arrive [OF assms(1-3)] assms(4)] by simp

text \<open>Handing a packet to the layer above.\<close>

lemma deliver_step:
  assumes "flow_inv E w" "client_of s k w" "pu_topic pub = Ptr t" "publish_payload pub \<noteq> None"
  obtains w' where "process_publication app pub k ap w = Some w'" "arrive_step E s k (arriving k w) [content pub] w w'"
    "messages_kept w w'"
proof -
  note k = client_of_less [OF assms(2)]
  obtain w' where w': "process_publication app pub k ap w = Some w'" "messages_kept w w'"
      "delivered k w' = delivered k w @ [content pub]" "\<forall>j. j \<noteq> k \<longrightarrow> delivered j w' = delivered j w"
    using publication_law [OF k assms(3,4)] by blast
  have o: "outgoing i w' = outgoing i w" if "i < length (items (clients w))" for i
    using kept_outgoing [OF w'(2) that] .
  have a: "arriving i w' = arriving i w" if "i < length (items (clients w))" for i
    using w'(2) that by (intro arriving_heap) (simp_all add: messages_kept_def)
  have "length (items (clients w')) = length (items (clients w))" using w'(2) by (simp add: messages_kept_def)
  then have "arrive_step E s k (arriving k w) [content pub] w w'"
    using kept_flow_inv [OF w'(2) assms(1)] kept_client_of [OF w'(2) assms(2)] w'(3,4) o a k by (simp add: arrive_step_def)
  then show thesis using that w' by blast
qed

text \<open>Changes of the messages of client \<open>k\<close> that arrive.\<close>

lemma upd_inbound_step:
  assumes "flow_inv E w" "client_of s k w"
    and f: "\<And>c. outboundMsgs (f c) = outboundMsgs c" "\<And>c. c_net (f c) = c_net c" "\<And>c. messageQueue (f c) = messageQueue c"
    and ok: "inbound_ok (pub_heap w) (inboundMsgs (f (client_at k w)))"
    and refs: "refs_of (items (inboundMsgs (f (client_at k w)))) + E' = refs_of (items (inboundMsgs (client_at k w))) + E"
  shows "arrive_step E' s k (arriving k (upd_client k f w)) [] w (upd_client k f w)"
proof -
  note k = client_of_less [OF assms(2)]
  let ?w = "upd_client k f w"
  let ?a = "refs_of (items (inboundMsgs (client_at k w)))" and ?b = "refs_of (items (inboundMsgs (f (client_at k w))))"
    and ?o = "refs_of (items (outboundMsgs (client_at k w)))"
  have "all_refs ?w + (?a + ?o) = all_refs w + (?b + ?o)"
    using all_refs_upd_client [OF k, of f] by (simp add: client_refs_def f(1))
  then have "all_refs ?w + ?a = all_refs w + ?b" by simp
  then have "all_refs ?w + ?a + E' = all_refs w + (?b + E')" by (simp add: add.assoc)
  also have "\<dots> = all_refs w + E + ?a" unfolding refs by (simp add: ac_simps)
  finally have "all_refs ?w + E' = all_refs w + E" by (simp add: ac_simps)
  then have p: "pub_inv E' ?w"
    using assms(1) pub_inv_cong [of E w ?w E'] by (simp add: flow_inv_def)
  have i: "flow_inv E' ?w"
    using flow_invD [OF assms(1)] k ok by (intro flow_inv_upd [OF p k]) (simp_all add: f(1))
  have c: "client_of s k ?w" by (rule client_of_upd [OF assms(2)]) (simp add: f(2))
  have d: "delivered i ?w = delivered i w" if "i < length (items (clients w))" for i
    using that by (cases "i = k") (simp_all add: layer_delivered layer_more f(3))
  have o: "outgoing i ?w = outgoing i w" if "i < length (items (clients w))" for i
    using that by (cases "i = k") (simp_all add: outgoing_def fun_eq_iff f(1))
  have a: "arriving i ?w = arriving i w" if "i < length (items (clients w))" "i \<noteq> k" for i
    using that by (intro arriving_heap) simp_all
  show ?thesis using i c d o a k by (simp add: arrive_step_def)
qed

text \<open>Forgetting a publication that only the caller refers to.\<close>

lemma drop_step:
  assumes "flow_inv (add_mset p E) w" "client_of s k w"
  shows "arrive_step E s k (arriving k w) [] w (drop_publication p w)"
proof -
  let ?w = "drop_publication p w"
  have p: "pub_inv (add_mset p E) w" using assms(1) by (simp add: flow_inv_def)
  note nr = drop_publication_inv(2) [OF p]
  have eq: "?w = w\<lparr>pub_heap := pub_heap ?w, publications := publications ?w\<rparr>" by (simp add: drop_publication_def)
  have h: "pub_heap ?w q = pub_heap w q" if "q \<in># all_refs w" for q using that nr by auto
  note s = heap_inbound [OF eq h]
  have "flow_inv E ?w"
    unfolding flow_inv_def drop_publication_fields(1)
  proof (intro conjI ballI)
    fix c assume "c \<in> set (items (clients w))"
    then obtain i where i: "i < length (items (clients w))" "c = client_at i w" by (auto simp: client_in_set)
    show "outbound_ok (outboundMsgs c)" using flow_invD(2) [OF assms(1) i(1)] i(2) by simp
    have "pub_heap ?w q = pub_heap w q" if "q \<in># refs_of (items (inboundMsgs (client_at i w)))" for q
      using h mset_subset_eqD [OF refs_in_all(1) [OF i(1)] that] .
    then show "inbound_ok (pub_heap ?w) (inboundMsgs c)"
      using inbound_ok_heap [OF flow_invD(1) [OF assms(1) i(1)]] i(2) by simp
  qed (rule drop_publication_inv(1) [OF p])
  moreover have "client_of s k ?w" using assms(2) unfolding client_of_def drop_publication_fields .
  moreover have "outgoing i ?w = outgoing i w" for i by (simp add: outgoing_def fun_eq_iff)
  ultimately show ?thesis
    using s client_of_less [OF assms(2)] by (simp add: arrive_step_def inbound_same_def)
qed

section \<open>PUBREL\<close>

lemma find_inbound_step:
  assumes "flow_inv E w" "client_of s k w"
  shows "\<exists>r l w1. l_find (inboundMsgs (client_at k w)) (messageIDCompare i) = (r, l)
    \<and> w1 = upd_client k (\<lambda>c. c\<lparr>inboundMsgs := l\<rparr>) w \<and> quiet w w1
    \<and> items l = items (inboundMsgs (client_at k w)) \<and> cur_ok l
    \<and> (case r of None \<Rightarrow> by_id (items l) i = None
       | Some j \<Rightarrow> j < length (items l) \<and> m_msgid (items l ! j) = i \<and> by_id (items l) i = Some (items l ! j))"
proof -
  note k = client_of_less [OF assms(2)]
  let ?l = "inboundMsgs (client_at k w)"
  have ok: "cur_ok ?l" "distinct (map m_msgid (items ?l))"
    using flow_invD(1) [OF assms(1) k] by (simp_all add: inbound_ok_def)
  obtain r l where l: "l_find ?l (messageIDCompare i) = (r, l)" by fastforce
  have il: "items l = items ?l" "cur_ok l"
    using items_l_find [of ?l "messageIDCompare i"] cur_ok_l_find [OF ok(1), of "messageIDCompare i"] l by simp_all
  define w1 where "w1 = upd_client k (\<lambda>c. c\<lparr>inboundMsgs := l\<rparr>) w"
  have "messages_kept w w1" unfolding w1_def by (rule upd_client_kept) (simp_all add: il)
  then have "quiet w w1" unfolding w1_def by (rule upd_client_quiet) simp
  moreover have "case r of None \<Rightarrow> by_id (items l) i = None
       | Some j \<Rightarrow> j < length (items l) \<and> m_msgid (items l ! j) = i \<and> by_id (items l) i = Some (items l ! j)"
    using l il by (cases rule: find_message [OF ok, of i]) auto
  ultimately show ?thesis using l il w1_def by blast
qed

text \<open>The end of an exchange in the model of the messages that arrive.\<close>

lemma remove_inbound_step:
  assumes "flow_inv E w" "client_of s k w" "j < length (items (inboundMsgs (client_at k w)))"
    and m: "m = items (inboundMsgs (client_at k w)) ! j"
  shows "arrive_step (ptr_refs (m_publish m) + E) s k ((arriving k w)(m_msgid m := None)) [] w
    (upd_client k (\<lambda>c. c\<lparr>inboundMsgs := l_remove_at j (inboundMsgs c)\<rparr>) w)"
proof -
  note k = client_of_less [OF assms(2)]
  note ok = flow_invD(1) [OF assms(1) k]
  define f :: "client \<Rightarrow> client" where "f = (\<lambda>c. c\<lparr>inboundMsgs := l_remove_at j (inboundMsgs c)\<rparr>)"
  have f [simp]: "outboundMsgs (f c) = outboundMsgs c" "inboundMsgs (f c) = l_remove_at j (inboundMsgs c)"
      "c_net (f c) = c_net c" "messageQueue (f c) = messageQueue c" for c
    by (simp_all add: f_def)
  have d: "distinct (map m_msgid (items (inboundMsgs (client_at k w))))" using ok by (simp add: inbound_ok_def)
  have r: "refs_of (items (inboundMsgs (f (client_at k w)))) + (ptr_refs (m_publish m) + E)
      = refs_of (items (inboundMsgs (client_at k w))) + E"
    using refs_of_drop_nth [OF assms(3)] m by (simp add: add.assoc [symmetric])
  have "arriving k (upd_client k f w) = (arriving k w)(m_msgid m := None)"
    using k by (auto simp: arriving_def m fun_eq_iff by_id_drop_nth [OF d assms(3)])
  then show ?thesis
    using upd_inbound_step [OF assms(1,2), of f "ptr_refs (m_publish m) + E"] inbound_ok_remove [OF ok assms(3)] r
    by (simp add: f_def [symmetric])
qed

text \<open>The acknowledgement at the end.\<close>

lemma arrive_acknowledge:
  assumes "arrive_step E s k pend ms w w2"
  shows "\<exists>rc w'. (case Socket_noPendingWrites s w2 of (idle, w6) \<Rightarrow> acknowledge per k (\<not> idle) type v i w6)
      = Some (rc, w') \<and> arrive_step E s k pend ms w w'"
proof -
  obtain idle w6 where n: "Socket_noPendingWrites s w2 = (idle, w6)" by fastforce
  then have "quiet w2 w6" using noPendingWrites_quiet [of w2 s] by simp
  then have a6: "arrive_step E s k pend ms w w6" by (rule arrive_quiet [OF assms])
  then have "client_of s k w6" by (simp add: arrive_step_def)
  then obtain rc w' where "acknowledge per k (\<not> idle) type v i w6 = Some (rc, w')" "quiet w6 w'"
    using acknowledge_quiet by blast
  then show ?thesis using n arrive_quiet [OF a6] by auto
qed

lemma stored_live:
  assumes "flow_inv E w" "k < length (items (clients w))" "m \<in> set (items (inboundMsgs (client_at k w)))"
    "m_publish m = Ptr p"
  shows "pub_heap w p \<noteq> None"
proof -
  have "p \<in># all_refs w"
    using ref_in_refs_of [OF assms(3,4)] refs_in_all(1) [OF assms(2)] by (auto dest: mset_subset_eqD)
  then have "p \<in># mset (items (publications w))" using assms(1) by (simp add: flow_inv_def pub_inv_def)
  then show ?thesis using assms(1) by (simp add: flow_inv_def pub_inv_def)
qed

text \<open>Delivering a message that is held, which is not done with version 5.\<close>

lemma deliver_held:
  assumes "flow_inv E w" "client_of s k w" "m \<in> set (items (inboundMsgs (client_at k w)))"
  obtains pb w' where "(case m_publish m of NULL \<Rightarrow> Some None | Ptr p \<Rightarrow> map_option Some (pub_heap w p)) = Some pb"
    "(if m_MQTTVersion m \<ge> MQTTVERSION_5 then Some w
      else process_publication app (message_publish m pb) k False w) = Some w'" "messages_kept w w'"
    "arrive_step E s k (arriving k w) (case holds (pub_heap w) m of None \<Rightarrow> [] | Some c \<Rightarrow> [c]) w w'"
proof -
  note k = client_of_less [OF assms(2)]
  obtain pb where pb: "(case m_publish m of NULL \<Rightarrow> Some None | Ptr p \<Rightarrow> map_option Some (pub_heap w p)) = Some pb"
      "pb = (case m_publish m of NULL \<Rightarrow> None | Ptr p \<Rightarrow> pub_heap w p)"
    using stored_live [OF assms(1) k assms(3)] by (cases "m_publish m") auto
  show thesis
  proof (cases "m_MQTTVersion m \<ge> MQTTVERSION_5")
    case True
    then show thesis
      using that [OF pb(1)] quiet_arrive [OF assms(1,2) quiet_refl] by (simp add: holds_def)
  next
    case False
    then obtain p b t where p: "m_publish m = Ptr p" "pub_heap w p = Some b" "pb_topic b = Ptr t"
        "publish_payload (message_publish m (Some b)) \<noteq> None"
      using flow_invD(1) [OF assms(1) k] assms(3) by (auto simp: inbound_ok_def held_ok_def)
    then have "pu_topic (message_publish m pb) = Ptr t" "publish_payload (message_publish m pb) \<noteq> None"
      by (simp_all add: pb(2) message_publish_def)
    then obtain w' where "process_publication app (message_publish m pb) k False w = Some w'"
        "arrive_step E s k (arriving k w) [content (message_publish m pb)] w w'" "messages_kept w w'"
      using deliver_step [OF assms(1,2)] by metis
    then show thesis using that [OF pb(1)] False by (simp add: holds_def pb(2) p)
  qed
qed

text \<open>The message that is found is removed, its publication and the counter are updated.\<close>

definition end_inbound :: "nat \<Rightarrow> nat \<Rightarrow> message \<Rightarrow> 'z protocol_scheme \<Rightarrow> 'z protocol_scheme" where
  "end_inbound k j m w =
     (let w1 = (case m_publish m of NULL \<Rightarrow> w | Ptr p \<Rightarrow> drop_publication p w)
      in upd_client k (\<lambda>c. c\<lparr>inboundMsgs := l_remove_at j (inboundMsgs c)\<rparr>)
           (w1\<lparr>msgs_received := msgs_received w1 + 1\<rparr>))"

lemma end_inbound_step:
  assumes "flow_inv E w" "client_of s k w" "j < length (items (inboundMsgs (client_at k w)))"
    and m: "m = items (inboundMsgs (client_at k w)) ! j"
  shows "arrive_step E s k ((arriving k w)(m_msgid m := None)) [] w (end_inbound k j m w)"
proof -
  define f :: "client \<Rightarrow> client" where "f = (\<lambda>c. c\<lparr>inboundMsgs := l_remove_at j (inboundMsgs c)\<rparr>)"
  define w1 where "w1 = upd_client k f w"
  define w2 where "w2 = (case m_publish m of NULL \<Rightarrow> w1 | Ptr p \<Rightarrow> drop_publication p w1)"
  define w3 where "w3 = w2\<lparr>msgs_received := msgs_received w2 + 1\<rparr>"
  have a1: "arrive_step (ptr_refs (m_publish m) + E) s k ((arriving k w)(m_msgid m := None)) [] w w1"
    using remove_inbound_step [OF assms] by (simp add: w1_def f_def)
  then have 1: "flow_inv (ptr_refs (m_publish m) + E) w1" "client_of s k w1"
      "arriving k w1 = (arriving k w)(m_msgid m := None)"
    by (simp_all add: arrive_step_def)
  have "arrive_step E s k ((arriving k w)(m_msgid m := None)) [] w1 w2"
  proof (cases "m_publish m")
    case NULL
    then show ?thesis using quiet_arrive [OF _ 1(2) quiet_refl, of E] 1(1,3) by (simp add: w2_def)
  next
    case (Ptr p)
    then show ?thesis using drop_step [OF _ 1(2), of p E] 1(1,3) by (simp add: w2_def)
  qed
  then have a2: "arrive_step E s k ((arriving k w)(m_msgid m := None)) [] w w2"
    using arrive_step_trans [OF a1, of E "(arriving k w)(m_msgid m := None)" "[]" w2] by simp
  have c: "client_at i w3 = client_at i w2" "protocol.more w3 = protocol.more w2" for i by (simp_all add: w3_def)
  have "delivered i w3 = delivered i w2" for i using c by (intro layer_delivered layer_more) simp_all
  moreover have "messages_kept w2 w3" unfolding messages_kept_def c by (simp add: w3_def)
  ultimately have "quiet w2 w3" by (simp add: quiet_def)
  moreover have "w3 = end_inbound k j m w"
    unfolding w3_def w2_def w1_def end_inbound_def Let_def f_def [symmetric]
    by (cases "m_publish m") (simp_all add: upd_client_def drop_publication_def client_at_def)
  ultimately show ?thesis using arrive_quiet [OF a2] by simp
qed

lemma handlePubrels_step:
  assumes "flow_inv E w" "client_of s k w" "ack_msgId pubrel = Some i"
  shows "\<exists>rc w'. MQTTProtocol_handlePubrels per app pubrel s w = Some (rc, w')
    \<and> arrive_step E s k ((arriving k w)(i := None))
        (case arriving k w i of Some (Some c) \<Rightarrow> [c] | _ \<Rightarrow> []) w w'"
proof -
  obtain w0 where f: "find_client s w = Some (k, w0)" and q0: "quiet w w0" using find_quiet [OF assms(2)] by blast
  then have kept: "messages_kept w w0" by (simp add: quiet_def)
  note i0 = kept_flow_inv [OF kept assms(1)] and c0 = kept_client_of [OF kept assms(2)]
  obtain r l w1 where l: "l_find (inboundMsgs (client_at k w0)) (messageIDCompare i) = (r, l)"
      and w1: "w1 = upd_client k (\<lambda>c. c\<lparr>inboundMsgs := l\<rparr>) w0" and q1: "quiet w0 w1"
      and r: "case r of None \<Rightarrow> by_id (items l) i = None
       | Some j \<Rightarrow> j < length (items l) \<and> m_msgid (items l ! j) = i \<and> by_id (items l) i = Some (items l ! j)"
    using find_inbound_step [OF i0 c0, of i] by blast
  have q: "quiet w w1" using quiet_trans [OF q0 q1] .
  have kept1: "messages_kept w0 w1" using q1 by (simp add: quiet_def)
  note i1 = kept_flow_inv [OF kept1 i0] and c1 = kept_client_of [OF kept1 c0]
  note arr = quiet_arriving [OF q client_of_less [OF assms(2)]]
  have ci: "inboundMsgs (client_at k w1) = l" using client_of_less [OF c0] by (simp add: w1)
  have aw: "arriving k w i = map_option (holds (pub_heap w1)) (by_id (items l) i)"
    using arr ci by (metis arriving_def)
  show ?thesis
  proof (cases r)
    case None
    then have none: "arriving k w i = None" using r aw by simp
    then have "(arriving k w)(i := None) = arriving k w" by (simp add: fun_upd_idem)
    moreover have "MQTTProtocol_handlePubrels per app pubrel s w = (case Socket_noPendingWrites s w1 of
        (idle, w6) \<Rightarrow> acknowledge per k (\<not> idle) PUBCOMP (ack_MQTTVersion pubrel) i w6)"
      by (simp add: MQTTProtocol_handlePubrels_def f assms(3) l None w1 [symmetric])
    ultimately show ?thesis using arrive_acknowledge [OF quiet_arrive [OF assms(1,2) q]] none by simp
  next
    case (Some j)
    define m where "m = items l ! j"
    have j: "j < length (items l)" "m_msgid m = i" "by_id (items l) i = Some m" using r Some by (simp_all add: m_def)
    then have mem: "m \<in> set (items (inboundMsgs (client_at k w1)))" by (simp add: m_def ci)
    have mi: "m_qos m = 2" "nextMessageType m = Some PUBREL"
      using flow_invD(1) [OF i1 client_of_less [OF c1]] mem by (auto simp: inbound_ok_def)
    obtain pb w3 where w3: "(case m_publish m of NULL \<Rightarrow> Some None | Ptr p \<Rightarrow> map_option Some (pub_heap w1 p)) = Some pb"
        "(if m_MQTTVersion m \<ge> MQTTVERSION_5 then Some w1
          else process_publication app (message_publish m pb) k False w1) = Some w3" "messages_kept w1 w3"
        "arrive_step E s k (arriving k w1) (case holds (pub_heap w1) m of None \<Rightarrow> [] | Some c \<Rightarrow> [c]) w1 w3"
      using deliver_held [OF i1 c1 mem] .
    define ms where "ms = (case arriving k w i of Some (Some c) \<Rightarrow> [c] | _ \<Rightarrow> [])"
    have "(case holds (pub_heap w1) m of None \<Rightarrow> [] | Some c \<Rightarrow> [c]) = ms"
      by (simp add: ms_def aw j(3) split: option.splits)
    note a3 = w3(4) [unfolded this]
    define w4 where "w4 = snd (MQTTPersistence_remove per k
        (if m_MQTTVersion m \<ge> MQTTVERSION_5 then PERSISTENCE_V5_PUBLISH_RECEIVED else PERSISTENCE_PUBLISH_RECEIVED) i w3)"
    have q4: "quiet w3 w4" unfolding w4_def by (rule remove_quiet)
    note a4 = arrive_quiet [OF a3 q4]
    then have i4: "flow_inv E w4" and c4: "client_of s k w4" and arr4: "arriving k w4 = arriving k w"
      using arr by (simp_all add: arrive_step_def)
    have "items (inboundMsgs (client_at k w4)) = items l"
      using w3(3) q4 ci client_of_less [OF c1] by (simp add: messages_kept_def quiet_def)
    then have a6: "arrive_step E s k ((arriving k w)(i := None)) [] w4 (end_inbound k j m w4)"
      using end_inbound_step [OF i4 c4, of j m] j arr4 by (simp add: m_def)
    have a5: "arrive_step E s k ((arriving k w)(i := None)) ms w (end_inbound k j m w4)"
      using quiet_then_arrive [OF assms(1,2) q arrive_step_trans [OF a4 a6]] by simp
    have "MQTTProtocol_handlePubrels per app pubrel s w = (case Socket_noPendingWrites s (end_inbound k j m w4) of
        (idle, w6) \<Rightarrow> acknowledge per k (\<not> idle) PUBCOMP (ack_MQTTVersion pubrel) i w6)"
      unfolding MQTTProtocol_handlePubrels_def f bind.simps prod.case assms(3) l Let_def w1 [symmetric] Some option.case
        m_def [symmetric]
      using mi by (simp add: w3(1,2) w4_def end_inbound_def Let_def split del: if_split)
    then show ?thesis using arrive_acknowledge [OF a5] by (simp add: ms_def)
  qed
qed

section \<open>PUBLISH\<close>

text \<open>Storing the publication: nothing refers to it yet.\<close>

lemma store_step:
  assumes "flow_inv E w" "client_of s k w" "pu_topic publish = Ptr t"
  obtains p w' where
    "MQTTProtocol_storePublication publish w = Some (p, publish\<lparr>pu_topic := NULL, pu_payload := NULL\<rparr>, w')"
    "flow_inv (add_mset p E) w'" "client_of s k w'" "clients w' = clients w" "inbound_same w w'"
    "pub_heap w' p = Some \<lparr>pb_topic = pu_topic publish, pb_topiclen = pu_topiclen publish, pb_payload = pu_payload publish,
         pb_payloadlen = pu_payloadlen publish, refcount = 1, pbl_mask = pu_mask publish\<rparr>"
proof -
  have inv: "pub_inv E w" using assms(1) by (simp add: flow_inv_def)
  obtain p w' where w': "MQTTProtocol_storePublication publish w = Some (p, publish\<lparr>pu_topic := NULL, pu_payload := NULL\<rparr>, w')"
      "pub_inv (add_mset p E) w'" "p \<notin># all_refs w"
      "w' = w\<lparr>pub_heap := (pub_heap w)(p \<mapsto>
        \<lparr>pb_topic = pu_topic publish, pb_topiclen = pu_topiclen publish, pb_payload = pu_payload publish,
         pb_payloadlen = pu_payloadlen publish, refcount = 1, pbl_mask = pu_mask publish\<rparr>),
        next_pub := p + 1, publications := l_append (publications w) p\<rparr>"
    using storePublication_inv [OF inv assms(3)] by metis
  have cl: "clients w' = clients w" "protocol.more w' = protocol.more w" by (simp_all add: w'(4))
  have cj: "client_at j w' = client_at j w" for j by (simp add: client_at_def cl)
  have h: "pub_heap w' q = pub_heap w q" if "q \<in># all_refs w" for q using w'(3) that by (auto simp: w'(4))
  have "flow_inv (add_mset p E) w'"
    unfolding flow_inv_def cl
  proof (intro conjI ballI)
    fix c assume "c \<in> set (items (clients w))"
    then obtain i where i: "i < length (items (clients w))" "c = client_at i w" by (auto simp: client_in_set)
    show "outbound_ok (outboundMsgs c)" using flow_invD(2) [OF assms(1) i(1)] i(2) by simp
    have "pub_heap w' q = pub_heap w q" if "q \<in># refs_of (items (inboundMsgs (client_at i w)))" for q
      using h mset_subset_eqD [OF refs_in_all(1) [OF i(1)] that] .
    then show "inbound_ok (pub_heap w') (inboundMsgs c)"
      using inbound_ok_heap [OF flow_invD(1) [OF assms(1) i(1)]] i(2) by simp
  qed (rule w'(2))
  moreover have "delivered j w' = delivered j w" for j
    using layer_delivered [OF layer_more [OF cl(2)]] cj by simp
  moreover have "arriving j w' = arriving j w" if "j < length (items (clients w))" for j
    using cj h refs_in_all(1) [OF that] by (intro arriving_heap) (auto dest: mset_subset_eqD)
  moreover have "client_of s k w'" using assms(2) unfolding client_of_def cl cj .
  moreover have "pub_heap w' p = Some \<lparr>pb_topic = pu_topic publish, pb_topiclen = pu_topiclen publish,
      pb_payload = pu_payload publish, pb_payloadlen = pu_payloadlen publish, refcount = 1, pbl_mask = pu_mask publish\<rparr>"
    by (simp add: w'(4))
  ultimately show thesis using that [of p w'] w'(1) cl by (simp add: inbound_same_def)
qed

text \<open>The message with the publication is put in the place of one with its identifier, or at the end.\<close>

definition inbound_at :: "nat \<Rightarrow> nat \<Rightarrow> message \<Rightarrow> 'z protocol_scheme \<Rightarrow> bool" where
  "inbound_at k j m w \<longleftrightarrow> j < length (items (inboundMsgs (client_at k w))) \<and> items (inboundMsgs (client_at k w)) ! j = m"

lemma store_inbound_step:
  assumes "flow_inv (add_mset p E) w" "client_of s k w" "m_publish m = Ptr p"
    and m: "m_qos m = 2" "nextMessageType m = Some PUBREL" "held_ok (pub_heap w) m"
  shows "\<exists>j again w'. store_inbound k m w = Some (j, again, w') \<and> again = (arriving k w (m_msgid m) \<noteq> None)
    \<and> arrive_step E s k ((arriving k w)(m_msgid m \<mapsto> holds (pub_heap w) m)) [] w w' \<and> inbound_at k j m w'
    \<and> pub_heap w' p = pub_heap w p"
proof -
  note k = client_of_less [OF assms(2)]
  note ok = flow_invD(1) [OF assms(1) k]
  let ?l = "inboundMsgs (client_at k w)"
  have d: "cur_ok ?l" "distinct (map m_msgid (items ?l))" using ok by (simp_all add: inbound_ok_def)
  have mh: "m_MQTTVersion m < MQTTVERSION_5 \<longrightarrow> held_ok (pub_heap w) m" using m(3) by simp
  show ?thesis
    using d
  proof (cases rule: find_message [of ?l "m_msgid m"])
    case (1 l)
    define f :: "client \<Rightarrow> client" where "f = (\<lambda>c. c\<lparr>inboundMsgs := l_append l m\<rparr>)"
    have ok': "inbound_ok (pub_heap w) (l_append l m)"
      using ok 1 m by (auto simp: inbound_ok_def by_id_None cur_ok_def l_append_def split: option.splits)
    have a: "arriving k (upd_client k f w) = (arriving k w)(m_msgid m \<mapsto> holds (pub_heap w) m)"
      using k 1(2,4) by (auto simp: arriving_def f_def fun_eq_iff l_append_def split: option.splits)
    have "arrive_step E s k (arriving k (upd_client k f w)) [] w (upd_client k f w)"
      using upd_inbound_step [OF assms(1,2), of f E] ok' 1(2) assms(3) by (simp add: f_def l_append_def)
    moreover have "inbound_at k (length (items l)) m (upd_client k f w)"
      using k by (simp add: inbound_at_def f_def l_append_def)
    moreover have "store_inbound k m w = Some (length (items l), False, upd_client k f w)"
      by (simp add: store_inbound_def 1(1) f_def)
    moreover have "arriving k w (m_msgid m) = None" by (simp add: arriving_def 1(4))
    ultimately show ?thesis using a by auto
  next
    case (2 j l)
    define f :: "client \<Rightarrow> client" where "f = (\<lambda>c. c\<lparr>inboundMsgs := l_remove_at (Suc j) (l_insert l m (Some j))\<rparr>)"
    define old where "old = items ?l ! j"
    have jl: "j < length (items l)" using 2(2,4) by simp
    have il: "items (l_remove_at (Suc j) (l_insert l m (Some j))) = (items ?l)[j := m]"
      using items_replace [OF jl] 2(2) by simp
    have sub: "set ((items ?l)[j := m]) \<subseteq> insert m (set (items ?l))" by (rule set_update_subset_insert)
    have dm: "distinct (map m_msgid ((items ?l)[j := m]))"
      using d(2) 2(4,5) by (simp add: map_update list_update_id [of "map m_msgid (items ?l)" j, simplified nth_map [OF 2(4)] 2(5)])
    have ok': "inbound_ok (pub_heap w) (l_remove_at (Suc j) (l_insert l m (Some j)))"
      using ok sub cur_ok_replace [OF 2(3) jl, of m] dm m unfolding inbound_ok_def il by auto
    have a: "arriving k (upd_client k f w) = (arriving k w)(m_msgid m \<mapsto> holds (pub_heap w) m)"
      using k by_id_update [OF d(2) 2(4), of m] 2(5)
      by (auto simp: arriving_def f_def fun_eq_iff il simp del: l_remove_at_items)
    have "refs_of ((items ?l)[j := m]) + ptr_refs (m_publish old) = refs_of (items ?l) + {#p#}"
      using refs_of_update [OF 2(4), of m] assms(3) by (simp add: old_def)
    then have "refs_of ((items ?l)[j := m]) + (ptr_refs (m_publish old) + E) = refs_of (items ?l) + add_mset p E"
      by (metis add.assoc add_mset_add_single add.commute)
    then have "arrive_step (ptr_refs (m_publish old) + E) s k (arriving k (upd_client k f w)) [] w (upd_client k f w)"
      using upd_inbound_step [OF assms(1,2), of f "ptr_refs (m_publish old) + E"] ok'
      by (simp add: f_def il del: l_remove_at_items)
    note a1 = this [unfolded a]
    then have i1: "flow_inv (ptr_refs (m_publish old) + E) (upd_client k f w)" "client_of s k (upd_client k f w)"
        "arriving k (upd_client k f w) = (arriving k w)(m_msgid m \<mapsto> holds (pub_heap w) m)"
      by (simp_all add: arrive_step_def)
    obtain w2 where w2: "MQTTProtocol_removePublication (m_publish old) (upd_client k f w) = Some w2" "flow_inv E w2"
        "clients w2 = clients (upd_client k f w)" "inbound_same (upd_client k f w) w2"
        "\<And>q. q \<in># all_refs (upd_client k f w) \<Longrightarrow> pub_heap w2 q = pub_heap (upd_client k f w) q"
      using release_step [OF i1(1)] by metis
    have cj: "client_at i w2 = client_at i (upd_client k f w)" for i by (simp add: client_at_def w2(3))
    have c2: "client_of s k w2" using i1(2) unfolding client_of_def w2(3) cj .
    have "outgoing i w2 = outgoing i (upd_client k f w)" for i by (simp add: outgoing_def fun_eq_iff cj)
    then have "arrive_step E s k ((arriving k w)(m_msgid m \<mapsto> holds (pub_heap w) m)) [] (upd_client k f w) w2"
      using w2(2,4) c2 k i1(3) unfolding arrive_step_def inbound_same_def w2(3) by simp
    note a2 = arrive_step_trans [OF a1 this]
    obtain w1 where w1: "MQTTProtocol_removePublication (m_publish old) w = Some w1" "w2 = upd_client k f w1"
      using w2(1) unfolding removePublication_upd by auto
    have "m_publish (items l ! j) = m_publish old" by (simp add: old_def 2(2))
    then have "store_inbound k m w = Some (j, True, w2)"
      by (simp add: store_inbound_def 2(1) w1 f_def)
    moreover have at: "inbound_at k j m (upd_client k f w)"
      using k 2(4) by (simp add: inbound_at_def f_def il del: l_remove_at_items)
    then have "inbound_at k j m w2" by (simp add: inbound_at_def cj)
    moreover have "arriving k w (m_msgid m) \<noteq> None" using 2(6) by (simp add: arriving_def)
    moreover have "p \<in># refs_of (items (inboundMsgs (client_at k (upd_client k f w))))"
      using at ref_in_refs_of [OF _ assms(3)] by (auto simp: inbound_at_def)
    then have "pub_heap w2 p = pub_heap w p"
      using w2(5) mset_subset_eqD [OF refs_in_all(1)] k by (metis clients_upd_client(3) upd_client_fields(1))
    ultimately show ?thesis using a2 by (intro exI [of _ j] exI [of _ True] exI [of _ w2]) simp
  qed
qed

text \<open>A version 5 message that has been delivered keeps only its identifier.\<close>

lemma forget_payload_step:
  assumes "flow_inv E w" "client_of s k w" "inbound_at k j m w" "m_publish m = Ptr p" "m_MQTTVersion m \<ge> MQTTVERSION_5"
  shows "arrive_step E s k (arriving k w) [] w
    (upd_client k (\<lambda>c. c\<lparr>inboundMsgs := l_update j (\<lambda>m. m\<lparr>m_publish := NULL\<rparr>) (inboundMsgs c)\<rparr>) (drop_publication p w))"
proof -
  note k = client_of_less [OF assms(2)]
  note ok = flow_invD(1) [OF assms(1) k]
  let ?l = "inboundMsgs (client_at k w)"
  have j: "j < length (items ?l)" "items ?l ! j = m" using assms(3) by (simp_all add: inbound_at_def)
  have d: "distinct (map m_msgid (items ?l))" using ok by (simp add: inbound_ok_def)
  define f :: "client \<Rightarrow> client" where
    "f = (\<lambda>c. c\<lparr>inboundMsgs := l_update j (\<lambda>m. m\<lparr>m_publish := NULL\<rparr>) (inboundMsgs c)\<rparr>)"
  have il: "items (inboundMsgs (f (client_at k w))) = (items ?l)[j := m\<lparr>m_publish := NULL\<rparr>]" by (simp add: f_def j(2))
  have sub: "set ((items ?l)[j := m\<lparr>m_publish := NULL\<rparr>]) \<subseteq> insert (m\<lparr>m_publish := NULL\<rparr>) (set (items ?l))"
    by (rule set_update_subset_insert)
  have mem: "m \<in> set (items ?l)" using j by (auto simp: in_set_conv_nth)
  have dm: "map m_msgid ((items ?l)[j := m\<lparr>m_publish := NULL\<rparr>]) = map m_msgid (items ?l)"
    using j by (metis list_update_id map_update message.select_convs(3) message.surjective message.update_convs(6) nth_map)
  have ok': "inbound_ok (pub_heap w) (inboundMsgs (f (client_at k w)))"
    using ok sub mem dm assms(5) unfolding inbound_ok_def il by (auto simp: f_def)
  have "refs_of ((items ?l)[j := m\<lparr>m_publish := NULL\<rparr>]) + add_mset p E = refs_of (items ?l) + E"
    using refs_of_update [OF j(1), of "m\<lparr>m_publish := NULL\<rparr>"] j(2) assms(4) by simp
  then have a1: "arrive_step (add_mset p E) s k (arriving k (upd_client k f w)) [] w (upd_client k f w)"
    using upd_inbound_step [OF assms(1,2), of f "add_mset p E"] ok' il by (simp add: f_def)
  have "by_id ((items ?l)[j := m\<lparr>m_publish := NULL\<rparr>]) = (by_id (items ?l))(m_msgid m \<mapsto> m\<lparr>m_publish := NULL\<rparr>)"
    using by_id_update [OF d j(1), of "m\<lparr>m_publish := NULL\<rparr>"] j(2) by simp
  moreover have "by_id (items ?l) (m_msgid m) = Some m" using by_id_nth [OF d j(1)] j(2) by simp
  ultimately have a: "arriving k (upd_client k f w) = arriving k w"
    using k il assms(5) by (auto simp: arriving_def fun_eq_iff holds_def)
  have "flow_inv (add_mset p E) (upd_client k f w)" "client_of s k (upd_client k f w)"
    using a1 by (simp_all add: arrive_step_def)
  from drop_step [OF this] have "arrive_step E s k (arriving k w) [] (upd_client k f w) (upd_client k f (drop_publication p w))"
    by (simp only: a drop_publication_upd)
  then show ?thesis using arrive_step_trans [OF a1] by (simp add: f_def)
qed

lemma handlePublishes_step:
  assumes "flow_inv E w" "client_of s k w" "pu_topic p = Ptr t" "publish_payload p \<noteq> None"
    and r: "receive_publish (hdr_qos (pu_header p)) (pu_MQTTVersion p \<ge> MQTTVERSION_5) (pu_msgId p)
      (content p) (content (received_packet p)) (arriving k w) = (pend, ms)"
  shows "\<exists>rc w'. MQTTProtocol_handlePublishes per app p s w = Some (rc, w') \<and> arrive_step E s k pend ms w w'"
proof -
  obtain w0 where f: "find_client s w = Some (k, w0)" and q0: "quiet w w0" using find_quiet [OF assms(2)] by blast
  have kept: "messages_kept w w0" using q0 by (simp add: quiet_def)
  note i0 = kept_flow_inv [OF kept assms(1)] and c0 = kept_client_of [OF kept assms(2)]
  obtain idle w1 where n: "Socket_noPendingWrites s w0 = (idle, w1)" by fastforce
  then have q1: "quiet w0 w1" using noPendingWrites_quiet [of w0 s] by simp
  have q: "quiet w w1" using quiet_trans [OF q0 q1] .
  have kept1: "messages_kept w0 w1" using q1 by (simp add: quiet_def)
  note i1 = kept_flow_inv [OF kept1 i0] and c1 = kept_client_of [OF kept1 c0]
  note k = client_of_less [OF assms(2)]
  note arr0 = quiet_arriving [OF q0 k] and arr = quiet_arriving [OF q k]
  note start = quiet_then_arrive [OF assms(1,2) q]
  consider "hdr_qos (pu_header p) = 0" | "hdr_qos (pu_header p) = 1" | "hdr_qos (pu_header p) = 2"
    | "hdr_qos (pu_header p) > 2" by linarith
  then show ?thesis
  proof cases
    case 1
    obtain w' where "process_publication app p k True w0 = Some w'" "arrive_step E s k (arriving k w0) [content p] w0 w'"
      using deliver_step [OF i0 c0 assms(3,4)] by metis
    then show ?thesis
      using quiet_then_arrive [OF assms(1,2) q0, of E "arriving k w0" "[content p]" w'] 1 r arr0
      by (auto simp: MQTTProtocol_handlePublishes_def f receive_publish_def)
  next
    case 2
    obtain w2 where w2: "process_publication app p k True w1 = Some w2" "arrive_step E s k (arriving k w1) [content p] w1 w2"
      using deliver_step [OF i1 c1 assms(3,4)] by metis
    then have a: "arrive_step E s k pend ms w w2" using start [OF w2(2)] 2 r arr by (simp add: receive_publish_def)
    then have "client_of s k w2" by (simp add: arrive_step_def)
    then obtain rc w' where "acknowledge per k (\<not> idle) PUBACK (pu_MQTTVersion p) (pu_msgId p) w2 = Some (rc, w')" "quiet w2 w'"
      using acknowledge_quiet by blast
    then show ?thesis using arrive_quiet [OF a] w2(1) 2 by (auto simp: MQTTProtocol_handlePublishes_def f n)
  next
    case 3
    obtain a w2 where w2: "MQTTProtocol_storePublication p w1 = Some (a, p\<lparr>pu_topic := NULL, pu_payload := NULL\<rparr>, w2)"
        "flow_inv (add_mset a E) w2" "client_of s k w2" "clients w2 = clients w1" "inbound_same w1 w2"
        "pub_heap w2 a = Some \<lparr>pb_topic = pu_topic p, pb_topiclen = pu_topiclen p, pb_payload = pu_payload p,
           pb_payloadlen = pu_payloadlen p, refcount = 1, pbl_mask = pu_mask p\<rparr>"
      using store_step [OF i1 c1 assms(3)] by metis
    define m where "m = inbound_message p a"
    have m: "m_qos m = 2" "nextMessageType m = Some PUBREL" "m_publish m = Ptr a" "m_msgid m = pu_msgId p"
        "m_MQTTVersion m = pu_MQTTVersion p" using 3 by (simp_all add: m_def)
    have mp: "message_publish m (pub_heap w2 a) = received_packet p"
      unfolding m_def w2(6) by (rule message_publish_received) simp_all
    then have held: "held_ok (pub_heap w2) m" using m(3) assms(3,4) w2(6) by (auto simp: held_ok_def)
    have hm: "holds (pub_heap w2) m = (if pu_MQTTVersion p \<ge> MQTTVERSION_5 then None else Some (content (received_packet p)))"
      using m mp by (simp add: holds_def)
    have k1: "k < length (items (clients w1))" using c1 by (rule client_of_less)
    have arr2: "arriving k w2 = arriving k w" using w2(5) k1 arr by (simp add: inbound_same_def)
    have cj: "client_at i w2 = client_at i w1" for i by (simp add: client_at_def w2(4))
    have "outgoing i w2 = outgoing i w1" for i by (simp add: outgoing_def fun_eq_iff cj)
    then have "arrive_step (add_mset a E) s k (arriving k w1) [] w1 w2"
      using w2(2,3,5) k1 unfolding arrive_step_def inbound_same_def w2(4) by simp
    note s2 = start [OF this]
    obtain j again w3 where w3: "store_inbound k m w2 = Some (j, again, w3)" "again = (arriving k w2 (m_msgid m) \<noteq> None)"
        "arrive_step E s k ((arriving k w2)(m_msgid m \<mapsto> holds (pub_heap w2) m)) [] w2 w3" "inbound_at k j m w3"
        "pub_heap w3 a = pub_heap w2 a"
      using store_inbound_step [OF w2(2,3) m(3) m(1,2) held] by blast
    have again: "again = (arriving k w (pu_msgId p) \<noteq> None)" using w3(2) arr2 m(4) by simp
    define pend' where "pend' = (arriving k w)(pu_msgId p \<mapsto> holds (pub_heap w2) m)"
    have s3: "arrive_step E s k pend' [] w w3"
      using arrive_step_trans [OF s2 w3(3)] by (simp add: pend'_def arr2 m(4))
    have "\<exists>w4. (if m_MQTTVersion m \<ge> MQTTVERSION_5 \<and> \<not> again
               then do {
                 w5 \<leftarrow> process_publication app (message_publish m (pub_heap w3 a)) k True w3;
                 Some (upd_client k (\<lambda>c. c\<lparr>inboundMsgs := l_update j (\<lambda>m. m\<lparr>m_publish := NULL\<rparr>) (inboundMsgs c)\<rparr>)
                         (drop_publication a w5)) }
               else Some w3) = Some w4 \<and> arrive_step E s k pend ms w w4"
    proof (cases "m_MQTTVersion m \<ge> MQTTVERSION_5 \<and> \<not> again")
      case False
      then have "pend = pend'" "ms = []" using r 3 again by (auto simp: receive_publish_def pend'_def hm m(5) split: if_splits)
      then show ?thesis using s3 unfolding if_not_P [OF False] by simp
    next
      case True
      then have pm: "pend = pend'" "ms = [content (received_packet p)]"
        using r 3 again by (auto simp: receive_publish_def pend'_def hm m(5))
      have i3: "flow_inv E w3" "client_of s k w3" "arriving k w3 = pend'" using s3 by (simp_all add: arrive_step_def)
      have topic: "pu_topic (received_packet p) = Ptr t" "publish_payload (received_packet p) \<noteq> None"
        using assms(3,4) by simp_all
      obtain w5 where w5: "process_publication app (received_packet p) k True w3 = Some w5"
          "arrive_step E s k pend' [content (received_packet p)] w3 w5" "messages_kept w3 w5"
        using deliver_step [OF i3(1,2) topic] i3(3) by metis
      then have i5: "flow_inv E w5" "client_of s k w5" "arriving k w5 = pend'" by (simp_all add: arrive_step_def)
      have "inbound_at k j m w5"
        using w3(4) w5(3) client_of_less [OF i3(2)] by (simp add: inbound_at_def messages_kept_def)
      from forget_payload_step [OF i5(1,2) this m(3)] True
      have "arrive_step E s k pend' [] w5 (upd_client k (\<lambda>c. c\<lparr>inboundMsgs :=
          l_update j (\<lambda>m. m\<lparr>m_publish := NULL\<rparr>) (inboundMsgs c)\<rparr>) (drop_publication a w5))"
        by (simp add: i5(3))
      from arrive_step_trans [OF s3 arrive_step_trans [OF w5(2) this]] show ?thesis
        using True w5(1) pm by (simp add: w3(5) mp)
    qed
    then obtain w4 where w4: "(if m_MQTTVersion m \<ge> MQTTVERSION_5 \<and> \<not> again
               then do {
                 w5 \<leftarrow> process_publication app (message_publish m (pub_heap w3 a)) k True w3;
                 Some (upd_client k (\<lambda>c. c\<lparr>inboundMsgs := l_update j (\<lambda>m. m\<lparr>m_publish := NULL\<rparr>) (inboundMsgs c)\<rparr>)
                         (drop_publication a w5)) }
               else Some w3) = Some w4" "arrive_step E s k pend ms w w4" by blast
    then have "client_of s k w4" by (simp add: arrive_step_def)
    then obtain rc w' where w': "acknowledge per k (\<not> idle) PUBREC (pu_MQTTVersion p) (pu_msgId p) w4 = Some (rc, w')"
        "quiet w4 w'"
      using acknowledge_quiet by blast
    have "MQTTProtocol_handlePublishes per app p s w = Some (rc, w')"
      unfolding MQTTProtocol_handlePublishes_def f bind.simps prod.case n Let_def w2(1) m_def [symmetric] w3(1) w4(1) w'(1)
      by (simp add: 3)
    then show ?thesis using arrive_quiet [OF w4(2) w'(2)] by blast
  next
    case 4
    then show ?thesis
      using quiet_arrive [OF assms(1,2) q] r by (simp add: MQTTProtocol_handlePublishes_def f n receive_publish_def)
  qed
qed

end

end
