(* ===== verification/Async.thy ===== *)
theory Async
  imports PacketWire ProtocolClient
begin

text \<open>
  The state of the asynchronous client: \<open>MqttC/MQTTAsyncUtils.h\<close> and the static variables of
  \<open>MQTTAsync.c\<close> and \<open>MQTTAsyncUtils.c\<close>.

  A handle and its client are the positions of their structures in \<open>MQTTAsync_handles\<close> and
  \<open>bstate->clients\<close>. A queued command has an address, so that \<open>pending_write\<close> can refer to it. The
  callbacks of the application are not under \<open>src/\<close>: whether one is set is part of the state, the calls
  are recorded in \<open>events\<close>, and the results of \<open>messageArrived\<close> are the plan \<open>ma_results\<close>. A callback that
  calls back into the library is not modelled. The locks have no counterpart: every step of a thread
  between two of them is one operation here.
\<close>

section \<open>Commands and handles\<close>

abbreviation (input) MQTTASYNC_SUCCESS :: int where "MQTTASYNC_SUCCESS \<equiv> 0"
abbreviation (input) MQTTASYNC_FAILURE :: int where "MQTTASYNC_FAILURE \<equiv> -1"
abbreviation (input) MQTTASYNC_PERSISTENCE_ERROR :: int where "MQTTASYNC_PERSISTENCE_ERROR \<equiv> -2"
abbreviation (input) MQTTASYNC_DISCONNECTED :: int where "MQTTASYNC_DISCONNECTED \<equiv> -3"
abbreviation (input) MQTTASYNC_BAD_UTF8_STRING :: int where "MQTTASYNC_BAD_UTF8_STRING \<equiv> -5"
abbreviation (input) MQTTASYNC_NULL_PARAMETER :: int where "MQTTASYNC_NULL_PARAMETER \<equiv> -6"
abbreviation (input) MQTTASYNC_BAD_STRUCTURE :: int where "MQTTASYNC_BAD_STRUCTURE \<equiv> -8"
abbreviation (input) MQTTASYNC_BAD_QOS :: int where "MQTTASYNC_BAD_QOS \<equiv> -9"
abbreviation (input) MQTTASYNC_NO_MORE_MSGIDS :: int where "MQTTASYNC_NO_MORE_MSGIDS \<equiv> -10"
abbreviation (input) MQTTASYNC_OPERATION_INCOMPLETE :: int where "MQTTASYNC_OPERATION_INCOMPLETE \<equiv> -11"
abbreviation (input) MQTTASYNC_MAX_BUFFERED_MESSAGES :: int where "MQTTASYNC_MAX_BUFFERED_MESSAGES \<equiv> -12"
abbreviation (input) MQTTASYNC_SSL_NOT_SUPPORTED :: int where "MQTTASYNC_SSL_NOT_SUPPORTED \<equiv> -13"
abbreviation (input) MQTTASYNC_BAD_PROTOCOL :: int where "MQTTASYNC_BAD_PROTOCOL \<equiv> -14"
abbreviation (input) MQTTASYNC_BAD_MQTT_OPTION :: int where "MQTTASYNC_BAD_MQTT_OPTION \<equiv> -15"
abbreviation (input) MQTTASYNC_WRONG_MQTT_VERSION :: int where "MQTTASYNC_WRONG_MQTT_VERSION \<equiv> -16"
abbreviation (input) MQTTASYNC_0_LEN_WILL_TOPIC :: int where "MQTTASYNC_0_LEN_WILL_TOPIC \<equiv> -17"
abbreviation (input) MQTTASYNC_COMMAND_IGNORED :: int where "MQTTASYNC_COMMAND_IGNORED \<equiv> -18"
abbreviation (input) MQTTASYNC_MAX_BUFFERED :: int where "MQTTASYNC_MAX_BUFFERED \<equiv> -19"
abbreviation (input) MQTTVERSION_DEFAULT :: int where "MQTTVERSION_DEFAULT \<equiv> 0"

text \<open>
  The union \<open>details\<close>; \<open>count\<close> is the number of topics. The variant that has been written is the one
  that is read, which \<open>cmd_type\<close> says; a cleared command reads as a connection attempt at 0.
\<close>

datatype details =
    Sub (sub_topics: "bytes list") (sub_qoss: "int list") (sub_opts: subscribe_options)
        (sub_optlist: "subscribe_options list cptr")
  | Unsub (unsub_topics: "bytes list")
  | Pub (destinationName: "bytes cptr") (pub_payloadlen: nat) (pub_payload: "bytes cptr") (pub_qos: nat)
        (pub_retained: bool)
  | Dis (dis_internal: bool) (dis_timeout: int) (dis_reasonCode: int)
  | Conn (conn_currentURI: nat) (conn_MQTTVersion: int)

record command =
  cmd_type :: nat
  onSuccess :: bool
  onFailure :: bool
  onSuccess5 :: bool
  onFailure5 :: bool
  token :: int
  cmd_context :: nat
  start_time :: int
  cmd_properties :: mprops
  details :: details

definition no_command :: command where
  "no_command = \<lparr>cmd_type = 0, onSuccess = False, onFailure = False, onSuccess5 = False, onFailure5 = False,
     token = 0, cmd_context = 0, start_time = 0, cmd_properties = MQTTProperties_initializer,
     details = Conn 0 0\<rparr>"

text \<open>\<open>q_client\<close> is the position of the handle; \<open>q_addr\<close> is the address of the structure.\<close>

record queued =
  q_addr :: nat
  q_command :: command
  q_client :: nat
  q_seqno :: nat
  not_restored :: bool
  q_key :: "bytes cptr"

record create_options =
  co_struct_version :: int
  sendWhileDisconnected :: bool
  maxBufferedMessages :: int
  co_MQTTVersion :: int
  allowDisconnectedSendAtAnyTime :: bool
  deleteOldestMessages :: bool
  restoreMessages :: bool
  persistQoS0 :: bool

text \<open>
  \<open>updateConnectOptions\<close> returns whether it has changed something, the user name and the password.
\<close>

record handle =
  serverURI :: bytes
  h_websocket :: bool
  h_c :: nat
  cb_connectionLost :: bool
  cb_messageArrived :: bool
  cb_deliveryComplete :: bool
  cb_connected :: bool
  cb_disconnected :: bool
  updateConnectOptions :: "(bytes cptr \<Rightarrow> bytes cptr \<Rightarrow> bool \<times> bytes cptr \<times> bytes cptr) option"
  connect :: command
  disconnect :: command
  pending_write :: "nat cptr"
  responses :: "queued clist"
  command_seqno :: nat
  createOptions :: "create_options cptr"
  shouldBeConnected :: bool
  noBufferedMessages :: int
  automaticReconnect :: bool
  minRetryInterval :: int
  maxRetryInterval :: int
  serverURIs :: "bytes list"
  connectTimeout :: int
  currentInterval :: int
  currentIntervalBase :: int
  lastConnectionFailedTime :: int
  retrying :: bool
  reconnectNow :: bool
  connectProps :: "mprops cptr"
  willProps :: "mprops cptr"

section \<open>Calls of the application\<close>

text \<open>The data of a success: for a publication the packet, for a subscription the granted QoSs.\<close>

datatype success_data =
    No_data
  | Pub_data details
  | Sub_data "int list"
  | Connect_data bytes int bool

datatype event =
    is_Message_arrived: Message_arrived nat bytes int pers_message bool
  | Connection_lost nat
  | Is_connected nat
  | Is_disconnected nat int
  | Delivery_complete nat int
  | Success nat nat int success_data
  | Failure nat nat int int

datatype thread_state = STOPPED | STARTING | RUNNING | STOPPING

text \<open>
  The static variables: the handles, the commands, the calls so far and the results planned for the
  application, and the states of the two threads. \<open>callback_failed\<close> is set when a callback of the socket
  layer is undefined.
\<close>

record async = disk +
  handles :: "handle clist"
  commands :: "queued clist"
  next_command :: nat
  events :: "event list"
  ma_results :: "bool list"
  retryLoopIntervalms :: int
  last_retry :: int
  last_timeouts :: int
  global_initialized :: bool
  tostop :: bool
  callback_failed :: bool
  sendThread_state :: thread_state
  receiveThread_state :: thread_state

definition handle_at :: "nat \<Rightarrow> 'z async_scheme \<Rightarrow> handle" where
  "handle_at h w = items (handles w) ! h"

definition upd_handle :: "nat \<Rightarrow> (handle \<Rightarrow> handle) \<Rightarrow> 'z async_scheme \<Rightarrow> 'z async_scheme" where
  "upd_handle h f w = w\<lparr>handles := (handles w)\<lparr>items := (items (handles w))[h := f (handle_at h w)]\<rparr>\<rparr>"

definition clientStructCompare :: "nat \<Rightarrow> handle \<Rightarrow> bool" where
  "clientStructCompare k m \<longleftrightarrow> h_c m = k"

definition clientSockCompare :: "int \<Rightarrow> 'z async_scheme \<Rightarrow> handle \<Rightarrow> bool" where
  "clientSockCompare s w m \<longleftrightarrow> socket (c_net (client_at (h_c m) w)) = s"

text \<open>A search in \<open>MQTTAsync_handles\<close>.\<close>

definition find_handle :: "(handle \<Rightarrow> bool) \<Rightarrow> 'z async_scheme \<Rightarrow> nat option \<times> 'z async_scheme" where
  "find_handle P w = (case l_find (handles w) P of (found, l) \<Rightarrow> (found, w\<lparr>handles := l\<rparr>))"

definition log_event :: "event \<Rightarrow> 'z async_scheme \<Rightarrow> 'z async_scheme" where
  "log_event e w = w\<lparr>events := events w @ [e]\<rparr>"

text \<open>The failure callback of a command, in the variant that is set.\<close>

definition call_failure :: "nat \<Rightarrow> command \<Rightarrow> int \<Rightarrow> int \<Rightarrow> 'z async_scheme \<Rightarrow> 'z async_scheme" where
  "call_failure h c tok code w =
     (if onFailure c \<or> onFailure5 c then log_event (Failure h (cmd_context c) tok code) w else w)"

definition call_success :: "nat \<Rightarrow> command \<Rightarrow> int \<Rightarrow> success_data \<Rightarrow> 'z async_scheme \<Rightarrow> 'z async_scheme" where
  "call_success h c tok data w =
     (if onSuccess c \<or> onSuccess5 c then log_event (Success h (cmd_context c) tok data) w else w)"

text \<open>The address of the client structure that a protocol callback gets is resolved to its handle.\<close>

definition context_of :: "nat \<Rightarrow> 'z async_scheme \<Rightarrow> nat option" where
  "context_of k w = find_pos (clientStructCompare k) (items (handles w))"

text \<open>An unsigned number of 64 bits, which a number to compare it with is converted to as well.\<close>

definition uint64 :: "int \<Rightarrow> int" where
  "uint64 i = i mod 2 ^ 64"

definition MQTTTime_elapsed :: "int \<Rightarrow> 'z async_scheme \<Rightarrow> int" where
  "MQTTTime_elapsed start w = uint64 (MQTTTime_difftime (clock w) start)"

section \<open>Delivering messages\<close>

definition MQTTAsync_deliverMessage ::
    "nat \<Rightarrow> bytes \<Rightarrow> int \<Rightarrow> pers_message \<Rightarrow> 'z async_scheme \<Rightarrow> bool \<times> 'z async_scheme" where
  "MQTTAsync_deliverMessage h topic topiclen mm w =
     (let rc = (case ma_results w of [] \<Rightarrow> True | r # _ \<Rightarrow> r)
      in (rc, (log_event (Message_arrived h topic topiclen mm rc) w)\<lparr>ma_results := tl (ma_results w)\<rparr>))"

definition message_of :: "publish_packet \<Rightarrow> bytes \<Rightarrow> pers_message" where
  "message_of publish payload =
     \<lparr>struct_version = 1, pm_payload = payload, pm_qos = int (hdr_qos (pu_header publish)),
      pm_retained = of_bool (hdr_retain (pu_header publish)),
      pm_dup = (if hdr_qos (pu_header publish) = 2 then 0 else of_bool (hdr_dup (pu_header publish))),
      pm_msgid = pu_msgId publish,
      pm_properties = (if pu_MQTTVersion publish \<ge> MQTTVERSION_5 then MQTTProperties_copy (pu_properties publish)
                       else MQTTProperties_initializer)\<rparr>"

text \<open>
  A message that the application does not take, or that has others before it, is queued. The topic
  must be a string then.
\<close>

definition Protocol_processPublication ::
    "'z async_scheme persist_api \<Rightarrow> publish_packet \<Rightarrow> nat \<Rightarrow> bool \<Rightarrow> 'z async_scheme \<Rightarrow> 'z async_scheme option" where
  "Protocol_processPublication per publish k allocatePayload w =
     (case (pu_topic publish, publish_payload publish) of
        (Ptr topic, Some payload) \<Rightarrow>
          (let mm = message_of publish payload;
               (rc, w1) =
                 (if items (messageQueue (client_at k w)) = [] \<and> connected (client_at k w)
                  then (case find_handle (clientStructCompare k) w of
                          (None, w1) \<Rightarrow> (False, w1)
                        | (Some h, w1) \<Rightarrow>
                            if cb_messageArrived (handle_at h w1)
                            then MQTTAsync_deliverMessage h topic (pu_topiclen publish) mm w1
                            else (False, w1))
                  else (False, w))
           in if rc then Some w1
              else
                let qe = \<lparr>qe_msg = mm, topicName = topic, topicLen = pu_topiclen publish, seqno = 0\<rparr>;
                    w2 = upd_client k (\<lambda>c. c\<lparr>messageQueue := l_append (messageQueue c) qe\<rparr>) w1
                in if persistence (client_at k w2)
                   then (case MQTTPersistence_persistQueueEntry per k qe w2 of
                           (_, qe1, w3) \<Rightarrow>
                             Some (upd_client k (\<lambda>c. c\<lparr>messageQueue :=
                               l_update (length (items (messageQueue c)) - 1) (\<lambda>_. qe1) (messageQueue c)\<rparr>) w3))
                   else Some w2)
      | _ \<Rightarrow> None)"

section \<open>A state to evaluate examples in\<close>

definition sample_handle :: handle where
  "sample_handle = \<lparr>serverURI = [], h_websocket = False, h_c = 0, cb_connectionLost = True, cb_messageArrived = True,
     cb_deliveryComplete = True, cb_connected = True, cb_disconnected = True, updateConnectOptions = None,
     connect = no_command, disconnect = no_command, pending_write = NULL, responses = l_empty, command_seqno = 0,
     createOptions = NULL, shouldBeConnected = True, noBufferedMessages = 0, automaticReconnect = False,
     minRetryInterval = 1, maxRetryInterval = 60, serverURIs = [], connectTimeout = 30, currentInterval = 1,
     currentIntervalBase = 1, lastConnectionFailedTime = 0, retrying = False, reconnectNow = False,
     connectProps = NULL, willProps = NULL\<rparr>"

definition sample_async :: "client list \<Rightarrow> handle list \<Rightarrow> async" where
  "sample_async cs hs = disk.extend (sample_disk cs)
     (async.fields \<lparr>items = hs, cur_pos = None\<rparr> l_empty 0 [] [] 5000 0 0 True False False STOPPED STOPPED)"

lemma sample_async_simps [simp]:
  "clients (sample_async cs hs) = \<lparr>items = cs, cur_pos = None\<rparr>" "pub_heap (sample_async cs hs) = (\<lambda>_. None)"
  "next_pub (sample_async cs hs) = 0" "publications (sample_async cs hs) = l_empty"
  "pending_writes (sample_async cs hs) = l_empty" "handles (sample_async cs hs) = \<lparr>items = hs, cur_pos = None\<rparr>"
  "commands (sample_async cs hs) = l_empty" "events (sample_async cs hs) = []" "clock (sample_async cs hs) = 7000000"
  by (simp_all add: sample_async_def disk.defs async.defs sample_disk_def protocol.defs sample_protocol_defs)

end
