(* ===== verification/AsyncDelivery.thy ===== *)
theory AsyncDelivery
  imports ProtocolReceive Async
begin

text \<open>
  The asynchronous client as the layer above the protocol: what \<open>Protocol_processPublication\<close> of
  \<open>MqttC/MQTTAsyncUtils.c\<close> is given reaches the application, in the order of arrival, through the callback
  or through the queue. It is an instance of \<open>protocol_layer\<close>; the properties of incoming messages follow.
\<close>

section \<open>Entries of the queue\<close>

context store_frame
begin

lemma persistQueueEntry_frame:
  assumes "MQTTPersistence_persistQueueEntry per k qe w = (rc, qe1, w')"
  shows "\<exists>n. same (upd_client k (\<lambda>c. c\<lparr>qentry_seqno := n\<rparr>) w) w'" "qe1 = qe \<or> (\<exists>n. qe1 = qe\<lparr>seqno := n\<rparr>)"
proof -
  define n where "n = (if qentry_seqno (client_at k w) + 1 = PERSISTENCE_SEQNO_LIMIT then 0
      else qentry_seqno (client_at k w) + 1)"
  define w1 where "w1 = upd_client k (\<lambda>c. c\<lparr>qentry_seqno := n\<rparr>) w"
  define c where "c = client_at k w1"
  obtain key toolong where k: "queue_key (c_MQTTVersion c) n = (key, toolong)" by fastforce
  obtain rc0 bufs where b: "(if c_MQTTVersion c \<ge> MQTTVERSION_5
      then (case MQTTProperties_write (Ptr (if struct_version (qe_msg qe) \<ge> 1 then pm_properties (qe_msg qe)
                   else MQTTProperties_initializer)) of (r, out) \<Rightarrow> (r, entry_buffers qe @ [out]))
      else (0, entry_buffers qe)) = (rc0, bufs)" by (rule prod.exhaust)
  obtain rc1 bufs1 w2 where r: "(if beforeWrite c then before_write per bufs w1 else (rc0, bufs, w1)) = (rc1, bufs1, w2)"
    by (rule prod_cases3)
  have s: "same w1 w2"
    using r before_write_frame [of w1 bufs] same_refl [of w1] by (cases "beforeWrite c") auto
  obtain rc2 w3 where p: "pput per (phandle c) key bufs1 w2 = (rc2, w3)" by (rule prod.exhaust)
  then have "same w2 w3" using put_frame [of w2 "phandle c" key bufs1] by simp
  then have s3: "same w1 w3" using same_trans [OF s] by blast
  have "MQTTPersistence_persistQueueEntry per k qe w =
      (if toolong then (MQTTCLIENT_PERSISTENCE_ERROR, qe, w1)
       else if rc1 = 0 then (rc2, qe\<lparr>seqno := n\<rparr>, w3) else (rc1, qe\<lparr>seqno := n\<rparr>, w2))"
    unfolding MQTTPersistence_persistQueueEntry_def Let_def n_def [symmetric] w1_def [symmetric] c_def [symmetric] b r k
      prod.case p ..
  then have "(w' = w1 \<or> w' = w2 \<or> w' = w3) \<and> (qe1 = qe \<or> qe1 = qe\<lparr>seqno := n\<rparr>)"
    using assms by (auto split: if_splits)
  then show "\<exists>n. same (upd_client k (\<lambda>c. c\<lparr>qentry_seqno := n\<rparr>) w) w'" "qe1 = qe \<or> (\<exists>n. qe1 = qe\<lparr>seqno := n\<rparr>)"
    using s s3 same_refl [of w1] unfolding w1_def by blast+
qed

end

section \<open>What the application gets\<close>

type_synonym content = "bytes \<times> int \<times> pers_message"

definition content_of :: "publish_packet \<Rightarrow> content" where
  "content_of p = ((case pu_topic p of NULL \<Rightarrow> [] | Ptr t \<Rightarrow> t), pu_topiclen p,
     message_of p (case publish_payload p of None \<Rightarrow> [] | Some b \<Rightarrow> b))"

definition taken :: "(nat \<Rightarrow> bool) \<Rightarrow> event \<Rightarrow> content list" where
  "taken H e = (case e of Message_arrived h t l m True \<Rightarrow> if H h then [(t, l, m)] else [] | _ \<Rightarrow> [])"

text \<open>The messages of client \<open>k\<close> that the application has taken, and those that are queued for it.\<close>

definition arrived :: "nat \<Rightarrow> 'z async_scheme \<Rightarrow> content list" where
  "arrived k w = concat (map (taken (\<lambda>h. h < length (items (handles w)) \<and> h_c (handle_at h w) = k)) (events w))"

definition entry_content :: "qentry \<Rightarrow> content" where
  "entry_content qe = (topicName qe, topicLen qe, qe_msg qe)"

definition deliveries :: "nat \<Rightarrow> 'z async_scheme \<Rightarrow> content list" where
  "deliveries k w = arrived k w @ map entry_content (items (messageQueue (client_at k w)))"

definition layer_agrees :: "'z async_scheme \<Rightarrow> 'z async_scheme \<Rightarrow> bool" where
  "layer_agrees w w' \<longleftrightarrow> (\<forall>k. arrived k w' = arrived k w)"

lemma arrived_cong: "layer_agrees w w' \<Longrightarrow> arrived k w' = arrived k w"
  by (simp add: layer_agrees_def)

lemma layer_agreesI:
  assumes "map h_c (items (handles w')) = map h_c (items (handles w))"
    and "events w' = events w @ es" "\<forall>e \<in> set es. \<not> is_Message_arrived e"
  shows "layer_agrees w w'"
proof -
  have n: "length (items (handles w')) = length (items (handles w))" using assms(1) by (rule map_eq_imp_length_eq)
  have "h_c (handle_at h w') = h_c (handle_at h w)" if "h < length (items (handles w))" for h
    using assms(1) that n unfolding handle_at_def by (metis nth_map)
  then have H: "(h < length (items (handles w')) \<and> h_c (handle_at h w') = k)
      = (h < length (items (handles w)) \<and> h_c (handle_at h w) = k)" for h k using n by auto
  have "taken P e = []" if "\<not> is_Message_arrived e" for P e using that by (cases e) (simp_all add: taken_def)
  then have "concat (map (taken P) es) = []" for P using assms(3) by simp
  then show ?thesis by (simp add: layer_agrees_def arrived_def H assms(2))
qed

lemma layer_agrees_same:
  "items (handles w') = items (handles w) \<Longrightarrow> events w' = events w \<Longrightarrow> layer_agrees w w'"
  by (rule layer_agreesI [where es = "[]"]) simp_all

lemma more_layer_agrees: "protocol.more w' = protocol.more w \<Longrightarrow> layer_agrees w w'"
  by (cases w; cases w') (simp add: layer_agrees_same)

lemma disk_layer_agrees: "same_but_disk w w' \<Longrightarrow> layer_agrees w w'"
  by (auto simp: same_but_disk_def intro: layer_agrees_same)

lemma find_handle_layer:
  assumes "find_handle P w = (r, w1)"
  shows "layer_agrees w w1" "messages_kept w w1" "client_at j w1 = client_at j w" "clients w1 = clients w"
    "items (handles w1) = items (handles w)" "r = Some h \<Longrightarrow> h < length (items (handles w)) \<and> P (handle_at h w)"
proof -
  obtain l where l: "l_find (handles w) P = (r, l)" "w1 = w\<lparr>handles := l\<rparr>"
    using assms by (auto simp: find_handle_def split: prod.splits)
  then show i: "items (handles w1) = items (handles w)" using items_l_find [of "handles w" P] by simp
  then show "layer_agrees w w1" by (rule layer_agrees_same) (simp add: l(2))
  have "protocol.truncate w1 = protocol.truncate w" by (simp add: l(2) protocol.defs)
  then show "messages_kept w w1" using flows_same_kept agrees_flows truncate_agrees by blast
  show "client_at j w1 = client_at j w" "clients w1 = clients w" by (simp_all add: l(2) client_at_def)
  assume "r = Some h"
  then show "h < length (items (handles w)) \<and> P (handle_at h w)"
    using l_find_found [of "handles w" P h] l(1) by (simp add: handle_at_def)
qed

lemma log_event_kept:
  "messages_kept w ((log_event e w)\<lparr>ma_results := r\<rparr>)" "client_at j ((log_event e w)\<lparr>ma_results := r\<rparr>) = client_at j w"
proof -
  have "protocol.truncate ((log_event e w)\<lparr>ma_results := r\<rparr>) = protocol.truncate w"
    by (simp add: log_event_def protocol.defs)
  then show "messages_kept w ((log_event e w)\<lparr>ma_results := r\<rparr>)"
    using flows_same_kept agrees_flows truncate_agrees by blast
qed (simp add: log_event_def client_at_def)

lemma arrived_deliver:
  assumes "MQTTAsync_deliverMessage h t l m w = (rc, w')" "h < length (items (handles w))" "h_c (handle_at h w) = k"
  shows "arrived j w' = arrived j w @ (if rc \<and> j = k then [(t, l, m)] else [])" "messages_kept w w'"
    "client_at j w' = client_at j w"
proof -
  have w': "w' = (log_event (Message_arrived h t l m rc) w)\<lparr>ma_results := tl (ma_results w)\<rparr>"
    using assms(1) by (auto simp: MQTTAsync_deliverMessage_def Let_def)
  show "messages_kept w w'" "client_at j w' = client_at j w" unfolding w' by (rule log_event_kept)+
  show "arrived j w' = arrived j w @ (if rc \<and> j = k then [(t, l, m)] else [])"
    using assms(2,3) by (cases rc) (auto simp: w' arrived_def log_event_def handle_at_def taken_def)
qed

text \<open>Putting a message at the end of the queue of a client.\<close>

lemma enqueue_deliveries:
  assumes "k < length (items (clients w))" "upd_client k (\<lambda>c. c\<lparr>messageQueue := l_append (messageQueue c) qe\<rparr>) w = w'"
  shows "messages_kept w w'" "arrived j w' = arrived j w"
    "map entry_content (items (messageQueue (client_at j w')))
      = map entry_content (items (messageQueue (client_at j w))) @ (if j = k then [entry_content qe] else [])"
proof -
  show "messages_kept w w'" unfolding assms(2) [symmetric] by (rule upd_client_kept) simp_all
  have "layer_agrees w w'" by (rule more_layer_agrees) (simp add: assms(2) [symmetric])
  then show "arrived j w' = arrived j w" by (rule arrived_cong)
  show "map entry_content (items (messageQueue (client_at j w')))
      = map entry_content (items (messageQueue (client_at j w))) @ (if j = k then [entry_content qe] else [])"
    using assms(1) by (cases "j = k") (auto simp: assms(2) [symmetric] l_append_def)
qed

text \<open>Storing the last entry of the queue changes its number only.\<close>

lemma map_update_last:
  assumes "xs \<noteq> []" "f y = f (last xs)"
  shows "map f (xs[length xs - Suc 0 := y]) = map f xs"
proof -
  have "(map f xs)[length xs - Suc 0 := f (last xs)] = map f xs"
    using assms(1) by (simp add: last_conv_nth list_update_same_conv)
  then show ?thesis by (simp add: map_update assms(2))
qed

lemma persist_entry_deliveries:
  assumes "k < length (items (clients w))" "items (messageQueue (client_at k w)) \<noteq> []"
    and qe: "qe = last (items (messageQueue (client_at k w)))"
    and p: "MQTTPersistence_persistQueueEntry (default_store dir) k qe w = (rc, qe1, w1)"
    and w2: "w2 = upd_client k (\<lambda>c. c\<lparr>messageQueue := l_update (length (items (messageQueue c)) - 1) (\<lambda>_. qe1)
        (messageQueue c)\<rparr>) w1"
  shows "messages_kept w w2" "deliveries j w2 = deliveries j w"
proof -
  note f = disk_store.persistQueueEntry_frame [OF p]
  obtain n where n: "same_but_disk (upd_client k (\<lambda>c. c\<lparr>qentry_seqno := n\<rparr>) w) w1" using f(1) by blast
  define w0 where "w0 = upd_client k (\<lambda>c. c\<lparr>qentry_seqno := n\<rparr>) w"
  note n = n [folded w0_def]
  have kept0: "messages_kept w w0" unfolding w0_def by (rule upd_client_kept) simp_all
  have q0: "messageQueue (client_at i w0) = messageQueue (client_at i w)" for i
    using assms(1) by (cases "i = k") (simp_all add: w0_def)
  have tr: "protocol.truncate w1 = protocol.truncate w0" using n by (rule same_but_disk_protocol)
  then have kept1: "messages_kept w0 w1" using flows_same_kept agrees_flows truncate_agrees by blast
  have c1: "client_at i w1 = client_at i w0" for i using truncate_eqD(1) [OF tr] by (simp add: client_at_def)
  have k1: "k < length (items (clients w1))" using assms(1) truncate_eqD(1) [OF tr] by (simp add: w0_def)
  have kept2: "messages_kept w1 w2" unfolding w2 by (rule upd_client_kept) simp_all
  show "messages_kept w w2" using kept0 kept1 kept2 messages_kept_trans by blast
  have "layer_agrees w w0" unfolding w0_def by (rule more_layer_agrees) simp
  then have a0: "arrived j w0 = arrived j w" by (rule arrived_cong)
  have "layer_agrees w1 w2" unfolding w2 by (rule more_layer_agrees) simp
  then have "arrived j w2 = arrived j w"
    using arrived_cong [OF disk_layer_agrees [OF n]] arrived_cong [of w1 w2] a0 by simp
  moreover have "entry_content qe1 = entry_content qe" using f(2) by (auto simp: entry_content_def)
  then have "map entry_content (items (messageQueue (client_at j w2))) = map entry_content (items (messageQueue (client_at j w)))"
    using k1 map_update_last [OF assms(2), of entry_content qe1] qe by (cases "j = k") (simp_all add: w2 c1 q0)
  ultimately show "deliveries j w2 = deliveries j w" by (simp add: deliveries_def)
qed

lemma processPublication_delivers:
  assumes "k < length (items (clients w))" "pu_topic pub = Ptr t" "publish_payload pub \<noteq> None"
  shows "\<exists>w'. Protocol_processPublication (default_store dir) pub k ap w = Some w' \<and> messages_kept w w'
      \<and> deliveries k w' = deliveries k w @ [content_of pub] \<and> (\<forall>j. j \<noteq> k \<longrightarrow> deliveries j w' = deliveries j w)"
proof -
  obtain b where b: "publish_payload pub = Some b" using assms(3) by blast
  define mm where "mm = message_of pub b"
  have content: "content_of pub = (t, pu_topiclen pub, mm)" by (simp add: content_of_def assms(2) b mm_def)
  define empty where "empty = (items (messageQueue (client_at k w)) = [])"
  obtain rc w1 where w1: "(if items (messageQueue (client_at k w)) = [] \<and> connected (client_at k w)
                  then (case find_handle (clientStructCompare k) w of
                          (None, w1) \<Rightarrow> (False, w1)
                        | (Some h, w1) \<Rightarrow>
                            if cb_messageArrived (handle_at h w1)
                            then MQTTAsync_deliverMessage h t (pu_topiclen pub) mm w1
                            else (False, w1))
                  else (False, w)) = (rc, w1)" by (rule prod.exhaust)
  have "messages_kept w w1 \<and> (\<forall>j. client_at j w1 = client_at j w)
      \<and> (\<forall>j. arrived j w1 = arrived j w @ (if rc \<and> j = k then [content_of pub] else [])) \<and> (rc \<longrightarrow> empty)"
  proof (cases "items (messageQueue (client_at k w)) = [] \<and> connected (client_at k w)")
    case True
    obtain r w0 where f: "find_handle (clientStructCompare k) w = (r, w0)" by (rule prod.exhaust)
    note f' = find_handle_layer [OF f]
    show ?thesis
    proof (cases r)
      case None
      then show ?thesis using w1 True f f'(2,3) arrived_cong [OF f'(1)] by simp
    next
      case (Some h)
      then have h: "h < length (items (handles w0))" "h_c (handle_at h w0) = k"
        using f'(5,6) by (simp_all add: clientStructCompare_def handle_at_def)
      show ?thesis
      proof (cases "cb_messageArrived (handle_at h w0)")
        case cb: True
        then have "MQTTAsync_deliverMessage h t (pu_topiclen pub) mm w0 = (rc, w1)" using w1 True f Some by simp
        note d = arrived_deliver [OF this h]
        have "messages_kept w w1" using messages_kept_trans [OF f'(2) d(2)] .
        then show ?thesis using True d(1,3) f'(3) arrived_cong [OF f'(1)] by (simp add: content empty_def)
      next
        case False
        then show ?thesis using w1 True f Some f'(2,3) arrived_cong [OF f'(1)] by simp
      qed
    qed
  next
    case False
    then show ?thesis using w1 by auto
  qed
  then have kept1: "messages_kept w w1" and c1: "client_at j w1 = client_at j w"
    and a1: "arrived j w1 = arrived j w @ (if rc \<and> j = k then [content_of pub] else [])" and e: "rc \<Longrightarrow> empty" for j
    by blast+
  have k1: "k < length (items (clients w1))" using assms(1) kept1 by (simp add: messages_kept_def)
  show ?thesis
  proof (cases rc)
    case True
    then have "Protocol_processPublication (default_store dir) pub k ap w = Some w1"
      unfolding Protocol_processPublication_def assms(2) b Let_def prod.case cptr.case option.case mm_def [symmetric] w1
      by simp
    moreover have "deliveries k w1 = deliveries k w @ [content_of pub]"
      using True e c1 a1 by (simp add: deliveries_def empty_def)
    moreover have "deliveries j w1 = deliveries j w" if "j \<noteq> k" for j using that c1 a1 by (simp add: deliveries_def)
    ultimately show ?thesis using kept1 by blast
  next
    case False
    define qe where "qe = \<lparr>qe_msg = mm, topicName = t, topicLen = pu_topiclen pub, seqno = 0\<rparr>"
    define w2 where "w2 = upd_client k (\<lambda>c. c\<lparr>messageQueue := l_append (messageQueue c) qe\<rparr>) w1"
    note q2 = enqueue_deliveries [OF k1 w2_def [symmetric]]
    have "entry_content qe = content_of pub" by (simp add: entry_content_def qe_def content)
    then have d2: "deliveries j w2 = deliveries j w @ (if j = k then [content_of pub] else [])" for j
      using False q2(2,3) [of j] c1 [of j] a1 [of j] by (simp add: deliveries_def)
    have kept2: "messages_kept w w2" using kept1 q2(1) messages_kept_trans by blast
    have P: "Protocol_processPublication (default_store dir) pub k ap w =
        (if persistence (client_at k w2)
         then (case MQTTPersistence_persistQueueEntry (default_store dir) k qe w2 of
                 (_, qe1, w3) \<Rightarrow> Some (upd_client k (\<lambda>c. c\<lparr>messageQueue :=
                      l_update (length (items (messageQueue c)) - 1) (\<lambda>_. qe1) (messageQueue c)\<rparr>) w3))
         else Some w2)"
      unfolding Protocol_processPublication_def assms(2) b Let_def prod.case cptr.case option.case mm_def [symmetric] w1
        qe_def [symmetric] w2_def [symmetric] if_not_P [OF False] ..
    show ?thesis
    proof (cases "persistence (client_at k w2)")
      case True
      obtain r qe1 w3 where p: "MQTTPersistence_persistQueueEntry (default_store dir) k qe w2 = (r, qe1, w3)"
        by (rule prod_cases3)
      have k2: "k < length (items (clients w2))" using k1 by (simp add: w2_def)
      have "items (messageQueue (client_at k w2)) \<noteq> []" "qe = last (items (messageQueue (client_at k w2)))"
        using k1 by (simp_all add: w2_def l_append_def)
      note d3 = persist_entry_deliveries [OF k2 this p refl]
      have "messages_kept w (upd_client k (\<lambda>c. c\<lparr>messageQueue :=
          l_update (length (items (messageQueue c)) - 1) (\<lambda>_. qe1) (messageQueue c)\<rparr>) w3)"
        using messages_kept_trans [OF kept2 d3(1)] .
      then show ?thesis using True p d2 d3(2) by (simp add: P)
    next
      case pers: False
      then show ?thesis using d2 kept2 by (simp add: P)
    qed
  qed
qed

section \<open>The asynchronous client as the layer above the protocol\<close>

definition async_app :: "bytes \<Rightarrow> (nat \<Rightarrow> 'z async_scheme \<Rightarrow> 'z async_scheme option) \<Rightarrow> 'z async_scheme application" where
  "async_app dir closing =
     \<lparr>process_publication = Protocol_processPublication (default_store dir), close_session = closing\<rparr>"

interpretation async_layer: protocol_layer "default_store dir" same_but_disk "async_app dir closing" deliveries content_of
    layer_agrees for dir closing
proof
  fix w w1 w2 w3 w' :: "'a async_scheme" and k j :: nat and pub :: publish_packet and t :: bytes and ap :: bool
  show "layer_agrees w1 w2 \<Longrightarrow> layer_agrees w2 w3 \<Longrightarrow> layer_agrees w1 w3" by (simp add: layer_agrees_def)
  show "same_but_disk w w' \<Longrightarrow> layer_agrees w w'" by (rule disk_layer_agrees)
  show "protocol.more w' = protocol.more w \<Longrightarrow> layer_agrees w w'" by (rule more_layer_agrees)
  show "layer_agrees w w' \<Longrightarrow> messageQueue (client_at j w') = messageQueue (client_at j w) \<Longrightarrow> deliveries j w' = deliveries j w"
    using arrived_cong by (simp add: deliveries_def)
  show "k < length (items (clients w)) \<Longrightarrow> pu_topic pub = Ptr t \<Longrightarrow> publish_payload pub \<noteq> None
      \<Longrightarrow> \<exists>w'. process_publication (async_app dir closing) pub k ap w = Some w' \<and> messages_kept w w'
          \<and> deliveries k w' = deliveries k w @ [content_of pub] \<and> (\<forall>j. j \<noteq> k \<longrightarrow> deliveries j w' = deliveries j w)"
    using processPublication_delivers by (simp add: async_app_def)
qed

end
