(* ===== verification/AsyncCommands.thy ===== *)
theory AsyncCommands
  imports AsyncDelivery
begin

text \<open>
  The queue of commands of \<open>MqttC/MQTTAsyncUtils.c\<close>: keeping commands in the store, restoring them and
  adding a command to the list \<open>MQTTAsync_commands\<close>.

  \<open>None\<close> is undefined behaviour, as in the other theories; the null pointer that
  \<open>MQTTAsync_restoreCommand\<close> returns for a record it cannot read is a value of its own. Allocation
  succeeds. A number behind the dash of a key that is too large for \<open>int\<close> is undefined for \<open>atoi\<close>.
\<close>

definition handle_client :: "nat \<Rightarrow> 'z async_scheme \<Rightarrow> client" where
  "handle_client h w = client_at (h_c (handle_at h w)) w"

definition upd_handle_client :: "nat \<Rightarrow> (client \<Rightarrow> client) \<Rightarrow> 'z async_scheme \<Rightarrow> 'z async_scheme" where
  "upd_handle_client h f w = upd_client (h_c (handle_at h w)) f w"

section \<open>Storing a command\<close>

text \<open>The structure in memory: four characters, the version, three options and a byte of padding.\<close>

definition option_bytes :: "subscribe_options \<Rightarrow> bytes" where
  "option_bytes opts =
     ascii ''MQSO'' @ int_bytes 0 @ [noLocal opts, retainAsPublished opts, retainHandling opts, 0]"

fun topic_buffers :: "bool \<Rightarrow> bytes list \<Rightarrow> int list \<Rightarrow> subscribe_options list \<Rightarrow> bytes list option" where
  "topic_buffers v5 [] qoss opts = Some []"
| "topic_buffers v5 (t # ts) [] opts = None"
| "topic_buffers v5 (t # ts) (q # qoss) opts =
     (if v5
      then (case opts of
              [] \<Rightarrow> None
            | opt # os \<Rightarrow> map_option (\<lambda>r. (cstr t @ [0]) # int_bytes q # option_bytes opt # r) (topic_buffers v5 ts qoss os))
      else map_option (\<lambda>r. (cstr t @ [0]) # int_bytes q # r) (topic_buffers v5 ts qoss opts))"

text \<open>The buffers of a command without its properties; none for a command that is not stored.\<close>

definition command_buffers :: "bool \<Rightarrow> command \<Rightarrow> bytes list option" where
  "command_buffers v5 cmd =
     (let head = [int_bytes (int (cmd_type cmd)), int_bytes (token cmd)]
      in if cmd_type cmd = SUBSCRIBE
         then (case details cmd of
                 Sub topics qoss opts optlist \<Rightarrow>
                   map_option (\<lambda>bufs. head @ int_bytes (int (length topics)) # bufs)
                     (topic_buffers v5 topics qoss
                        (if length topics = 1 then [opts] else case optlist of NULL \<Rightarrow> [] | Ptr os \<Rightarrow> os))
               | _ \<Rightarrow> None)
         else if cmd_type cmd = UNSUBSCRIBE
         then (case details cmd of
                 Unsub topics \<Rightarrow> Some (head @ int_bytes (int (length topics)) # map (\<lambda>t. cstr t @ [0]) topics)
               | _ \<Rightarrow> None)
         else if cmd_type cmd = PUBLISH
         then (case details cmd of
                 Pub (Ptr name) n payload qos retained \<Rightarrow>
                   (case payload of
                      NULL \<Rightarrow> if n = 0 then Some [] else None
                    | Ptr p \<Rightarrow> if n \<le> length p then Some (take n p) else None)
                   \<bind> (\<lambda>p. Some (head @ [cstr name @ [0], int_bytes (int n), p, int_bytes (int qos),
                                          int_bytes (of_bool retained)]))
               | _ \<Rightarrow> None)
         else Some [])"

text \<open>The buffer of the properties is as long as \<open>MQTTProperties_len\<close> says.\<close>

definition property_buffer :: "mprops \<Rightarrow> bytes option" where
  "property_buffer props =
     (let out = snd (MQTTProperties_write (Ptr props))
      in if int (length out) = MQTTProperties_len (Ptr props) then Some out else None)"

definition command_key :: "int \<Rightarrow> nat \<Rightarrow> bytes \<times> bool" where
  "command_key MQTTVersion n =
     print_key (if MQTTVersion \<ge> MQTTVERSION_5 then PERSISTENCE_V5_COMMAND_KEY else PERSISTENCE_COMMAND_KEY) (int n)"

definition MQTTAsync_unpersistCommand ::
    "'z async_scheme persist_api \<Rightarrow> queued \<Rightarrow> 'z async_scheme \<Rightarrow> int \<times> 'z async_scheme" where
  "MQTTAsync_unpersistCommand per qcmd w =
     (let c = handle_client (q_client qcmd) w; (key, toolong) = command_key (c_MQTTVersion c) (q_seqno qcmd)
      in if toolong then (MQTTASYNC_PERSISTENCE_ERROR, w) else premove per (phandle c) key w)"

definition next_seqno :: "nat \<Rightarrow> nat" where
  "next_seqno n = (let m = (n + 1) mod 2 ^ 32 in if m = PERSISTENCE_SEQNO_LIMIT then 0 else m)"

text \<open>
  The code of the callback is overwritten by that of the store. The sequence number is set also when
  the store fails.
\<close>

definition MQTTAsync_persistCommand ::
    "'z async_scheme persist_api \<Rightarrow> queued \<Rightarrow> 'z async_scheme \<Rightarrow> (int \<times> queued \<times> 'z async_scheme) option" where
  "MQTTAsync_persistCommand per qcmd w = do {
     let h = q_client qcmd;
     let c = handle_client h w;
     let v5 = (c_MQTTVersion c \<ge> MQTTVERSION_5);
     bufs \<leftarrow> command_buffers v5 (q_command qcmd);
     let w1 = upd_handle h (\<lambda>m. m\<lparr>command_seqno := next_seqno (command_seqno m)\<rparr>) w;
     let n = command_seqno (handle_at h w1);
     let process = (bufs \<noteq> []);
     props \<leftarrow> (if v5 \<and> process then map_option (\<lambda>p. [p]) (property_buffer (cmd_properties (q_command qcmd))) else Some []);
     let rc0 = (if v5 \<and> process then fst (MQTTProperties_write (Ptr (cmd_properties (q_command qcmd)))) else 0);
     let (key, toolong) = command_key (if process then c_MQTTVersion c else 0) n;
     Some (if toolong then (rc0, qcmd, w1)
           else if process
           then (let (_, bufs1, w2) = (if beforeWrite c then before_write per (bufs @ props) w1 else (0, bufs @ props, w1));
                     (rc, w3) = pput per (phandle c) key bufs1 w2
                 in (rc, qcmd\<lparr>q_seqno := n\<rparr>, w3))
           else (rc0, qcmd, w1)) }"

section \<open>Restoring a command\<close>

text \<open>The jump to \<open>error_exit\<close> is \<open>Some NULL\<close>.\<close>

definition checked :: "'a cptr option \<Rightarrow> ('a \<Rightarrow> 'b cptr option) \<Rightarrow> 'b cptr option" where
  "checked x f = (case x of None \<Rightarrow> None | Some NULL \<Rightarrow> Some NULL | Some (Ptr v) \<Rightarrow> f v)"

definition restore_int :: "bytes \<Rightarrow> nat \<Rightarrow> (int \<times> nat) cptr option" where
  "restore_int buffer cur = (if cur + 4 > length buffer then Some NULL else map_option Ptr (read_int buffer cur))"

text \<open>
  The comparison that is meant to find a missing NUL is true for a string whose NUL is the last byte;
  a string without a NUL is copied past the end.
\<close>

definition restore_string :: "bytes \<Rightarrow> nat \<Rightarrow> bool \<Rightarrow> (bytes \<times> nat) cptr option" where
  "restore_string buffer cur copied =
     (let s = cstr (drop cur buffer); data_size = length s + 1
      in if data_size = length buffer - cur then Some NULL
         else if copied \<and> data_size > length buffer - cur then None
         else Some (Ptr (s, cur + data_size)))"

definition no_options :: subscribe_options where
  "no_options = \<lparr>noLocal = 0, retainAsPublished = 0, retainHandling = 0\<rparr>"

definition restore_options :: "bool \<Rightarrow> bytes \<Rightarrow> nat \<Rightarrow> (subscribe_options \<times> nat) cptr option" where
  "restore_options v5 buffer cur =
     (if \<not> v5 then Some (Ptr (no_options, cur))
      else if cur + 12 > length buffer then Some NULL
      else do {
        nl \<leftarrow> rd buffer (cur + 8); rap \<leftarrow> rd buffer (cur + 9); rh \<leftarrow> rd buffer (cur + 10);
        Some (Ptr (\<lparr>noLocal = nl, retainAsPublished = rap, retainHandling = rh\<rparr>, cur + 12)) })"

fun restore_subs :: "bool \<Rightarrow> nat \<Rightarrow> bytes \<Rightarrow> nat \<Rightarrow> ((bytes \<times> int \<times> subscribe_options) list \<times> nat) cptr option" where
  "restore_subs v5 0 buffer cur = Some (Ptr ([], cur))"
| "restore_subs v5 (Suc n) buffer cur =
     checked (restore_string buffer cur True) (\<lambda>(t, c1).
     checked (restore_int buffer c1) (\<lambda>(q, c2).
     checked (restore_options v5 buffer c2) (\<lambda>(opts, c3).
     checked (restore_subs v5 n buffer c3) (\<lambda>(rest, c4).
     Some (Ptr ((t, q, opts) # rest, c4))))))"

fun restore_unsubs :: "nat \<Rightarrow> bytes \<Rightarrow> nat \<Rightarrow> (bytes list \<times> nat) cptr option" where
  "restore_unsubs 0 buffer cur = Some (Ptr ([], cur))"
| "restore_unsubs (Suc n) buffer cur =
     checked (restore_string buffer cur True) (\<lambda>(t, c1).
     checked (restore_unsubs n buffer c1) (\<lambda>(rest, c2).
     Some (Ptr (t # rest, c2))))"

text \<open>
  A negative length of the payload overflows the pointer. Values of QoS and retained flag that no
  command has are left out of the model like undefined behaviour.
\<close>

definition restore_pub :: "bool \<Rightarrow> bytes \<Rightarrow> nat \<Rightarrow> (details \<times> nat) cptr option" where
  "restore_pub skip buffer cur =
     checked (restore_string buffer cur (\<not> skip)) (\<lambda>(name, c1).
     checked (restore_int buffer c1) (\<lambda>(n, c2).
     if n < 0 then None
     else if c2 + nat n > length buffer then Some NULL
     else let payload = take (nat n) (drop c2 buffer); c3 = c2 + nat n
     in if c3 + 8 > length buffer then Some NULL
        else checked (restore_int buffer c3) (\<lambda>(qos, c4).
             checked (restore_int buffer c4) (\<lambda>(retained, c5).
             if qos < 0 \<or> retained \<notin> {0, 1} then None
             else Some (Ptr (if skip then Pub NULL (nat n) NULL (nat qos) (retained = 1)
                             else Pub (Ptr name) (nat n) (Ptr payload) (nat qos) (retained = 1), c5))))))"

definition restore_details ::
    "int \<Rightarrow> bool \<Rightarrow> bool \<Rightarrow> details \<Rightarrow> bytes \<Rightarrow> nat \<Rightarrow> (details \<times> nat) cptr option" where
  "restore_details type v5 skip d0 buffer cur =
     (if type = int SUBSCRIBE
      then if skip then Some (Ptr (d0, cur))
           else checked (restore_int buffer cur) (\<lambda>(n, c1).
                checked (restore_subs v5 (nat n) buffer c1) (\<lambda>(subs, c2).
                Some (Ptr (Sub (map fst subs) (map (fst \<circ> snd) subs)
                             (if v5 \<and> n = 1 then snd (snd (hd subs)) else no_options)
                             (if v5 \<and> n > 1 then Ptr (map (snd \<circ> snd) subs) else NULL), c2))))
      else if type = int UNSUBSCRIBE
      then if skip then Some (Ptr (d0, cur))
           else checked (restore_int buffer cur) (\<lambda>(n, c1).
                checked (restore_unsubs (nat n) buffer c1) (\<lambda>(topics, c2). Some (Ptr (Unsub topics, c2))))
      else if type = int PUBLISH then restore_pub skip buffer cur
      else Some NULL)"

definition no_queued :: queued where
  "no_queued = \<lparr>q_addr = 0, q_command = no_command, q_client = 0, q_seqno = 0, not_restored = False, q_key = NULL\<rparr>"

text \<open>
  The first call for a record has no command yet and reads only what is needed to keep it in the list;
  the second reads all of it.
\<close>

definition MQTTAsync_restoreCommand :: "bytes \<Rightarrow> int \<Rightarrow> queued cptr \<Rightarrow> queued cptr option" where
  "MQTTAsync_restoreCommand buffer MQTTVersion qcommand =
     (if buffer = [] then Some NULL
      else
        let q = (case qcommand of NULL \<Rightarrow> no_queued\<lparr>not_restored := True\<rparr> | Ptr q \<Rightarrow> q\<lparr>not_restored := False\<rparr>);
            v5 = (MQTTVersion \<ge> MQTTVERSION_5); cmd = q_command q
        in if 8 > length buffer then Some NULL
           else
             checked (restore_int buffer 0) (\<lambda>(type, c1).
             checked (restore_int buffer c1) (\<lambda>(tok, c2).
             checked (restore_details type v5 (not_restored q) (details cmd) buffer c2) (\<lambda>(d, c3).
             let cmd1 = cmd\<lparr>cmd_type := nat type, token := tok, details := d\<rparr>
             in if \<not> not_restored q \<and> v5
                then (case MQTTProperties_read (cmd_properties cmd1) buffer c3 (length buffer) of
                        None \<Rightarrow> None
                      | Some (rc, props, _) \<Rightarrow>
                          Some (if rc = 1 then Ptr (q\<lparr>q_command := cmd1\<lparr>cmd_properties := props\<rparr>\<rparr>) else NULL))
                else Some (Ptr (q\<lparr>q_command := cmd1\<rparr>))))))"

text \<open>One key of \<open>MQTTAsync_restoreCommands\<close>: the code, and the state with the command in the list.\<close>

definition is_command_key :: "bytes \<Rightarrow> bool" where
  "is_command_key key \<longleftrightarrow> has_stem PERSISTENCE_COMMAND_KEY key \<or> has_stem PERSISTENCE_V5_COMMAND_KEY key"

definition append_restored :: "nat \<Rightarrow> bytes \<Rightarrow> queued \<Rightarrow> 'z async_scheme \<Rightarrow> 'z async_scheme option" where
  "append_restored h key cmd w =
     (if key_number key \<ge> 2 ^ 31 then None
      else
        let n = key_number key;
            q = cmd\<lparr>q_addr := next_command w, q_client := h, q_seqno := n, q_key := Ptr (cstr key)\<rparr>
        in Some (upd_handle h (\<lambda>m. m\<lparr>command_seqno := max (command_seqno m) n,
                    noBufferedMessages := noBufferedMessages m + of_bool (cmd_type (q_command q) = PUBLISH)\<rparr>)
                  (w\<lparr>commands := l_append (commands w) q, next_command := next_command w + 1\<rparr>)))"

fun restore_commands_loop ::
    "'z async_scheme persist_api \<Rightarrow> nat \<Rightarrow> bytes list \<Rightarrow> 'z async_scheme \<Rightarrow> (int \<times> 'z async_scheme) option" where
  "restore_commands_loop per h [] w = Some (0, w)"
| "restore_commands_loop per h (key # keys) w =
     (if \<not> is_command_key key then restore_commands_loop per h keys w
      else
        let c = handle_client h w; (rc1, buf1, w1) = pget per (phandle c) key w
        in if rc1 \<noteq> 0 then Some (rc1, w1)
           else
             let (rc2, buf2, w2) = (if afterRead c then after_read per buf1 w1 else (0, buf1, w1))
             in if rc2 \<noteq> 0 then Some (rc2, w2)
                else
                  (case MQTTAsync_restoreCommand buf2
                          (if has_stem PERSISTENCE_V5_COMMAND_KEY key then MQTTVERSION_5 else MQTTVERSION_3_1_1) NULL of
                     None \<Rightarrow> None
                   | Some NULL \<Rightarrow> restore_commands_loop per h keys w2
                   | Some (Ptr cmd) \<Rightarrow> (case append_restored h key cmd w2 of
                                         None \<Rightarrow> None
                                       | Some w3 \<Rightarrow> restore_commands_loop per h keys w3)))"

text \<open>
  \<open>cmpkeys\<close> follows the dash of a key. \<open>qsort\<close> may order keys with the same number in any way; here they
  keep their order.
\<close>

definition MQTTAsync_restoreCommands ::
    "'z async_scheme persist_api \<Rightarrow> nat \<Rightarrow> 'z async_scheme \<Rightarrow> (int \<times> 'z async_scheme) option" where
  "MQTTAsync_restoreCommands per h w =
     (if persistence (handle_client h w)
      then (case pkeys per (phandle (handle_client h w)) w of (rc, keys, w1) \<Rightarrow>
              if rc \<noteq> 0 then Some (rc, w1)
              else if length keys > 1 \<and> (\<exists>key \<in> set keys. 45 \<notin> set (cstr key)) then None
              else restore_commands_loop per h (sort_key key_number keys) w1)
      else Some (0, w))"

section \<open>Removing records\<close>

fun unpersist_loop ::
    "'z async_scheme persist_api \<Rightarrow> nat \<Rightarrow> bytes list \<Rightarrow> bytes list \<Rightarrow> 'z async_scheme \<Rightarrow> int \<times> 'z async_scheme" where
  "unpersist_loop per k stems [] w = (0, w)"
| "unpersist_loop per k stems (key # keys) w =
     (if \<exists>stem \<in> set stems. has_stem stem key
      then (case premove per (phandle (client_at k w)) key w of (rc, w1) \<Rightarrow>
              if rc = 0 then unpersist_loop per k stems keys w1 else (rc, w1))
      else unpersist_loop per k stems keys w)"

definition unpersist_stems ::
    "'z async_scheme persist_api \<Rightarrow> nat \<Rightarrow> bytes list \<Rightarrow> 'z async_scheme \<Rightarrow> int \<times> 'z async_scheme" where
  "unpersist_stems per k stems w =
     (if persistence (client_at k w)
      then (case pkeys per (phandle (client_at k w)) w of (rc, keys, w1) \<Rightarrow>
              if rc = 0 then unpersist_loop per k stems keys w1 else (rc, w1))
      else (0, w))"

definition MQTTAsync_unpersistCommandsAndMessages ::
    "'z async_scheme persist_api \<Rightarrow> nat \<Rightarrow> 'z async_scheme \<Rightarrow> int \<times> 'z async_scheme" where
  "MQTTAsync_unpersistCommandsAndMessages per k w =
     unpersist_stems per k [PERSISTENCE_COMMAND_KEY, PERSISTENCE_V5_COMMAND_KEY, PERSISTENCE_QUEUE_KEY,
                            PERSISTENCE_V5_QUEUE_KEY] w"

definition MQTTAsync_unpersistInflightMessages ::
    "'z async_scheme persist_api \<Rightarrow> nat \<Rightarrow> 'z async_scheme \<Rightarrow> int \<times> 'z async_scheme" where
  "MQTTAsync_unpersistInflightMessages per k w =
     unpersist_stems per k [PERSISTENCE_PUBLISH_SENT, PERSISTENCE_V5_PUBLISH_SENT, PERSISTENCE_PUBREL,
                            PERSISTENCE_V5_PUBREL, PERSISTENCE_PUBLISH_RECEIVED, PERSISTENCE_V5_PUBLISH_RECEIVED] w"

section \<open>Adding a command\<close>

text \<open>
  The list of commands is searched from its first element backwards, so that only that element is
  looked at.
\<close>

definition duplicate_command :: "queued \<Rightarrow> 'z async_scheme \<Rightarrow> bool" where
  "duplicate_command command w =
     (case items (commands w) of
        [] \<Rightarrow> False
      | cur_cmd # _ \<Rightarrow> cmd_type (q_command cur_cmd) \<in> {CONNECT, DISCONNECT} \<and> q_client cur_cmd = q_client command)"

definition is_internal :: "command \<Rightarrow> bool" where
  "is_internal cmd = (case details cmd of Dis internal _ _ \<Rightarrow> internal | _ \<Rightarrow> False)"

definition skips_store :: "queued \<Rightarrow> 'z async_scheme \<Rightarrow> bool" where
  "skips_store command w \<longleftrightarrow>
     cmd_type (q_command command) = PUBLISH \<and> pub_qos (details (q_command command)) = 0
     \<and> (case createOptions (handle_at (q_client command) w) of
          NULL \<Rightarrow> False
        | Ptr opts \<Rightarrow> co_struct_version opts \<ge> 2 \<and> \<not> persistQoS0 opts)"

text \<open>
  A publication in the store is not kept in memory. The result is the command and whether the function is
  left at once, which a key that is too long makes it.
\<close>

definition drop_content :: "command \<Rightarrow> command" where
  "drop_content cmd =
     cmd\<lparr>details := (case details cmd of Pub _ n _ q r \<Rightarrow> Pub NULL n NULL q r | d \<Rightarrow> d),
         cmd_properties := MQTTProperties_free (cmd_properties cmd)\<rparr>"

definition store_command ::
    "'z async_scheme persist_api \<Rightarrow> queued \<Rightarrow> 'z async_scheme \<Rightarrow> (queued \<times> bool \<times> 'z async_scheme) option" where
  "store_command per command w =
     (if \<not> persistence (handle_client (q_client command) w) \<or> skips_store command w then Some (command, False, w)
      else do {
        (rc, q, w1) \<leftarrow> MQTTAsync_persistCommand per command w;
        Some (if cmd_type (q_command q) = PUBLISH \<and> rc = 0
              then (case command_key (c_MQTTVersion (handle_client (q_client q) w1)) (q_seqno q) of (key, toolong) \<Rightarrow>
                      if toolong then (q\<lparr>not_restored := True\<rparr>, True, w1)
                      else (q\<lparr>not_restored := True, q_key := Ptr key, q_command := drop_content (q_command q)\<rparr>, False, w1))
              else (q, False, w1)) })"

text \<open>Publications are counted; when there are too many the oldest makes room.\<close>

definition first_publish :: "nat \<Rightarrow> 'z async_scheme \<Rightarrow> queued option" where
  "first_publish h w = List.find (\<lambda>q. q_client q = h \<and> cmd_type (q_command q) = PUBLISH) (items (commands w))"

definition detach_command :: "queued \<Rightarrow> 'z async_scheme \<Rightarrow> 'z async_scheme" where
  "detach_command q w = w\<lparr>commands := snd (l_unlink (commands w) (\<lambda>r. q_addr r = q_addr q))\<rparr>"

definition buffer_full :: "nat \<Rightarrow> 'z async_scheme \<Rightarrow> bool" where
  "buffer_full h w =
     (case createOptions (handle_at h w) of
        NULL \<Rightarrow> False
      | Ptr opts \<Rightarrow> noBufferedMessages (handle_at h w) \<ge> maxBufferedMessages opts)"

definition count_publish ::
    "'z async_scheme persist_api \<Rightarrow> nat \<Rightarrow> 'z async_scheme \<Rightarrow> 'z async_scheme" where
  "count_publish per h w =
     (if buffer_full h w
      then (case first_publish h w of
              None \<Rightarrow> w
            | Some q \<Rightarrow>
                let w1 = detach_command q w
                in if persistence (handle_client h w1) then snd (MQTTAsync_unpersistCommand per q w1) else w1)
      else upd_handle h (\<lambda>m. m\<lparr>noBufferedMessages := noBufferedMessages m + 1\<rparr>) w)"

definition MQTTAsync_addCommand ::
    "'z async_scheme persist_api \<Rightarrow> queued \<Rightarrow> 'z async_scheme \<Rightarrow> (int \<times> 'z async_scheme) option" where
  "MQTTAsync_addCommand per command0 w =
     (let h = q_client command0; type = cmd_type (q_command command0);
          command = (if type \<noteq> CONNECT \<or> connect_state (handle_client h w) = NOT_IN_PROGRESS
                     then command0\<lparr>q_command := (q_command command0)\<lparr>start_time := clock w\<rparr>\<rparr> else command0)
      in if type = CONNECT \<or> type = DISCONNECT \<and> is_internal (q_command command)
         then Some (if duplicate_command command w then (MQTTASYNC_COMMAND_IGNORED, w)
                    else (MQTTASYNC_SUCCESS, w\<lparr>commands :=
                            l_insert (commands w) command (if items (commands w) = [] then None else Some 0)\<rparr>))
         else do {
           let pos = length (items (commands w));
           let w1 = w\<lparr>commands := l_append (commands w) command\<rparr>;
           (q, left, w2) \<leftarrow> store_command per command w1;
           let w3 = w2\<lparr>commands := l_update pos (\<lambda>_. q) (commands w2)\<rparr>;
           Some (MQTTASYNC_SUCCESS, if type = PUBLISH \<and> \<not> left then count_publish per h w3 else w3) })"

end
