(* ===== verification/AsyncRestore.thy ===== *)
theory AsyncRestore
  imports AsyncCommands
begin

text \<open>
  Commands in the store: what \<open>MQTTAsync_persistCommand\<close> writes is what \<open>MQTTAsync_restoreCommand\<close> reads,
  and a queue of commands survives a restart in its order.
\<close>

section \<open>Numbers and strings in a buffer\<close>

definition int_range :: "int \<Rightarrow> bool" where
  "int_range i \<longleftrightarrow> - 2147483648 \<le> i \<and> i < 2147483648"

lemma length_int_bytes [simp]: "length (int_bytes i) = 4"
  by (simp add: int_bytes_def Let_def)

lemma word_of_bytes:
  "ucast (ucast w :: byte) OR push_bit 8 (ucast (ucast (drop_bit 8 w) :: byte))
     OR push_bit 16 (ucast (ucast (drop_bit 16 w) :: byte)) OR push_bit 24 (ucast (ucast (drop_bit 24 w) :: byte))
   = (w :: 32 word)"
proof (rule bit_word_eqI)
  fix n assume "n < LENGTH(32)"
  then have "n < 8 \<or> 8 \<le> n \<and> n < 16 \<or> 16 \<le> n \<and> n < 24 \<or> 24 \<le> n \<and> n < 32" by auto
  then show "bit (ucast (ucast w :: byte) OR push_bit 8 (ucast (ucast (drop_bit 8 w) :: byte))
     OR push_bit 16 (ucast (ucast (drop_bit 16 w) :: byte)) OR push_bit 24 (ucast (ucast (drop_bit 24 w) :: byte))
      :: 32 word) n = bit w n"
    by (auto simp: bit_simps)
qed

lemma sint_of_int_range: "int_range i \<Longrightarrow> sint (of_int i :: 32 word) = i"
  by (simp add: int_range_def signed_of_int signed_take_bit_int_eq_self)

lemma read_int_bytes:
  assumes "holds_at mem cur (int_bytes i)" "int_range i"
  shows "read_int mem cur = Some (i, cur + 4)"
  using assms sint_of_int_range [OF assms(2)] word_of_bytes [of "of_int i"]
  by (simp add: int_bytes_def Let_def codec_simps read_int_def rd_def numeral_3_eq_3)

lemma restore_int_ok:
  assumes "holds_at mem cur (int_bytes i)" "int_range i"
  shows "restore_int mem cur = Some (Ptr (i, cur + 4))"
  using assms read_int_bytes [OF assms] holds_at_bound [OF assms(1)] by (simp add: restore_int_def)

lemma cstr_at:
  assumes "holds_at mem cur (t @ [0])" "0 \<notin> set t"
  shows "cstr (drop cur mem) = t"
proof -
  have t: "take (length (t @ [0])) (drop cur mem) = t @ [0]" by (rule holds_at_take [OF assms(1)])
  have "drop cur mem = t @ 0 # drop (length (t @ [0])) (drop cur mem)"
    using append_take_drop_id [of "length (t @ [0])" "drop cur mem"] unfolding t by simp
  moreover have "cstr (t @ 0 # r) = t" for r
    using assms(2) unfolding cstr_def by (subst takeWhile_append2) auto
  ultimately show ?thesis by metis
qed

lemma restore_string_ok:
  assumes "holds_at mem cur (t @ [0])" "0 \<notin> set t" "cur + length t + 1 < length mem"
  shows "restore_string mem cur copied = Some (Ptr (t, cur + length t + 1))"
  using assms(3) by (auto simp: restore_string_def cstr_at [OF assms(1,2)])

lemma restore_string_last:
  assumes "holds_at mem cur (t @ [0])" "0 \<notin> set t" "cur + length t + 1 = length mem"
  shows "restore_string mem cur copied = Some NULL"
  using assms(3) by (auto simp: restore_string_def cstr_at [OF assms(1,2)])

lemma checked_simps [simp]:
  "checked (Some (Ptr v)) f = f v" "checked (Some NULL) f = Some NULL" "checked None f = None"
  by (simp_all add: checked_def)

lemma length_option_bytes [simp]: "length (option_bytes opts) = 12"
  by (simp add: option_bytes_def ascii_def)

lemma restore_options_ok:
  assumes "holds_at mem cur (option_bytes opts)"
  shows "restore_options True mem cur = Some (Ptr (opts, cur + 12))"
proof -
  have "holds_at mem (cur + 8) [noLocal opts, retainAsPublished opts, retainHandling opts, 0]"
    using assms holds_at_append [of mem cur "ascii ''MQSO'' @ int_bytes 0"] by (simp add: option_bytes_def ascii_def)
  then show ?thesis
    using holds_at_bound [OF assms] by (simp add: restore_options_def rd_def codec_simps numeral_eq_Suc)
qed

section \<open>The topics of a subscription\<close>

lemma restore_subs_ok:
  assumes "holds_at mem cur (concat bufs)" "topic_buffers v5 ts qs os = Some bufs" "length qs = length ts"
    and "\<forall>t \<in> set ts. 0 \<notin> set t" "\<forall>q \<in> set qs. int_range q" "v5 \<Longrightarrow> length os = length ts"
  shows "restore_subs v5 (length ts) mem cur
    = Some (Ptr (zip ts (zip qs (if v5 then os else replicate (length ts) no_options)), cur + length (concat bufs)))"
  using assms
proof (induction ts arbitrary: qs os bufs cur)
  case (Cons t ts)
  obtain q qs' where qs: "qs = q # qs'" using Cons.prems(3) by (cases qs) auto
  have q: "int_range q" using Cons.prems(5) qs by simp
  have t: "0 \<notin> set t" "cstr t = t" using Cons.prems(4) by simp_all
  show ?case
  proof (cases v5)
    case True
    then obtain opt os' where os: "os = opt # os'" using Cons.prems(6) by (cases os) auto
    obtain r where r: "topic_buffers v5 ts qs' os' = Some r" "bufs = (t @ [0]) # int_bytes q # option_bytes opt # r"
      using Cons.prems(2) True by (auto simp: qs os t(2))
    have h: "holds_at mem cur (t @ [0])" "holds_at mem (cur + length t + 1) (int_bytes q)"
        "holds_at mem (cur + length t + 5) (option_bytes opt)" "holds_at mem (cur + length t + 17) (concat r)"
      using Cons.prems(1) unfolding r(2) by (simp_all add: codec_simps add_ac)
    have b: "cur + length t + 1 < length mem" using holds_at_bound [OF h(2)] by simp
    have "restore_subs v5 (length ts) mem (cur + length t + 17)
        = Some (Ptr (zip ts (zip qs' os'), cur + length t + 17 + length (concat r)))"
      using Cons.IH [OF h(4) r(1)] Cons.prems(3-6) True by (simp add: qs os)
    then show ?thesis
      using restore_string_ok [OF h(1) t(1) b] restore_int_ok [OF h(2) q] restore_options_ok [OF h(3)] True
      by (simp add: qs os r(2) add_ac)
  next
    case False
    obtain r where r: "topic_buffers v5 ts qs' os = Some r" "bufs = (t @ [0]) # int_bytes q # r"
      using Cons.prems(2) False by (auto simp: qs t(2))
    have h: "holds_at mem cur (t @ [0])" "holds_at mem (cur + length t + 1) (int_bytes q)"
        "holds_at mem (cur + length t + 5) (concat r)"
      using Cons.prems(1) unfolding r(2) by (simp_all add: codec_simps add_ac)
    have b: "cur + length t + 1 < length mem" using holds_at_bound [OF h(2)] by simp
    have "restore_subs v5 (length ts) mem (cur + length t + 5)
        = Some (Ptr (zip ts (zip qs' (replicate (length ts) no_options)), cur + length t + 5 + length (concat r)))"
      using Cons.IH [OF h(3) r(1)] Cons.prems(3-5) False by (simp add: qs)
    moreover have "restore_options v5 mem c = Some (Ptr (no_options, c))" for c using False by (simp add: restore_options_def)
    ultimately show ?thesis
      using restore_string_ok [OF h(1) t(1) b] restore_int_ok [OF h(2) q] False
      by (simp add: qs r(2) add_ac)
  qed
qed simp

lemma restore_unsubs_ok:
  assumes "holds_at mem cur (concat (map (\<lambda>t. cstr t @ [0]) ts))" "\<forall>t \<in> set ts. 0 \<notin> set t"
    and "cur + length (concat (map (\<lambda>t. cstr t @ [0]) ts)) < length mem"
  shows "restore_unsubs (length ts) mem cur = Some (Ptr (ts, cur + length (concat (map (\<lambda>t. cstr t @ [0]) ts))))"
  using assms
proof (induction ts arbitrary: cur)
  case (Cons t ts)
  have t: "0 \<notin> set t" "cstr t = t" using Cons.prems(2) by simp_all
  have h: "holds_at mem cur (t @ [0])" "holds_at mem (cur + length t + 1) (concat (map (\<lambda>t. cstr t @ [0]) ts))"
    using Cons.prems(1) t(2) by (simp_all add: codec_simps add.assoc)
  have b: "cur + length t + 1 < length mem" using Cons.prems(3) t(2) by simp
  show ?case
    using restore_string_ok [OF h(1) t(1) b] Cons.IH [OF h(2)] Cons.prems(2,3) t(2) by (simp add: add.assoc)
qed simp

text \<open>The last topic of an \<open>UNSUBSCRIBE\<close> without properties is what the comparison rejects.\<close>

lemma restore_unsubs_last:
  assumes "holds_at mem cur (concat (map (\<lambda>t. cstr t @ [0]) ts))" "\<forall>t \<in> set ts. 0 \<notin> set t" "ts \<noteq> []"
    and "cur + length (concat (map (\<lambda>t. cstr t @ [0]) ts)) = length mem"
  shows "restore_unsubs (length ts) mem cur = Some NULL"
  using assms
proof (induction ts arbitrary: cur)
  case (Cons t ts)
  have t: "0 \<notin> set t" "cstr t = t" using Cons.prems(2) by simp_all
  have h: "holds_at mem cur (t @ [0])" "holds_at mem (cur + length t + 1) (concat (map (\<lambda>t. cstr t @ [0]) ts))"
    using Cons.prems(1) t(2) by (simp_all add: codec_simps add.assoc)
  show ?case
  proof (cases "ts = []")
    case True
    then show ?thesis using restore_string_last [OF h(1) t(1)] Cons.prems(4) t(2) by simp
  next
    case False
    then have b: "cur + length t + 1 < length mem" using Cons.prems(4) t(2) by (cases ts) simp_all
    show ?thesis
      using restore_string_ok [OF h(1) t(1) b] Cons.IH [OF h(2) _ False] Cons.prems(2,4) t(2) by (simp add: add.assoc)
  qed
qed simp

section \<open>A whole record\<close>

fun details_ok :: "bool \<Rightarrow> nat \<Rightarrow> details \<Rightarrow> bool" where
  "details_ok v5 type (Sub topics qoss opts optlist) \<longleftrightarrow>
     type = SUBSCRIBE \<and> length topics < 2147483648 \<and> length qoss = length topics \<and> list_all (\<lambda>t. 0 \<notin> set t) topics
     \<and> list_all int_range qoss
     \<and> (v5 \<and> length topics > 1 \<longrightarrow> (case optlist of NULL \<Rightarrow> False | Ptr os \<Rightarrow> length os = length topics))"
| "details_ok v5 type (Unsub topics) \<longleftrightarrow>
     type = UNSUBSCRIBE \<and> length topics < 2147483648 \<and> list_all (\<lambda>t. 0 \<notin> set t) topics"
| "details_ok v5 type (Pub name n payload qos retained) \<longleftrightarrow>
     type = PUBLISH \<and> n < 2147483648 \<and> qos \<le> 2 \<and> (case name of NULL \<Rightarrow> False | Ptr t \<Rightarrow> 0 \<notin> set t)
     \<and> (case payload of NULL \<Rightarrow> False | Ptr p \<Rightarrow> length p = n)"
| "details_ok v5 type (Dis internal timeout reason) \<longleftrightarrow> False"
| "details_ok v5 type (Conn uri version) \<longleftrightarrow> False"

text \<open>The options that are kept depend on the version and the number of topics.\<close>

fun stored_details :: "bool \<Rightarrow> details \<Rightarrow> details" where
  "stored_details v5 (Sub topics qoss opts optlist) =
     Sub topics qoss (if v5 \<and> length topics = 1 then opts else no_options)
       (if v5 \<and> length topics > 1 then optlist else NULL)"
| "stored_details v5 d = d"

definition command_ok :: "bool \<Rightarrow> command \<Rightarrow> bool" where
  "command_ok v5 cmd \<longleftrightarrow>
     details_ok v5 (cmd_type cmd) (details cmd) \<and> int_range (token cmd)
     \<and> props_inv (cmd_properties cmd) \<and> p_length (cmd_properties cmd) < 268435456"

definition command_record :: "bool \<Rightarrow> command \<Rightarrow> bytes option" where
  "command_record v5 cmd = do {
     bufs \<leftarrow> command_buffers v5 cmd;
     props \<leftarrow> (if v5 then property_buffer (cmd_properties cmd) else Some []);
     Some (concat bufs @ props) }"

lemma property_buffer_ok:
  "props_inv ps \<Longrightarrow> p_length ps < 268435456 \<Longrightarrow> property_buffer ps = Some (snd (MQTTProperties_write (Ptr ps)))"
  using MQTTProperties_len_written [of "Ptr ps"] by (simp add: property_buffer_def Let_def)

lemma type_ranges [simp]: "int_range (int SUBSCRIBE)" "int_range (int UNSUBSCRIBE)" "int_range (int PUBLISH)"
  by (simp_all add: int_range_def)

lemma int_range_nat [simp]: "n < 2147483648 \<Longrightarrow> int_range (int n)"
  by (simp add: int_range_def)

text \<open>Type and token at the start, then the details from the ninth byte.\<close>

lemma restoreCommand_eq:
  assumes "holds_at buffer 0 (int_bytes (int type) @ int_bytes tok)" "int_range (int type)" "int_range tok"
    and "q = (case qcommand of NULL \<Rightarrow> no_queued\<lparr>not_restored := True\<rparr> | Ptr q \<Rightarrow> q\<lparr>not_restored := False\<rparr>)"
  shows "MQTTAsync_restoreCommand buffer MQTTVersion qcommand =
    checked (restore_details (int type) (MQTTVersion \<ge> MQTTVERSION_5) (not_restored q) (details (q_command q)) buffer 8) (\<lambda>(d, c3).
      let cmd1 = (q_command q)\<lparr>cmd_type := type, token := tok, details := d\<rparr>
      in if \<not> not_restored q \<and> MQTTVersion \<ge> MQTTVERSION_5
         then (case MQTTProperties_read (cmd_properties cmd1) buffer c3 (length buffer) of
                 None \<Rightarrow> None
               | Some (rc, props, _) \<Rightarrow>
                   Some (if rc = 1 then Ptr (q\<lparr>q_command := cmd1\<lparr>cmd_properties := props\<rparr>\<rparr>) else NULL))
         else Some (Ptr (q\<lparr>q_command := cmd1\<rparr>)))"
proof -
  have h: "holds_at buffer 0 (int_bytes (int type))" "holds_at buffer 4 (int_bytes tok)"
    using assms(1) by (simp_all add: codec_simps)
  have l: "8 \<le> length buffer" using holds_at_bound [OF h(2)] by simp
  then have ne: "buffer \<noteq> []" "\<not> length buffer < 8" by auto
  have r: "restore_int buffer 0 = Some (Ptr (int type, 4))" "restore_int buffer 4 = Some (Ptr (tok, 8))"
    using restore_int_ok [OF h(1) assms(2)] restore_int_ok [OF h(2) assms(3)] by simp_all
  show ?thesis
    unfolding MQTTAsync_restoreCommand_def assms(4) [symmetric] Let_def if_not_P [OF ne(1)] if_not_P [OF ne(2)]
      r checked_simps prod.case nat_int ..
qed

text \<open>The details of a command, read behind its type and token.\<close>

lemma restore_details_ok:
  assumes "details_ok v5 type d" "command_buffers v5 cmd = Some bufs" "cmd_type cmd = type" "details cmd = d"
    and "holds_at mem 0 (concat bufs)" "type = UNSUBSCRIBE \<Longrightarrow> length (concat bufs) < length mem"
  shows "restore_details (int type) v5 False d0 mem 8 = Some (Ptr (stored_details v5 d, length (concat bufs)))"
proof (cases d)
  case (Sub topics qoss opts optlist)
  define os where "os = (if length topics = 1 then [opts] else case optlist of NULL \<Rightarrow> [] | Ptr os \<Rightarrow> os)"
  have d: "type = SUBSCRIBE" "length topics < 2147483648" "length qoss = length topics" "\<forall>t \<in> set topics. 0 \<notin> set t"
      "\<forall>q \<in> set qoss. int_range q"
      "v5 \<and> length topics > 1 \<longrightarrow> (case optlist of NULL \<Rightarrow> False | Ptr os \<Rightarrow> length os = length topics)"
    using assms(1) Sub by (simp_all add: list_all_iff)
  obtain r where r: "topic_buffers v5 topics qoss os = Some r"
      "bufs = [int_bytes (int (cmd_type cmd)), int_bytes (token cmd), int_bytes (int (length topics))] @ r"
    using assms(2-4) Sub d(1) by (auto simp: command_buffers_def os_def)
  have h: "holds_at mem 8 (int_bytes (int (length topics)))" "holds_at mem 12 (concat r)"
    using assms(5) unfolding r(2) by (simp_all add: codec_simps)
  show ?thesis
  proof (cases "topics = []")
    case True
    then show ?thesis using d r restore_int_ok [OF h(1)] by (simp add: restore_details_def Sub int_range_def)
  next
    case False
    have lo: "v5 \<Longrightarrow> length os = length topics"
      using d(6) False by (cases "length topics = 1") (auto simp: os_def neq_Nil_conv split: cptr.splits)
    define os1 where "os1 = (if v5 then os else replicate (length topics) no_options)"
    have l1: "length os1 = length topics" using lo by (simp add: os1_def)
    have s: "restore_subs v5 (length topics) mem (8 + 4) = Some (Ptr (zip topics (zip qoss os1), 12 + length (concat r)))"
      using restore_subs_ok [OF h(2) r(1) d(3-5) lo] by (simp add: os1_def)
    have m: "map fst (zip topics (zip qoss os1)) = topics" "map (fst \<circ> snd) (zip topics (zip qoss os1)) = qoss"
        "map (snd \<circ> snd) (zip topics (zip qoss os1)) = os1"
      using d(3) l1 by (simp_all flip: map_map)
    have o: "(if v5 \<and> int (length topics) = 1 then snd (snd (hd (zip topics (zip qoss os1)))) else no_options)
        = (if v5 \<and> length topics = 1 then opts else no_options)"
    proof (cases "v5 \<and> length topics = 1")
      case True
      moreover obtain t q where "topics = [t]" "qoss = [q]" using True d(3) by (auto simp: length_Suc_conv)
      ultimately show ?thesis by (simp add: os1_def os_def)
    qed auto
    have p: "(if v5 \<and> 1 < int (length topics) then Ptr os1 else NULL) = (if v5 \<and> length topics > 1 then optlist else NULL)"
      using d(6) by (auto simp: os1_def os_def split: cptr.splits)
    have b: "length (concat bufs) = 12 + length (concat r)" by (simp add: r(2))
    show ?thesis
      unfolding restore_details_def d(1) if_P [OF refl] restore_int_ok [OF h(1) int_range_nat [OF d(2)]] checked_simps
        prod.case nat_int s m o p b Sub stored_details.simps
      by simp
  qed
next
  case (Unsub topics)
  have d: "type = UNSUBSCRIBE" "length topics < 2147483648" "\<forall>t \<in> set topics. 0 \<notin> set t"
    using assms(1) Unsub by (simp_all add: list_all_iff)
  have b: "bufs = [int_bytes (int (cmd_type cmd)), int_bytes (token cmd), int_bytes (int (length topics))]
      @ map (\<lambda>t. cstr t @ [0]) topics"
    using assms(2-4) Unsub d(1) by (simp add: command_buffers_def)
  have h: "holds_at mem 8 (int_bytes (int (length topics)))" "holds_at mem 12 (concat (map (\<lambda>t. cstr t @ [0]) topics))"
    using assms(5) unfolding b by (simp_all add: codec_simps)
  have "12 + length (concat (map (\<lambda>t. cstr t @ [0]) topics)) < length mem" using assms(6) d(1) by (simp add: b)
  from restore_unsubs_ok [OF h(2) d(3) this] restore_int_ok [OF h(1)] d show ?thesis
    by (simp add: restore_details_def b Unsub)
next
  case (Pub name n payload qos retained)
  obtain t p where d: "type = PUBLISH" "n < 2147483648" "qos \<le> 2" "name = Ptr t" "0 \<notin> set t" "payload = Ptr p" "length p = n"
    using assms(1) Pub by (auto split: cptr.splits)
  have b: "bufs = [int_bytes (int (cmd_type cmd)), int_bytes (token cmd), t @ [0], int_bytes (int n), p, int_bytes (int qos),
      int_bytes (of_bool retained)]"
    using assms(2-4) Pub d by (auto simp: command_buffers_def)
  have h: "holds_at mem 8 (t @ [0])" "holds_at mem (length t + 9) (int_bytes (int n))" "holds_at mem (length t + 13) p"
      "holds_at mem (length t + n + 13) (int_bytes (int qos))" "holds_at mem (length t + n + 17) (int_bytes (of_bool retained))"
    using assms(5) d(7) unfolding b by (simp_all add: codec_simps add_ac)
  have l: "8 + length t + 1 < length mem" "length t + n + 21 \<le> length mem"
    using holds_at_bound [OF h(2)] holds_at_bound [OF h(5)] by simp_all
  have r: "int_range (of_bool retained)" by (simp add: int_range_def)
  show ?thesis
    using restore_string_ok [OF h(1) d(5) l(1)] restore_int_ok [OF h(2)] restore_int_ok [OF h(4)] restore_int_ok [OF h(5) r]
      holds_at_take [OF h(3)] l d
    by (cases retained) (simp_all add: restore_details_def restore_pub_def Pub b add_ac)
qed (use assms(1) in simp_all)

text \<open>The parts of a record.\<close>

lemma command_buffers_head:
  assumes "command_buffers v5 cmd = Some bufs" "details_ok v5 (cmd_type cmd) (details cmd)"
  shows "\<exists>rest. bufs = int_bytes (int (cmd_type cmd)) # int_bytes (token cmd) # rest"
  using assms by (cases "details cmd") (auto simp: command_buffers_def split: cptr.splits if_splits)

lemma command_recordE:
  assumes "command_record v5 cmd = Some record" "command_ok v5 cmd"
  obtains bufs props where "command_buffers v5 cmd = Some bufs" "record = concat bufs @ props"
    "holds_at record 0 (concat bufs)" "holds_at record 0 (int_bytes (int (cmd_type cmd)) @ int_bytes (token cmd))"
    "v5 \<Longrightarrow> props = snd (MQTTProperties_write (Ptr (cmd_properties cmd)))" "\<not> v5 \<Longrightarrow> props = []"
    "v5 \<Longrightarrow> holds_at record (length (concat bufs)) (snd (MQTTProperties_write (Ptr (cmd_properties cmd))))"
proof -
  obtain bufs props where b: "command_buffers v5 cmd = Some bufs" "record = concat bufs @ props"
      "(if v5 then property_buffer (cmd_properties cmd) else Some []) = Some props"
    using assms(1) by (auto simp: command_record_def split: bind_splits)
  have p: "v5 \<Longrightarrow> props = snd (MQTTProperties_write (Ptr (cmd_properties cmd)))" "\<not> v5 \<Longrightarrow> props = []"
    using b(3) assms(2) property_buffer_ok by (auto simp: command_ok_def)
  obtain rest where r: "bufs = int_bytes (int (cmd_type cmd)) # int_bytes (token cmd) # rest"
    using command_buffers_head [OF b(1)] assms(2) by (auto simp: command_ok_def)
  have h: "holds_at record 0 (concat bufs @ props)" by (simp add: b(2))
  then have "holds_at record 0 (concat bufs)" "holds_at record 0 (int_bytes (int (cmd_type cmd)) @ int_bytes (token cmd))"
      "holds_at record (length (concat bufs)) props"
    unfolding r by (simp_all add: codec_simps)
  then show thesis using that b(1,2) p by blast
qed

lemma type_of_ok: "command_ok v5 cmd \<Longrightarrow> cmd_type cmd \<in> {SUBSCRIBE, UNSUBSCRIBE, PUBLISH} \<and> int_range (int (cmd_type cmd))"
  by (cases "details cmd") (simp_all add: command_ok_def int_range_def)

text \<open>The first reading of a record.\<close>

lemma restoreCommand_first:
  assumes "command_record v5 cmd = Some record" "command_ok v5 cmd" "v5 = (version \<ge> MQTTVERSION_5)"
  shows "\<exists>d. MQTTAsync_restoreCommand record version NULL = Some (Ptr (no_queued\<lparr>not_restored := True,
    q_command := no_command\<lparr>cmd_type := cmd_type cmd, token := token cmd, details := d\<rparr>\<rparr>))"
proof -
  obtain bufs props where b: "command_buffers v5 cmd = Some bufs" "record = concat bufs @ props"
      "holds_at record 0 (concat bufs)" "holds_at record 0 (int_bytes (int (cmd_type cmd)) @ int_bytes (token cmd))"
    using command_recordE [OF assms(1,2)] by metis
  have t: "cmd_type cmd \<in> {SUBSCRIBE, UNSUBSCRIBE, PUBLISH}" "int_range (int (cmd_type cmd))" "int_range (token cmd)"
    using type_of_ok [OF assms(2)] assms(2) by (simp_all add: command_ok_def)
  have "\<exists>d c. restore_details (int (cmd_type cmd)) v5 True (details no_command) record 8 = Some (Ptr (d, c))"
  proof (cases "cmd_type cmd = PUBLISH")
    case True
    then obtain name n payload qos retained where p: "details cmd = Pub name n payload qos retained"
      using assms(2) by (cases "details cmd") (auto simp: command_ok_def)
    have "restore_details (int PUBLISH) v5 False (details no_command) record 8
        = Some (Ptr (stored_details v5 (details cmd), length (concat bufs)))"
      using restore_details_ok [OF _ b(1) True refl b(3)] assms(2) True by (auto simp: command_ok_def)
    then show ?thesis using True by (auto simp: restore_details_def restore_pub_def checked_def restore_string_def Let_def
        split: option.splits cptr.splits if_splits)
  next
    case False
    then show ?thesis using t(1) by (auto simp: restore_details_def)
  qed
  then show ?thesis
    unfolding restoreCommand_eq [OF b(4) t(2,3) refl] assms(3) [symmetric]
    by (auto simp: no_queued_def)
qed

text \<open>The second reading.\<close>

lemma restoreCommand_second:
  assumes "command_record v5 cmd = Some record" "command_ok v5 cmd" "v5 = (version \<ge> MQTTVERSION_5)"
    and "v5 \<or> cmd_type cmd \<noteq> UNSUBSCRIBE" "cmd_properties (q_command q) = MQTTProperties_initializer"
  shows "\<exists>props. MQTTAsync_restoreCommand record version (Ptr q) = Some (Ptr (q\<lparr>not_restored := False,
      q_command := (q_command q)\<lparr>cmd_type := cmd_type cmd, token := token cmd, details := stored_details v5 (details cmd),
        cmd_properties := props\<rparr>\<rparr>))
    \<and> props_items props = (if v5 then map norm_prop (props_items (cmd_properties cmd)) else [])"
proof -
  obtain bufs props where b: "command_buffers v5 cmd = Some bufs" "record = concat bufs @ props"
      "holds_at record 0 (concat bufs)" "holds_at record 0 (int_bytes (int (cmd_type cmd)) @ int_bytes (token cmd))"
      "v5 \<Longrightarrow> props = snd (MQTTProperties_write (Ptr (cmd_properties cmd)))" "\<not> v5 \<Longrightarrow> props = []"
      "v5 \<Longrightarrow> holds_at record (length (concat bufs)) (snd (MQTTProperties_write (Ptr (cmd_properties cmd))))"
    using command_recordE [OF assms(1,2)] by metis
  have t: "int_range (int (cmd_type cmd))" "int_range (token cmd)" "details_ok v5 (cmd_type cmd) (details cmd)"
      "props_inv (cmd_properties cmd)" "p_length (cmd_properties cmd) < 268435456"
    using type_of_ok [OF assms(2)] assms(2) by (simp_all add: command_ok_def)
  have "MQTTPacket_encode n \<noteq> []" for n by (subst MQTTPacket_encode.simps) (simp add: Let_def)
  then have ne: "snd (MQTTProperties_write (Ptr ps)) \<noteq> []" for ps
    by (simp add: MQTTProperties_write_def Let_def split: prod.splits)
  have "length (concat bufs) < length record" if "cmd_type cmd = UNSUBSCRIBE"
    using that assms(4) b(2,5) ne by auto
  from restore_details_ok [OF t(3) b(1) refl refl b(3) this]
  have d: "restore_details (int (cmd_type cmd)) v5 False d0 record 8
      = Some (Ptr (stored_details v5 (details cmd), length (concat bufs)))" for d0 .
  have e: "MQTTAsync_restoreCommand record version (Ptr q) =
    (let cmd1 = (q_command q)\<lparr>cmd_type := cmd_type cmd, token := token cmd, details := stored_details v5 (details cmd)\<rparr>
     in if v5 then (case MQTTProperties_read (cmd_properties (q_command q)) record (length (concat bufs)) (length record) of
               None \<Rightarrow> None
             | Some (rc, props, _) \<Rightarrow> Some (if rc = 1 then Ptr (q\<lparr>not_restored := False, q_command := cmd1\<lparr>cmd_properties := props\<rparr>\<rparr>)
                                              else NULL))
        else Some (Ptr (q\<lparr>not_restored := False, q_command := cmd1\<rparr>)))"
    unfolding restoreCommand_eq [OF b(4) t(1,2) refl] assms(3) [symmetric] cptr.case queued.simps queued.select_convs d checked_simps
      prod.case Let_def by (simp add: d split: option.split)
  show ?thesis
  proof (cases v5)
    case True
    have l: "length (concat bufs) + length (snd (MQTTProperties_write (Ptr (cmd_properties cmd)))) \<le> length record"
      using b(2,5) True by simp
    obtain props' where p: "MQTTProperties_read MQTTProperties_initializer record (length (concat bufs)) (length record)
        = Some (1, props', length (concat bufs) + length (snd (MQTTProperties_write (Ptr (cmd_properties cmd)))))"
        "props_items props' = map norm_prop (props_items (cmd_properties cmd))"
      using MQTTProperties_read_write [OF b(7) [OF True] l _ array_inv_initializer] t(4,5)
      by (auto simp: MQTTProperties_initializer_def props_items_def)
    show ?thesis unfolding e assms(5) p(1) using True p(2) by (intro exI [of _ props']) (simp add: Let_def)
  next
    case False
    have "(q_command q)\<lparr>cmd_properties := cmd_properties (q_command q)\<rparr> = q_command q" by (rule command.equality) simp_all
    then have "(q_command q)\<lparr>cmd_type := t, token := k, details := d, cmd_properties := MQTTProperties_initializer\<rparr>
        = (q_command q)\<lparr>cmd_type := t, token := k, details := d\<rparr>" for t k d
      using assms(5) by (cases "q_command q") simp
    then show ?thesis
      unfolding e Let_def using False
      by (intro exI [of _ MQTTProperties_initializer]) (simp add: props_items_def MQTTProperties_initializer_def)
  qed
qed

end
