(* ===== verification/AsyncQueue.thy ===== *)
theory AsyncQueue
  imports AsyncRestore "HOL-Library.Multiset"
begin

text \<open>
  The queue of commands survives a restart. The specification is the list of the commands that are
  buffered; the list \<open>MQTTAsync_commands\<close> together with the records of the store implements it, and a new
  session that restores the commands gets the same list.
\<close>

section \<open>Removing the first element\<close>

fun without_first :: "('a \<Rightarrow> bool) \<Rightarrow> 'a list \<Rightarrow> 'a list" where
  "without_first P [] = []"
| "without_first P (x # xs) = (if P x then xs else x # without_first P xs)"

lemma without_first_drop_nth: "find_pos P xs = Some k \<Longrightarrow> drop_nth k xs = without_first P xs"
  by (induction xs arbitrary: k) (auto simp: drop_nth_def split: if_splits)

lemma find_pos_None_without: "find_pos P xs = None \<Longrightarrow> without_first P xs = xs"
  by (induction xs) (auto split: if_splits)

lemma filter_without_first: "(\<And>x. Q x \<Longrightarrow> P x) \<Longrightarrow> filter P (without_first Q xs) = without_first Q (filter P xs)"
  by (induction xs) auto

lemma map_without_first: "(\<And>x. x \<in> set xs \<Longrightarrow> Q x = R (f x)) \<Longrightarrow> map f (without_first Q xs) = without_first R (map f xs)"
  by (induction xs) auto

lemma find_filter: "(\<And>x. Q x \<Longrightarrow> P x) \<Longrightarrow> List.find Q (filter P xs) = List.find Q xs"
  by (induction xs) auto

lemma find_map: "List.find Q (map f xs) = map_option f (List.find (Q \<circ> f) xs)"
  by (induction xs) auto

lemma find_cong_set: "(\<And>x. x \<in> set xs \<Longrightarrow> P x = Q x) \<Longrightarrow> List.find P xs = List.find Q xs"
  by (induction xs) auto

lemma without_first_key:
  assumes "List.find Q xs = Some x" "distinct (map f xs)"
  shows "without_first (\<lambda>y. f y = f x) xs = without_first Q xs"
  using assms by (induction xs) (auto simp: find_Some_iff split: if_splits)

lemma set_without_first: "set (without_first P xs) \<subseteq> set xs"
  by (induction xs) auto

lemma sorted_without_first: "sorted_wrt R xs \<Longrightarrow> sorted_wrt R (without_first P xs)"
  by (induction xs) (auto dest: subsetD [OF set_without_first])

lemma map_fst_without_first:
  "sorted_wrt R (map f xs) \<Longrightarrow> sorted_wrt R (map f (without_first P xs))"
  by (induction xs) (auto dest: subsetD [OF set_without_first])

lemma distinct_without_first: "distinct (map f xs) \<Longrightarrow> distinct (map f (without_first P xs))"
  by (induction xs) (auto dest: subsetD [OF set_without_first])

lemma map_of_without_first:
  assumes "List.find Q xs = Some x" "distinct (map (fst \<circ> g) xs)"
  shows "map_of (map g (without_first Q xs)) = (map_of (map g xs))(fst (g x) := None)"
  using assms
proof (induction xs)
  case (Cons y ys)
  show ?case
  proof (cases "Q y")
    case True
    then have "x = y" "fst (g x) \<notin> set (map (fst \<circ> g) ys)" using Cons.prems by auto
    then have "map_of (map g ys) (fst (g x)) = None" by (simp add: map_of_eq_None_iff image_image)
    then show ?thesis using True \<open>x = y\<close> by (cases "g y") (auto simp: fun_eq_iff)
  next
    case False
    then have f: "List.find Q ys = Some x" "distinct (map (fst \<circ> g) ys)" using Cons.prems by (simp_all add: comp_def)
    then have "x \<in> set ys" by (auto simp: find_Some_iff)
    then have "fst (g x) \<noteq> fst (g y)" using Cons.prems(2) by (simp add: comp_def) (metis image_eqI)
    then show ?thesis using Cons.IH [OF f] False by (cases "g y") (auto simp: fun_eq_iff)
  qed
qed simp

section \<open>States that agree\<close>

lemma same_disk_async:
  assumes "same_but_disk (w :: 'z async_scheme) w'"
  shows "handles w' = handles w" "commands w' = commands w" "next_command w' = next_command w" "clients w' = clients w"
    "handle_at h w' = handle_at h w" "client_at k w' = client_at k w" "handle_client h w' = handle_client h w"
  using assms by (auto simp: same_but_disk_def handle_at_def client_at_def handle_client_def)

text \<open>The file system is all that the state of the store depends on.\<close>

lemma disk_irrelevant [simp]:
  "store_ready p (w\<lparr>commands := cs\<rparr>) = store_ready p w" "records p (w\<lparr>commands := cs\<rparr>) = records p w"
  "store_ready p (upd_handle h f w) = store_ready p w" "records p (upd_handle h f w) = records p w"
  "store_ready p (w\<lparr>next_command := n\<rparr>) = store_ready p w" "records p (w\<lparr>next_command := n\<rparr>) = records p w"
  by (simp_all add: store_ready_def records_def upd_handle_def is_dir_def list_dir_def fun_eq_iff)

lemma handle_irrelevant [simp]:
  "handle_at h (w\<lparr>commands := cs\<rparr>) = handle_at h w" "handle_client h (w\<lparr>commands := cs\<rparr>) = handle_client h w"
  "client_at k (upd_handle h f w) = client_at k w" "commands (upd_handle h f w) = commands w"
  "handles (w\<lparr>commands := cs\<rparr>) = handles w" "clients (upd_handle h f w) = clients w"
  by (simp_all add: handle_at_def handle_client_def client_at_def upd_handle_def)

lemma handle_at_upd [simp]:
  "h < length (items (handles w)) \<Longrightarrow> handle_at h (upd_handle h f w) = f (handle_at h w)"
  "length (items (handles (upd_handle h f w))) = length (items (handles w))"
  by (simp_all add: handle_at_def upd_handle_def)

lemma handle_client_upd [simp]:
  "(\<And>m. h_c (f m) = h_c m) \<Longrightarrow> handle_client h (upd_handle h' f w) = handle_client h w"
  by (cases "h = h'"; cases "h < length (items (handles w))")
    (simp_all add: handle_client_def handle_at_def upd_handle_def client_at_def list_update_beyond)

section \<open>Keys\<close>

definition command_stem :: "bool \<Rightarrow> bytes" where
  "command_stem v5 = (if v5 then PERSISTENCE_V5_COMMAND_KEY else PERSISTENCE_COMMAND_KEY)"

definition stored_key :: "bool \<Rightarrow> nat \<Rightarrow> bytes" where
  "stored_key v5 n = command_stem v5 @ dec_digits n"

lemma command_stem_ok [simp]: "key_stem (command_stem v5)"
  by (simp add: command_stem_def)

lemma stored_key_inj: "stored_key v5 m = stored_key v5 n \<longleftrightarrow> m = n"
  using key_of_inj [of "command_stem v5" "command_stem v5" m n] by (auto simp: stored_key_def)

lemma command_key_ok: "n < 1000000 \<Longrightarrow> v5 = (version \<ge> MQTTVERSION_5) \<Longrightarrow> command_key version n = (stored_key v5 n, False)"
  using print_key_ok(1) [of "command_stem v5" "int n"] by (simp add: command_key_def stored_key_def command_stem_def split: if_splits)

lemma stored_key_facts:
  assumes "n < 1000000"
  shows "valid_key (stored_key v5 n)" "is_command_key (stored_key v5 n)" "key_number (stored_key v5 n) = n"
    "has_stem PERSISTENCE_V5_COMMAND_KEY (stored_key v5 n) = v5" "45 \<in> set (stored_key v5 n)"
proof -
  have d: "PERSISTENCE_V5_COMMAND_KEY \<noteq> PERSISTENCE_COMMAND_KEY" by (simp add: key_stems)
  have h: "has_stem stem (stored_key v5 n) \<longleftrightarrow> stem = command_stem v5" if "key_stem stem" for stem
    using has_stem_key [OF that command_stem_ok, of "int n" v5] assms by (simp add: stored_key_def)
  show "valid_key (stored_key v5 n)" using print_key_ok(2) [of "command_stem v5" "int n"] assms by (simp add: stored_key_def)
  show "is_command_key (stored_key v5 n)" by (simp add: is_command_key_def h command_stem_def)
  show "has_stem PERSISTENCE_V5_COMMAND_KEY (stored_key v5 n) = v5" using d by (simp add: h command_stem_def)
  show "key_number (stored_key v5 n) = n"
    using key_number_key [OF command_stem_ok, of "int n" v5] assms by (simp add: stored_key_def)
  have "45 \<in> set (command_stem v5)" by (simp add: command_stem_def key_stems)
  then show "45 \<in> set (stored_key v5 n)" by (simp add: stored_key_def)
qed

section \<open>Storing a command\<close>

abbreviation (input) count_up :: "handle \<Rightarrow> handle" where
  "count_up m \<equiv> m\<lparr>command_seqno := next_seqno (command_seqno m)\<rparr>"

lemma persistCommand_ok:
  assumes "q_client q = h" "h < length (items (handles w))" "\<not> beforeWrite (handle_client h w)"
    and "store_ready (phandle (handle_client h w)) w" "Suc (command_seqno (handle_at h w)) < 1000000"
    and "v5 = (c_MQTTVersion (handle_client h w) \<ge> MQTTVERSION_5)" "command_ok v5 (q_command q)"
    and "command_record v5 (q_command q) = Some r"
  shows "\<exists>w'. MQTTAsync_persistCommand (default_store dir) q w = Some (0, q\<lparr>q_seqno := Suc (command_seqno (handle_at h w))\<rparr>, w')
    \<and> store_ready (phandle (handle_client h w)) w' \<and> same_but_disk (upd_handle h count_up w) w'
    \<and> records (phandle (handle_client h w)) w'
        = (records (phandle (handle_client h w)) w)(stored_key v5 (Suc (command_seqno (handle_at h w))) \<mapsto> r)"
proof -
  define p where "p = phandle (handle_client h w)"
  define n where "n = Suc (command_seqno (handle_at h w))"
  define w1 where "w1 = upd_handle h count_up w"
  have n: "next_seqno (command_seqno (handle_at h w)) = n" "command_seqno (handle_at h w1) = n" "n < 1000000"
    using assms(2,5) by (simp_all add: next_seqno_def n_def w1_def)
  have r1: "store_ready p w1" "records p w1 = records p w" using assms(4) by (simp_all add: w1_def p_def)
  obtain bufs where b: "command_buffers v5 (q_command q) = Some bufs" "bufs \<noteq> []"
    using assms(7,8) command_buffers_head by (fastforce simp: command_record_def command_ok_def split: bind_splits)
  obtain props where pr: "(if v5 then map_option (\<lambda>p. [p]) (property_buffer (cmd_properties (q_command q))) else Some []) = Some props"
      "r = concat (bufs @ props)"
    using assms(8) b(1) by (auto simp: command_record_def split: bind_splits if_splits)
  obtain w' where w': "pput (default_store dir) p (stored_key v5 n) (bufs @ props) w1 = (0, w')" "store_ready p w'"
      "records p w' = (records p w1)(stored_key v5 n \<mapsto> concat (bufs @ props))" "same_but_disk w1 w'"
    using disk_store.put_law [OF r1(1) stored_key_facts(1) [OF n(3)]] by blast
  have "MQTTAsync_persistCommand (default_store dir) q w = Some (0, q\<lparr>q_seqno := n\<rparr>, w')"
    unfolding MQTTAsync_persistCommand_def Let_def assms(1) assms(6) [symmetric]
    using b pr(1) assms(3) n w' command_key_ok [OF n(3) assms(6)]
    by (simp add: w1_def [symmetric] p_def)
  then show ?thesis using w' r1 pr(2) unfolding n_def w1_def p_def by auto
qed

text \<open>The command as the list keeps it.\<close>

definition kept_command :: "bool \<Rightarrow> nat \<Rightarrow> queued \<Rightarrow> queued" where
  "kept_command v5 n q =
     (let q1 = q\<lparr>q_seqno := n\<rparr>
      in if cmd_type (q_command q) = PUBLISH
         then q1\<lparr>not_restored := True, q_key := Ptr (stored_key v5 n), q_command := drop_content (q_command q)\<rparr> else q1)"

lemma kept_command_fields [simp]:
  "q_addr (kept_command v5 n q) = q_addr q" "q_client (kept_command v5 n q) = q_client q" "q_seqno (kept_command v5 n q) = n"
  "cmd_type (q_command (kept_command v5 n q)) = cmd_type (q_command q)"
  "token (q_command (kept_command v5 n q)) = token (q_command q)"
  by (simp_all add: kept_command_def Let_def drop_content_def)

lemma store_command_ok:
  assumes "q_client q = h" "h < length (items (handles w))" "\<not> beforeWrite (handle_client h w)" "persistence (handle_client h w)"
    and "store_ready (phandle (handle_client h w)) w" "Suc (command_seqno (handle_at h w)) < 1000000"
    and "v5 = (c_MQTTVersion (handle_client h w) \<ge> MQTTVERSION_5)" "command_ok v5 (q_command q)"
    and "command_record v5 (q_command q) = Some r" "\<not> skips_store q w"
  shows "\<exists>w'. store_command (default_store dir) q w = Some (kept_command v5 (Suc (command_seqno (handle_at h w))) q, False, w')
    \<and> store_ready (phandle (handle_client h w)) w' \<and> same_but_disk (upd_handle h count_up w) w'
    \<and> records (phandle (handle_client h w)) w'
        = (records (phandle (handle_client h w)) w)(stored_key v5 (Suc (command_seqno (handle_at h w))) \<mapsto> r)"
proof -
  obtain w' where w': "MQTTAsync_persistCommand (default_store dir) q w = Some (0, q\<lparr>q_seqno := Suc (command_seqno (handle_at h w))\<rparr>, w')"
      "store_ready (phandle (handle_client h w)) w'" "same_but_disk (upd_handle h count_up w) w'"
      "records (phandle (handle_client h w)) w'
        = (records (phandle (handle_client h w)) w)(stored_key v5 (Suc (command_seqno (handle_at h w))) \<mapsto> r)"
    using persistCommand_ok [OF assms(1-3,5-9)] by blast
  have "handle_client h w' = handle_client h w" using same_disk_async(7) [OF w'(3)] by simp
  then have "store_command (default_store dir) q w = Some (kept_command v5 (Suc (command_seqno (handle_at h w))) q, False, w')"
    using assms(1,4,10) w'(1) command_key_ok [OF assms(6,7)]
    by (simp add: store_command_def kept_command_def Let_def)
  then show ?thesis using w' by blast
qed

section \<open>The queue of a client\<close>

definition is_stored :: "nat \<Rightarrow> queued \<Rightarrow> bool" where
  "is_stored h q \<longleftrightarrow> q_client q = h \<and> cmd_type (q_command q) \<in> {SUBSCRIBE, UNSUBSCRIBE, PUBLISH}"

definition client_queue :: "nat \<Rightarrow> 'z async_scheme \<Rightarrow> queued list" where
  "client_queue h w = filter (is_stored h) (items (commands w))"

definition brief :: "queued \<Rightarrow> nat \<times> nat \<times> int" where
  "brief q = (q_seqno q, cmd_type (q_command q), token (q_command q))"

definition brief_of :: "nat \<times> command \<Rightarrow> nat \<times> nat \<times> int" where
  "brief_of x = (fst x, cmd_type (snd x), token (snd x))"

definition v5_of :: "nat \<Rightarrow> 'z async_scheme \<Rightarrow> bool" where
  "v5_of h w \<longleftrightarrow> c_MQTTVersion (handle_client h w) \<ge> MQTTVERSION_5"

definition record_of :: "bool \<Rightarrow> nat \<times> command \<Rightarrow> bytes \<times> bytes" where
  "record_of v5 x = (stored_key v5 (fst x), the (command_record v5 (snd x)))"

text \<open>The commands \<open>cs\<close>, with their sequence numbers, are those of the list and of the store.\<close>

definition backed :: "nat \<Rightarrow> 'z async_scheme \<Rightarrow> (nat \<times> command) list \<Rightarrow> bool" where
  "backed h w cs \<longleftrightarrow>
     h < length (items (handles w)) \<and> persistence (handle_client h w) \<and> \<not> beforeWrite (handle_client h w)
     \<and> store_ready (phandle (handle_client h w)) w \<and> distinct (map q_addr (items (commands w)))
     \<and> map brief (client_queue h w) = map brief_of cs
     \<and> sorted_wrt (<) (map fst cs) \<and> (\<forall>n \<in> fst ` set cs. n \<le> command_seqno (handle_at h w))
     \<and> command_seqno (handle_at h w) < 1000000
     \<and> (\<forall>c \<in> snd ` set cs. command_ok (v5_of h w) c \<and> command_record (v5_of h w) c \<noteq> None)
     \<and> (\<forall>key. is_command_key key \<longrightarrow> records (phandle (handle_client h w)) w key = map_of (map (record_of (v5_of h w)) cs) key)
     \<and> (\<forall>key. records (phandle (handle_client h w)) w key \<noteq> None \<longrightarrow> 45 \<in> set key)"

lemma backed_simps:
  assumes "backed h w cs"
  shows "h < length (items (handles w))" "persistence (handle_client h w)" "\<not> beforeWrite (handle_client h w)"
    "store_ready (phandle (handle_client h w)) w" "distinct (map q_addr (items (commands w)))"
    "map brief (client_queue h w) = map brief_of cs" "sorted_wrt (<) (map fst cs)" "command_seqno (handle_at h w) < 1000000"
  using assms by (simp_all add: backed_def)

lemma backed_seqno:
  assumes "backed h w cs" "x \<in> set cs"
  shows "fst x \<le> command_seqno (handle_at h w)" "fst x < 1000000"
  using assms unfolding backed_def by (auto dest: le_less_trans)

lemma backed_records:
  assumes "backed h w cs"
  shows "\<forall>key. is_command_key key \<longrightarrow> records (phandle (handle_client h w)) w key = map_of (map (record_of (v5_of h w)) cs) key"
    and "\<forall>key. records (phandle (handle_client h w)) w key \<noteq> None \<longrightarrow> 45 \<in> set key"
    and "\<forall>c \<in> snd ` set cs. command_ok (v5_of h w) c \<and> command_record (v5_of h w) c \<noteq> None"
  using assms unfolding backed_def by blast+

definition is_publish :: "nat \<times> command \<Rightarrow> bool" where
  "is_publish x \<longleftrightarrow> cmd_type (snd x) = PUBLISH"

lemma distinct_record_keys:
  assumes "sorted_wrt (<) (map fst cs)"
  shows "distinct (map (fst \<circ> record_of v5) cs)"
proof -
  have "distinct (map fst cs)" using assms strict_sorted_iff by (simp add: strict_sorted_iff)
  then have "distinct (map (stored_key v5) (map fst cs))" by (simp only: distinct_map) (auto simp: inj_on_def stored_key_inj)
  then show ?thesis by (simp add: comp_def record_of_def)
qed

text \<open>Appending a command that has been stored.\<close>

lemma appended_backed:
  assumes b: "backed h w cs" and q: "q_client q = h" "q_addr q \<notin> q_addr ` set (items (commands w))"
    and ok: "command_ok (v5_of h w) (q_command q)" "command_record (v5_of h w) (q_command q) = Some r"
    and n: "n = Suc (command_seqno (handle_at h w))" "n < 1000000"
    and w': "store_ready (phandle (handle_client h w)) w'" "handles w' = handles (upd_handle h count_up w)"
      "clients w' = clients w" "items (commands w') = items (commands w) @ [kept_command (v5_of h w) n q]"
      "records (phandle (handle_client h w)) w' = (records (phandle (handle_client h w)) w)(stored_key (v5_of h w) n \<mapsto> r)"
  shows "backed h w' (cs @ [(n, q_command q)])"
proof -
  note s = backed_simps [OF b]
  have c: "handle_client h w' = handle_client h w"
    using w'(2,3) handle_client_upd [where f = count_up and h = h and h' = h and w = w] by (simp add: handle_client_def handle_at_def client_at_def)
  have m: "command_seqno (handle_at h w') = n"
    using w'(2) s(1) n handle_at_upd(1) [of h w count_up] by (simp add: handle_at_def next_seqno_def)
  have v: "v5_of h w' = v5_of h w" by (simp add: v5_of_def c)
  have t: "cmd_type (q_command q) \<in> {SUBSCRIBE, UNSUBSCRIBE, PUBLISH}" using type_of_ok [OF ok(1)] by blast
  have "client_queue h w' = client_queue h w @ [kept_command (v5_of h w) n q]"
    using q(1) t by (simp add: client_queue_def w'(4) is_stored_def)
  then have br: "map brief (client_queue h w') = map brief_of (cs @ [(n, q_command q)])"
    using s(6) by (simp add: brief_def brief_of_def)
  have lt: "fst x < n" if "x \<in> set cs" for x using backed_seqno(1) [OF b that] n(1) by simp
  have new: "map_of (map (record_of (v5_of h w)) cs) (stored_key (v5_of h w) n) = None"
    using lt by (fastforce simp: map_of_eq_None_iff record_of_def stored_key_inj)
  have rec: "map_of (map (record_of (v5_of h w)) (cs @ [(n, q_command q)]))
      = (map_of (map (record_of (v5_of h w)) cs))(stored_key (v5_of h w) n \<mapsto> r)"
    using new ok(2) by (auto simp: map_add_def record_of_def fun_eq_iff split: option.split)
  show ?thesis
    unfolding backed_def c m v
  proof (intro conjI)
    show "\<forall>key. is_command_key key \<longrightarrow> records (phandle (handle_client h w)) w' key
        = map_of (map (record_of (v5_of h w)) (cs @ [(n, q_command q)])) key"
      using b unfolding w'(5) rec backed_def by simp
    show "\<forall>key. records (phandle (handle_client h w)) w' key \<noteq> None \<longrightarrow> 45 \<in> set key"
      using b stored_key_facts(5) [OF n(2)] unfolding w'(5) backed_def by simp
  qed (use s w' q lt n ok br b in \<open>auto simp: backed_def sorted_wrt_append dest!: lt\<close>)
qed

text \<open>Making room for a publication.\<close>

lemma find_publish:
  assumes "backed h w cs"
  shows "first_publish h w = None \<Longrightarrow> List.find is_publish cs = None"
    and "first_publish h w = Some q \<Longrightarrow> \<exists>x. List.find is_publish cs = Some x \<and> brief q = brief_of x \<and> q_client q = h"
proof -
  let ?Q = "\<lambda>q. q_client q = h \<and> cmd_type (q_command q) = PUBLISH" and ?B = "\<lambda>(n, t, k). t = PUBLISH"
  have "first_publish h w = List.find ?Q (client_queue h w)"
    unfolding first_publish_def client_queue_def by (rule find_filter [symmetric]) (simp add: is_stored_def)
  also have "\<dots> = List.find (?B \<circ> brief) (client_queue h w)"
    by (rule find_cong_set) (simp add: client_queue_def is_stored_def brief_def)
  finally have f: "first_publish h w = List.find (?B \<circ> brief) (client_queue h w)" .
  have "map_option brief (first_publish h w) = List.find ?B (map brief (client_queue h w))"
    unfolding f by (rule find_map [symmetric])
  also have "\<dots> = map_option brief_of (List.find (?B \<circ> brief_of) cs)" unfolding backed_simps(6) [OF assms] by (rule find_map)
  also have "?B \<circ> brief_of = is_publish" by (simp add: fun_eq_iff brief_of_def is_publish_def)
  finally have e: "map_option brief (first_publish h w) = map_option brief_of (List.find is_publish cs)" .
  then show "first_publish h w = None \<Longrightarrow> List.find is_publish cs = None" by simp
  show "first_publish h w = Some q \<Longrightarrow> \<exists>x. List.find is_publish cs = Some x \<and> brief q = brief_of x \<and> q_client q = h"
  proof -
    assume q: "first_publish h w = Some q"
    then have "q_client q = h" by (auto simp: first_publish_def find_Some_iff)
    then show ?thesis using e unfolding q by (cases "List.find is_publish cs") auto
  qed
qed

lemma items_detach:
  assumes "distinct (map q_addr (items (commands w)))" "first_publish h w = Some q" 
  shows "items (commands (detach_command q w)) = without_first (\<lambda>q. q_client q = h \<and> cmd_type (q_command q) = PUBLISH) (items (commands w))"
proof -
  let ?P = "\<lambda>r. q_addr r = q_addr q"
  have q: "q \<in> set (items (commands w))" using assms(2) by (auto simp: first_publish_def find_Some_iff)
  obtain f l where l: "l_find (commands w) ?P = (f, l)" by fastforce
  have "items (commands (detach_command q w)) = without_first ?P (items (commands w))"
  proof (cases f)
    case None
    then show ?thesis using l q l_find_found [of "commands w" ?P] by (auto simp: l_find_def find_pos_None split: if_splits option.splits)
  next
    case (Some k)
    then have k: "k < length (items (commands w))" "?P (items (commands w) ! k)" using l l_find_found [of "commands w" ?P k] by auto
    moreover have "find_pos ?P (items (commands w)) \<noteq> None" using k find_pos_None [of ?P] nth_mem by blast
    moreover have "j = k" if "find_pos ?P (items (commands w)) = Some j" for j
    proof -
      have "j < length (items (commands w))" "q_addr (items (commands w) ! j) = q_addr (items (commands w) ! k)"
        using find_pos_bound [OF that] k by simp_all
      then show ?thesis using k(1) nth_eq_iff_index_eq [OF assms(1), of j k] by simp
    qed
    ultimately have "find_pos ?P (items (commands w)) = Some k" by (cases "find_pos ?P (items (commands w))") auto
    then show ?thesis using without_first_drop_nth l Some by (auto simp: detach_command_def l_unlink_def)
  qed
  then show ?thesis using without_first_key [OF assms(2) [unfolded first_publish_def] assms(1)] by simp
qed

text \<open>What the handle keeps, but for its counters.\<close>

definition same_handle :: "nat \<Rightarrow> 'z async_scheme \<Rightarrow> 'z async_scheme \<Rightarrow> bool" where
  "same_handle h w w' \<longleftrightarrow>
     handle_client h w' = handle_client h w \<and> createOptions (handle_at h w') = createOptions (handle_at h w)"

definition addresses :: "'z async_scheme \<Rightarrow> nat set" where
  "addresses w = q_addr ` set (items (commands w))"

lemma detach_backed:
  assumes b: "backed h w cs" and q: "first_publish h w = Some q"
  shows "\<exists>w'. snd (MQTTAsync_unpersistCommand (default_store dir) q (detach_command q w)) = w'
    \<and> backed h w' (without_first is_publish cs) \<and> same_handle h w w' \<and> handles w' = handles w \<and> addresses w' \<subseteq> addresses w"
proof -
  note s = backed_simps [OF b]
  define p where "p = phandle (handle_client h w)"
  define w1 where "w1 = detach_command q w"
  have w1: "handle_client h w1 = handle_client h w" "store_ready p w1" "records p w1 = records p w"
    using s(4) by (simp_all add: w1_def detach_command_def p_def)
  have hs: "handles w1 = handles w" by (simp add: w1_def detach_command_def)
  obtain x where x: "List.find is_publish cs = Some x" "brief q = brief_of x" "q_client q = h" using find_publish(2) [OF b q] by blast
  then have xs: "x \<in> set cs" "q_seqno q = fst x" by (auto simp: find_Some_iff brief_def brief_of_def)
  have n: "fst x < 1000000" using backed_seqno(2) [OF b xs(1)] .
  obtain w2 where w2: "premove (default_store dir) p (stored_key (v5_of h w) (fst x)) w1 = (0, w2)" "store_ready p w2"
      "records p w2 = (records p w1)(stored_key (v5_of h w) (fst x) := None)" "same_but_disk w1 w2"
    using disk_store.remove_law [OF w1(2) stored_key_facts(1) [OF n]] by blast
  note d = same_disk_async [OF w2(4)]
  have u: "snd (MQTTAsync_unpersistCommand (default_store dir) q w1) = w2"
    using w2(1) x(3) xs(2) command_key_ok [OF n, of "v5_of h w"] w1(1)
    by (simp add: MQTTAsync_unpersistCommand_def Let_def v5_of_def p_def)
  have c: "handle_client h w2 = handle_client h w" "handle_at h w2 = handle_at h w" "handles w2 = handles w"
    using d hs w1(1) by (simp_all add: handle_at_def)
  have it: "items (commands w2) = without_first (\<lambda>q. q_client q = h \<and> cmd_type (q_command q) = PUBLISH) (items (commands w))"
    using items_detach [OF s(5) q] d(2) by (simp add: w1_def)
  let ?B = "\<lambda>(n :: nat, t :: nat, k :: int). t = PUBLISH"
  have "map brief (client_queue h w2) = map brief (without_first (\<lambda>q. q_client q = h \<and> cmd_type (q_command q) = PUBLISH) (client_queue h w))"
    unfolding client_queue_def it by (subst filter_without_first) (simp_all add: is_stored_def)
  also have "\<dots> = without_first ?B (map brief (client_queue h w))"
    by (rule map_without_first) (simp add: client_queue_def is_stored_def brief_def)
  also have "\<dots> = map brief_of (without_first is_publish cs)"
    unfolding s(6) by (rule map_without_first [symmetric]) (simp add: is_publish_def brief_of_def)
  finally have br: "map brief (client_queue h w2) = map brief_of (without_first is_publish cs)" .
  have v: "v5_of h w2 = v5_of h w" by (simp add: v5_of_def c)
  have rec: "map_of (map (record_of (v5_of h w)) (without_first is_publish cs))
      = (map_of (map (record_of (v5_of h w)) cs))(stored_key (v5_of h w) (fst x) := None)"
    using map_of_without_first [OF x(1) distinct_record_keys [OF s(7)]] by (simp add: record_of_def)
  note rk = backed_records [OF b, folded p_def]
  have sub: "set (without_first is_publish cs) \<subseteq> set cs" by (rule set_without_first)
  have "backed h w2 (without_first is_publish cs)"
    unfolding backed_def c v p_def [symmetric]
  proof (intro conjI)
    show "distinct (map q_addr (items (commands w2)))" unfolding it by (rule distinct_without_first [OF s(5)])
    show "sorted_wrt (<) (map fst (without_first is_publish cs))" by (rule map_fst_without_first [OF s(7)])
    show "\<forall>key. is_command_key key \<longrightarrow> records p w2 key = map_of (map (record_of (v5_of h w)) (without_first is_publish cs)) key"
      using rk(1) unfolding w2(3) w1(3) rec by simp
    show "\<forall>key. records p w2 key \<noteq> None \<longrightarrow> 45 \<in> set key"
      using rk(2) unfolding w2(3) w1(3) by simp
    show "\<forall>n \<in> fst ` set (without_first is_publish cs). n \<le> command_seqno (handle_at h w)"
      using backed_seqno(1) [OF b] sub by auto
    show "\<forall>c \<in> snd ` set (without_first is_publish cs). command_ok (v5_of h w) c \<and> command_record (v5_of h w) c \<noteq> None"
      using rk(3) sub by blast
    show "h < length (items (handles w))" by (rule s(1))
    show "persistence (handle_client h w)" by (rule s(2))
    show "\<not> beforeWrite (handle_client h w)" by (rule s(3))
    show "store_ready p w2" by (rule w2(2))
    show "map brief (client_queue h w2) = map brief_of (without_first is_publish cs)" by (rule br)
    show "command_seqno (handle_at h w) < 1000000" by (rule s(8))
  qed
  moreover have "addresses w2 \<subseteq> addresses w" unfolding addresses_def it by (rule image_mono [OF set_without_first])
  moreover have "same_handle h w w2" by (simp add: same_handle_def c)
  ultimately show ?thesis using u c(3) unfolding w1_def by blast
qed

lemma backed_counter:
  assumes "backed h w cs" "\<And>m. h_c (f m) = h_c m \<and> command_seqno (f m) = command_seqno m"
  shows "backed h (upd_handle h f w) cs"
proof -
  have "handle_client h (upd_handle h f w) = handle_client h w" by (rule handle_client_upd) (simp add: assms(2))
  moreover have "client_queue h (upd_handle h f w) = client_queue h w" by (simp add: client_queue_def)
  moreover have "command_seqno (handle_at h (upd_handle h f w)) = command_seqno (handle_at h w)"
    using backed_simps(1) [OF assms(1)] assms(2) by simp
  ultimately show ?thesis using assms(1) by (simp add: backed_def v5_of_def)
qed

lemma count_publish_backed:
  fixes dir :: bytes
  assumes b: "backed h w cs"
  defines "w' \<equiv> count_publish (default_store dir) h w"
  shows "backed h w' (if buffer_full h w then without_first is_publish cs else cs)" "same_handle h w w'"
    "addresses w' \<subseteq> addresses w" "command_seqno (handle_at h w') = command_seqno (handle_at h w)"
    "noBufferedMessages (handle_at h w') = noBufferedMessages (handle_at h w) + (if buffer_full h w then 0 else 1)"
proof -
  have "backed h w' (if buffer_full h w then without_first is_publish cs else cs) \<and> same_handle h w w' \<and> addresses w' \<subseteq> addresses w
    \<and> command_seqno (handle_at h w') = command_seqno (handle_at h w)
    \<and> noBufferedMessages (handle_at h w') = noBufferedMessages (handle_at h w) + (if buffer_full h w then 0 else 1)"
  proof (cases "buffer_full h w")
    case False
    let ?f = "\<lambda>m. m\<lparr>noBufferedMessages := noBufferedMessages m + 1\<rparr>"
    have "w' = upd_handle h ?f w" using False by (simp add: w'_def count_publish_def)
    then show ?thesis
      using False backed_counter [OF b, of ?f] backed_simps(1) [OF b] by (simp add: same_handle_def addresses_def)
  next
    case True
    show ?thesis
    proof (cases "first_publish h w")
      case None
      have "without_first P cs = cs" if "List.find P cs = None" for P
        using that by (induction cs) (auto split: if_splits)
      then show ?thesis
        using True None b find_publish(1) [OF b None] by (simp add: w'_def count_publish_def same_handle_def)
    next
      case (Some q)
      have "persistence (handle_client h (detach_command q w))" using backed_simps(2) [OF b] by (simp add: detach_command_def)
      then have "w' = snd (MQTTAsync_unpersistCommand (default_store dir) q (detach_command q w))"
        using True Some by (simp add: w'_def count_publish_def Let_def)
      then show ?thesis using detach_backed [OF b Some, of dir] True by (auto simp: handle_at_def)
    qed
  qed
  then show "backed h w' (if buffer_full h w then without_first is_publish cs else cs)" "same_handle h w w'"
    "addresses w' \<subseteq> addresses w" "command_seqno (handle_at h w') = command_seqno (handle_at h w)"
    "noBufferedMessages (handle_at h w') = noBufferedMessages (handle_at h w) + (if buffer_full h w then 0 else 1)"
    by blast+
qed

section \<open>Adding commands\<close>

text \<open>The specification: the limit, the number of buffered publications and the queue.\<close>

definition is_full :: "int option \<Rightarrow> int \<Rightarrow> bool" where
  "is_full limit buffered = (case limit of None \<Rightarrow> False | Some m \<Rightarrow> m \<le> buffered)"

definition enqueue :: "bool \<Rightarrow> command \<Rightarrow> command list \<Rightarrow> command list" where
  "enqueue full c cs =
     (if cmd_type c = PUBLISH \<and> full then without_first (\<lambda>c. cmd_type c = PUBLISH) (cs @ [c]) else cs @ [c])"

fun enqueue_all :: "int option \<Rightarrow> int \<Rightarrow> command list \<Rightarrow> command list \<Rightarrow> command list" where
  "enqueue_all limit n [] cs = cs"
| "enqueue_all limit n (c # new) cs =
     enqueue_all limit (if cmd_type c = PUBLISH \<and> \<not> is_full limit n then n + 1 else n) new (enqueue (is_full limit n) c cs)"

definition limit_of :: "handle \<Rightarrow> int option" where
  "limit_of m = (case createOptions m of NULL \<Rightarrow> None | Ptr opts \<Rightarrow> Some (maxBufferedMessages opts))"

lemma buffer_full_eq: "buffer_full h w = is_full (limit_of (handle_at h w)) (noBufferedMessages (handle_at h w))"
  by (simp add: buffer_full_def is_full_def limit_of_def split: cptr.split)

text \<open>A command of the application that is to be stored.\<close>

definition may_store :: "nat \<Rightarrow> 'z async_scheme \<Rightarrow> queued \<Rightarrow> bool" where
  "may_store h w q \<longleftrightarrow> q_client q = h \<and> \<not> skips_store q w \<and> command_ok (v5_of h w) (q_command q)
     \<and> command_record (v5_of h w) (q_command q) \<noteq> None"

lemma may_store_same: "same_handle h w w' \<Longrightarrow> may_store h w' q = may_store h w q"
  by (auto simp: may_store_def same_handle_def skips_store_def v5_of_def)

lemma start_time_buffers [simp]: "command_buffers v5 (c\<lparr>start_time := t\<rparr>) = command_buffers v5 c"
  unfolding command_buffers_def by (simp cong: if_cong)

lemma start_time_irrelevant [simp]:
  "command_ok v5 (c\<lparr>start_time := t\<rparr>) = command_ok v5 c"
  "command_record v5 (c\<lparr>start_time := t\<rparr>) = command_record v5 c"
  by (simp_all add: command_ok_def command_record_def)

text \<open>Two commands that differ in their start time at most.\<close>

definition same_command :: "command \<Rightarrow> command \<Rightarrow> bool" where
  "same_command c c' \<longleftrightarrow> (\<exists>t. c' = c\<lparr>start_time := t\<rparr>)"

lemma same_command_type: "same_command c c' \<Longrightarrow> cmd_type c' = cmd_type c"
  by (auto simp: same_command_def)

lemma same_command_refl: "same_command c c"
  unfolding same_command_def by (rule exI [of _ "start_time c"]) simp

lemma enqueue_same:
  "list_all2 same_command cs cs' \<Longrightarrow> same_command c c' \<Longrightarrow> list_all2 same_command (enqueue full c cs) (enqueue full c' cs')"
proof -
  assume a: "list_all2 same_command cs cs'" "same_command c c'"
  have w: "list_all2 same_command (without_first (\<lambda>c. cmd_type c = PUBLISH) xs) (without_first (\<lambda>c. cmd_type c = PUBLISH) ys)"
    if "list_all2 same_command xs ys" for xs ys
    using that by (induction xs ys rule: list_all2_induct) (auto simp: same_command_type)
  show ?thesis
    using w [of "cs @ [c]" "cs' @ [c']"] a by (simp add: enqueue_def same_command_type list_all2_appendI)
qed

lemma map_snd_enqueue:
  "map snd (if cmd_type c = PUBLISH \<and> full then without_first is_publish (cs @ [(n, c)]) else cs @ [(n, c)])
    = enqueue full c (map snd cs)"
  using map_without_first [of "cs @ [(n, c)]" is_publish "\<lambda>c. cmd_type c = PUBLISH" snd]
  by (simp add: enqueue_def is_publish_def)

lemma addCommand_backed:
  assumes b: "backed h w cs" and q: "may_store h w q" "q_addr q \<notin> addresses w"
    and n: "Suc (command_seqno (handle_at h w)) < 1000000"
  shows "\<exists>w' cs' c'. MQTTAsync_addCommand (default_store dir) q w = Some (MQTTASYNC_SUCCESS, w') \<and> backed h w' cs'
    \<and> same_command (q_command q) c' \<and> map snd cs' = enqueue (buffer_full h w) c' (map snd cs)
    \<and> same_handle h w w' \<and> addresses w' \<subseteq> insert (q_addr q) (addresses w)
    \<and> command_seqno (handle_at h w') = Suc (command_seqno (handle_at h w))
    \<and> noBufferedMessages (handle_at h w')
        = noBufferedMessages (handle_at h w) + (if cmd_type (q_command q) = PUBLISH \<and> \<not> buffer_full h w then 1 else 0)"
proof -
  note s = backed_simps [OF b]
  define p where "p = phandle (handle_client h w)"
  define q1 where "q1 = q\<lparr>q_command := (q_command q)\<lparr>start_time := clock w\<rparr>\<rparr>"
  define n where "n = Suc (command_seqno (handle_at h w))"
  define w1 where "w1 = w\<lparr>commands := l_append (commands w) q1\<rparr>"
  have n6: "n < 1000000" using assms(4) by (simp add: n_def)
  have q1: "q_client q1 = h" "command_ok (v5_of h w) (q_command q1)" "q_addr q1 = q_addr q"
      "cmd_type (q_command q1) = cmd_type (q_command q)" "\<not> skips_store q1 w1"
    using q(1) by (auto simp: q1_def w1_def may_store_def skips_store_def)
  obtain r where r: "command_record (v5_of h w) (q_command q1) = Some r" using q(1) by (auto simp: q1_def may_store_def)
  have t: "cmd_type (q_command q) \<in> {SUBSCRIBE, UNSUBSCRIBE, PUBLISH}" using type_of_ok [OF q1(2)] q1(4) by simp
  obtain w2 where w2: "store_command (default_store dir) q1 w1 = Some (kept_command (v5_of h w) n q1, False, w2)"
      "store_ready p w2" "same_but_disk (upd_handle h count_up w1) w2"
      "records p w2 = (records p w)(stored_key (v5_of h w) n \<mapsto> r)"
    using store_command_ok [of q1 h w1 "v5_of h w" r dir] s q1 r n6 by (auto simp: w1_def n_def p_def v5_of_def)
  note d = same_disk_async [OF w2(3)]
  define w3 where "w3 = w2\<lparr>commands := l_update (length (items (commands w))) (\<lambda>_. kept_command (v5_of h w) n q1) (commands w2)\<rparr>"
  have it: "items (commands w3) = items (commands w) @ [kept_command (v5_of h w) n q1]"
    using d(2) by (simp add: w3_def l_update_def l_append_def w1_def)
  have hs: "handles w3 = handles (upd_handle h count_up w)" using d(1) by (simp add: w3_def w1_def upd_handle_def handle_at_def)
  have b3: "backed h w3 (cs @ [(n, q_command q1)])"
  proof (rule appended_backed [OF b q1(1) _ q1(2) r n_def n6 _ hs _ it])
    show "q_addr q1 \<notin> q_addr ` set (items (commands w))" using q(2) q1(3) by (simp add: addresses_def)
    show "store_ready (phandle (handle_client h w)) w3" using w2(2) by (simp add: w3_def p_def)
    show "clients w3 = clients w" using d(4) by (simp add: w3_def w1_def)
    show "records (phandle (handle_client h w)) w3 = (records (phandle (handle_client h w)) w)(stored_key (v5_of h w) n \<mapsto> r)"
      using w2(4) by (simp add: w3_def p_def)
  qed
  have m: "handle_at h w3 = count_up (handle_at h w)" using hs handle_at_upd(1) [OF s(1), of count_up] by (simp add: handle_at_def)
  have sh: "same_handle h w w3" using m d(4) by (simp add: same_handle_def handle_client_def client_at_def w3_def w1_def)
  have a3: "addresses w3 = insert (q_addr q) (addresses w)" by (simp add: addresses_def it q1(3))
  have full: "buffer_full h w3 = buffer_full h w" by (simp add: buffer_full_eq m limit_of_def)
  have seq: "command_seqno (handle_at h w3) = n" using n6 by (simp add: m next_seqno_def n_def)
  have e: "MQTTAsync_addCommand (default_store dir) q w
      = Some (MQTTASYNC_SUCCESS, if cmd_type (q_command q) = PUBLISH then count_publish (default_store dir) h w3 else w3)"
    using t q(1) w2(1) by (auto simp: MQTTAsync_addCommand_def Let_def w1_def w3_def q1_def may_store_def)
  define w4 where "w4 = (if cmd_type (q_command q) = PUBLISH then count_publish (default_store dir) h w3 else w3)"
  define cs' where "cs' = (if cmd_type (q_command q1) = PUBLISH \<and> buffer_full h w then without_first is_publish (cs @ [(n, q_command q1)])
      else cs @ [(n, q_command q1)])"
  note c = count_publish_backed [OF b3, of dir]
  have w4: "backed h w4 cs' \<and> same_handle h w3 w4 \<and> addresses w4 \<subseteq> addresses w3
      \<and> command_seqno (handle_at h w4) = command_seqno (handle_at h w3)
      \<and> noBufferedMessages (handle_at h w4)
        = noBufferedMessages (handle_at h w) + (if cmd_type (q_command q) = PUBLISH \<and> \<not> buffer_full h w then 1 else 0)"
    using c b3 q1(4) m
    by (cases "cmd_type (q_command q) = PUBLISH"; cases "buffer_full h w") (simp_all add: w4_def cs'_def full same_handle_def)
  have "same_command (q_command q) (q_command q1)" by (auto simp: q1_def same_command_def)
  moreover have "map snd cs' = enqueue (buffer_full h w) (q_command q1) (map snd cs)" unfolding cs'_def by (rule map_snd_enqueue)
  moreover have "same_handle h w w4" using sh w4 by (simp add: same_handle_def)
  ultimately show ?thesis using e [folded w4_def] w4 a3 seq n_def by metis
qed

text \<open>A sequence of calls.\<close>

fun add_commands :: "'z async_scheme persist_api \<Rightarrow> queued list \<Rightarrow> 'z async_scheme \<Rightarrow> 'z async_scheme option" where
  "add_commands per [] w = Some w"
| "add_commands per (q # qs) w = do { (rc, w1) \<leftarrow> MQTTAsync_addCommand per q w; add_commands per qs w1 }"

lemma enqueue_all_same:
  "list_all2 same_command cs cs' \<Longrightarrow> list_all2 same_command (enqueue_all limit n new cs) (enqueue_all limit n new cs')"
  by (induction new arbitrary: n cs cs') (simp_all add: enqueue_same same_command_refl)

lemma same_command_trans: "same_command a b \<Longrightarrow> same_command b c \<Longrightarrow> same_command a c"
  by (auto simp: same_command_def)

lemma list_all2_same_refl: "list_all2 same_command cs cs"
  by (simp add: list_all2_refl same_command_refl)

lemma list_all2_same_trans:
  "list_all2 same_command as bs \<Longrightarrow> list_all2 same_command bs cs \<Longrightarrow> list_all2 same_command as cs"
  using list_all2_trans [of same_command same_command same_command as bs cs] same_command_trans by blast

lemma disjoint_insert_subset: "x \<notin> A \<Longrightarrow> A \<inter> B = {} \<Longrightarrow> C \<subseteq> insert x B \<Longrightarrow> A \<inter> C = {}"
  by blast

lemma add_commands_backed:
  assumes "backed h w cs" "\<forall>q \<in> set qs. may_store h w q" "distinct (map q_addr qs)" "q_addr ` set qs \<inter> addresses w = {}"
    and "command_seqno (handle_at h w) + length qs < 1000000"
  shows "\<exists>w' cs'. add_commands (default_store dir) qs w = Some w' \<and> backed h w' cs' \<and> same_handle h w w'
    \<and> list_all2 same_command
        (enqueue_all (limit_of (handle_at h w)) (noBufferedMessages (handle_at h w)) (map q_command qs) (map snd cs)) (map snd cs')"
  using assms
proof (induction qs arbitrary: w cs)
  case Nil
  then show ?case by (intro exI [of _ w] exI [of _ cs]) (simp add: same_handle_def list_all2_same_refl)
next
  case (Cons q qs)
  have a: "may_store h w q" "q_addr q \<notin> addresses w" "Suc (command_seqno (handle_at h w)) < 1000000"
    using Cons.prems(2,4,5) by simp_all
  define full where "full = buffer_full h w"
  obtain w1 cs1 c1 where w1: "MQTTAsync_addCommand (default_store dir) q w = Some (MQTTASYNC_SUCCESS, w1)" "backed h w1 cs1"
      "same_command (q_command q) c1" "map snd cs1 = enqueue full c1 (map snd cs)" "same_handle h w w1"
      "addresses w1 \<subseteq> insert (q_addr q) (addresses w)" "command_seqno (handle_at h w1) = Suc (command_seqno (handle_at h w))"
      "noBufferedMessages (handle_at h w1)
        = noBufferedMessages (handle_at h w) + (if cmd_type (q_command q) = PUBLISH \<and> \<not> full then 1 else 0)"
    using addCommand_backed [OF Cons.prems(1) a, of dir, folded full_def] by (elim exE conjE) (rule that)
  have m: "\<forall>q \<in> set qs. may_store h w1 q" using Cons.prems(2) may_store_same [OF w1(5)] by simp
  have d: "distinct (map q_addr qs)" using Cons.prems(3) by simp
  have "q_addr q \<notin> q_addr ` set qs" "q_addr ` set qs \<inter> addresses w = {}" using Cons.prems(3,4) by simp_all
  then have e: "q_addr ` set qs \<inter> addresses w1 = {}" using w1(6) by (rule disjoint_insert_subset)
  have n: "command_seqno (handle_at h w1) + length qs < 1000000" using Cons.prems(5) w1(7) by simp
  obtain w2 cs2 where w2: "add_commands (default_store dir) qs w1 = Some w2" "backed h w2 cs2" "same_handle h w1 w2"
      "list_all2 same_command (enqueue_all (limit_of (handle_at h w1)) (noBufferedMessages (handle_at h w1)) (map q_command qs)
         (map snd cs1)) (map snd cs2)"
    using Cons.IH [OF w1(2) m d e n] by (elim exE conjE) (rule that)
  have l: "limit_of (handle_at h w1) = limit_of (handle_at h w)" using w1(5) by (simp add: same_handle_def limit_of_def)
  have f: "full = is_full (limit_of (handle_at h w)) (noBufferedMessages (handle_at h w))" by (simp add: full_def buffer_full_eq)
  have b: "noBufferedMessages (handle_at h w1) = (if cmd_type (q_command q) = PUBLISH
        \<and> \<not> is_full (limit_of (handle_at h w)) (noBufferedMessages (handle_at h w))
      then noBufferedMessages (handle_at h w) + 1 else noBufferedMessages (handle_at h w))"
    using w1(8) by (simp add: f)
  have "list_all2 same_command (enqueue full (q_command q) (map snd cs)) (map snd cs1)"
    unfolding w1(4) by (rule enqueue_same [OF list_all2_same_refl w1(3)])
  note t = list_all2_same_trans [OF enqueue_all_same [OF this] w2(4) [unfolded l]]
  have "list_all2 same_command (enqueue_all (limit_of (handle_at h w)) (noBufferedMessages (handle_at h w)) (map q_command (q # qs))
      (map snd cs)) (map snd cs2)"
    using t by (simp only: list.map enqueue_all.simps f [symmetric] b)
  moreover have "same_handle h w w2" using w1(5) w2(3) by (simp add: same_handle_def)
  moreover have "add_commands (default_store dir) (q # qs) w = Some w2" using w1(1) w2(1) by simp
  ultimately show ?case using w2(2) by (intro exI [of _ w2] exI [of _ cs2] conjI)
qed

section \<open>A new session\<close>

text \<open>An entry of the list that stands for a stored command.\<close>

definition stands_for :: "bool \<Rightarrow> nat \<Rightarrow> nat \<times> command \<Rightarrow> queued \<Rightarrow> bool" where
  "stands_for v5 h x q \<longleftrightarrow> q_client q = h \<and> q_seqno q = fst x \<and> q_key q = Ptr (stored_key v5 (fst x)) \<and> not_restored q
     \<and> cmd_type (q_command q) = cmd_type (snd x) \<and> token (q_command q) = token (snd x)
     \<and> cmd_properties (q_command q) = MQTTProperties_initializer"

lemma restore_loop_ok:
  assumes "filter is_command_key ks = map (\<lambda>x. stored_key v5 (fst x)) xs"
    and "store_ready (phandle (handle_client h v)) v" "\<not> afterRead (handle_client h v)"
    and "\<forall>x \<in> set xs. fst x < 1000000 \<and> command_ok v5 (snd x)
       \<and> records (phandle (handle_client h v)) v (stored_key v5 (fst x)) = command_record v5 (snd x) \<and> command_record v5 (snd x) \<noteq> None"
  shows "\<exists>v' qs. restore_commands_loop (default_store dir) h ks v = Some (0, v') \<and> items (commands v') = items (commands v) @ qs
    \<and> list_all2 (stands_for v5 h) xs qs \<and> store_ready (phandle (handle_client h v)) v'
    \<and> records (phandle (handle_client h v)) v' = records (phandle (handle_client h v)) v \<and> handle_client h v' = handle_client h v"
  using assms
proof (induction ks arbitrary: xs v)
  case (Cons k ks)
  show ?case
  proof (cases "is_command_key k")
    case False
    then show ?thesis using Cons.IH [of xs v] Cons.prems by simp
  next
    case True
    then obtain x xs' where x: "xs = x # xs'" "k = stored_key v5 (fst x)"
        "filter is_command_key ks = map (\<lambda>x. stored_key v5 (fst x)) xs'"
      using Cons.prems(1) by (cases xs) simp_all
    define c where "c = handle_client h v"
    define n where "n = fst x"
    have xo: "n < 1000000" "command_ok v5 (snd x)" "records (phandle c) v k = command_record v5 (snd x)"
      using Cons.prems(4) x(1,2) by (simp_all add: n_def c_def)
    obtain r where r: "command_record v5 (snd x) = Some r" using Cons.prems(4) x(1) by auto
    note kf = stored_key_facts [OF xo(1), of v5, folded x(2) [folded n_def]]
    obtain v1 where v1: "pget (default_store dir) (phandle c) k v = (0, r, v1)" "store_ready (phandle c) v1"
        "records (phandle c) v1 = records (phandle c) v" "same_but_disk v v1"
      using disk_store.get_law [of "phandle c" v k r] Cons.prems(2) xo(3) r by (auto simp: c_def)
    note d = same_disk_async [OF v1(4)]
    define version :: int where "version = (if v5 then MQTTVERSION_5 else MQTTVERSION_3_1_1)"
    have ver: "v5 = (version \<ge> MQTTVERSION_5)" by (simp add: version_def)
    obtain dd where dd: "MQTTAsync_restoreCommand r version NULL = Some (Ptr (no_queued\<lparr>not_restored := True,
        q_command := no_command\<lparr>cmd_type := cmd_type (snd x), token := token (snd x), details := dd\<rparr>\<rparr>))"
      using restoreCommand_first [OF r xo(2) ver] by blast
    define q where "q = no_queued\<lparr>not_restored := True,
        q_command := no_command\<lparr>cmd_type := cmd_type (snd x), token := token (snd x), details := dd\<rparr>,
        q_addr := next_command v1, q_client := h, q_seqno := n, q_key := Ptr k\<rparr>"
    define v2 where "v2 = upd_handle h (\<lambda>m. m\<lparr>command_seqno := max (command_seqno m) n,
        noBufferedMessages := noBufferedMessages m + of_bool (cmd_type (q_command q) = PUBLISH)\<rparr>)
      (v1\<lparr>commands := l_append (commands v1) q, next_command := next_command v1 + 1\<rparr>)"
    have ap: "append_restored h k (no_queued\<lparr>not_restored := True,
        q_command := no_command\<lparr>cmd_type := cmd_type (snd x), token := token (snd x), details := dd\<rparr>\<rparr>) v1 = Some v2"
      using kf(3) xo(1) cstr_valid [OF kf(1)] by (simp add: append_restored_def Let_def v2_def q_def)
    have st: "stands_for v5 h x q"
      using x(2) by (simp add: stands_for_def q_def n_def no_command_def)
    have hc: "handle_client h v2 = c" 
    proof -
      have "handle_client h v2 = handle_client h (v1\<lparr>commands := l_append (commands v1) q, next_command := next_command v1 + 1\<rparr>)"
        unfolding v2_def by (rule handle_client_upd) simp
      also have "\<dots> = handle_client h v1" by (simp add: handle_client_def handle_at_def client_at_def)
      finally show ?thesis using d(7) by (simp add: c_def)
    qed
    have s2: "store_ready (phandle c) v2" "records (phandle c) v2 = records (phandle c) v" using v1(2,3) by (simp_all add: v2_def)
    have loop: "restore_commands_loop (default_store dir) h (k # ks) v = restore_commands_loop (default_store dir) h ks v2"
      using True v1(1) Cons.prems(3) dd ap kf(4) by (simp add: c_def [symmetric] version_def Let_def split: if_splits)
    have "\<exists>v' qs. restore_commands_loop (default_store dir) h ks v2 = Some (0, v') \<and> items (commands v') = items (commands v2) @ qs
      \<and> list_all2 (stands_for v5 h) xs' qs \<and> store_ready (phandle c) v' \<and> records (phandle c) v' = records (phandle c) v2
      \<and> handle_client h v' = c"
      using Cons.IH [OF x(3), of v2] s2 Cons.prems(3,4) x(1) hc by (simp add: c_def)
    then obtain v' qs where v': "restore_commands_loop (default_store dir) h ks v2 = Some (0, v')"
        "items (commands v') = items (commands v2) @ qs" "list_all2 (stands_for v5 h) xs' qs" "store_ready (phandle c) v'"
        "records (phandle c) v' = records (phandle c) v2" "handle_client h v' = c"
      by blast
    have "items (commands v') = items (commands v) @ q # qs" using v'(2) d(2) by (simp add: v2_def l_append_def)
    then show ?thesis
      using v' s2 st loop x(1) unfolding c_def by (intro exI [of _ v'] exI [of _ "q # qs"]) simp
  qed
qed (auto simp: filter_empty_conv)

text \<open>The keys in the order of their numbers.\<close>

lemma command_keys_sorted:
  assumes b: "backed h w cs" and ks: "set ks = dom (records (phandle (handle_client h w)) w)" "distinct ks"
  shows "filter is_command_key (sort_key key_number ks) = map (\<lambda>x. stored_key (v5_of h w) (fst x)) cs"
proof -
  define kf where "kf = (\<lambda>x :: nat \<times> command. stored_key (v5_of h w) (fst x))"
  have key: "is_command_key (kf x) \<and> key_number (kf x) = fst x" if "x \<in> set cs" for x
    using stored_key_facts [OF backed_seqno(2) [OF b that]] by (simp add: kf_def)
  have d: "distinct (map kf cs)"
    using distinct_record_keys [OF backed_simps(7) [OF b], of "v5_of h w"] by (simp add: kf_def comp_def record_of_def)
  have dom: "dom (map_of (map (record_of (v5_of h w)) cs)) = kf ` set cs"
    by (simp add: dom_map_of_conv_image_fst image_image record_of_def kf_def)
  have "set (filter is_command_key ks) = {k. is_command_key k \<and> k \<in> dom (records (phandle (handle_client h w)) w)}"
    using ks(1) by auto
  also have "\<dots> = {k. is_command_key k \<and> k \<in> dom (map_of (map (record_of (v5_of h w)) cs))}"
    using backed_records(1) [OF b] by (auto simp: domIff)
  also have "\<dots> = kf ` set cs" unfolding dom using key by auto
  finally have st: "set (filter is_command_key ks) = set (map kf cs)" by simp
  then have m: "mset (filter is_command_key ks) = mset (map kf cs)"
    by (rule set_eq_iff_mset_eq_distinct [THEN iffD1, OF distinct_filter [OF ks(2)] d])
  have nums: "map key_number (map kf cs) = map fst cs" using key by simp
  have inj: "inj_on key_number (set (filter is_command_key ks))"
    unfolding st using key by (auto simp: inj_on_def kf_def)
  have so: "sorted (map key_number (map kf cs))"
    unfolding nums using backed_simps(7) [OF b] by (simp add: strict_sorted_iff)
  show ?thesis unfolding filter_sort kf_def [symmetric] by (rule sort_key_inj_key_eq [OF m inj so])
qed

text \<open>The state of a new session whose store is the directory the old one has left.\<close>

definition new_session :: "'z async_scheme \<Rightarrow> nat \<Rightarrow> 'y async_scheme \<Rightarrow> nat \<Rightarrow> bool" where
  "new_session w h v h' \<longleftrightarrow> phandle (handle_client h' v) = phandle (handle_client h w)
     \<and> persistence (handle_client h' v) \<and> \<not> afterRead (handle_client h' v) \<and> items (commands v) = []
     \<and> fs_files v = fs_files w \<and> fs_dirs v = fs_dirs w \<and> fs_plan v = []"

lemma new_session_store:
  assumes "new_session w h v h'"
  shows "store_ready p w \<Longrightarrow> store_ready p v" "records p v = records p w"
proof -
  have fs: "fs_files v = fs_files w" "fs_dirs v = fs_dirs w" "fs_plan v = []" using assms by (simp_all add: new_session_def)
  then have "list_dir (resolve p) v = list_dir (resolve p) w" "is_dir (resolve p) v = is_dir (resolve p) w"
    by (simp_all add: list_dir_def is_dir_def)
  then show "store_ready p w \<Longrightarrow> store_ready p v" unfolding store_ready_def fs by simp
  show "records p v = records p w" by (simp add: records_def fs fun_eq_iff)
qed

text \<open>Reading an entry of the list in full gives the command \<open>c\<close>, with what is stored of its options.\<close>

definition comes_back :: "bytes \<Rightarrow> 'z async_scheme \<Rightarrow> nat \<Rightarrow> bool \<Rightarrow> command \<Rightarrow> queued \<Rightarrow> bool" where
  "comes_back dir v h v5 c q \<longleftrightarrow> q_client q = h \<and> cmd_type (q_command q) = cmd_type c \<and> token (q_command q) = token c
     \<and> (\<exists>key record v' q'. q_key q = Ptr key \<and> pget (default_store dir) (phandle (handle_client h v)) key v = (0, record, v')
         \<and> MQTTAsync_restoreCommand record (if has_stem PERSISTENCE_V5_COMMAND_KEY key then MQTTVERSION_5 else MQTTVERSION_3_1_1)
             (Ptr q) = Some (Ptr q')
         \<and> cmd_type (q_command q') = cmd_type c \<and> token (q_command q') = token c
         \<and> details (q_command q') = stored_details v5 (details c)
         \<and> props_items (cmd_properties (q_command q')) = (if v5 then map norm_prop (props_items (cmd_properties c)) else []))"

lemma stands_comes_back:
  assumes s: "stands_for v5 h x q" and p: "store_ready (phandle (handle_client h v)) v" "fst x < 1000000"
    and r: "records (phandle (handle_client h v)) v (stored_key v5 (fst x)) = command_record v5 (snd x)" "command_record v5 (snd x) \<noteq> None"
    and ok: "command_ok v5 (snd x)" "v5 \<or> cmd_type (snd x) \<noteq> UNSUBSCRIBE"
  shows "comes_back dir v h v5 (snd x) q"
proof -
  obtain rec where rec: "command_record v5 (snd x) = Some rec" using r(2) by auto
  define version :: int where "version = (if v5 then MQTTVERSION_5 else MQTTVERSION_3_1_1)"
  have ver: "v5 = (version \<ge> MQTTVERSION_5)" by (simp add: version_def)
  obtain v' where v': "pget (default_store dir) (phandle (handle_client h v)) (stored_key v5 (fst x)) v = (0, rec, v')"
    using disk_store.get_law [OF p(1)] r(1) rec by metis
  have "cmd_properties (q_command q) = MQTTProperties_initializer" using s by (simp add: stands_for_def)
  from restoreCommand_second [OF rec ok(1) ver ok(2) this] obtain props where
    "MQTTAsync_restoreCommand rec version (Ptr q) = Some (Ptr (q\<lparr>not_restored := False,
      q_command := (q_command q)\<lparr>cmd_type := cmd_type (snd x), token := token (snd x), details := stored_details v5 (details (snd x)),
        cmd_properties := props\<rparr>\<rparr>))"
    "props_items props = (if v5 then map norm_prop (props_items (cmd_properties (snd x))) else [])" by blast
  then show ?thesis
    using s v' stored_key_facts(4) [OF p(2), of v5] unfolding comes_back_def stands_for_def version_def
    by (intro conjI exI [of _ "stored_key v5 (fst x)"] exI [of _ rec] exI [of _ v']
        exI [of _ "q\<lparr>not_restored := False, q_command := (q_command q)\<lparr>cmd_type := cmd_type (snd x), token := token (snd x),
          details := stored_details v5 (details (snd x)), cmd_properties := props\<rparr>\<rparr>"]) simp_all
qed

text \<open>Restoring the commands of a store.\<close>

lemma restoreCommands_backed:
  assumes b: "backed h w cs" and n: "new_session w h v h'" and un: "\<forall>x \<in> set cs. v5_of h w \<or> cmd_type (snd x) \<noteq> UNSUBSCRIBE"
  shows "\<exists>v'. MQTTAsync_restoreCommands (default_store dir) h' v = Some (0, v')
    \<and> list_all2 (\<lambda>x q. comes_back dir v' h' (v5_of h w) (snd x) q) cs (items (commands v'))"
proof -
  define p where "p = phandle (handle_client h w)"
  have p: "phandle (handle_client h' v) = p" "persistence (handle_client h' v)" "\<not> afterRead (handle_client h' v)"
      "items (commands v) = []"
    using n by (simp_all add: new_session_def p_def)
  have st: "store_ready p v" "records p v = records p w"
    using new_session_store [OF n, of p] backed_simps(4) [OF b] by (simp_all add: p_def)
  obtain ks v1 where ks: "pkeys (default_store dir) p v = (0, ks, v1)" "set ks = dom (records p v)" "distinct ks"
      "store_ready p v1" "records p v1 = records p v" "same_but_disk v v1"
    using disk_store.keys_law [OF st(1)] by blast
  note d = same_disk_async [OF ks(6)]
  have srt: "filter is_command_key (sort_key key_number ks) = map (\<lambda>x. stored_key (v5_of h w) (fst x)) cs"
    using command_keys_sorted [OF b] ks(2,3) st(2) by (simp add: p_def)
  have rec: "records p w (stored_key (v5_of h w) (fst x)) = command_record (v5_of h w) (snd x)"
      "command_record (v5_of h w) (snd x) \<noteq> None" "command_ok (v5_of h w) (snd x)" "fst x < 1000000" if "x \<in> set cs" for x
  proof -
    have "map_of (map (record_of (v5_of h w)) cs) (stored_key (v5_of h w) (fst x)) = Some (the (command_record (v5_of h w) (snd x)))"
      using that distinct_record_keys [OF backed_simps(7) [OF b], of "v5_of h w"]
      by (intro map_of_is_SomeI) (auto simp: record_of_def)
    then show "records p w (stored_key (v5_of h w) (fst x)) = command_record (v5_of h w) (snd x)"
      using backed_records(1,3) [OF b] that stored_key_facts(2) [OF backed_seqno(2) [OF b that]] by (auto simp: p_def)
  qed (use backed_records(3) [OF b] backed_seqno(2) [OF b that] that in auto)
  have "\<exists>v' qs. restore_commands_loop (default_store dir) h' (sort_key key_number ks) v1 = Some (0, v')
    \<and> items (commands v') = items (commands v1) @ qs
    \<and> list_all2 (stands_for (v5_of h w) h') cs qs \<and> store_ready (phandle (handle_client h' v1)) v'
    \<and> records (phandle (handle_client h' v1)) v' = records (phandle (handle_client h' v1)) v1 \<and> handle_client h' v' = handle_client h' v1"
    by (rule restore_loop_ok [OF srt]) (use d p ks(4,5) st(2) rec in simp_all)
  then obtain v' qs where v': "restore_commands_loop (default_store dir) h' (sort_key key_number ks) v1 = Some (0, v')"
      "items (commands v') = qs" "list_all2 (stands_for (v5_of h w) h') cs qs" "store_ready p v'" "records p v' = records p w"
      "handle_client h' v' = handle_client h' v"
    using d p ks(5) st(2) by auto
  have "45 \<in> set key \<and> cstr key = key" if "key \<in> set ks" for key
  proof -
    have "records p w key \<noteq> None" using that ks(2) st(2) by auto
    then have "45 \<in> set key" "valid_key key" using backed_records(2) [OF b] by (auto simp: p_def records_def split: if_splits)
    then show ?thesis using cstr_valid by simp
  qed
  then have "MQTTAsync_restoreCommands (default_store dir) h' v = Some (0, v')"
    using p ks(1) v'(1) by (auto simp: MQTTAsync_restoreCommands_def)
  moreover have "list_all2 (\<lambda>x q. comes_back dir v' h' (v5_of h w) (snd x) q) cs qs"
  proof (rule list.rel_mono_strong [OF v'(3)])
    fix x q assume x: "x \<in> set cs" "q \<in> set qs" "stands_for (v5_of h w) h' x q"
    have ph: "phandle (handle_client h' v') = p" using v'(6) p(1) by simp
    show "comes_back dir v' h' (v5_of h w) (snd x) q"
      using stands_comes_back [OF x(3), of v' dir] unfolding ph v'(5) using x(1) rec v'(4) un by simp
  qed
  ultimately show ?thesis using v'(2) by blast
qed

lemma set_enqueue_all: "set (enqueue_all limit n new cs) \<subseteq> set new \<union> set cs"
proof (induction new arbitrary: n cs)
  case (Cons c new)
  have "set (enqueue full c cs) \<subseteq> insert c (set cs)" for full
    using set_without_first [of "\<lambda>c. cmd_type c = PUBLISH" "cs @ [c]"] by (auto simp: enqueue_def)
  then show ?case using Cons.IH by fastforce
qed simp

lemma comes_back_same: "same_command c c' \<Longrightarrow> comes_back dir v h v5 c' q \<Longrightarrow> comes_back dir v h v5 c q"
  by (auto simp: same_command_def comes_back_def)

section \<open>Properties\<close>

definition sample_queued :: "nat \<Rightarrow> details \<Rightarrow> nat \<Rightarrow> queued" where
  "sample_queued type d n = no_queued\<lparr>q_addr := n, q_command := no_command\<lparr>cmd_type := type, token := int n, details := d\<rparr>\<rparr>"

definition sample_queue_state :: async where
  "sample_queue_state = sample_async [sample_store_client]
     [sample_handle\<lparr>createOptions := Ptr \<lparr>co_struct_version = 2, sendWhileDisconnected = True, maxBufferedMessages = 1,
        co_MQTTVersion = 4, allowDisconnectedSendAtAnyTime = True, deleteOldestMessages = True, restoreMessages = True,
        persistQoS0 = True\<rparr>\<rparr>]"

definition sample_commands :: "queued list" where
  "sample_commands =
     [sample_queued PUBLISH (Pub (Ptr [97]) 2 (Ptr [1, 2]) 1 False) 1,
      sample_queued SUBSCRIBE (Sub [[98], [99]] [1, 2] no_options NULL) 2,
      sample_queued PUBLISH (Pub (Ptr [97]) 1 (Ptr [3]) 0 True) 3]"

lemma sample_queue_fs:
  "fs_files sample_queue_state = []" "fs_dirs sample_queue_state = [(False, [[100]])]" "fs_plan sample_queue_state = []"
  by (simp_all add: sample_queue_state_def sample_async_def disk.defs sample_disk_def protocol.defs sample_protocol_defs async.defs)

lemma sample_queue_store: "store_ready [100] sample_queue_state" "records [100] sample_queue_state = (\<lambda>_. None)"
  by (simp_all add: store_ready_def resolve_def is_dir_def list_dir_def parent_dir_def records_def sample_queue_fs fun_eq_iff)

lemma sample_queue_client:
  "handle_client 0 sample_queue_state = sample_store_client" "persistence sample_store_client"
  "\<not> beforeWrite sample_store_client" "\<not> afterRead sample_store_client" "phandle sample_store_client = [100]"
  "c_MQTTVersion sample_store_client = 4"
  by (simp_all add: handle_client_def handle_at_def client_at_def sample_queue_state_def sample_handle_def sample_store_client_def
      sample_client_def)

lemma sample_queue_handle:
  "items (commands sample_queue_state) = []" "length (items (handles sample_queue_state)) = 1"
  "command_seqno (handle_at 0 sample_queue_state) = 0" "limit_of (handle_at 0 sample_queue_state) = Some 1"
  "noBufferedMessages (handle_at 0 sample_queue_state) = 0"
  by (simp_all add: sample_queue_state_def l_empty_def handle_at_def sample_handle_def limit_of_def)

lemma sample_queue_skips: "q_client q = 0 \<Longrightarrow> \<not> skips_store q sample_queue_state"
  by (simp add: sample_queue_state_def handle_at_def skips_store_def)

lemma sample_queue_backed: "backed 0 sample_queue_state []"
  by (simp add: backed_def sample_queue_client sample_queue_store sample_queue_handle client_queue_def)

lemma sample_commands_may: "\<forall>q \<in> set sample_commands. may_store 0 sample_queue_state q"
proof -
  have v: "\<not> v5_of 0 sample_queue_state" by (simp add: v5_of_def sample_queue_client)
  have "list_all (\<lambda>q. q_client q = 0 \<and> command_record False (q_command q) \<noteq> None
      \<and> details_ok False (cmd_type (q_command q)) (details (q_command q)) \<and> int_range (token (q_command q))) sample_commands"
    by (simp add: sample_commands_def sample_queued_def no_queued_def no_command_def command_record_def command_buffers_def
        int_range_def)
  moreover have "list_all (\<lambda>q. cmd_properties (q_command q) = MQTTProperties_initializer) sample_commands"
    by (simp add: sample_commands_def sample_queued_def no_queued_def no_command_def)
  moreover have "p_length MQTTProperties_initializer < 268435456" by (simp add: MQTTProperties_initializer_def)
  ultimately show ?thesis
    using v sample_queue_skips unfolding may_store_def list_all_iff command_ok_def by simp
qed

text \<open>C4. Commands that the application adds survive a restart: the session that finds the store which
  the old one has left restores exactly the commands that were still queued, in their order, however many
  publications had to make room for newer ones, and each entry it restores reads back as the command that
  was added, with topics, QoS, payload, options and properties.\<close>

theorem commands_survive_restart:
  assumes "backed h w []" "\<forall>q \<in> set qs. may_store h w q" "\<forall>q \<in> set qs. v5_of h w \<or> cmd_type (q_command q) \<noteq> UNSUBSCRIBE"
    and "distinct (map q_addr qs)" "q_addr ` set qs \<inter> addresses w = {}"
    and "command_seqno (handle_at h w) + length qs < PERSISTENCE_SEQNO_LIMIT"
  shows "\<exists>w'. add_commands (default_store dir) qs w = Some w'
    \<and> (\<forall>v h'. new_session w' h v h' \<longrightarrow>
        (\<exists>v'. MQTTAsync_restoreCommands (default_store dir) h' v = Some (0, v')
          \<and> list_all2 (comes_back dir v' h' (v5_of h w))
              (enqueue_all (limit_of (handle_at h w)) (noBufferedMessages (handle_at h w)) (map q_command qs) [])
              (items (commands v'))))"
proof -
  define spec where "spec = enqueue_all (limit_of (handle_at h w)) (noBufferedMessages (handle_at h w)) (map q_command qs) []"
  have n: "command_seqno (handle_at h w) + length qs < 1000000" using assms(6) by simp
  obtain w' cs where w': "add_commands (default_store dir) qs w = Some w'" "backed h w' cs" "same_handle h w w'"
      "list_all2 same_command spec (map snd cs)"
    using add_commands_backed [OF assms(1,2,4,5) n, of dir] unfolding list.map spec_def [symmetric]
    by (elim exE conjE) (rule that)
  have v5: "v5_of h w' = v5_of h w" using w'(3) by (simp add: v5_of_def same_handle_def)
  have un: "\<forall>x \<in> set cs. v5_of h w' \<or> cmd_type (snd x) \<noteq> UNSUBSCRIBE"
  proof
    fix x assume "x \<in> set cs"
    then obtain i where "i < length cs" "cs ! i = x" by (auto simp: in_set_conv_nth)
    then have "i < length spec" "same_command (spec ! i) (snd x)" using w'(4) by (auto simp: list_all2_conv_all_nth)
    then obtain c where c: "c \<in> set spec" "same_command c (snd x)" using nth_mem by blast
    then have "c \<in> q_command ` set qs" using set_enqueue_all by (fastforce simp: spec_def)
    then show "v5_of h w' \<or> cmd_type (snd x) \<noteq> UNSUBSCRIBE" using assms(3) v5 same_command_type [OF c(2)] by auto
  qed
  have "\<exists>v'. MQTTAsync_restoreCommands (default_store dir) h' v = Some (0, v')
      \<and> list_all2 (comes_back dir v' h' (v5_of h w)) spec (items (commands v'))" if new: "new_session w' h v h'" for v h'
  proof -
    obtain v' where v': "MQTTAsync_restoreCommands (default_store dir) h' v = Some (0, v')"
        "list_all2 (\<lambda>x q. comes_back dir v' h' (v5_of h w') (snd x) q) cs (items (commands v'))"
      using restoreCommands_backed [OF w'(2) new un, of dir] by blast
    have "list_all2 (comes_back dir v' h' (v5_of h w)) (map snd cs) (items (commands v'))"
      using v'(2) unfolding v5 by (simp add: list_all2_map1)
    then have "list_all2 (comes_back dir v' h' (v5_of h w)) spec (items (commands v'))"
      using list_all2_trans [of same_command "comes_back dir v' h' (v5_of h w)" "comes_back dir v' h' (v5_of h w)" spec
          "map snd cs" "items (commands v')"] comes_back_same w'(4) by blast
    then show ?thesis using v'(1) by blast
  qed
  then show ?thesis using w'(1) unfolding spec_def by blast
qed

lemma commands_survive_restart_witness:
  "\<exists>w' v'. add_commands (default_store [46]) sample_commands sample_queue_state = Some w'
    \<and> MQTTAsync_restoreCommands (default_store [46]) 0
        (sample_queue_state\<lparr>fs_files := fs_files w', fs_dirs := fs_dirs w', fs_plan := []\<rparr>) = Some (0, v')
    \<and> map (\<lambda>q. token (q_command q)) (items (commands v')) = [2, 3]"
proof -
  have d: "distinct (map q_addr sample_commands)" "list_all (\<lambda>q. cmd_type (q_command q) \<noteq> UNSUBSCRIBE) sample_commands"
    by code_simp+
  have a: "addresses sample_queue_state = {}" "length sample_commands = 3"
    by (simp_all add: addresses_def sample_queue_handle sample_commands_def)
  obtain w' where w': "add_commands (default_store [46]) sample_commands sample_queue_state = Some w'"
    "\<And>(v :: async) h'. new_session w' 0 v h' \<Longrightarrow>
        \<exists>v'. MQTTAsync_restoreCommands (default_store [46]) h' v = Some (0, v')
          \<and> list_all2 (comes_back [46] v' h' (v5_of 0 sample_queue_state))
              (enqueue_all (Some 1) 0 (map q_command sample_commands) []) (items (commands v'))"
    using commands_survive_restart [OF sample_queue_backed sample_commands_may _ d(1), of "[46]"] d(2)
    by (auto simp: list_all_iff a sample_queue_handle)
  define v where "v = sample_queue_state\<lparr>fs_files := fs_files w', fs_dirs := fs_dirs w', fs_plan := []\<rparr>"
  have "same_handle 0 sample_queue_state w'"
    using add_commands_backed [OF sample_queue_backed sample_commands_may d(1), of "[46]"] w'(1)
    by (auto simp: a sample_queue_handle)
  moreover have "handle_client 0 v = sample_store_client" "items (commands v) = []"
    using sample_queue_client(1) by (simp_all add: v_def handle_client_def handle_at_def client_at_def sample_queue_handle)
  ultimately have "new_session w' 0 v 0"
    by (simp add: new_session_def same_handle_def sample_queue_client) (simp add: v_def)
  from w'(2) [OF this] obtain v' where v': "MQTTAsync_restoreCommands (default_store [46]) 0 v = Some (0, v')"
      "list_all2 (comes_back [46] v' 0 (v5_of 0 sample_queue_state))
         (enqueue_all (Some 1) 0 (map q_command sample_commands) []) (items (commands v'))" by blast
  have "list_all2 (\<lambda>c q. token c = token (q_command q)) (enqueue_all (Some 1) 0 (map q_command sample_commands) []) (items (commands v'))"
    by (rule list.rel_mono_strong [OF v'(2)]) (simp add: comes_back_def)
  then have "map token (enqueue_all (Some 1) 0 (map q_command sample_commands) []) = map (\<lambda>q. token (q_command q)) (items (commands v'))"
    by (auto simp: list_all2_conv_all_nth intro: nth_equalityI)
  moreover have "map token (enqueue_all (Some 1) 0 (map q_command sample_commands) []) = [2, 3]" by code_simp
  ultimately show ?thesis using w'(1) v'(1) unfolding v_def by metis
qed

text \<open>C34. With version 3 an \<open>UNSUBSCRIBE\<close> is lost: its record cannot be read back in full, because the test for
  a topic without NUL is true for the last topic, which ends with the record.\<close>

theorem unsubscribe_lost:
  assumes "details cmd = Unsub topics" "topics \<noteq> []" "command_ok False cmd" "command_record False cmd = Some record"
  shows "MQTTAsync_restoreCommand record MQTTVERSION_3_1_1 (Ptr q) = Some NULL"
proof -
  obtain bufs where b: "command_buffers False cmd = Some bufs" "record = concat bufs"
      "holds_at record 0 (int_bytes (int (cmd_type cmd)) @ int_bytes (token cmd))"
    using command_recordE [OF assms(4,3)] by (metis append_Nil2)
  have t: "cmd_type cmd = UNSUBSCRIBE" "length topics < 2147483648" "\<forall>t \<in> set topics. 0 \<notin> set t" "int_range (token cmd)"
    using assms(1,3) by (simp_all add: command_ok_def list_all_iff)
  have bufs: "bufs = [int_bytes (int UNSUBSCRIBE), int_bytes (token cmd), int_bytes (int (length topics))]
      @ map (\<lambda>t. cstr t @ [0]) topics"
    using b(1) assms(1) t(1) by (simp add: command_buffers_def)
  have h: "holds_at record 8 (int_bytes (int (length topics)))" "holds_at record 12 (concat (map (\<lambda>t. cstr t @ [0]) topics))"
    using holds_at_whole [of "record"] unfolding b(2) bufs by (simp_all add: codec_simps)
  have "restore_unsubs (length topics) record 12 = Some NULL"
    using restore_unsubs_last [OF h(2) t(3) assms(2)] by (simp add: b(2) bufs)
  then have d: "restore_details (int UNSUBSCRIBE) v False d0 record 8 = Some NULL" for v d0
    using restore_int_ok [OF h(1)] t(2) by (simp add: restore_details_def)
  show ?thesis
    using restoreCommand_eq [OF b(3) _ t(4) refl, of MQTTVERSION_3_1_1 "Ptr q"] d [of False] t(1) by (simp add: int_range_def)
qed

lemma unsubscribe_lost_witness:
  "MQTTAsync_restoreCommand
     [10, 0, 0, 0, 7, 0, 0, 0, 1, 0, 0, 0, 97, 47, 98, 0] MQTTVERSION_3_1_1 (Ptr no_queued) = Some NULL"
proof (rule unsubscribe_lost)
  show "details (no_command\<lparr>cmd_type := UNSUBSCRIBE, token := 7, details := Unsub [[97, 47, 98]]\<rparr>) = Unsub [[97, 47, 98]]" by simp
  show "command_ok False (no_command\<lparr>cmd_type := UNSUBSCRIBE, token := 7, details := Unsub [[97, 47, 98]]\<rparr>)"
    by (simp add: command_ok_def no_command_def int_range_def MQTTProperties_initializer_def)
      (simp add: MQTTProperties_initializer_def [symmetric])
  show "command_record False (no_command\<lparr>cmd_type := UNSUBSCRIBE, token := 7, details := Unsub [[97, 47, 98]]\<rparr>)
      = Some [10, 0, 0, 0, 7, 0, 0, 0, 1, 0, 0, 0, 97, 47, 98, 0]"
    by code_simp
qed simp

end
