(* ===== verification/Base64.thy ===== *)
theory Base64
  imports MqttPrelude
begin

text \<open>
  \<open>MqttC/Base64.c\<close> (the variant without \<open>OPENSSL\<close>): encoding and decoding of base64 and the lengths of
  the results.

  The output parameters are the bytes that a function writes, with the NUL it adds where there is room.
\<close>

definition BASE64_ENCODE_TABLE :: bytes where
  "BASE64_ENCODE_TABLE = map of_nat ([65..<91] @ [97..<123] @ [48..<58] @ [43, 47, 61])"

abbreviation (input) NV :: byte where "NV \<equiv> 64"

definition BASE64_DECODE_TABLE :: bytes where
  "BASE64_DECODE_TABLE =
     replicate 43 NV @ [62] @ replicate 3 NV @ [63] @ map of_nat [52..<62] @ replicate 7 NV @ map of_nat [0..<26]
     @ replicate 6 NV @ map of_nat [26..<52] @ replicate 133 NV"

section \<open>Encoding\<close>

text \<open>The four indexes for the next one, two or three bytes.\<close>

fun code_group :: "bytes \<Rightarrow> bytes" where
  "code_group [] = []"
| "code_group [x] = [drop_bit 2 (x AND NOT 3), push_bit 4 (x AND 3), 64, 64]"
| "code_group [x, y] =
     [drop_bit 2 (x AND NOT 3), push_bit 4 (x AND 3) OR drop_bit 4 (y AND NOT 15), push_bit 2 (y AND 15), 64]"
| "code_group (x # y # z # _) =
     [drop_bit 2 (x AND NOT 3), push_bit 4 (x AND 3) OR drop_bit 4 (y AND NOT 15),
      push_bit 2 (y AND 15) OR drop_bit 6 (z AND NOT 63), z AND 63]"

definition encode_char :: "byte \<Rightarrow> byte" where
  "encode_char c = BASE64_ENCODE_TABLE ! unat c"

function encode_loop :: "nat \<Rightarrow> bytes \<Rightarrow> nat \<Rightarrow> bytes \<Rightarrow> nat \<times> bytes" where
  "encode_loop out_len inp out_count out =
     (if inp \<noteq> [] \<and> out_count < out_len
      then encode_loop out_len (drop 3 inp) (out_count + 4)
             (if out_count + 4 \<le> out_len then out @ map encode_char (code_group inp) else out)
      else (out_count, out))"
  by pat_completeness auto
termination by (relation "measure (length \<circ> (fst \<circ> snd))") auto

declare encode_loop.simps [simp del]

definition Base64_encode :: "nat \<Rightarrow> bytes \<Rightarrow> nat \<times> bytes" where
  "Base64_encode out_len inp =
     (case encode_loop out_len inp 0 [] of (out_count, out) \<Rightarrow>
        if out_count \<le> out_len then (out_count, if out_count < out_len then out @ [0] else out) else (0, out))"

definition Base64_encodeLength :: "32 word \<Rightarrow> 32 word" where
  "Base64_encodeLength in_len = (4 * in_len div 3 + 3) AND NOT 3"

section \<open>Decoding\<close>

text \<open>The table is indexed with a \<open>char\<close>, which is signed: other characters than ASCII are out of its bounds.\<close>

definition decode_char :: "byte \<Rightarrow> byte option" where
  "decode_char c = (if unat c < 128 then Some (BASE64_DECODE_TABLE ! unat c) else None)"

text \<open>A byte that is written without counting it is overwritten by the NUL at the end.\<close>

fun decode_loop :: "nat \<Rightarrow> bytes \<Rightarrow> bytes \<Rightarrow> bytes option" where
  "decode_loop out_len (i0 # i1 # i2 # i3 # rest) out =
     (if length out < out_len
      then do {
        c0 \<leftarrow> decode_char i0; c1 \<leftarrow> decode_char i1; c2 \<leftarrow> decode_char i2; c3 \<leftarrow> decode_char i3;
        let out1 = out @ [push_bit 2 c0 OR drop_bit 4 (c1 AND NOT 15)];
        if length out1 < out_len
        then if c2 < NV
          then (let out2 = out1 @ [push_bit 4 (c1 AND 15) OR drop_bit 2 (c2 AND NOT 3)]
                in if length out2 < out_len
                   then if c3 < NV then decode_loop out_len rest (out2 @ [push_bit 6 (c2 AND 3) OR c3]) else Some out2
                   else decode_loop out_len rest out2)
          else Some out1
        else decode_loop out_len rest out1 }
      else Some out)"
| "decode_loop out_len inp out = Some out"

definition Base64_decode :: "nat \<Rightarrow> bytes \<Rightarrow> (nat \<times> bytes) option" where
  "Base64_decode out_len inp =
     map_option (\<lambda>out. if length out \<le> out_len then (length out, if length out < out_len then out @ [0] else out)
                       else (0, out))
       (decode_loop out_len inp [])"

definition Base64_decodeLength :: "bytes \<Rightarrow> 32 word" where
  "Base64_decodeLength inp =
     of_nat (length inp) div 4 * 3
     - ((if length inp > 1 \<and> inp ! (length inp - 2) = 61 then 1 else 0)
        + (if length inp > 0 \<and> inp ! (length inp - 1) = 61 then 1 else 0))"

section \<open>Encoding and decoding\<close>

text \<open>The code of a whole byte string.\<close>

fun code :: "bytes \<Rightarrow> bytes" where
  "code (x # y # z # rest) = map encode_char (code_group [x, y, z]) @ code rest"
| "code inp = map encode_char (code_group inp)"

lemma length_code: "length (code inp) = 4 * ((length inp + 2) div 3)"
proof (induction inp rule: code.induct [case_names three none one two])
  case (three x y z rest)
  have "(length (x # y # z # rest) + 2) div 3 = Suc ((length rest + 2) div 3)" by simp
  then show ?case using three by simp
qed simp_all

lemma encode_loop_code:
  assumes "length out + length (code inp) \<le> out_len"
  shows "encode_loop out_len inp (length out) out = (length out + length (code inp), out @ code inp)"
  using assms
proof (induction inp arbitrary: out rule: code.induct [case_names three none one two])
  case (three x y z rest)
  define g where "g = map encode_char (code_group [x, y, z])"
  have g: "length g = 4" "map encode_char (code_group (x # y # z # rest)) = g" "code (x # y # z # rest) = g @ code rest"
    by (simp_all add: g_def)
  have "encode_loop out_len rest (length (out @ g)) (out @ g) = (length (out @ g) + length (code rest), (out @ g) @ code rest)"
    by (rule three(1)) (use three(2) in \<open>simp add: g(1,3)\<close>)
  then show ?case
    using three(2) by (subst encode_loop.simps) (simp add: g del: code_group.simps code.simps)
qed (simp_all add: encode_loop.simps)

lemma decode_encode_table: "i < 64 \<Longrightarrow> decode_char (encode_char (of_nat i)) = Some (of_nat i)"
proof -
  have "\<forall>i \<in> set [0..<64]. decode_char (encode_char (of_nat i)) = Some (of_nat i)" by code_simp
  then show "i < 64 \<Longrightarrow> decode_char (encode_char (of_nat i)) = Some (of_nat i)" by simp
qed

lemma decode_encode_char: "c < 64 \<Longrightarrow> decode_char (encode_char c) = Some c"
  using decode_encode_table [of "unat c"] by (simp add: word_less_nat_alt)

lemma decode_pad: "decode_char (encode_char 64) = Some 64"
  by code_simp

lemma cases_less_8: "n < 8 \<Longrightarrow> n \<in> {0, 1, 2, 3, 4, 5, 6, 7 :: nat}"
  by auto

lemma group_bits:
  fixes x y z :: byte
  shows "push_bit 2 (drop_bit 2 (x AND NOT 3)) OR drop_bit 4 ((push_bit 4 (x AND 3) OR drop_bit 4 (y AND NOT 15)) AND NOT 15) = x"
    and "push_bit 4 ((push_bit 4 (x AND 3) OR drop_bit 4 (y AND NOT 15)) AND 15)
      OR drop_bit 2 ((push_bit 2 (y AND 15) OR drop_bit 6 (z AND NOT 63)) AND NOT 3) = y"
    and "push_bit 6 ((push_bit 2 (y AND 15) OR drop_bit 6 (z AND NOT 63)) AND 3) OR (z AND 63) = z"
  by - (rule bit_word_eqI; auto simp: bit_simps dest!: cases_less_8; simp add: numeral_2_eq_2 numeral_3_eq_3)+

lemma code_group_less:
  fixes x y z :: byte
  shows "drop_bit 2 (x AND NOT 3) < 64" "push_bit 4 (x AND 3) < 64"
    "push_bit 4 (x AND 3) OR drop_bit 4 (y AND NOT 15) < 64" "push_bit 2 (y AND 15) < 64"
    "push_bit 2 (y AND 15) OR drop_bit 6 (z AND NOT 63) < 64" "z AND 63 < 64"
proof -
  have less: "c < 64" if "\<not> bit c 6" "\<not> bit c 7" for c :: byte
  proof -
    have "take_bit 6 c = c"
      by (rule bit_word_eqI) (use that in \<open>auto simp: bit_take_bit_iff dest!: cases_less_8\<close>)
    then have "unat c = take_bit 6 (unat c)" by (metis unsigned_take_bit_eq)
    then show ?thesis using take_bit_nat_less_exp [of 6 "unat c"] by (simp add: word_less_nat_alt)
  qed
  show "drop_bit 2 (x AND NOT 3) < 64" "push_bit 4 (x AND 3) < 64"
    "push_bit 4 (x AND 3) OR drop_bit 4 (y AND NOT 15) < 64" "push_bit 2 (y AND 15) < 64"
    "push_bit 2 (y AND 15) OR drop_bit 6 (z AND NOT 63) < 64" "z AND 63 < 64"
    by - (rule less; simp add: bit_simps)+
qed

lemma decode_group:
  assumes "decode_char i0 = Some c0" "decode_char i1 = Some c1" "decode_char i2 = Some c2" "decode_char i3 = Some c3"
    and "length out + 3 \<le> out_len" "c2 < 64" "c3 < 64"
  shows "decode_loop out_len (i0 # i1 # i2 # i3 # rest) out =
    decode_loop out_len rest (out @ [push_bit 2 c0 OR drop_bit 4 (c1 AND NOT 15),
      push_bit 4 (c1 AND 15) OR drop_bit 2 (c2 AND NOT 3), push_bit 6 (c2 AND 3) OR c3])"
  using assms by (simp add: Let_def)

lemma decode_code:
  "length out + length inp \<le> out_len \<Longrightarrow> decode_loop out_len (code inp) out = Some (out @ inp)"
proof (induction inp arbitrary: out rule: code.induct [case_names three none one two])
  case (three x y z rest)
  have "decode_loop out_len (code rest) (out @ [x, y, z]) = Some ((out @ [x, y, z]) @ rest)"
    by (rule three(1)) (use three(2) in simp)
  moreover have "decode_loop out_len (code (x # y # z # rest)) out = decode_loop out_len (code rest) (out @ [x, y, z])"
    using decode_group [OF decode_encode_char [OF code_group_less(1) [of x]] decode_encode_char [OF code_group_less(3) [of x y]]
        decode_encode_char [OF code_group_less(5) [of y z]] decode_encode_char [OF code_group_less(6) [of z]]
        _ code_group_less(5) [of y z] code_group_less(6) [of z], where out = out and out_len = out_len and rest = "code rest"] three(2)
    by (simp only: code.simps code_group.simps list.map append.simps group_bits) simp
  ultimately show ?case by simp
next
  case (one x)
  then show ?case using group_bits(1) [of x 0] code_group_less(1,2) [THEN decode_encode_char, of x]
    by (simp add: decode_pad Let_def)
next
  case (two x y)
  then show ?case
    using group_bits(1) [of x y] group_bits(2) [of x y 0] code_group_less(1) [THEN decode_encode_char, of x]
      code_group_less(3) [THEN decode_encode_char, of x y] code_group_less(4) [THEN decode_encode_char, of y]
      code_group_less(4) [of y]
    by (simp add: decode_pad Let_def)
qed simp

lemma unat_and_not_3: "unat (x AND NOT 3 :: 32 word) = unat x div 4 * 4"
proof -
  have "x AND NOT 3 = push_bit 2 (drop_bit 2 x)"
  proof (rule bit_word_eqI)
    have "(3 :: 32 word) = mask 2" by (simp add: mask_eq_exp_minus_1)
    then show "bit (x AND NOT 3) n = bit (push_bit 2 (drop_bit 2 x)) n" if "n < LENGTH(32)" for n
    proof -
      have "2 \<le> n \<Longrightarrow> Suc (Suc (n - 2)) = n" by simp
      then show ?thesis using that \<open>3 = mask 2\<close> by (simp only: bit_simps) auto
    qed
  qed
  moreover have "unat x div 4 * 4 < 4294967296" using unsigned_less [of x, where ?'a = nat] by simp
  ultimately show ?thesis
    by (simp add: push_bit_eq_mult drop_bit_eq_div unat_word_ariths unat_div_distrib)
qed

lemma thirds: obtains q r where "n = 3 * q + r" "r = 0 \<or> r = 1 \<or> r = (2 :: nat)"
proof (rule that)
  show "n = 3 * (n div 3) + n mod 3" by simp
  show "n mod 3 = 0 \<or> n mod 3 = 1 \<or> n mod 3 = 2" by (simp add: mod_less_divisor) linarith
qed

lemma encodeLength_code:
  assumes "length inp < 2 ^ 29"
  shows "unat (Base64_encodeLength (of_nat (length inp))) = length (code inp)"
proof -
  define n where "n = length inp"
  have n: "n < 536870912" using assms by (simp add: n_def)
  have "unat (4 * of_nat n :: 32 word) = 4 * n" using n by (simp add: unat_word_ariths unat_of_nat)
  then have "unat (4 * of_nat n div 3 :: 32 word) = 4 * n div 3" by (simp add: unat_div_distrib)
  then have u: "unat (4 * of_nat n div 3 + 3 :: 32 word) = 4 * n div 3 + 3" using n by (simp add: unat_word_ariths)
  obtain q r where qr: "n = 3 * q + r" "r = 0 \<or> r = 1 \<or> r = 2" by (rule thirds)
  then have "(4 * n div 3 + 3) div 4 * 4 = 4 * ((n + 2) div 3)" by auto
  then show ?thesis
    unfolding Base64_encodeLength_def unat_and_not_3 length_code n_def [symmetric] u .
qed

text \<open>The number of padding characters at the end.\<close>

definition pads :: "bytes \<Rightarrow> nat" where
  "pads cs = (if length cs > 1 \<and> cs ! (length cs - 2) = 61 then 1 else 0) + (if length cs > 0 \<and> cs ! (length cs - 1) = 61 then 1 else 0)"

lemma encode_char_not_pad: "c < 64 \<Longrightarrow> encode_char c \<noteq> 61"
proof -
  have "decode_char 61 = Some 64" by code_simp
  then show "c < 64 \<Longrightarrow> encode_char c \<noteq> 61" using decode_encode_char [of c] by auto
qed

lemma pads_code: "pads (code inp) = (2 * length inp) mod 3"
proof (induction inp rule: code.induct [case_names three none one two])
  case (three x y z rest)
  define g where "g = map encode_char (code_group [x, y, z])"
  have g: "length g = 4" "g ! 2 \<noteq> 61" "g ! 3 \<noteq> 61" "code (x # y # z # rest) = g @ code rest"
    using code_group_less(5) [of y z] code_group_less(6) [of z] by (auto simp: g_def encode_char_not_pad simp del: One_nat_def)
  have "pads (g @ code rest) = pads (code rest)"
  proof (cases "rest = []")
    case True
    then show ?thesis using g(1-3) by (simp add: pads_def)
  next
    case False
    then have "4 \<le> length (code rest)" by (cases rest) (auto simp: length_code)
    then show ?thesis using g(1) by (cases "code rest = []") (simp_all add: pads_def nth_append)
  qed
  moreover have "2 * length (x # y # z # rest) mod 3 = 2 * length rest mod 3" by simp presburger
  ultimately show ?case unfolding g(4) using three by (simp only:)
next
  case (one x)
  have "encode_char 64 = 61" by code_simp
  then show ?case by (simp add: pads_def)
next
  case (two x y)
  have "encode_char 64 = 61" by code_simp
  then show ?case using code_group_less(4) [THEN encode_char_not_pad, of y] by (simp add: pads_def)
qed (simp add: pads_def)

lemma decodeLength_code:
  assumes "length inp < 2 ^ 29"
  shows "unat (Base64_decodeLength (code inp)) = length inp"
proof -
  define n where "n = length inp"
  define k where "k = (n + 2) div 3"
  have k: "k < 178956972" using assms by (simp add: n_def k_def)
  obtain q r where qr: "n = 3 * q + r" "r = 0 \<or> r = 1 \<or> r = 2" by (rule thirds)
  then have p: "2 * n mod 3 \<le> 3 * k" "3 * k - 2 * n mod 3 = n" unfolding k_def by (auto simp: mod_add_eq [symmetric])
  have "unat (of_nat (4 * k) :: 32 word) = 4 * k" using k by (simp only: unat_of_nat) simp
  then have "unat (of_nat (4 * k) div 4 * 3 :: 32 word) = 3 * k" using k by (simp add: unat_word_ariths unat_div_distrib)
  then have "of_nat (4 * k) div 4 * 3 = (of_nat (3 * k) :: 32 word)" using k by (intro word_unat_eq_iff [THEN iffD2]) (simp only: unat_of_nat, simp)
  moreover have "Base64_decodeLength (code inp) = of_nat (4 * k) div 4 * 3 - of_nat (pads (code inp))"
    unfolding Base64_decodeLength_def pads_def length_code [of inp] n_def [symmetric] k_def [symmetric] by simp
  ultimately have "Base64_decodeLength (code inp) = of_nat (3 * k) - of_nat (2 * n mod 3)"
    unfolding pads_code n_def [symmetric] by simp
  also have "\<dots> = of_nat n" using p by (metis of_nat_diff)
  finally show ?thesis using assms by (simp add: n_def unat_of_nat)
qed

text \<open>C27. What \<open>Base64_encode\<close> produces, \<open>Base64_decode\<close> turns back into the input, with room for exactly the
  characters that the two length functions announce, with a NUL when there is room for one more.\<close>

theorem base64_roundtrip:
  assumes "length inp < 2 ^ 29" "unat (Base64_encodeLength (of_nat (length inp))) \<le> out_len"
  shows "\<exists>chars. Base64_encode out_len inp = (length chars, if length chars < out_len then chars @ [0] else chars)
    \<and> length chars = unat (Base64_encodeLength (of_nat (length inp)))
    \<and> unat (Base64_decodeLength chars) = length inp
    \<and> Base64_decode (length inp) chars = Some (length inp, inp)
    \<and> Base64_decode (length inp + 1) chars = Some (length inp, inp @ [0])"
  using assms encode_loop_code [of "[]" inp out_len] decode_code [of "[]" inp]
  by (intro exI [of _ "code inp"])
    (simp add: Base64_encode_def Base64_decode_def encodeLength_code decodeLength_code)

lemma base64_roundtrip_witness:
  "Base64_encode 9 [112, 97, 104, 111] = (8, [99, 71, 70, 111, 98, 119, 61, 61, 0])
    \<and> Base64_decode 4 [99, 71, 70, 111, 98, 119, 61, 61] = Some (4, [112, 97, 104, 111])"
proof -
  have e: "Base64_encode 9 [112, 97, 104, 111] = (8, [99, 71, 70, 111, 98, 119, 61, 61, 0])" by code_simp
  have "unat (Base64_encodeLength (of_nat (length [112, 97, 104, 111 :: byte]))) \<le> 9" by code_simp
  moreover have "length [112, 97, 104, 111 :: byte] < 2 ^ 29" by simp
  ultimately obtain chars where chars: "(8, [99, 71, 70, 111, 98, 119, 61, 61, 0])
      = (length chars, if length chars < 9 then chars @ [0] else chars)"
    "Base64_decode (length [112, 97, 104, 111 :: byte]) chars = Some (length [112, 97, 104, 111 :: byte], [112, 97, 104, 111])"
    unfolding e [symmetric] using base64_roundtrip [of "[112, 97, 104, 111]" 9] by blast
  then have "chars @ [0] = [99, 71, 70, 111, 98, 119, 61, 61] @ [0]" by (auto split: if_splits)
  then have "chars = [99, 71, 70, 111, 98, 119, 61, 61]" by (simp only: append_same_eq)
  then show ?thesis using chars(2) e by (simp del: length_Cons) (simp add: numeral_eq_Suc)
qed

end
