(* ===== verification/Sha1.thy ===== *)
theory Sha1
  imports MqttPrelude
begin

text \<open>
  \<open>MqttC/MQTTSHA1.c\<close> (the variant that is built without \<open>OPENSSL\<close> on Linux): the hash function, and that it is
  SHA-1 as FIPS 180-4 defines it.

  The buffer is represented by the bytes that have been put into it; what a processed block leaves in the
  shared memory is overwritten before it is used again.
\<close>

record sha_ctx =
  sha_h :: "32 word list"
  sha_buffer :: bytes
  sha_total :: "32 word"

definition MQTT_SHA1_Init :: sha_ctx where
  "MQTT_SHA1_Init =
     \<lparr>sha_h = [0x67452301, 0xEFCDAB89, 0x98BADCFE, 0x10325476, 0xC3D2E1F0], sha_buffer = [], sha_total = 0\<rparr>"

definition ROTATE_LEFT32 :: "32 word \<Rightarrow> nat \<Rightarrow> 32 word" where
  "ROTATE_LEFT32 a n = push_bit n a OR drop_bit (32 - n) a"

section \<open>Words of a block\<close>

text \<open>\<open>be32toh\<close> of the words of the buffer, and \<open>htobe32\<close>.\<close>

definition be32 :: "bytes \<Rightarrow> 32 word" where
  "be32 bs = of_nat (unat (bs ! 0) * 16777216 + unat (bs ! 1) * 65536 + unat (bs ! 2) * 256 + unat (bs ! 3))"

definition be32_bytes :: "32 word \<Rightarrow> bytes" where
  "be32_bytes v = map of_nat [unat v div 16777216, unat v div 65536, unat v div 256, unat v]"

definition block_words :: "bytes \<Rightarrow> 32 word list" where
  "block_words bs = map (\<lambda>i. be32 (drop (4 * i) bs)) [0..<16]"

section \<open>One block\<close>

definition sha_schedule :: "nat \<Rightarrow> 32 word list \<Rightarrow> 32 word list" where
  "sha_schedule i w =
     (if i \<ge> 16
      then w[i mod 16 := ROTATE_LEFT32 (w ! ((i + 13) mod 16) XOR w ! ((i + 8) mod 16) XOR w ! ((i + 2) mod 16)
                                        XOR w ! (i mod 16)) 1]
      else w)"

definition sha_tmp :: "nat \<Rightarrow> 32 word list \<Rightarrow> 32 word \<Rightarrow> 32 word" where
  "sha_tmp i b v =
     ROTATE_LEFT32 (b ! 0) 5
     + (if i < 20 then (b ! 1 AND b ! 2) OR (NOT (b ! 1) AND b ! 3)
        else if i < 40 then b ! 1 XOR b ! 2 XOR b ! 3
        else if i < 60 then (b ! 1 AND b ! 2) OR (b ! 1 AND b ! 3) OR (b ! 2 AND b ! 3)
        else b ! 1 XOR b ! 2 XOR b ! 3)
     + b ! 4 + v
     + (if i < 20 then 0x5A827999 else if i < 40 then 0x6ED9EBA1 else if i < 60 then 0x8F1BBCDC else 0xCA62C1D6)"

definition sha_round :: "nat \<Rightarrow> 32 word list \<times> 32 word list \<Rightarrow> 32 word list \<times> 32 word list" where
  "sha_round i wb =
     (case wb of (w, b) \<Rightarrow>
        let w1 = sha_schedule i w; tmp = sha_tmp i b (w1 ! (i mod 16))
        in (w1, [tmp, b ! 0, ROTATE_LEFT32 (b ! 1) 30, b ! 2, b ! 3]))"

definition SHA1_ProcessBlock :: "sha_ctx \<Rightarrow> sha_ctx" where
  "SHA1_ProcessBlock ctx =
     ctx\<lparr>sha_h := map2 (+) (sha_h ctx) (snd (fold sha_round [0..<80] (block_words (sha_buffer ctx), sha_h ctx)))\<rparr>"

section \<open>Adding data and the result\<close>

text \<open>A buffer that is full is processed at once, so that there is always room for one byte.\<close>

function MQTT_SHA1_Update :: "bytes \<Rightarrow> sha_ctx \<Rightarrow> sha_ctx" where
  "MQTT_SHA1_Update data ctx =
     (if data \<noteq> [] \<and> length (sha_buffer ctx) < 64
      then
        let n = min (length data) (64 - length (sha_buffer ctx));
            ctx1 = ctx\<lparr>sha_buffer := sha_buffer ctx @ take n data, sha_total := sha_total ctx + of_nat n\<rparr>
        in MQTT_SHA1_Update (drop n data)
             (if length (sha_buffer ctx1) = 64 then (SHA1_ProcessBlock ctx1)\<lparr>sha_buffer := []\<rparr> else ctx1)
      else ctx)"
  by pat_completeness auto
termination by (relation "measure (length \<circ> fst)") auto

declare MQTT_SHA1_Update.simps [simp del]

text \<open>The length in bits is computed with 32 bits, so that its upper word is 0.\<close>

definition MQTT_SHA1_Final :: "sha_ctx \<Rightarrow> bytes" where
  "MQTT_SHA1_Final ctx =
     (let size = length (sha_buffer ctx);
          pad_amount = (if size < 56 then 56 - size else 64 + 56 - size);
          ctx1 = MQTT_SHA1_Update (take pad_amount (0x80 # replicate 63 0)) ctx;
          ctx2 = SHA1_ProcessBlock
                   (ctx1\<lparr>sha_buffer := take 56 (sha_buffer ctx1) @ be32_bytes 0 @ be32_bytes (sha_total ctx * 8)\<rparr>)
      in concat (map be32_bytes (sha_h ctx2)))"

section \<open>FIPS 180-4\<close>

fun fips_W :: "bytes \<Rightarrow> nat \<Rightarrow> 32 word" where
  "fips_W M t =
     (if t < 16 then be32 (drop (4 * t) M)
      else ROTATE_LEFT32 (fips_W M (t - 3) XOR fips_W M (t - 8) XOR fips_W M (t - 14) XOR fips_W M (t - 16)) 1)"

declare fips_W.simps [simp del]

definition fips_f :: "nat \<Rightarrow> 32 word \<Rightarrow> 32 word \<Rightarrow> 32 word \<Rightarrow> 32 word" where
  "fips_f t x y z =
     (if t \<le> 19 then (x AND y) XOR (NOT x AND z)
      else if 40 \<le> t \<and> t \<le> 59 then (x AND y) XOR (x AND z) XOR (y AND z)
      else x XOR y XOR z)"

definition fips_K :: "nat \<Rightarrow> 32 word" where
  "fips_K t = (if t \<le> 19 then 0x5A827999 else if t \<le> 39 then 0x6ED9EBA1 else if t \<le> 59 then 0x8F1BBCDC else 0xCA62C1D6)"

fun fips_rounds :: "bytes \<Rightarrow> nat \<Rightarrow> 32 word list \<Rightarrow> 32 word list" where
  "fips_rounds M 0 H = H"
| "fips_rounds M (Suc t) H =
     (case fips_rounds M t H of
        [a, b, c, d, e] \<Rightarrow> [ROTATE_LEFT32 a 5 + fips_f t b c d + e + fips_K t + fips_W M t, a, ROTATE_LEFT32 b 30, c, d]
      | _ \<Rightarrow> [])"

definition fips_block :: "32 word list \<Rightarrow> bytes \<Rightarrow> 32 word list" where
  "fips_block H M = map2 (+) (fips_rounds M 80 H) H"

definition fips_pad :: "bytes \<Rightarrow> bytes" where
  "fips_pad msg =
     msg @ [0x80] @ replicate ((119 - length msg mod 64) mod 64) 0
     @ map (\<lambda>i. of_nat (8 * length msg div 256 ^ (7 - i))) [0..<8]"

function fips_hash :: "32 word list \<Rightarrow> bytes \<Rightarrow> 32 word list" where
  "fips_hash H msg = (if length msg < 64 then H else fips_hash (fips_block H (take 64 msg)) (drop 64 msg))"
  by pat_completeness auto
termination by (relation "measure (length \<circ> snd)") auto

declare fips_hash.simps [simp del]

definition fips_sha1 :: "bytes \<Rightarrow> bytes" where
  "fips_sha1 msg =
     concat (map be32_bytes (fips_hash [0x67452301, 0xEFCDAB89, 0x98BADCFE, 0x10325476, 0xC3D2E1F0] (fips_pad msg)))"

section \<open>The words of the schedule\<close>

definition schedule_inv :: "bytes \<Rightarrow> nat \<Rightarrow> 32 word list \<Rightarrow> bool" where
  "schedule_inv M i w \<longleftrightarrow>
     length w = 16 \<and> (\<forall>k. k < max i 16 \<longrightarrow> max i 16 \<le> k + 16 \<longrightarrow> w ! (k mod 16) = fips_W M k)"

lemma schedule_start: "schedule_inv M 0 (block_words M)"
  by (simp add: schedule_inv_def block_words_def fips_W.simps)

lemma schedule_step:
  assumes "schedule_inv M i w"
  shows "schedule_inv M (Suc i) (sha_schedule i w)" "sha_schedule i w ! (i mod 16) = fips_W M i"
proof -
  have W: "k < max i 16 \<Longrightarrow> max i 16 \<le> k + 16 \<Longrightarrow> w ! (k mod 16) = fips_W M k" and l: "length w = 16" for k
    using assms by (auto simp: schedule_inv_def)
  have "sha_schedule i w ! (i mod 16) = fips_W M i \<and> schedule_inv M (Suc i) (sha_schedule i w)"
  proof (cases "16 \<le> i")
    case True
    then obtain j where j: "i = j + 16" using le_iff_add [of 16 i] by (auto simp: add.commute)
    have m: "(i + 13) mod 16 = (j + 13) mod 16" "(i + 8) mod 16 = (j + 8) mod 16" "(i + 2) mod 16 = (j + 2) mod 16"
      "i mod 16 = j mod 16"
      unfolding j using mod_add_self2 [of "j + 13" 16] mod_add_self2 [of "j + 8" 16] mod_add_self2 [of "j + 2" 16]
      by (simp_all add: ac_simps)
    have w: "w ! ((i + 13) mod 16) = fips_W M (i - 3)" "w ! ((i + 8) mod 16) = fips_W M (i - 8)"
      "w ! ((i + 2) mod 16) = fips_W M (i - 14)" "w ! (i mod 16) = fips_W M (i - 16)"
      unfolding m using W [of "j + 13"] W [of "j + 8"] W [of "j + 2"] W [of j] by (simp_all add: j ac_simps)
    have v: "sha_schedule i w = w[i mod 16 := fips_W M i]"
      using True by (simp only: sha_schedule_def if_True w) (simp add: fips_W.simps [of M i])
    have "w[i mod 16 := fips_W M i] ! (k mod 16) = fips_W M k" if k: "k < Suc i" "Suc i \<le> k + 16" for k
    proof (cases "k = i")
      case False
      then have "k < i" "i - k < 16" using k by simp_all
      then have "k mod 16 \<noteq> i mod 16"
        using mod_eq_dvd_iff_nat [of k i 16] dvd_imp_le [of 16 "i - k"] by auto
      moreover have "k < max i 16" "max i 16 \<le> k + 16" using k False True by simp_all
      ultimately show ?thesis using W by (simp add: nth_list_update_neq)
    qed (simp add: l)
    then show ?thesis using True l by (simp add: v schedule_inv_def max_def)
  next
    case False
    then show ?thesis using assms W [of i] by (simp add: sha_schedule_def schedule_inv_def max_def)
  qed
  then show "schedule_inv M (Suc i) (sha_schedule i w)" "sha_schedule i w ! (i mod 16) = fips_W M i" by simp_all
qed

section \<open>The rounds\<close>

lemma choose_xor: "(x AND y) OR (NOT x AND z) = (x AND y) XOR (NOT x AND (z :: 32 word))"
  by (rule bit_word_eqI) (auto simp: bit_simps)

lemma majority_xor: "(x AND y) OR (x AND z) OR (y AND z) = (x AND y) XOR (x AND z) XOR (y AND (z :: 32 word))"
  by (rule bit_word_eqI) (auto simp: bit_simps)

lemma sha_tmp_fips: "sha_tmp t [a, b, c, d, e] v = ROTATE_LEFT32 a 5 + fips_f t b c d + e + fips_K t + v"
  by (simp add: sha_tmp_def fips_f_def fips_K_def choose_xor majority_xor)

lemma length_5: "length H = 5 \<longleftrightarrow> (\<exists>a b c d e. H = [a, b, c, d, e])"
  by (auto simp: length_Suc_conv numeral_eq_Suc)

lemma length_fips_rounds: "length H = 5 \<Longrightarrow> length (fips_rounds M n H) = 5"
  by (induction n) (auto simp: length_5)

lemma sha_rounds:
  assumes "length H = 5"
  shows "\<exists>w. fold sha_round [0..<n] (block_words M, H) = (w, fips_rounds M n H) \<and> schedule_inv M n w"
proof (induction n)
  case 0
  show ?case by (simp add: schedule_start)
next
  case (Suc n)
  then obtain w where w: "fold sha_round [0..<n] (block_words M, H) = (w, fips_rounds M n H)" "schedule_inv M n w" by blast
  obtain a b c d e where r: "fips_rounds M n H = [a, b, c, d, e]"
    using length_fips_rounds [OF assms, of M n] unfolding length_5 by (elim exE) (rule that)
  have "fold sha_round [0..<Suc n] (block_words M, H) = sha_round n (w, fips_rounds M n H)" by (simp add: w(1))
  then show ?case
    using schedule_step [OF w(2)] by (simp only: fips_rounds.simps) (simp add: sha_round_def r sha_tmp_fips Let_def)
qed

lemma processBlock_fips:
  assumes "length (sha_h ctx) = 5"
  shows "SHA1_ProcessBlock ctx = ctx\<lparr>sha_h := fips_block (sha_h ctx) (sha_buffer ctx)\<rparr>"
proof -
  obtain w where w: "fold sha_round [0..<80] (block_words (sha_buffer ctx), sha_h ctx) = (w, fips_rounds (sha_buffer ctx) 80 (sha_h ctx))"
    using sha_rounds [OF assms] by blast
  have "map2 (+) (sha_h ctx) b = map2 (+) b (sha_h ctx)" for b
    by (rule nth_equalityI) (simp_all add: add.commute)
  then show ?thesis by (simp add: SHA1_ProcessBlock_def w fips_block_def)
qed

lemma length_fips_block: "length H = 5 \<Longrightarrow> length (fips_block H M) = 5"
  by (simp add: fips_block_def length_fips_rounds)

section \<open>Blocks of a message\<close>

lemma length_fips_hash: "length H = 5 \<Longrightarrow> length (fips_hash H m) = 5"
proof (induction H m rule: fips_hash.induct)
  case (1 H msg)
  then show ?case by (subst fips_hash.simps) (simp add: length_fips_block)
qed

lemma fips_hash_append:
  "length a mod 64 = 0 \<Longrightarrow> fips_hash H (a @ b) = fips_hash (fips_hash H a) b"
proof (induction H a rule: fips_hash.induct)
  case (1 H a)
  show ?case
  proof (cases "length a < 64")
    case True
    then have "a = []" using 1(2) by simp
    then show ?thesis by (simp add: fips_hash.simps [of H "[]"])
  next
    case False
    have m: "length (drop 64 a) mod 64 = 0" using 1(2) False by (simp add: mod_if [of "length a" 64])
    show ?thesis
      using 1(1) [OF False m] False by (simp add: fips_hash.simps [of H a] fips_hash.simps [of H "a @ b"])
  qed
qed

lemma fips_hash_rest: "length b < 64 \<Longrightarrow> length a mod 64 = 0 \<Longrightarrow> fips_hash H (a @ b) = fips_hash H a"
  by (simp add: fips_hash_append fips_hash.simps [of _ b])

lemma fips_hash_block:
  assumes "length a mod 64 = 0" "length b = 64"
  shows "fips_hash H (a @ b) = fips_block (fips_hash H a) b"
  using assms by (simp add: fips_hash_append fips_hash.simps [of _ b] fips_hash.simps [of _ "[]"])

section \<open>The context after some data\<close>

definition sha_after :: "bytes \<Rightarrow> bytes \<Rightarrow> sha_ctx \<Rightarrow> bool" where
  "sha_after a b ctx \<longleftrightarrow> length a mod 64 = 0 \<and> length b < 64 \<and> sha_buffer ctx = b
     \<and> sha_h ctx = fips_hash (sha_h MQTT_SHA1_Init) a \<and> sha_total ctx = of_nat (length a + length b)"

lemma sha_after_Init: "sha_after [] [] MQTT_SHA1_Init"
  by (simp add: sha_after_def MQTT_SHA1_Init_def fips_hash.simps)

lemma sha_after_Update:
  assumes "sha_after a b ctx"
  shows "\<exists>a' b'. sha_after a' b' (MQTT_SHA1_Update data ctx) \<and> a' @ b' = a @ b @ data"
  using assms
proof (induction data ctx arbitrary: a b rule: MQTT_SHA1_Update.induct)
  case (1 data ctx)
  have ok: "length a mod 64 = 0" "length b < 64" "sha_buffer ctx = b" "sha_h ctx = fips_hash (sha_h MQTT_SHA1_Init) a"
    "sha_total ctx = of_nat (length a + length b)" using 1(2) by (simp_all add: sha_after_def)
  show ?case
  proof (cases "data = []")
    case True
    then show ?thesis using 1(2) by (subst MQTT_SHA1_Update.simps) auto
  next
    case False
    define n where "n = min (length data) (64 - length b)"
    define ctx1 where "ctx1 = ctx\<lparr>sha_buffer := b @ take n data, sha_total := sha_total ctx + of_nat n\<rparr>"
    define ctx2 where "ctx2 = (if length (sha_buffer ctx1) = 64 then (SHA1_ProcessBlock ctx1)\<lparr>sha_buffer := []\<rparr> else ctx1)"
    have n: "length (b @ take n data) = length b + n" "length b + n \<le> 64" using ok(2) by (simp_all add: n_def)
    have u: "MQTT_SHA1_Update data ctx = MQTT_SHA1_Update (drop n data) ctx2"
      using False ok(2,3) by (subst MQTT_SHA1_Update.simps) (simp add: Let_def n_def ctx1_def ctx2_def)
    have IH: "sha_after a' b' ctx2 \<Longrightarrow> \<exists>a'' b''. sha_after a'' b'' (MQTT_SHA1_Update (drop n data) ctx2)
        \<and> a'' @ b'' = a' @ b' @ drop n data" for a' b'
      using 1(1) [OF conjI [OF False] refl refl, of a' b'] ok(2) unfolding ok(3) n_def [symmetric] ctx1_def [symmetric]
        ctx2_def [symmetric] by simp
    have h5: "length (sha_h ctx1) = 5"
      by (simp add: ctx1_def ok(4) length_fips_hash MQTT_SHA1_Init_def)
    have pb: "SHA1_ProcessBlock ctx1 = ctx1\<lparr>sha_h := fips_block (sha_h ctx) (b @ take n data)\<rparr>"
      by (simp add: processBlock_fips [OF h5]) (simp add: ctx1_def)
    have t: "sha_total ctx1 = of_nat (length a + (length b + n))" by (simp add: ctx1_def ok(5))
    show ?thesis
    proof (cases "length b + n = 64")
      case True
      have "sha_after (a @ b @ take n data) [] ctx2"
        using True n ok t fips_hash_block [of a "b @ take n data"]
        by (simp add: sha_after_def ctx2_def pb) (simp add: ctx1_def mod_add_left_eq [symmetric])
      from IH [OF this] show ?thesis using u by auto
    next
      case F: False
      have "sha_after a (b @ take n data) ctx2"
        using F n ok t by (simp add: sha_after_def ctx2_def ctx1_def)
      from IH [OF this] show ?thesis using u by auto
    qed
  qed
qed

section \<open>The result\<close>

lemma length_bytes:
  assumes "8 * n < 4294967296"
  shows "be32_bytes 0 @ be32_bytes (of_nat n * 8) = map (\<lambda>i. of_nat (8 * n div 256 ^ (7 - i))) [0..<8]"
proof -
  have "(of_nat n * 8 :: 32 word) = of_nat (8 * n)" by simp
  then have u: "unat (of_nat n * 8 :: 32 word) = 8 * n" using assms by (simp only: unat_of_nat) simp
  have z: "8 * n div 4294967296 = 0" "8 * n div 1099511627776 = 0" "8 * n div 281474976710656 = 0"
    "8 * n div 72057594037927936 = 0" using assms by simp_all
  show ?thesis by (simp add: be32_bytes_def u z upt_rec del: div_mult_self1_is_m)
qed

lemma Final_fips:
  assumes "sha_after a b ctx" "8 * length (a @ b) < 4294967296"
  shows "MQTT_SHA1_Final ctx = fips_sha1 (a @ b)"
proof -
  define k where "k = (if length b < 56 then 56 - length b else 64 + 56 - length b)"
  define P where "P = take k (0x80 # replicate 63 0 :: bytes)"
  have ok: "length a mod 64 = 0" "length b < 64" "sha_buffer ctx = b" "sha_total ctx = of_nat (length (a @ b))"
    using assms(1) by (simp_all add: sha_after_def)
  have k: "0 < k" "k \<le> 64" "k - 1 = (119 - length b) mod 64" using ok(2) by (auto simp: k_def mod_if)
  have P: "P = [0x80] @ replicate ((119 - length b) mod 64) 0"
    using k by (simp add: P_def take_Cons' min_def)
  have lP: "length P = k" using k by (simp add: P_def)
  obtain a' b' where ab: "sha_after a' b' (MQTT_SHA1_Update P ctx)" "a' @ b' = a @ b @ P"
    using sha_after_Update [OF assms(1)] by blast
  have ok': "length a' mod 64 = 0" "length b' < 64" "sha_buffer (MQTT_SHA1_Update P ctx) = b'"
    "sha_h (MQTT_SHA1_Update P ctx) = fips_hash (sha_h MQTT_SHA1_Init) a'" using ab(1) by (simp_all add: sha_after_def)
  have "length a' + length b' = length a + length b + k" using ab(2) lP by (metis length_append add.assoc)
  then have b': "length b' = 56" using ok(1,2) ok'(1,2) unfolding k_def by (auto split: if_splits) presburger+
  define L where "L = be32_bytes 0 @ be32_bytes (sha_total ctx * 8)"
  have L: "L = map (\<lambda>i. of_nat (8 * length (a @ b) div 256 ^ (7 - i))) [0..<8]" "length L = 8"
    using length_bytes [OF assms(2)] by (simp_all add: L_def ok(4) be32_bytes_def)
  have pad: "a' @ b' @ L = fips_pad (a @ b)"
    using ok(1,2) by (simp add: fips_pad_def L(1) P mod_add_eq [symmetric] append_assoc [symmetric] ab(2) del: append_assoc)
  have "length (sha_h (MQTT_SHA1_Update P ctx)) = 5" by (simp add: ok'(4) length_fips_hash MQTT_SHA1_Init_def)
  then have "MQTT_SHA1_Final ctx = concat (map be32_bytes (fips_block (fips_hash (sha_h MQTT_SHA1_Init) a') (b' @ L)))"
    by (simp add: MQTT_SHA1_Final_def Let_def ok(3) k_def [symmetric] P_def [symmetric] ok'(3,4) b' L_def [symmetric]
        processBlock_fips)
  also have "fips_block (fips_hash (sha_h MQTT_SHA1_Init) a') (b' @ L) = fips_hash (sha_h MQTT_SHA1_Init) (a' @ b' @ L)"
    using fips_hash_block [of a' "b' @ L"] ok'(1) b' L(2) by simp
  finally show ?thesis by (simp add: pad fips_sha1_def MQTT_SHA1_Init_def)
qed

lemma sha_after_chunks:
  "sha_after a b ctx \<Longrightarrow> \<exists>a' b'. sha_after a' b' (fold MQTT_SHA1_Update chunks ctx) \<and> a' @ b' = a @ b @ concat chunks"
proof (induction chunks arbitrary: a b ctx)
  case (Cons c cs)
  obtain a' b' where 1: "sha_after a' b' (MQTT_SHA1_Update c ctx)" "a' @ b' = a @ b @ c"
    using sha_after_Update [OF Cons.prems] by blast
  show ?case using Cons.IH [OF 1(1)] 1(2) by (metis append_assoc concat.simps(2) fold_simps(2))
qed auto

text \<open>C24. However the data is split into calls of \<open>MQTT_SHA1_Update\<close>, the result is the SHA-1 digest of FIPS 180-4 of
  all of it, for less than 512 MB: the schedule of 16 words that is updated in place, the functions written
  with \<open>OR\<close> and the padding through the buffer agree with the standard.\<close>

theorem sha1_fips:
  assumes "length (concat chunks) < 2 ^ 29"
  shows "MQTT_SHA1_Final (fold MQTT_SHA1_Update chunks MQTT_SHA1_Init) = fips_sha1 (concat chunks)"
proof -
  obtain a b where "sha_after a b (fold MQTT_SHA1_Update chunks MQTT_SHA1_Init)" "a @ b = concat chunks"
    using sha_after_chunks [OF sha_after_Init] by fastforce
  then show ?thesis using Final_fips [of a b] assms by simp
qed

lemma sha1_fips_witness:
  "MQTT_SHA1_Final (MQTT_SHA1_Update [98, 99] (MQTT_SHA1_Update [97] MQTT_SHA1_Init)) = fips_sha1 [97, 98, 99]"
  using sha1_fips [of "[[97], [98, 99]]"] by simp

end
