(* ===== verification/AsyncSession.thy ===== *)
theory AsyncSession
  imports AsyncCommands
begin

text \<open>
  Sessions of the asynchronous client, \<open>MqttC/MQTTAsyncUtils.c\<close>: retrying to connect, completing writes,
  ending a session, message identifiers and timeouts.

  The application is told of what happens by its callbacks, which are recorded in \<open>events\<close>; memory that is
  freed has no other effect. Where a function is called through the protocol layer for a client that no
  handle belongs to, the null pointer is followed: \<open>None\<close>.
\<close>

abbreviation (input) RAND_MAX :: int where "RAND_MAX \<equiv> 2147483647"
abbreviation (input) INT_MAX :: int where "INT_MAX \<equiv> 2147483647"

section \<open>Retrying to connect\<close>

text \<open>The first result of \<open>rand\<close> below the limit, and the calls so far; the loop may not end.\<close>

partial_function (option) jitter_loop :: "int \<Rightarrow> (nat \<Rightarrow> nat) \<Rightarrow> nat \<Rightarrow> (int \<times> nat) option" where
  "jitter_loop limit rs k = (if int (rs k) \<ge> limit then jitter_loop limit rs (Suc k) else Some (int (rs k), Suc k))"

text \<open>
  The product with and the quotient by 1.2, which the conversion to \<open>int\<close> truncates, are exact for all
  32 bit integers in double precision.
\<close>

definition MQTTAsync_randomJitter ::
    "int \<Rightarrow> int \<Rightarrow> int \<Rightarrow> 'z async_scheme \<Rightarrow> (int \<times> 'z async_scheme) option" where
  "MQTTAsync_randomJitter base minInterval maxInterval w =
     (let max_sleep = (min maxInterval base * 6) sdiv 5;
          min_sleep = (max minInterval base * 5) sdiv 6;
          range = max_sleep - min_sleep + 1
      in if max_sleep > INT_MAX then None
         else if min_sleep \<ge> max_sleep then Some (min_sleep, w)
         else if range > INT_MAX then None
         else
           let buckets = RAND_MAX sdiv range; limit = buckets * range
           in map_option (\<lambda>(r, k). (min_sleep + r sdiv buckets, w\<lparr>rands := k\<rparr>))
                (jitter_loop limit (rand_plan w) (rands w)))"

definition MQTTAsync_startConnectRetry :: "nat \<Rightarrow> 'z async_scheme \<Rightarrow> 'z async_scheme option" where
  "MQTTAsync_startConnectRetry h w =
     (let m = handle_at h w
      in if automaticReconnect m \<and> shouldBeConnected m
         then
           let m1 = m\<lparr>lastConnectionFailedTime := clock w,
                      currentIntervalBase := (if retrying m then min (currentIntervalBase m * 2) (maxRetryInterval m)
                                              else minRetryInterval m),
                      retrying := True\<rparr>
           in map_option (\<lambda>(v, w1). upd_handle h (\<lambda>_. m1\<lparr>currentInterval := v\<rparr>) w1)
                (MQTTAsync_randomJitter (currentIntervalBase m1) (minRetryInterval m1) (maxRetryInterval m1) w)
         else Some w)"

definition currentURI_of :: "command \<Rightarrow> nat" where
  "currentURI_of cmd = (case details cmd of Conn n _ \<Rightarrow> n | _ \<Rightarrow> 0)"

definition version_of :: "command \<Rightarrow> int" where
  "version_of cmd = (case details cmd of Conn _ v \<Rightarrow> v | _ \<Rightarrow> 0)"

definition set_conn :: "nat \<Rightarrow> int \<Rightarrow> command \<Rightarrow> command" where
  "set_conn n v cmd = cmd\<lparr>details := Conn n v\<rparr>"

definition MQTTAsync_checkConn :: "command \<Rightarrow> nat \<Rightarrow> 'z async_scheme \<Rightarrow> bool" where
  "MQTTAsync_checkConn command h w \<longleftrightarrow>
     currentURI_of command + 1 < length (serverURIs (handle_at h w))
     \<or> version_of command = 4 \<and> c_MQTTVersion (handle_client h w) = MQTTVERSION_DEFAULT"

text \<open>The next address to try, or the next version of the protocol for the same one.\<close>

definition next_attempt :: "nat \<Rightarrow> 'z async_scheme \<Rightarrow> command \<Rightarrow> command" where
  "next_attempt h w cmd =
     (if c_MQTTVersion (handle_client h w) = MQTTVERSION_DEFAULT
      then (if version_of cmd = MQTTVERSION_3_1 then set_conn (currentURI_of cmd + 1) MQTTVERSION_DEFAULT cmd else cmd)
      else set_conn (currentURI_of cmd + 1) (version_of cmd) cmd)"

section \<open>Completing writes\<close>

text \<open>
  The loop over \<open>state.pending_writes\<close> from a position on; the number of elements that are left bounds
  it. Removing an element leaves \<open>current\<close> at the next one.
\<close>

fun check_pending_loop :: "nat \<Rightarrow> nat \<Rightarrow> 'z protocol_scheme \<Rightarrow> 'z protocol_scheme option" where
  "check_pending_loop 0 i w = Some w"
| "check_pending_loop (Suc n) i w =
     (case items (pending_writes w) ! i of (sock, p) \<Rightarrow>
        case Socket_noPendingWrites sock w of (idle, w1) \<Rightarrow>
          if idle
          then do {
            w2 \<leftarrow> MQTTProtocol_removePublication (Ptr p) w1;
            check_pending_loop n i
              (w2\<lparr>pending_writes := l_remove_at i ((pending_writes w2)\<lparr>cur_pos := Some i\<rparr>)\<rparr>) }
          else check_pending_loop n (Suc i) w1)"

definition MQTTProtocol_checkPendingWrites :: "'z protocol_scheme \<Rightarrow> 'z protocol_scheme option" where
  "MQTTProtocol_checkPendingWrites w = check_pending_loop (length (items (pending_writes w))) 0 w"

definition MQTTAsync_writeContinue :: "int \<Rightarrow> 'z async_scheme \<Rightarrow> 'z async_scheme" where
  "MQTTAsync_writeContinue sock w =
     (case find_handle (clientSockCompare sock w) w of
        (None, w1) \<Rightarrow> w1
      | (Some h, w1) \<Rightarrow> upd_handle_client h (\<lambda>c. c\<lparr>c_net := (c_net c)\<lparr>lastSent := clock w1\<rparr>\<rparr>) w1)"

text \<open>The response whose command \<open>pending_write\<close> refers to.\<close>

definition pending_response :: "handle \<Rightarrow> queued option" where
  "pending_response m = List.find (\<lambda>q. pending_write m = Ptr (q_addr q)) (items (responses m))"

definition detach_response :: "nat \<Rightarrow> nat \<Rightarrow> 'z async_scheme \<Rightarrow> 'z async_scheme" where
  "detach_response h addr w =
     upd_handle h (\<lambda>m. m\<lparr>responses := snd (l_unlink (responses m) (\<lambda>r. q_addr r = addr))\<rparr>) w"

text \<open>
  The payload of a publication with QoS 0 is freed elsewhere, so that a response that is kept loses it.
\<close>

definition drop_payload :: "nat \<Rightarrow> nat \<Rightarrow> 'z async_scheme \<Rightarrow> 'z async_scheme" where
  "drop_payload h addr w =
     upd_handle h (\<lambda>m. m\<lparr>responses := (responses m)\<lparr>items := map (\<lambda>q.
       if q_addr q = addr
       then q\<lparr>q_command := (q_command q)\<lparr>details := (case details (q_command q) of
              Pub t n _ qos r \<Rightarrow> Pub t n NULL qos r | d \<Rightarrow> d)\<rparr>\<rparr> else q) (items (responses m))\<rparr>\<rparr>) w"

definition complete_pending :: "nat \<Rightarrow> queued \<Rightarrow> int \<Rightarrow> 'z async_scheme \<Rightarrow> 'z async_scheme" where
  "complete_pending h q rc w =
     (let cmd = q_command q; pub = (cmd_type cmd = PUBLISH); qos0 = (pub_qos (details cmd) = 0)
      in if \<not> pub then detach_response h (q_addr q) w
         else if rc = 1 \<and> qos0
         then detach_response h (q_addr q) (call_success h cmd (token cmd) (Pub_data (details cmd)) w)
         else if rc = -1 then detach_response h (q_addr q) (call_failure h cmd (token cmd) rc w)
         else if qos0 then drop_payload h (q_addr q) w else w)"

definition MQTTAsync_writeComplete :: "int \<Rightarrow> int \<Rightarrow> 'z async_scheme \<Rightarrow> 'z async_scheme option" where
  "MQTTAsync_writeComplete sock rc w =
     map_option (\<lambda>w1.
       case find_handle (clientSockCompare sock w1) w1 of
         (None, w2) \<Rightarrow> w2
       | (Some h, w2) \<Rightarrow>
           let w3 = upd_handle_client h (\<lambda>c. c\<lparr>c_net := (c_net c)\<lparr>lastSent := clock w2\<rparr>\<rparr>) w2
           in if pending_write (handle_at h w3) = NULL then w3
              else
                let w4 = (case pending_response (handle_at h w3) of
                            None \<Rightarrow> w3 | Some q \<Rightarrow> complete_pending h q rc w3)
                in upd_handle h (\<lambda>m. m\<lparr>pending_write := NULL\<rparr>) w4)
       (MQTTProtocol_checkPendingWrites w)"

section \<open>Ending a session\<close>

definition MQTTAsync_emptyMessageQueue :: "nat \<Rightarrow> 'z protocol_scheme \<Rightarrow> 'z protocol_scheme" where
  "MQTTAsync_emptyMessageQueue k w =
     (if items (messageQueue (client_at k w)) = [] then w else upd_client k (\<lambda>c. c\<lparr>messageQueue := l_empty\<rparr>) w)"

definition fail_all :: "nat \<Rightarrow> queued list \<Rightarrow> 'z async_scheme \<Rightarrow> 'z async_scheme" where
  "fail_all h qs w =
     fold (\<lambda>q. call_failure h (q_command q) (token (q_command q)) MQTTASYNC_OPERATION_INCOMPLETE) qs w"

definition MQTTAsync_freeResponses :: "nat \<Rightarrow> 'z async_scheme \<Rightarrow> 'z async_scheme" where
  "MQTTAsync_freeResponses h w =
     upd_handle h (\<lambda>m. m\<lparr>responses := l_empty\<rparr>) (fail_all h (items (responses (handle_at h w))) w)"

definition MQTTAsync_freeCommands :: "nat \<Rightarrow> 'z async_scheme \<Rightarrow> 'z async_scheme" where
  "MQTTAsync_freeCommands h w =
     fold (\<lambda>q w. call_failure h (q_command q) (token (q_command q)) MQTTASYNC_OPERATION_INCOMPLETE (detach_command q w))
       (filter (\<lambda>q. q_client q = h) (items (commands w))) w"

definition null_publish :: "queued \<Rightarrow> queued" where
  "null_publish q =
     (if cmd_type (q_command q) = PUBLISH
      then q\<lparr>q_command := (q_command q)\<lparr>details := (case details (q_command q) of
             Pub _ n _ qos r \<Rightarrow> Pub NULL n NULL qos r | d \<Rightarrow> d)\<rparr>\<rparr>
      else q)"

definition MQTTAsync_NULLPublishResponses :: "nat \<Rightarrow> 'z async_scheme \<Rightarrow> 'z async_scheme" where
  "MQTTAsync_NULLPublishResponses h w =
     upd_handle h (\<lambda>m. m\<lparr>responses := (responses m)\<lparr>items := map null_publish (items (responses m))\<rparr>\<rparr>) w"

definition MQTTAsync_NULLPublishCommands :: "nat \<Rightarrow> 'z async_scheme \<Rightarrow> 'z async_scheme" where
  "MQTTAsync_NULLPublishCommands h w =
     w\<lparr>commands := (commands w)\<lparr>items :=
        map (\<lambda>q. if q_client q = h then null_publish q else q) (items (commands w))\<rparr>\<rparr>"

definition MQTTAsync_cleanSession ::
    "'z async_scheme persist_api \<Rightarrow> nat \<Rightarrow> 'z async_scheme \<Rightarrow> (int \<times> 'z async_scheme) option" where
  "MQTTAsync_cleanSession per k w = do {
     let (rc, w1) = MQTTAsync_unpersistInflightMessages per k w;
     (inbound, w2) \<leftarrow> MQTTProtocol_emptyMessageList (inboundMsgs (client_at k w1)) w1;
     let w3 = upd_client k (\<lambda>c. c\<lparr>inboundMsgs := inbound\<rparr>) w2;
     (outbound, w4) \<leftarrow> MQTTProtocol_emptyMessageList (outboundMsgs (client_at k w3)) w3;
     let w5 = upd_client k (\<lambda>c. c\<lparr>outboundMsgs := outbound, msgID := 0\<rparr>) w4;
     Some (rc, case find_handle (clientStructCompare k) w5 of
                 (None, w6) \<Rightarrow> w6
               | (Some h, w6) \<Rightarrow> MQTTAsync_freeResponses h (MQTTAsync_NULLPublishResponses h w6)) }"

definition MQTTAsync_closeOnly ::
    "'z async_scheme persist_api \<Rightarrow> nat \<Rightarrow> int \<Rightarrow> mprops cptr \<Rightarrow> 'z async_scheme \<Rightarrow> 'z async_scheme option" where
  "MQTTAsync_closeOnly per k reason props w = do {
     let w1 = upd_client k (\<lambda>c. c\<lparr>good := False, ping_outstanding := False, ping_due := False\<rparr>) w;
     w2 \<leftarrow>
       (if socket (c_net (client_at k w1)) > 0
        then do {
          w3 \<leftarrow> MQTTProtocol_checkPendingWrites w1;
          let sock = socket (c_net (client_at k w3));
          let (idle, w4) = (if connected (client_at k w3) then Socket_noPendingWrites sock w3 else (False, w3));
          w5 \<leftarrow> (if idle then map_option snd (MQTTPacket_send_disconnect per k reason props w4) else Some w4);
          let (net, w6) = WebSocket_close (c_net (client_at k w5)) WebSocket_CLOSE_NORMAL NULL w5;
          w7 \<leftarrow> Socket_close (socket net) w6;
          Some (upd_client k (\<lambda>c. c\<lparr>c_net := net\<lparr>socket := 0\<rparr>\<rparr>) w7) }
        else Some w1);
     Some (upd_client k (\<lambda>c. c\<lparr>connected := False, connect_state := NOT_IN_PROGRESS\<rparr>) w2) }"

definition MQTTAsync_closeSession ::
    "'z async_scheme persist_api \<Rightarrow> nat \<Rightarrow> int \<Rightarrow> mprops cptr \<Rightarrow> 'z async_scheme \<Rightarrow> 'z async_scheme option" where
  "MQTTAsync_closeSession per k reason props w = do {
     w1 \<leftarrow> MQTTAsync_closeOnly per k reason props w;
     let c = client_at k w1;
     if cleansession c \<or> c_MQTTVersion c \<ge> MQTTVERSION_5 \<and> sessionExpiry c = 0
     then map_option snd (MQTTAsync_cleanSession per k w1) else Some w1 }"

text \<open>A disconnection that waits for the exchanges to end, up to its timeout.\<close>

definition dis_details :: "command \<Rightarrow> bool \<times> int \<times> int" where
  "dis_details cmd = (case details cmd of Dis internal timeout reason \<Rightarrow> (internal, timeout, reason) | _ \<Rightarrow> (False, 0, 0))"

definition call_lost :: "nat \<Rightarrow> bool \<Rightarrow> 'z async_scheme \<Rightarrow> 'z async_scheme" where
  "call_lost h was_connected w =
     (if cb_connectionLost (handle_at h w) \<and> was_connected then log_event (Connection_lost h) w else w)"

definition MQTTAsync_checkDisconnect ::
    "'z async_scheme persist_api \<Rightarrow> nat \<Rightarrow> command \<Rightarrow> 'z async_scheme \<Rightarrow> 'z async_scheme option" where
  "MQTTAsync_checkDisconnect per h command w =
     (case dis_details command of (internal, timeout, reason) \<Rightarrow>
        if items (outboundMsgs (handle_client h w)) = [] \<or> MQTTTime_elapsed (start_time command) w \<ge> uint64 timeout
        then do {
          let was_connected = connected (handle_client h w);
          w1 \<leftarrow> MQTTAsync_closeSession per (h_c (handle_at h w)) reason (Ptr (cmd_properties command)) w;
          if internal then MQTTAsync_startConnectRetry h (call_lost h was_connected w1)
          else Some (call_success h command 0 No_data w1) }
        else Some w)"

text \<open>The callbacks of a failed connection are called once.\<close>

definition call_connect_failure :: "nat \<Rightarrow> int \<Rightarrow> 'z async_scheme \<Rightarrow> 'z async_scheme" where
  "call_connect_failure h rc w =
     (let cmd = connect (handle_at h w); w1 = call_failure h cmd 0 rc w
      in upd_handle h (\<lambda>m. m\<lparr>connect :=
           (if onFailure cmd then cmd\<lparr>onFailure := False, onSuccess := False\<rparr>
            else if onFailure5 cmd then cmd\<lparr>onFailure5 := False, onSuccess5 := False\<rparr> else cmd)\<rparr>) w1)"

definition new_command :: "nat \<Rightarrow> command \<Rightarrow> 'z async_scheme \<Rightarrow> queued \<times> 'z async_scheme" where
  "new_command h cmd w =
     (no_queued\<lparr>q_addr := next_command w, q_command := cmd, q_client := h\<rparr>, w\<lparr>next_command := next_command w + 1\<rparr>)"

definition nextOrClose :: "'z async_scheme persist_api \<Rightarrow> nat \<Rightarrow> int \<Rightarrow> 'z async_scheme \<Rightarrow> 'z async_scheme option" where
  "nextOrClose per h rc w = do {
     let k = h_c (handle_at h w);
     let was_connected = connected (handle_client h w);
     (more_to_try, called, w1) \<leftarrow>
       (if MQTTAsync_checkConn (connect (handle_at h w)) h w
        then do {
          w2 \<leftarrow> MQTTAsync_closeOnly per k 0 NULL w;
          let called = (cb_connectionLost (handle_at h w2) \<and> was_connected);
          let w3 = call_lost h was_connected w2;
          let (conn, w4) = new_command h (next_attempt h w3 (connect (handle_at h w3))) w3;
          (rc1, w5) \<leftarrow> MQTTAsync_addCommand per conn w4;
          Some (rc1 = MQTTASYNC_SUCCESS, called, w5) }
        else Some (False, False, w));
     if more_to_try then Some w1
     else do {
       w2 \<leftarrow> MQTTAsync_closeSession per k 0 NULL w1;
       MQTTAsync_startConnectRetry h
         (call_connect_failure h rc (if called then w2 else call_lost h was_connected w2)) } }"

section \<open>The calls of the protocol layer\<close>

definition MQTTProtocol_closeSession :: "'z async_scheme persist_api \<Rightarrow> nat \<Rightarrow> 'z async_scheme \<Rightarrow> 'z async_scheme option" where
  "MQTTProtocol_closeSession per k w =
     (case context_of k w of None \<Rightarrow> None | Some h \<Rightarrow> nextOrClose per h MQTTASYNC_DISCONNECTED w)"

definition async_application :: "'z async_scheme persist_api \<Rightarrow> 'z async_scheme application" where
  "async_application per =
     \<lparr>process_publication = Protocol_processPublication per, close_session = MQTTProtocol_closeSession per\<rparr>"

section \<open>Disconnecting\<close>

record disconnect_options =
  do_struct_version :: int
  do_timeout :: int
  do_onSuccess :: bool
  do_onFailure :: bool
  do_context :: nat
  do_properties :: mprops
  do_reasonCode :: int
  do_onSuccess5 :: bool
  do_onFailure5 :: bool

definition MQTTAsync_disconnectOptions_initializer :: disconnect_options where
  "MQTTAsync_disconnectOptions_initializer =
     \<lparr>do_struct_version = 0, do_timeout = 0, do_onSuccess = False, do_onFailure = False, do_context = 0,
      do_properties = MQTTProperties_initializer, do_reasonCode = 0, do_onSuccess5 = False, do_onFailure5 = False\<rparr>"

definition disconnect_command :: "disconnect_options cptr \<Rightarrow> bool \<Rightarrow> bool \<Rightarrow> command" where
  "disconnect_command options internal v5 =
     (case options of
        NULL \<Rightarrow> no_command\<lparr>cmd_type := DISCONNECT, details := Dis internal 0 0\<rparr>
      | Ptr opts \<Rightarrow>
          let v = (v5 \<and> do_struct_version opts \<ge> 1)
          in no_command\<lparr>cmd_type := DISCONNECT, onSuccess := do_onSuccess opts, onFailure := do_onFailure opts,
               onSuccess5 := do_onSuccess5 opts, onFailure5 := do_onFailure5 opts, cmd_context := do_context opts,
               cmd_properties := (if v then MQTTProperties_copy (do_properties opts) else MQTTProperties_initializer),
               details := Dis internal (do_timeout opts) (if v then do_reasonCode opts else 0)\<rparr>)"

definition MQTTAsync_disconnect1 ::
    "'z async_scheme persist_api \<Rightarrow> nat cptr \<Rightarrow> disconnect_options cptr \<Rightarrow> bool \<Rightarrow> 'z async_scheme
     \<Rightarrow> (int \<times> 'z async_scheme) option" where
  "MQTTAsync_disconnect1 per m options internal w =
     (case m of
        NULL \<Rightarrow> Some (MQTTASYNC_FAILURE, w)
      | Ptr h \<Rightarrow>
          let w1 = (if internal then w else upd_handle h (\<lambda>m. m\<lparr>shouldBeConnected := False\<rparr>) w)
          in if \<not> connected (handle_client h w1) then Some (MQTTASYNC_DISCONNECTED, w1)
             else
               case new_command h (disconnect_command options internal (c_MQTTVersion (handle_client h w1) \<ge> MQTTVERSION_5)) w1 of
                 (dis, w2) \<Rightarrow> MQTTAsync_addCommand per dis w2)"

definition MQTTAsync_disconnect_internal ::
    "'z async_scheme persist_api \<Rightarrow> nat \<Rightarrow> int \<Rightarrow> 'z async_scheme \<Rightarrow> (int \<times> 'z async_scheme) option" where
  "MQTTAsync_disconnect_internal per h timeout w =
     MQTTAsync_disconnect1 per (Ptr h) (Ptr (MQTTAsync_disconnectOptions_initializer\<lparr>do_timeout := timeout\<rparr>)) True w"

section \<open>Message identifiers\<close>

definition cmdMessageIDCompare :: "int \<Rightarrow> queued \<Rightarrow> bool" where
  "cmdMessageIDCompare i q \<longleftrightarrow> token (q_command q) = i"

text \<open>The three searches of a round, which stop at the first that finds the identifier.\<close>

definition id_in_use :: "int \<Rightarrow> nat \<Rightarrow> 'z async_scheme \<Rightarrow> bool \<times> 'z async_scheme" where
  "id_in_use i h w =
     (case l_find (commands w) (cmdMessageIDCompare i) of (f1, l1) \<Rightarrow>
        let w1 = w\<lparr>commands := l1\<rparr>
        in if f1 \<noteq> None then (True, w1)
           else case l_find (outboundMsgs (handle_client h w1)) (messageIDCompare i) of (f2, l2) \<Rightarrow>
             let w2 = upd_handle_client h (\<lambda>c. c\<lparr>outboundMsgs := l2\<rparr>) w1
             in if f2 \<noteq> None then (True, w2)
                else case l_find (responses (handle_at h w2)) (cmdMessageIDCompare i) of (f3, l3) \<Rightarrow>
                  (f3 \<noteq> None, upd_handle h (\<lambda>m. m\<lparr>responses := l3\<rparr>) w2))"

fun assign_loop :: "nat \<Rightarrow> int \<Rightarrow> int \<Rightarrow> nat \<Rightarrow> 'z async_scheme \<Rightarrow> (int \<times> 'z async_scheme) option" where
  "assign_loop 0 start_msgid msgid h w = None"
| "assign_loop (Suc fuel) start_msgid msgid h w =
     (case id_in_use msgid h w of (used, w1) \<Rightarrow>
        if \<not> used then Some (msgid, w1)
        else let msgid1 = next_msgid msgid
             in if msgid1 = start_msgid then Some (0, w1) else assign_loop fuel start_msgid msgid1 h w1)"

definition MQTTAsync_assignMsgId :: "nat \<Rightarrow> nat \<Rightarrow> 'z async_scheme \<Rightarrow> (int \<times> 'z async_scheme) option" where
  "MQTTAsync_assignMsgId fuel h w =
     (let start = msgID (handle_client h w)
      in map_option (\<lambda>(i, w1). (i, if i \<noteq> 0 then upd_handle_client h (\<lambda>c. c\<lparr>msgID := i\<rparr>) w1 else w1))
           (assign_loop fuel start (next_msgid start) h w))"

section \<open>Time\<close>

definition setRetryLoopInterval :: "int \<Rightarrow> 'z async_scheme \<Rightarrow> 'z async_scheme" where
  "setRetryLoopInterval keepalive w =
     (let n = (keepalive * 1000) sdiv 10 in w\<lparr>retryLoopIntervalms := (if n < 100 then 100 else if n > 5000 then 5000 else n)\<rparr>)"

definition MQTTAsync_retry :: "'z async_scheme persist_api \<Rightarrow> 'z async_scheme \<Rightarrow> 'z async_scheme option" where
  "MQTTAsync_retry per w =
     (let now = clock w; app = async_application per
      in if MQTTTime_difftime now (last_retry w) \<ge> retryLoopIntervalms w
         then do {
           w1 \<leftarrow> MQTTProtocol_keepalive per app now (w\<lparr>last_retry := clock w\<rparr>);
           MQTTProtocol_retry per app now True False w1 }
         else MQTTProtocol_retry per app now False False w)"

text \<open>The automatic attempt to connect again, with the user name and the password the application changes.\<close>

definition update_credentials :: "nat \<Rightarrow> 'z async_scheme \<Rightarrow> 'z async_scheme" where
  "update_credentials h w =
     (case updateConnectOptions (handle_at h w) of
        None \<Rightarrow> w
      | Some callback \<Rightarrow>
          (case callback (username (handle_client h w)) (password (handle_client h w)) of (changed, user, pwd) \<Rightarrow>
             if changed then upd_handle_client h (\<lambda>c. c\<lparr>username := user, password := pwd\<rparr>) w else w))"

definition reconnect_now :: "'z async_scheme persist_api \<Rightarrow> nat \<Rightarrow> 'z async_scheme \<Rightarrow> 'z async_scheme option" where
  "reconnect_now per h w = do {
     let cmd0 = connect (handle_at h w);
     let cmd = (if c_MQTTVersion (handle_client h w) = MQTTVERSION_DEFAULT then set_conn (currentURI_of cmd0) 0 cmd0 else cmd0);
     let (conn, w1) = new_command h cmd w;
     (rc, w2) \<leftarrow> MQTTAsync_addCommand per conn (update_credentials h w1);
     Some (upd_handle h (\<lambda>m. m\<lparr>reconnectNow := False\<rparr>) w2) }"

definition check_timeout :: "'z async_scheme persist_api \<Rightarrow> nat \<Rightarrow> 'z async_scheme \<Rightarrow> 'z async_scheme option" where
  "check_timeout per h w = do {
     w1 \<leftarrow> (if connect_state (handle_client h w) = DISCONNECTING
            then MQTTAsync_checkDisconnect per h (disconnect (handle_at h w)) w else Some w);
     let m = handle_at h w1;
     if connect_state (handle_client h w1) \<noteq> NOT_IN_PROGRESS
        \<and> MQTTTime_elapsed (start_time (connect m)) w1 > uint64 (connectTimeout m * 1000)
     then nextOrClose per h MQTTASYNC_FAILURE w1
     else if automaticReconnect m \<and> retrying m
             \<and> (reconnectNow m \<or> MQTTTime_elapsed (lastConnectionFailedTime m) w1 > uint64 (currentInterval m * 1000))
     then reconnect_now per h w1
     else Some w1 }"

definition MQTTAsync_checkTimeouts :: "'z async_scheme persist_api \<Rightarrow> 'z async_scheme \<Rightarrow> 'z async_scheme option" where
  "MQTTAsync_checkTimeouts per w =
     (if MQTTTime_difftime (clock w) (last_timeouts w) < 3000 then Some w
      else for_clients (check_timeout per) [0..<length (items (handles w))] (w\<lparr>last_timeouts := clock w\<rparr>))"

definition MQTTAsync_getNoBufferedMessages :: "nat \<Rightarrow> 'z async_scheme \<Rightarrow> int" where
  "MQTTAsync_getNoBufferedMessages h w = noBufferedMessages (handle_at h w)"

end
