(* ===== verification/ProtocolOut.thy ===== *)
theory ProtocolOut
  imports Packet
begin

text \<open>
  \<open>MqttC/MQTTProtocolOut.c\<close>: subscribing and unsubscribing, and the packets that answer requests of the
  client. The client of a socket is searched for as in the other handlers; following the result of an
  unsuccessful search is undefined. What these handlers free has no other effect.
\<close>

section \<open>Requests and their answers\<close>

definition MQTTProtocol_handlePingresps ::
    "int \<Rightarrow> 'z protocol_scheme \<Rightarrow> (int \<times> 'z protocol_scheme) option" where
  "MQTTProtocol_handlePingresps sock w =
     map_option (\<lambda>(k, w1). (TCPSOCKET_COMPLETE, upd_client k (\<lambda>c. c\<lparr>ping_outstanding := False\<rparr>) w1)) (find_client sock w)"

definition MQTTProtocol_subscribe ::
    "'z protocol_scheme persist_api \<Rightarrow> nat \<Rightarrow> bytes list \<Rightarrow> int list \<Rightarrow> int \<Rightarrow> subscribe_options list cptr
     \<Rightarrow> mprops cptr \<Rightarrow> 'z protocol_scheme \<Rightarrow> (int \<times> 'z protocol_scheme) option" where
  "MQTTProtocol_subscribe per k topics qoss msgId opts props w =
     MQTTPacket_send_subscribe per topics qoss opts props msgId False k w"

definition MQTTProtocol_handleSubacks ::
    "int \<Rightarrow> 'z protocol_scheme \<Rightarrow> (int \<times> 'z protocol_scheme) option" where
  "MQTTProtocol_handleSubacks sock w = map_option (\<lambda>(k, w1). (TCPSOCKET_COMPLETE, w1)) (find_client sock w)"

definition MQTTProtocol_unsubscribe ::
    "'z protocol_scheme persist_api \<Rightarrow> nat \<Rightarrow> bytes list \<Rightarrow> int \<Rightarrow> mprops cptr \<Rightarrow> 'z protocol_scheme
     \<Rightarrow> (int \<times> 'z protocol_scheme) option" where
  "MQTTProtocol_unsubscribe per k topics msgId props w =
     MQTTPacket_send_unsubscribe per topics props msgId False k w"

definition MQTTProtocol_handleUnsubacks ::
    "int \<Rightarrow> 'z protocol_scheme \<Rightarrow> (int \<times> 'z protocol_scheme) option" where
  "MQTTProtocol_handleUnsubacks sock w = map_option (\<lambda>(k, w1). (TCPSOCKET_COMPLETE, w1)) (find_client sock w)"

definition MQTTProtocol_handleDisconnects ::
    "int \<Rightarrow> 'z protocol_scheme \<Rightarrow> (int \<times> 'z protocol_scheme) option" where
  "MQTTProtocol_handleDisconnects sock w = map_option (\<lambda>(k, w1). (TCPSOCKET_COMPLETE, w1)) (find_client sock w)"

end
