(* ===== verification/Connect.thy ===== *)
theory Connect
  imports ProtocolOut Base64 Sha1
begin

text \<open>
  Setting up a connection: the addresses and \<open>MQTTProtocol_connect\<close> of \<open>MqttC/MQTTProtocolOut.c\<close>,
  \<open>Socket_new\<close> of \<open>MqttC/Socket.c\<close>, \<open>MqttC/Proxy.c\<close>, and \<open>WebSocket_connect\<close> and \<open>WebSocket_upgrade\<close> of
  \<open>MqttC/WebSocket.c\<close>, in the variants for Linux without \<open>OPENSSL\<close>.

  Strings are without their NUL. What the operating system does is the record \<open>net_api\<close>, an argument of the
  functions that call it; error numbers are the values of \<open>errno\<close>. \<open>None\<close> is undefined behaviour or a loop
  that does not end.
\<close>

section \<open>The operating system\<close>

datatype address = IPv4 bytes | IPv6 bytes | Other_family

record 'w net_api =
  getaddrinfo :: "bytes \<Rightarrow> 'w \<Rightarrow> int \<times> address list \<times> 'w"
  os_socket :: "address \<Rightarrow> 'w \<Rightarrow> (int + int) \<times> 'w"
  os_nonblocking :: "int \<Rightarrow> 'w \<Rightarrow> int \<times> 'w"
  os_socket_error :: "int \<Rightarrow> 'w \<Rightarrow> int \<times> 'w"
  os_connect :: "int \<Rightarrow> address \<Rightarrow> 16 word \<Rightarrow> 'w \<Rightarrow> int \<times> 'w"
  getenv_http_proxy :: "bytes cptr"
  uuid_generate :: "'w \<Rightarrow> bytes \<times> 'w"
  os_time :: "'w \<Rightarrow> int"
  os_usleep :: "int \<Rightarrow> 'w \<Rightarrow> 'w"

abbreviation (input) EINPROGRESS :: int where "EINPROGRESS \<equiv> 115"
abbreviation (input) MQTT_DEFAULT_PORT :: int where "MQTT_DEFAULT_PORT \<equiv> 1883"
abbreviation (input) WS_DEFAULT_PORT :: int where "WS_DEFAULT_PORT \<equiv> 80"
abbreviation (input) PROXY_DEFAULT_PORT :: int where "PROXY_DEFAULT_PORT \<equiv> 8080"

section \<open>Addresses\<close>

text \<open>\<open>strchr\<close> and \<open>strrchr\<close>: the position of a character.\<close>

definition strchr :: "byte \<Rightarrow> bytes \<Rightarrow> nat option" where
  "strchr c s = (if c \<in> set s then Some (length (takeWhile (\<lambda>x. x \<noteq> c) s)) else None)"

definition strrchr :: "byte \<Rightarrow> bytes \<Rightarrow> nat option" where
  "strrchr c s = map_option (\<lambda>i. length s - 1 - i) (strchr c (rev s))"

text \<open>\<open>atoi\<close>; a value outside \<open>int\<close> is undefined.\<close>

definition atoi :: "bytes \<Rightarrow> int option" where
  "atoi s =
     (let s1 = dropWhile (\<lambda>c. c \<in> {32, 9, 10, 11, 12, 13}) s;
          neg = (s1 \<noteq> [] \<and> hd s1 = 45);
          s2 = (if s1 \<noteq> [] \<and> (hd s1 = 45 \<or> hd s1 = 43) then tl s1 else s1);
          v = (if neg then - int (digits_value s2) else int (digits_value s2))
      in if - 2147483648 \<le> v \<and> v \<le> 2147483647 then Some v else None)"

text \<open>The length of the host, the port and the position of the topic.\<close>

definition MQTTProtocol_addressPort :: "bytes \<Rightarrow> int \<Rightarrow> (nat \<times> int \<times> nat option) option" where
  "MQTTProtocol_addressPort uri default_port =
     (let colon0 = strrchr 58 uri;
          bracketed = (uri \<noteq> [] \<and> hd uri = 91 \<and>
                       (case (colon0, strrchr 93 uri) of
                          (_, None) \<Rightarrow> False | (None, Some _) \<Rightarrow> True | (Some c, Some b) \<Rightarrow> c < b));
          colon_pos = (if bracketed then None else colon0);
          topic_pos = (case colon_pos of
                         None \<Rightarrow> strchr 47 uri | Some c \<Rightarrow> map_option ((+) c) (strchr 47 (drop c uri)));
          len = (case colon_pos of
                   Some c \<Rightarrow> c | None \<Rightarrow> (case topic_pos of Some t \<Rightarrow> t | None \<Rightarrow> length uri))
      in do {
           port \<leftarrow> (case colon_pos of Some c \<Rightarrow> atoi (drop (c + 1) uri) | None \<Rightarrow> Some default_port);
           if len = 0 then None
           else Some (if uri ! (len - 1) = 93 then len - 1 else len, port, topic_pos) })"

section \<open>Proxy settings\<close>

definition hex_value :: "byte \<Rightarrow> nat option" where
  "hex_value c =
     (if 48 \<le> c \<and> c \<le> 57 then Some (unat c - 48)
      else if 65 \<le> c \<and> c \<le> 70 then Some (unat c - 55)
      else if 97 \<le> c \<and> c \<le> 102 then Some (unat c - 87) else None)"

text \<open>
  The decoded characters up to the \<open>@\<close>, and how many characters they are shorter. A \<open>%\<close> that no two digits
  follow is not skipped, so that the loop does not end.
\<close>

partial_function (option) special_loop :: "bytes \<Rightarrow> bytes \<Rightarrow> nat \<Rightarrow> (bytes \<times> nat) option" where
  "special_loop p1 p0 n =
     (case p1 of
        [] \<Rightarrow> None
      | c # rest \<Rightarrow>
          if c = 64 then Some (p0, n)
          else if c \<noteq> 37 then special_loop rest (p0 @ [c]) n
          else (case rest of
                  a # b # rest2 \<Rightarrow>
                    (case (hex_value a, hex_value b) of
                       (Some x, Some y) \<Rightarrow> special_loop rest2 (p0 @ [of_nat (16 * x + y)]) (n + 2)
                     | _ \<Rightarrow> special_loop p1 p0 n)
                | _ \<Rightarrow> special_loop p1 p0 n))"

definition MQTTProtocol_specialChars :: "bytes \<Rightarrow> (bytes \<times> nat) option" where
  "MQTTProtocol_specialChars p1 = special_loop p1 [] 0"

text \<open>\<open>strstr\<close>, as a test.\<close>

fun contains :: "bytes \<Rightarrow> bytes \<Rightarrow> bool" where
  "contains p [] \<longleftrightarrow> p = []"
| "contains p (c # s) \<longleftrightarrow> take (length p) (c # s) = p \<or> contains p s"

text \<open>
  The setting and its authorisation. The prefix may stand anywhere, and as many characters are skipped
  at the start.
\<close>

definition MQTTProtocol_setHTTPProxy :: "bytes \<Rightarrow> bytes \<Rightarrow> (bytes \<times> bytes cptr) option" where
  "MQTTProtocol_setHTTPProxy source0 pref =
     (let source = (if contains pref source0 then drop (length pref) source0 else source0)
      in case strchr 64 source of
           None \<Rightarrow> Some (source, NULL)
         | Some i \<Rightarrow>
             if i = 0 then Some (drop 1 source, NULL)
             else do {
               (basic_auth, shorter) \<leftarrow> MQTTProtocol_specialChars source;
               let in_len = i - shorter;
               let out_len = unat (Base64_encodeLength (of_nat in_len)) + 1;
               Some (drop (i + 1) source, Ptr (cstr (snd (Base64_encode out_len (take in_len (basic_auth @ [0])))))) })"

section \<open>Opening a socket\<close>

text \<open>The first address of version 4, or the last one.\<close>

fun choose_address :: "address list \<Rightarrow> address option" where
  "choose_address [] = None"
| "choose_address [a] = Some a"
| "choose_address (a # as) = (case a of IPv4 _ \<Rightarrow> Some a | _ \<Rightarrow> choose_address as)"

text \<open>A new socket is added to the sockets to poll and made non-blocking.\<close>

definition add_new_socket ::
    "'z sockets_scheme net_api \<Rightarrow> int \<Rightarrow> 'z sockets_scheme \<Rightarrow> int \<times> 'z sockets_scheme" where
  "add_new_socket net sock w = os_nonblocking net sock (Socket_addSocket sock w)"

text \<open>Connecting: the code, and the socket, which is -1 when it could not be used.\<close>

definition connect_socket ::
    "'z sockets_scheme net_api \<Rightarrow> address \<Rightarrow> int \<Rightarrow> int \<Rightarrow> 'z sockets_scheme
     \<Rightarrow> (int \<times> int \<times> 'z sockets_scheme) option" where
  "connect_socket net a port sock w =
     (let (err, w1) = add_new_socket net sock w;
          (rc, w2) = (if err \<noteq> 0 then (err, w1) else os_connect net sock a (of_int port) w1);
          pending = (rc = EINPROGRESS \<or> rc = EWOULDBLOCK);
          w3 = (if err = 0 \<and> pending then w2\<lparr>connect_pending := l_append (connect_pending w2) sock\<rparr> else w2)
      in if rc \<noteq> 0 \<and> \<not> pending then map_option (\<lambda>w4. (rc, SOCKET_ERROR, w4)) (Socket_close sock w3)
         else Some (rc, sock, w3))"

text \<open>The name that is looked up: an opening bracket is not part of it.\<close>

definition host_name :: "bytes \<Rightarrow> nat \<Rightarrow> bytes option" where
  "host_name addr addr_len =
     (let bracket = (addr \<noteq> [] \<and> hd addr = 91)
      in if bracket \<and> addr_len = 0 \<or> addr_len > length addr + 1 then None
         else Some (cstr (if bracket then take (addr_len - 1) (tl addr) else take addr_len addr)))"

definition Socket_new ::
    "'z sockets_scheme net_api \<Rightarrow> bytes \<Rightarrow> nat \<Rightarrow> int \<Rightarrow> 'z sockets_scheme \<Rightarrow> (int \<times> int \<times> 'z sockets_scheme) option" where
  "Socket_new net addr addr_len port w = do {
     addr_mem \<leftarrow> host_name addr addr_len;
     let (rc, addresses, w1) = getaddrinfo net addr_mem w;
     (case (if rc = 0 then choose_address addresses else None) of
        None \<Rightarrow> Some (SOCKET_ERROR, SOCKET_ERROR, w1)
      | Some Other_family \<Rightarrow> Some (SOCKET_ERROR, SOCKET_ERROR, w1)
      | Some a \<Rightarrow>
          (case os_socket net a w1 of
             (Inl err, w2) \<Rightarrow> Some (err, SOCKET_ERROR, w2)
           | (Inr sock, w2) \<Rightarrow> connect_socket net a port sock w2)) }"

section \<open>Sending and comparing text\<close>

definition crlf :: bytes where "crlf = [13, 10]"

text \<open>
  The buffer is freed after the call. If the write is not complete, the list of pending writes still
  refers to it, and frees it again: that is undefined.
\<close>

definition put_text :: "int \<Rightarrow> bytes \<Rightarrow> 'z sockets_scheme \<Rightarrow> 'z sockets_scheme option" where
  "put_text sock text w =
     (case Socket_putdatas sock text [] [] w of (rc, w1) \<Rightarrow> if rc = TCPSOCKET_INTERRUPTED then None else Some w1)"

text \<open>\<open>strncmp (a, b, n) == 0\<close>; reading past the bytes that are there is undefined.\<close>

fun strncmp_eq :: "nat \<Rightarrow> bytes \<Rightarrow> bytes \<Rightarrow> bool option" where
  "strncmp_eq 0 as bs = Some True"
| "strncmp_eq (Suc n) (a # as) (b # bs) =
     (if a \<noteq> b then Some False else if a = 0 then Some True else strncmp_eq n as bs)"
| "strncmp_eq (Suc n) as bs = None"

section \<open>Connecting to a proxy\<close>

definition proxy_request :: "nethandles \<Rightarrow> bytes \<Rightarrow> nat \<Rightarrow> int \<Rightarrow> bytes" where
  "proxy_request net hostname hostname_len port =
     (let host = take hostname_len hostname
      in ascii ''CONNECT '' @ host @ [58] @ decimal port @ ascii '' HTTP/1.1'' @ crlf
         @ ascii ''Host: '' @ host @ crlf
         @ (case http_proxy_auth net of
              NULL \<Rightarrow> [] | Ptr auth \<Rightarrow> ascii ''Proxy-authorization: Basic '' @ auth @ crlf)
         @ crlf)"

text \<open>Whether the answer that has been read starts with the code 200.\<close>

definition proxy_accepts :: "bytes cptr \<Rightarrow> bool option" where
  "proxy_accepts buf =
     (case buf of
        NULL \<Rightarrow> None
      | Ptr b \<Rightarrow> do {
          v0 \<leftarrow> strncmp_eq 12 b (ascii ''HTTP/1.0 200'');
          if v0 then Some True else strncmp_eq 12 b (ascii ''HTTP/1.1 200'') })"

text \<open>Waiting for the answer, at most ten seconds, and discarding what follows it.\<close>

partial_function (option) proxy_wait ::
    "'z websock_scheme net_api \<Rightarrow> int \<Rightarrow> int \<Rightarrow> 'z websock_scheme \<Rightarrow> (int \<times> 'z websock_scheme) option" where
  "proxy_wait net sock timeout w =
     (let rc = getdata_rc sock 12 0 w; (buf, actual_len, w1) = Socket_getdata sock 12 w
      in if actual_len \<noteq> 0
         then map_option (\<lambda>ok. (if ok then rc else SOCKET_ERROR, w1)) (proxy_accepts buf)
         else if os_time net w1 > timeout then Some (SOCKET_ERROR, w1)
         else proxy_wait net sock timeout (os_usleep net 250000 w1))"

partial_function (option) proxy_flush :: "int \<Rightarrow> 'z sockets_scheme \<Rightarrow> 'z sockets_scheme option" where
  "proxy_flush sock w =
     (case Socket_getdata sock 1 w of (buf, actual_len, w1) \<Rightarrow>
        if actual_len = 0 then Some w1 else proxy_flush sock w1)"

definition Proxy_connect ::
    "'z websock_scheme net_api \<Rightarrow> nethandles \<Rightarrow> bytes \<Rightarrow> 'z websock_scheme \<Rightarrow> (int \<times> 'z websock_scheme) option" where
  "Proxy_connect api net hostname w = do {
     (hostname_len, port, _) \<leftarrow> MQTTProtocol_addressPort hostname PROXY_DEFAULT_PORT;
     w1 \<leftarrow> put_text (socket net) (proxy_request net hostname hostname_len port) w;
     (rc, w2) \<leftarrow> proxy_wait api (socket net) (os_time api w1 + 10) w1;
     w3 \<leftarrow> proxy_flush (socket net) w2;
     Some (rc, w3) }"

section \<open>Opening a websocket connection\<close>

definition header_lines :: "(bytes \<times> bytes) list cptr \<Rightarrow> bytes" where
  "header_lines headers =
     (case headers of
        NULL \<Rightarrow> []
      | Ptr hs \<Rightarrow> concat (map (\<lambda>(name, value). cstr name @ ascii '': '' @ cstr value @ crlf) hs))"

definition upgrade_request :: "nethandles \<Rightarrow> bytes \<Rightarrow> nat \<Rightarrow> int \<Rightarrow> bytes \<Rightarrow> bytes \<Rightarrow> bytes" where
  "upgrade_request net uri hostname_len port topic key =
     (let host = take hostname_len uri @ [58] @ decimal port
      in ascii ''GET '' @ topic @ ascii '' HTTP/1.1'' @ crlf
         @ ascii ''Host: '' @ host @ crlf
         @ ascii ''Upgrade: websocket'' @ crlf
         @ ascii ''Connection: Upgrade'' @ crlf
         @ ascii ''Origin: http://'' @ host @ crlf
         @ ascii ''Sec-WebSocket-Key: '' @ key @ crlf
         @ ascii ''Sec-WebSocket-Version: 13'' @ crlf
         @ ascii ''Sec-WebSocket-Protocol: mqtt'' @ crlf
         @ header_lines (httpHeaders net) @ crlf)"

definition WebSocket_connect ::
    "'z websock_scheme net_api \<Rightarrow> nethandles \<Rightarrow> bytes \<Rightarrow> 'z websock_scheme
     \<Rightarrow> (int \<times> nethandles \<times> 'z websock_scheme) option" where
  "WebSocket_connect api net uri w = do {
     let (uuid, w1) = uuid_generate api w;
     let key = cstr (snd (Base64_encode 25 uuid));
     (hostname_len, port, topic_pos) \<leftarrow> MQTTProtocol_addressPort uri WS_DEFAULT_PORT;
     let topic = (case topic_pos of None \<Rightarrow> ascii ''/mqtt'' | Some t \<Rightarrow> drop t uri);
     w2 \<leftarrow> put_text (socket net) (upgrade_request net uri hostname_len port topic key) w1;
     Some (1, net\<lparr>websocket_key := Ptr key\<rparr>, w2) }"

text \<open>What the server has to answer for a key.\<close>

definition ws_guid :: bytes where "ws_guid = ascii ''258EAFA5-E914-47DA-95CA-C5AB0DC85B11''"

definition accept_key :: "bytes \<Rightarrow> bytes" where
  "accept_key key =
     cstr (snd (Base64_encode 62 (MQTT_SHA1_Final (MQTT_SHA1_Update (take 61 (key @ ws_guid)) MQTT_SHA1_Init))))"

text \<open>
  \<open>memchr\<close> for the end of the line: its length argument reaches past the bytes that are there, so that it is
  undefined when there is no end.
\<close>

definition line_of :: "bytes \<Rightarrow> bytes option" where
  "line_of p = (if 10 \<in> set p then Some (takeWhile (\<lambda>c. c \<noteq> 10) p) else None)"

text \<open>The header \<open>Connection\<close> has to contain \<open>Upgrade\<close>.\<close>

definition upgrade_header :: "bytes \<Rightarrow> bool option" where
  "upgrade_header buf =
     (case WebSocket_strcasefind buf (ascii ''Connection'') of
        None \<Rightarrow> Some False
      | Some i \<Rightarrow> map_option (\<lambda>line. WebSocket_strcasefind line (ascii ''Upgrade'') \<noteq> None) (line_of (drop i buf)))"

text \<open>
  The value behind the colon and the blanks is compared over the length of the rest of the line without
  its carriage return; the length is counted in \<open>size_t\<close>.
\<close>

definition accept_header :: "bytes \<Rightarrow> bytes \<Rightarrow> bool option" where
  "accept_header buf ws_key =
     (case WebSocket_strcasefind buf (ascii ''sec-websocket-accept'') of
        None \<Rightarrow> Some False
      | Some i \<Rightarrow> do {
          line \<leftarrow> line_of (drop i buf);
          (case strchr 58 line of
             None \<Rightarrow> Some False
           | Some c \<Rightarrow>
               let rest = drop (i + c) buf;
                   skipped = length (takeWhile (\<lambda>x. x = 58 \<or> x = 32) rest);
                   hash_len = (int (length line) - int c - 1 - int skipped) mod 2 ^ 64
               in strncmp_eq (nat hash_len) (drop skipped rest) (ws_key @ [0])) })"

text \<open>The answer behind its first line: whether the connection is upgraded.\<close>

definition upgrade_answer :: "bytes \<Rightarrow> bytes \<Rightarrow> bool option" where
  "upgrade_answer buf ws_key = do {
     ok \<leftarrow> upgrade_header buf;
     if ok then accept_header buf ws_key else Some False }"

text \<open>The end of \<open>WebSocket_upgrade\<close>: the key is dropped and the rest of the answer forgotten.\<close>

definition upgrade_done ::
    "nethandles \<Rightarrow> bool \<Rightarrow> 'z websock_scheme \<Rightarrow> int \<times> nethandles \<times> 'z websock_scheme" where
  "upgrade_done net ok w =
     (let net1 = net\<lparr>websocket := websocket net \<or> ok, websocket_key := NULL\<rparr>;
          (_, rc, w1) = WebSocket_getRawSocketData net1 0 (if ok then 1 else SOCKET_ERROR) w
      in (rc, net1, w1))"

definition WebSocket_upgrade ::
    "nethandles \<Rightarrow> 'z websock_scheme \<Rightarrow> (int \<times> nethandles \<times> 'z websock_scheme) option" where
  "WebSocket_upgrade net w =
     (case websocket_key net of
        NULL \<Rightarrow> Some (SOCKET_ERROR, net, w)
      | Ptr key \<Rightarrow>
          (case WebSocket_getRawSocketData net 12 SOCKET_ERROR w of (read_buf, rc, w1) \<Rightarrow>
             if rc = SOCKET_ERROR then Some (rc, net, w1)
             else case read_buf of
               NULL \<Rightarrow> Some (TCPSOCKET_INTERRUPTED, net, w1)
             | Ptr b \<Rightarrow>
                 if length b < 12 then Some (TCPSOCKET_INTERRUPTED, net, w1)
                 else if take 8 b = ascii ''HTTP/1.1'' \<and> take 3 (drop 9 b) \<noteq> ascii ''101'' then Some (SOCKET_ERROR, net, w1)
                 else if b \<noteq> ascii ''HTTP/1.1 101'' then Some (rc, net, w1)
                 else
                   let wanted = 1024 - (length (frame_buffer w1) - frame_buffer_index w1);
                       received = fst (snd (Socket_getdata (socket net) wanted w1))
                   in case WebSocket_getRawSocketData net 1024 rc w1 of (read_buf, rc, w2) \<Rightarrow>
                     if rc = SOCKET_ERROR then Some (rc, net, w2)
                     else case read_buf of
                       NULL \<Rightarrow> if received = 0 then Some (upgrade_done net False w2) else None
                     | Ptr b \<Rightarrow>
                         if length b > 4 \<and> drop (length b - 4) b \<noteq> crlf @ crlf then Some (SOCKET_ERROR, net, w2)
                         else map_option (\<lambda>ok. upgrade_done net ok w2) (upgrade_answer b (accept_key key))))"

section \<open>Connecting\<close>

definition connect_proxy :: "'z protocol_scheme net_api \<Rightarrow> nat \<Rightarrow> 'z protocol_scheme \<Rightarrow> 'z protocol_scheme option" where
  "connect_proxy api k w =
     (case (case httpProxy (client_at k w) of NULL \<Rightarrow> getenv_http_proxy api | p \<Rightarrow> p) of
        NULL \<Rightarrow> Some w
      | Ptr p \<Rightarrow> do {
          (proxy, auth) \<leftarrow> MQTTProtocol_setHTTPProxy p (ascii ''http://'');
          Some (upd_client k (\<lambda>c. c\<lparr>c_net := (c_net c)\<lparr>http_proxy := Ptr proxy, http_proxy_auth := auth\<rparr>\<rparr>) w) })"

text \<open>The socket to the proxy or to the server.\<close>

definition connect_tcp ::
    "'z protocol_scheme net_api \<Rightarrow> bytes \<Rightarrow> nat \<Rightarrow> bool \<Rightarrow> int \<Rightarrow> 'z protocol_scheme \<Rightarrow> (int \<times> 'z protocol_scheme) option" where
  "connect_tcp api ip_address k ws timeout w = do {
     let (addr, port0) = (case http_proxy (c_net (client_at k w)) of
           Ptr p \<Rightarrow> (p, PROXY_DEFAULT_PORT)
         | NULL \<Rightarrow> (ip_address, if ws then WS_DEFAULT_PORT else MQTT_DEFAULT_PORT));
     (addr_len, port, _) \<leftarrow> MQTTProtocol_addressPort addr port0;
     if timeout < 0 then Some (-1, w)
     else map_option (\<lambda>(rc, sock, w1). (rc, upd_client k (\<lambda>c. c\<lparr>c_net := (c_net c)\<lparr>socket := sock\<rparr>\<rparr>) w1))
            (Socket_new api addr addr_len port w) }"

abbreviation set_state :: "nat \<Rightarrow> int \<Rightarrow> 'z protocol_scheme \<Rightarrow> 'z protocol_scheme" where
  "set_state k s \<equiv> upd_client k (\<lambda>c. c\<lparr>connect_state := s\<rparr>)"

text \<open>The steps that follow at once when the connection to the proxy or the server is there.\<close>

definition connect_proxied ::
    "'z protocol_scheme net_api \<Rightarrow> bytes \<Rightarrow> nat \<Rightarrow> 'z protocol_scheme \<Rightarrow> (int \<times> 'z protocol_scheme) option" where
  "connect_proxied api ip_address k w =
     (if http_proxy (c_net (client_at k w)) = NULL then Some (0, w)
      else
        let w1 = set_state k PROXY_CONNECT_IN_PROGRESS w
        in Proxy_connect api (c_net (client_at k w1)) ip_address w1)"

definition connect_websocket ::
    "'z protocol_scheme net_api \<Rightarrow> bytes \<Rightarrow> nat \<Rightarrow> 'z protocol_scheme \<Rightarrow> (int \<times> 'z protocol_scheme) option" where
  "connect_websocket api ip_address k w = do {
     (rc, net, w1) \<leftarrow> WebSocket_connect api (c_net (client_at k w)) ip_address w;
     let w2 = upd_client k (\<lambda>c. c\<lparr>c_net := net\<rparr>) w1;
     Some (rc, if rc = TCPSOCKET_INTERRUPTED then set_state k WEBSOCKET_IN_PROGRESS w2 else w2) }"

definition send_mqtt_connect ::
    "'z protocol_scheme persist_api \<Rightarrow> nat \<Rightarrow> int \<Rightarrow> mprops cptr \<Rightarrow> mprops cptr \<Rightarrow> 'z protocol_scheme
     \<Rightarrow> (int \<times> 'z protocol_scheme) option" where
  "send_mqtt_connect per k MQTTVersion connectProps willProps w =
     map_option (\<lambda>(rc, w1). (rc, set_state k (if rc = 0 then WAIT_FOR_CONNACK else NOT_IN_PROGRESS) w1))
       (MQTTPacket_send_connect per k MQTTVersion connectProps willProps w)"

definition MQTTProtocol_connect ::
    "'z protocol_scheme persist_api \<Rightarrow> 'z protocol_scheme net_api \<Rightarrow> bytes \<Rightarrow> nat \<Rightarrow> bool \<Rightarrow> int
     \<Rightarrow> mprops cptr \<Rightarrow> mprops cptr \<Rightarrow> int \<Rightarrow> 'z protocol_scheme \<Rightarrow> (int \<times> 'z protocol_scheme) option" where
  "MQTTProtocol_connect per api ip_address k ws MQTTVersion connectProps willProps timeout w = do {
     w1 \<leftarrow> connect_proxy api k (upd_client k (\<lambda>c. c\<lparr>good := True\<rparr>) w);
     (rc, w2) \<leftarrow> connect_tcp api ip_address k ws timeout w1;
     if rc = EINPROGRESS \<or> rc = EWOULDBLOCK then Some (rc, set_state k TCP_IN_PROGRESS w2)
     else if rc \<noteq> 0 then Some (rc, w2)
     else do {
       (rc1, w3) \<leftarrow> connect_proxied api ip_address k w2;
       (rc2, w4) \<leftarrow> (if ws then connect_websocket api ip_address k w3 else Some (rc1, w3));
       if rc2 = 0 then send_mqtt_connect per k MQTTVersion connectProps willProps w4 else Some (rc2, w4) } }"

end
