(* ===== verification/AsyncProcess.thy ===== *)
theory AsyncProcess
  imports AsyncSession Connect
begin

text \<open>
  \<open>MQTTAsync_processCommand\<close> of \<open>MqttC/MQTTAsyncUtils.c\<close>: choosing the next command, restoring it, carrying it
  out and what becomes of it. The send thread runs it.
\<close>

section \<open>Choosing a command\<close>

abbreviation (input) MAX_MSG_ID :: int where "MAX_MSG_ID \<equiv> 65535"

definition is_request :: "nat \<Rightarrow> bool" where
  "is_request type \<longleftrightarrow> type = PUBLISH \<or> type = SUBSCRIBE \<or> type = UNSUBSCRIBE"

text \<open>Whether the client of a command may send; the search for its socket moves the cursor of a list.\<close>

definition may_proceed :: "queued \<Rightarrow> 'z async_scheme \<Rightarrow> bool \<times> 'z async_scheme" where
  "may_proceed q w =
     (let c = handle_client (q_client q) w; type = cmd_type (q_command q)
      in if type = CONNECT \<or> type = DISCONNECT then (True, w)
         else if connected c \<and> connect_state c = NOT_IN_PROGRESS then Socket_noPendingWrites (socket (c_net c)) w
         else (False, w))"

text \<open>No message identifiers are left, or the window of messages in flight is full.\<close>

definition flow_blocked :: "queued \<Rightarrow> 'z async_scheme \<Rightarrow> bool" where
  "flow_blocked q w =
     (let c = handle_client (q_client q) w; type = cmd_type (q_command q);
          n = int (length (items (outboundMsgs c)))
      in is_request type \<and> n \<ge> MAX_MSG_ID - 1
         \<or> (type = PUBLISH \<and> pub_qos (details (q_command q)) > 0 \<or> type = SUBSCRIBE \<or> type = UNSUBSCRIBE)
            \<and> n \<ge> maxInflightMessages c)"

fun select_command :: "nat list \<Rightarrow> queued list \<Rightarrow> 'z async_scheme \<Rightarrow> queued option \<times> 'z async_scheme" where
  "select_command ignored_clients [] w = (None, w)"
| "select_command ignored_clients (cmd # cmds) w =
     (if q_client cmd \<in> set ignored_clients then select_command ignored_clients cmds w
      else case may_proceed cmd w of (ok, w1) \<Rightarrow>
        if ok \<and> \<not> flow_blocked cmd w1 then (Some cmd, w1)
        else select_command (ignored_clients @ [q_client cmd]) cmds w1)"

section \<open>Taking it out of the queue\<close>

text \<open>
  A command that is in the store is read back; when its record cannot be used, the null pointer is
  followed. The record is removed, also for a command that has none.
\<close>

definition reload_command ::
    "'z async_scheme persist_api \<Rightarrow> queued \<Rightarrow> 'z async_scheme \<Rightarrow> (queued \<times> 'z async_scheme) option" where
  "reload_command per q w =
     (let c = handle_client (q_client q) w
      in if \<not> not_restored q then Some (q, w)
         else case q_key q of
           NULL \<Rightarrow> None
         | Ptr key \<Rightarrow>
             let (rc1, buf1, w1) = pget per (phandle c) key w;
                 (rc2, buf2, w2) = (if rc1 = 0 \<and> afterRead c then after_read per buf1 w1 else (0, buf1, w1))
             in if rc1 \<noteq> 0 \<or> rc2 \<noteq> 0 then Some (q, w2)
                else case MQTTAsync_restoreCommand buf2
                       (if has_stem PERSISTENCE_V5_COMMAND_KEY key then MQTTVERSION_5 else MQTTVERSION_3_1_1)
                       (Ptr (q\<lparr>q_key := NULL\<rparr>)) of
                  Some (Ptr q1) \<Rightarrow> Some (q1, w2)
                | _ \<Rightarrow> None)"

definition take_command ::
    "'z async_scheme persist_api \<Rightarrow> queued \<Rightarrow> 'z async_scheme \<Rightarrow> (queued \<times> 'z async_scheme) option" where
  "take_command per q w =
     (let h = q_client q;
          w1 = (if cmd_type (q_command q) = PUBLISH
                then upd_handle h (\<lambda>m. m\<lparr>noBufferedMessages := noBufferedMessages m - 1\<rparr>) w else w);
          w2 = detach_command q w1
      in if persistence (handle_client h w2)
         then map_option (\<lambda>(q1, w3). (q1, snd (MQTTAsync_unpersistCommand per q1 w3))) (reload_command per q w2)
         else Some (q, w2))"

section \<open>Carrying it out\<close>

definition URI_TCP :: bytes where "URI_TCP = ascii ''tcp://''"
definition URI_MQTT :: bytes where "URI_MQTT = ascii ''mqtt://''"
definition URI_WS :: bytes where "URI_WS = ascii ''ws://''"

text \<open>The address without its scheme, and whether it is one of a websocket.\<close>

definition strip_scheme :: "bytes \<Rightarrow> bytes \<times> bool" where
  "strip_scheme uri =
     (if has_stem URI_TCP uri then (drop (length URI_TCP) uri, False)
      else if has_stem URI_MQTT uri then (drop (length URI_MQTT) uri, False)
      else if has_stem URI_WS uri then (drop (length URI_WS) uri, True)
      else (uri, False))"

definition next_version :: "int \<Rightarrow> int \<Rightarrow> int" where
  "next_version client_version v =
     (if client_version = MQTTVERSION_DEFAULT
      then (if v = MQTTVERSION_DEFAULT then MQTTVERSION_3_1_1
            else if v = MQTTVERSION_3_1_1 then MQTTVERSION_3_1 else v)
      else client_version)"

definition process_connect ::
    "'z async_scheme persist_api \<Rightarrow> 'z async_scheme net_api \<Rightarrow> queued \<Rightarrow> 'z async_scheme
     \<Rightarrow> (int \<times> queued \<times> 'z async_scheme) option" where
  "process_connect per api q w =
     (let h = q_client q; k = h_c (handle_at h w); n = currentURI_of (q_command q)
      in if connect_state (handle_client h w) \<noteq> NOT_IN_PROGRESS \<or> connected (handle_client h w) then Some (0, q, w)
         else
           let (uri, ws) = (if n < length (serverURIs (handle_at h w)) then strip_scheme (serverURIs (handle_at h w) ! n)
                            else (serverURI (handle_at h w), False));
               w1 = (if ws then upd_handle h (\<lambda>m. m\<lparr>h_websocket := True\<rparr>) w else w);
               version = next_version (c_MQTTVersion (handle_client h w1)) (version_of (q_command q));
               q1 = q\<lparr>q_command := set_conn n version (q_command q)\<rparr>;
               m = handle_at h w1
           in map_option (\<lambda>(rc, w2).
                (if connect_state (client_at k w2) = NOT_IN_PROGRESS then SOCKET_ERROR else rc, q1, w2))
                (MQTTProtocol_connect per api uri k (h_websocket m) version (connectProps m) (willProps m) 100 w1))"

definition process_subscribe ::
    "'z async_scheme persist_api \<Rightarrow> queued \<Rightarrow> 'z async_scheme \<Rightarrow> (int \<times> 'z async_scheme) option" where
  "process_subscribe per q w =
     (case details (q_command q) of
        Sub topics qoss opts optlist \<Rightarrow>
          let k = h_c (handle_at (q_client q) w); v5 = (c_MQTTVersion (client_at k w) \<ge> MQTTVERSION_5);
              subopts = (if v5 then if length topics > 1 then optlist else Ptr [opts] else NULL);
              props = (if v5 then Ptr (cmd_properties (q_command q)) else NULL)
          in MQTTProtocol_subscribe per k topics qoss (token (q_command q)) subopts props w
      | _ \<Rightarrow> None)"

definition process_unsubscribe ::
    "'z async_scheme persist_api \<Rightarrow> queued \<Rightarrow> 'z async_scheme \<Rightarrow> (int \<times> 'z async_scheme) option" where
  "process_unsubscribe per q w =
     (case details (q_command q) of
        Unsub topics \<Rightarrow>
          let k = h_c (handle_at (q_client q) w);
              props = (if c_MQTTVersion (client_at k w) \<ge> MQTTVERSION_5 then Ptr (cmd_properties (q_command q)) else NULL)
          in MQTTProtocol_unsubscribe per k topics (token (q_command q)) props w
      | _ \<Rightarrow> None)"

text \<open>The packet of a publication; the length of its topic is not set.\<close>

definition publish_of :: "int \<Rightarrow> command \<Rightarrow> publish_packet" where
  "publish_of MQTTVersion cmd =
     \<lparr>pu_header = 0, pu_topic = destinationName (details cmd), pu_topiclen = 0, pu_msgId = token cmd,
      pu_payload = pub_payload (details cmd), pu_payloadlen = pub_payloadlen (details cmd), pu_MQTTVersion = MQTTVersion,
      pu_properties = (if MQTTVersion \<ge> MQTTVERSION_5 then cmd_properties cmd else MQTTProperties_initializer),
      pu_mask = [0, 0, 0, 0]\<rparr>"

definition drop_publish :: "command \<Rightarrow> command" where
  "drop_publish cmd =
     cmd\<lparr>details := (case details cmd of Pub _ n _ qos r \<Rightarrow> Pub NULL n NULL qos r | d \<Rightarrow> d)\<rparr>"

definition process_publish ::
    "'z async_scheme persist_api \<Rightarrow> queued \<Rightarrow> 'z async_scheme \<Rightarrow> (int \<times> queued \<times> 'z async_scheme) option" where
  "process_publish per q w =
     (case details (q_command q) of
        Pub _ _ _ qos retained \<Rightarrow> do {
          let h = q_client q;
          let cmd = q_command q;
          let k = h_c (handle_at h w);
          (rc, p, msg, w1) \<leftarrow>
            MQTTProtocol_startPublish per k (publish_of (c_MQTTVersion (client_at k w)) cmd) qos retained NULL w;
          Some (if qos \<noteq> 0 then (rc, q, w1)
                else if rc = TCPSOCKET_COMPLETE then (rc, q, call_success h cmd (token cmd) (Pub_data (details cmd)) w1)
                else (rc, if rc \<noteq> SOCKET_ERROR then q\<lparr>q_command := drop_publish cmd\<rparr> else q,
                      upd_handle h (\<lambda>m. m\<lparr>pending_write := Ptr (q_addr q)\<rparr>) w1)) }
      | _ \<Rightarrow> None)"

definition process_disconnect ::
    "'z async_scheme persist_api \<Rightarrow> queued \<Rightarrow> 'z async_scheme \<Rightarrow> 'z async_scheme option" where
  "process_disconnect per q w =
     (let h = q_client q; c = handle_client h w
      in if connect_state c = NOT_IN_PROGRESS \<and> \<not> connected c then Some w
         else
           let w1 = (if connect_state c \<noteq> NOT_IN_PROGRESS then call_connect_failure h MQTTASYNC_OPERATION_INCOMPLETE w else w);
               w2 = upd_handle_client h (\<lambda>c. c\<lparr>connect_state := DISCONNECTING\<rparr>) w1
           in MQTTAsync_checkDisconnect per h (q_command q) w2)"

definition execute_command ::
    "'z async_scheme persist_api \<Rightarrow> 'z async_scheme net_api \<Rightarrow> queued \<Rightarrow> 'z async_scheme
     \<Rightarrow> (int \<times> queued \<times> 'z async_scheme) option" where
  "execute_command per api q w =
     (let type = cmd_type (q_command q); same = map_option (\<lambda>(rc, w1). (rc, q, w1))
      in if type = CONNECT then process_connect per api q w
         else if type = SUBSCRIBE then same (process_subscribe per q w)
         else if type = UNSUBSCRIBE then same (process_unsubscribe per q w)
         else if type = PUBLISH then process_publish per q w
         else if type = DISCONNECT then map_option (\<lambda>w1. (0, q, w1)) (process_disconnect per q w)
         else Some (0, q, w))"

section \<open>What becomes of it\<close>

definition add_response :: "nat \<Rightarrow> queued \<Rightarrow> 'z async_scheme \<Rightarrow> 'z async_scheme" where
  "add_response h q w = upd_handle h (\<lambda>m. m\<lparr>responses := l_append (responses m) q\<rparr>) w"

text \<open>
  A command that could not be sent: the connection is closed, and a connection attempt goes on with the
  next address or version.
\<close>

definition command_failed ::
    "'z async_scheme persist_api \<Rightarrow> int \<Rightarrow> queued \<Rightarrow> 'z async_scheme \<Rightarrow> 'z async_scheme option" where
  "command_failed per rc q w = do {
     let h = q_client q;
     let connecting = (cmd_type (q_command q) = CONNECT);
     w1 \<leftarrow> (if connecting
           then map_option (\<lambda>(_, w1). upd_handle h (\<lambda>m. m\<lparr>shouldBeConnected := True\<rparr>) w1)
                  (MQTTAsync_disconnect1 per (Ptr h) (Ptr MQTTAsync_disconnectOptions_initializer) False w)
           else map_option snd (MQTTAsync_disconnect_internal per h 0 w));
     if connecting \<and> MQTTAsync_checkConn (q_command q) h w1
     then map_option snd (MQTTAsync_addCommand per (q\<lparr>q_command := next_attempt h w1 (q_command q)\<rparr>) w1)
     else do {
       let w2 = call_failure h (q_command q) 0 rc w1;
       if connecting then MQTTAsync_startConnectRetry h (upd_handle h (\<lambda>m. m\<lparr>connect := q_command q\<rparr>) w2)
       else Some w2 } }"

definition finish_command ::
    "'z async_scheme persist_api \<Rightarrow> int \<Rightarrow> queued \<Rightarrow> 'z async_scheme \<Rightarrow> 'z async_scheme option" where
  "finish_command per rc q w =
     (let h = q_client q; cmd = q_command q; type = cmd_type cmd;
          ok = (rc \<noteq> SOCKET_ERROR \<and> rc \<noteq> MQTTASYNC_PERSISTENCE_ERROR)
      in if type = CONNECT \<and> ok then Some (upd_handle h (\<lambda>m. m\<lparr>connect := cmd\<rparr>) w)
         else if type = DISCONNECT then Some (upd_handle h (\<lambda>m. m\<lparr>disconnect := cmd\<rparr>) w)
         else if type = PUBLISH \<and> pub_qos (details cmd) = 0 \<and> ok
         then Some (if rc = TCPSOCKET_INTERRUPTED then add_response h q w else w)
         else if \<not> ok then command_failed per rc q w
         else Some (add_response h q w))"

text \<open>The result is whether there was a command.\<close>

definition MQTTAsync_processCommand ::
    "'z async_scheme persist_api \<Rightarrow> 'z async_scheme net_api \<Rightarrow> 'z async_scheme \<Rightarrow> (bool \<times> 'z async_scheme) option" where
  "MQTTAsync_processCommand per api w =
     (case select_command [] (items (commands w)) w of
        (None, w1) \<Rightarrow> Some (False, w1)
      | (Some q, w1) \<Rightarrow> do {
          (q1, w2) \<leftarrow> take_command per q w1;
          (rc, q2, w3) \<leftarrow> execute_command per api q1 w2;
          w4 \<leftarrow> finish_command per rc q2 w3;
          Some (True, w4) })"

end
