(* ===== verification/AsyncIncoming.thy ===== *)
theory AsyncIncoming
  imports AsyncDelivery ProtocolOut
begin

text \<open>
  The part of \<open>MQTTAsync_cycle\<close> of \<open>MqttC/MQTTAsyncUtils.c\<close> that handles a packet, with the calls of the
  application for acknowledgements, and the properties of whole runs of incoming packets.
\<close>

section \<open>Handling a packet\<close>

text \<open>The callbacks of a publication whose exchange has ended, with the reason code of version 5.\<close>

definition publish_callback :: "nat \<Rightarrow> command \<Rightarrow> int \<Rightarrow> 'z async_scheme \<Rightarrow> 'z async_scheme" where
  "publish_callback h cmd ackrc w =
     (if onSuccess cmd \<or> onSuccess5 cmd \<and> ackrc < 128
      then log_event (Success h (cmd_context cmd) (token cmd) (Pub_data (details cmd))) w
      else if onFailure5 cmd \<and> 128 \<le> ackrc then log_event (Failure h (cmd_context cmd) (token cmd) ackrc) w
      else w)"

text \<open>
  The first response with a token is taken out of the list; \<open>ListDetach\<close> searches by address. What is
  freed with the command has no other effect.
\<close>

definition take_response :: "nat \<Rightarrow> int \<Rightarrow> 'z async_scheme \<Rightarrow> queued option \<times> 'z async_scheme" where
  "take_response h tok w =
     (case List.find (\<lambda>q. token (q_command q) = tok) (items (responses (handle_at h w))) of
        None \<Rightarrow> (None, w)
      | Some q \<Rightarrow> (Some q, upd_handle h (\<lambda>m. m\<lparr>responses := snd (l_unlink (responses m) (\<lambda>r. q_addr r = q_addr q))\<rparr>) w))"

definition response_done :: "nat \<Rightarrow> int \<Rightarrow> int \<Rightarrow> 'z async_scheme \<Rightarrow> 'z async_scheme" where
  "response_done h msgid ackrc w =
     (let w1 = (if cb_deliveryComplete (handle_at h w) then log_event (Delivery_complete h msgid) w else w)
      in case take_response h msgid w1 of
           (None, w2) \<Rightarrow> w2
         | (Some q, w2) \<Rightarrow> publish_callback h (q_command q) ackrc w2)"

text \<open>The fields of the packet that are read before the handlers free it.\<close>

definition ack_reason :: "ack_packet \<Rightarrow> int option" where
  "ack_reason ack =
     (if ack_MQTTVersion ack \<ge> MQTTVERSION_5 then map_option (\<lambda>r. int (unat r)) (ack_rc ack) else Some 0)"

definition handle_ack ::
    "'z async_scheme persist_api \<Rightarrow> ack_packet \<Rightarrow> int \<Rightarrow> nat option \<Rightarrow> 'z async_scheme
     \<Rightarrow> (int \<times> 'z async_scheme) option" where
  "handle_ack per ack sock m w = do {
     let type = hdr_type (ack_header ack);
     msgid \<leftarrow> ack_msgId ack;
     ackrc \<leftarrow> ack_reason ack;
     (rc, pub, w1) \<leftarrow> (if type = PUBCOMP then MQTTProtocol_handlePubcomps per ack sock True w
                     else if type = PUBREC then MQTTProtocol_handlePubrecs per ack sock True w
                     else MQTTProtocol_handlePubacks per ack sock True w);
     let w2 = (case m of
                 None \<Rightarrow> w1
               | Some h \<Rightarrow> if type \<noteq> PUBREC \<or> 128 \<le> ackrc then response_done h msgid ackrc w1 else w1);
     map_option (\<lambda>w3. (rc, w3)) (MQTTProtocol_removePublication pub w2) }"

text \<open>
  The result is the code and the packet when it is left to the caller; \<open>rc\<close> is the code so far. The
  publication is removed once, before or after the callback has returned.
\<close>

definition handle_pack ::
    "'z async_scheme persist_api \<Rightarrow> 'z async_scheme application \<Rightarrow> packet \<Rightarrow> int \<Rightarrow> nat option \<Rightarrow> int
     \<Rightarrow> 'z async_scheme \<Rightarrow> (int \<times> packet option \<times> 'z async_scheme) option" where
  "handle_pack per app pack sock m rc w =
     (let handled = map_option (\<lambda>(rc, w1). (rc, None, w1)); left = Some (rc, Some pack, w)
      in case pack of
           Publish_packet p \<Rightarrow> handled (MQTTProtocol_handlePublishes per app p sock w)
         | Ack_packet ack \<Rightarrow>
             if hdr_type (ack_header ack) \<in> {PUBACK, PUBCOMP, PUBREC} then handled (handle_ack per ack sock m w)
             else if hdr_type (ack_header ack) = PUBREL then handled (MQTTProtocol_handlePubrels per app ack sock w)
             else left
         | Header_only header \<Rightarrow>
             if hdr_type header = PINGRESP then handled (MQTTProtocol_handlePingresps sock w) else left
         | _ \<Rightarrow> left)"

section \<open>What the callbacks leave alone\<close>

lemma layer_quiet:
  assumes "protocol.truncate w' = protocol.truncate w" "layer_agrees w w'"
  shows "async_layer.quiet w w'"
  using async_layer.flows_quiet assms agrees_flows truncate_agrees by blast

lemma log_event_quiet: "\<not> is_Message_arrived e \<Longrightarrow> async_layer.quiet w (log_event e w)"
  by (rule layer_quiet, simp add: log_event_def protocol.defs, rule layer_agreesI [where es = "[e]"])
    (simp_all add: log_event_def)

lemma map_h_c_upd:
  "(\<And>m. h_c (f m) = h_c m) \<Longrightarrow> map h_c (items (handles (upd_handle h f w))) = map h_c (items (handles w))"
  by (cases "h < length (items (handles w))")
    (simp_all add: upd_handle_def handle_at_def map_update list_update_same_conv list_update_beyond)

lemma upd_handle_quiet: "(\<And>m. h_c (f m) = h_c m) \<Longrightarrow> async_layer.quiet w (upd_handle h f w)"
proof (rule layer_quiet)
  assume "\<And>m. h_c (f m) = h_c m"
  from map_h_c_upd [OF this, where w = w and h = h]
  show "layer_agrees w (upd_handle h f w)" by (rule layer_agreesI [where es = "[]"]) (simp_all add: upd_handle_def)
qed (simp add: upd_handle_def protocol.defs)

lemma take_response_quiet: "take_response h tok w = (r, w') \<Longrightarrow> async_layer.quiet w w'"
  using async_layer.quiet_refl upd_handle_quiet [where w = w and h = h]
  by (auto simp: take_response_def split: option.splits)

lemma publish_callback_quiet: "async_layer.quiet w (publish_callback h cmd rc w)"
  by (simp add: publish_callback_def log_event_quiet async_layer.quiet_refl)

lemma response_done_quiet: "async_layer.quiet w (response_done h msgid rc w)"
proof -
  define w1 where "w1 = (if cb_deliveryComplete (handle_at h w) then log_event (Delivery_complete h msgid) w else w)"
  have 1: "async_layer.quiet w w1" unfolding w1_def by (simp add: log_event_quiet async_layer.quiet_refl)
  obtain r w2 where t: "take_response h msgid w1 = (r, w2)" by fastforce
  have 2: "async_layer.quiet w w2" using async_layer.quiet_trans [OF 1 take_response_quiet [OF t]] .
  show ?thesis
    using 2 async_layer.quiet_trans [OF 2 publish_callback_quiet]
    by (auto simp: response_done_def w1_def [symmetric] t split: option.split)
qed

section \<open>The effect of a packet\<close>

text \<open>
  An acknowledgement for an exchange in the phase that it ends, or continues; all others are ignored.
\<close>

definition acknowledged :: "nat \<Rightarrow> bool \<Rightarrow> int \<Rightarrow> (int \<Rightarrow> out_phase option) \<Rightarrow> int \<Rightarrow> out_phase option" where
  "acknowledged type refused i out =
     (if type = PUBACK \<and> out i = Some Await_ack \<or> type = PUBCOMP \<and> out i = Some Await_comp
         \<or> type = PUBREC \<and> out i = Some Await_rec \<and> refused then out(i := None)
      else if type = PUBREC \<and> out i = Some Await_rec then out(i \<mapsto> Await_comp)
      else out)"

type_synonym exchanges = "(int \<Rightarrow> content option option) \<times> (int \<Rightarrow> out_phase option)"

fun packet_effect :: "packet \<Rightarrow> exchanges \<Rightarrow> exchanges \<times> content list" where
  "packet_effect (Publish_packet p) (pend, out) =
     (case receive_publish (hdr_qos (pu_header p)) (pu_MQTTVersion p \<ge> MQTTVERSION_5) (pu_msgId p)
             (content_of p) (content_of (received_packet p)) pend of
        (pend', ms) \<Rightarrow> ((pend', out), ms))"
| "packet_effect (Ack_packet ack) (pend, out) =
     (case ack_msgId ack of
        None \<Rightarrow> ((pend, out), [])
      | Some i \<Rightarrow>
          if hdr_type (ack_header ack) = PUBREL
          then ((pend(i := None), out), case pend i of Some (Some c) \<Rightarrow> [c] | _ \<Rightarrow> [])
          else ((pend, acknowledged (hdr_type (ack_header ack)) (pubrec_refused ack) i out), []))"
| "packet_effect _ x = (x, [])"

fun packets_effect :: "packet list \<Rightarrow> exchanges \<Rightarrow> exchanges \<times> content list" where
  "packets_effect [] x = (x, [])"
| "packets_effect (p # ps) x =
     (case packet_effect p x of (x1, ms) \<Rightarrow> case packets_effect ps x1 of (x2, ms') \<Rightarrow> (x2, ms @ ms'))"

text \<open>What the parsers guarantee of a packet.\<close>

definition packet_ok :: "packet \<Rightarrow> bool" where
  "packet_ok pack = (case pack of
       Publish_packet p \<Rightarrow> pu_topic p \<noteq> NULL \<and> publish_payload p \<noteq> None
     | Ack_packet ack \<Rightarrow> hdr_type (ack_header ack) \<in> {PUBACK, PUBREC, PUBREL, PUBCOMP}
         \<longrightarrow> ack_msgId ack \<noteq> None \<and> ack_reason ack \<noteq> None
     | _ \<Rightarrow> True)"

text \<open>What the protocol keeps of client \<open>k\<close>, and what has been delivered to it.\<close>

definition exchanges_of :: "nat \<Rightarrow> 'z async_scheme \<Rightarrow> exchanges" where
  "exchanges_of k w = (async_layer.arriving k w, outgoing k w)"

text \<open>The step of a packet: nothing happens to other clients.\<close>

definition packet_step ::
    "int \<Rightarrow> nat \<Rightarrow> exchanges \<Rightarrow> content list \<Rightarrow> 'z async_scheme \<Rightarrow> 'z async_scheme \<Rightarrow> bool" where
  "packet_step s k x ms w w' \<longleftrightarrow> flow_inv {#} w' \<and> client_of s k w' \<and> exchanges_of k w' = x
     \<and> deliveries k w' = deliveries k w @ ms \<and> length (items (clients w')) = length (items (clients w))
     \<and> (\<forall>i < length (items (clients w)). i \<noteq> k
          \<longrightarrow> exchanges_of i w' = exchanges_of i w \<and> deliveries i w' = deliveries i w)"

lemma packet_step_trans:
  "packet_step s k x ms w w1 \<Longrightarrow> packet_step s k x' ms' w1 w2 \<Longrightarrow> packet_step s k x' (ms @ ms') w w2"
  by (simp add: packet_step_def)

lemma arrive_packet_step:
  assumes "async_layer.arrive_step {#} s k pend ms w w'"
  shows "packet_step s k (pend, outgoing k w) ms w w'"
  using assms client_of_less [of s k w'] by (simp add: async_layer.arrive_step_def packet_step_def exchanges_of_def)

lemma ack_packet_step:
  assumes "async_layer.ack_step {#} s k NULL out w w'"
  shows "packet_step s k (async_layer.arriving k w, out) [] w w'"
  using assms client_of_less [of s k w']
  by (simp add: async_layer.ack_step_def packet_step_def exchanges_of_def async_layer.inbound_same_def)

lemma quiet_packet_step:
  assumes "flow_inv {#} w" "client_of s k w" "async_layer.quiet w w'"
  shows "packet_step s k (exchanges_of k w) [] w w'"
  using arrive_packet_step [OF async_layer.quiet_arrive [OF assms]] by (simp add: exchanges_of_def)

lemma release_ack_step:
  assumes "async_layer.ack_step {#} s k pub out w w1"
  obtains w2 where "MQTTProtocol_removePublication pub w1 = Some w2" "async_layer.ack_step {#} s k NULL out w w2"
proof -
  have a: "flow_inv (ptr_refs pub + {#}) w1" "client_of s k w1" "async_layer.inbound_same w w1" "outgoing k w1 = out"
      "\<forall>i < length (items (clients w)). i \<noteq> k \<longrightarrow> outgoing i w1 = outgoing i w"
    using assms by (simp_all add: async_layer.ack_step_def)
  obtain w2 where w2: "MQTTProtocol_removePublication pub w1 = Some w2" "flow_inv {#} w2" "clients w2 = clients w1"
      "async_layer.inbound_same w1 w2"
    using async_layer.release_step [OF a(1)] by metis
  have cj: "client_at i w2 = client_at i w1" for i by (simp add: client_at_def w2(3))
  have "client_of s k w2" using a(2) unfolding client_of_def w2(3) cj .
  moreover have "outgoing i w2 = outgoing i w1" for i by (simp add: outgoing_def fun_eq_iff cj)
  ultimately show thesis
    using that w2 a(4,5) async_layer.inbound_same_trans [OF a(3) w2(4)] by (simp add: async_layer.ack_step_def)
qed

lemma ack_outcome:
  assumes "flow_inv {#} w" "client_of s k w" "ack_msgId ack = Some i"
    and "type = hdr_type (ack_header ack)" "type \<in> {PUBACK, PUBCOMP, PUBREC}"
  shows "\<exists>rc pub w1. (if type = PUBCOMP then MQTTProtocol_handlePubcomps (default_store dir) ack s True w
        else if type = PUBREC then MQTTProtocol_handlePubrecs (default_store dir) ack s True w
        else MQTTProtocol_handlePubacks (default_store dir) ack s True w) = Some (rc, pub, w1)
      \<and> async_layer.ack_step {#} s k pub (acknowledged type (pubrec_refused ack) i (outgoing k w)) w w1"
  using async_layer.handlePubcomps_step [OF assms(1-3), of dir True] async_layer.handlePubrecs_step [OF assms(1-3), of dir True]
    async_layer.handlePubacks_step [OF assms(1-3), of dir True] assms(5)
  by (fastforce simp: acknowledged_def)

lemma handle_ack_step:
  assumes "flow_inv {#} w" "client_of s k w" "ack_msgId ack = Some i" "ack_reason ack \<noteq> None"
    and "hdr_type (ack_header ack) \<in> {PUBACK, PUBCOMP, PUBREC}"
  shows "\<exists>rc w'. handle_ack (default_store dir) ack s m w = Some (rc, w') \<and> packet_step s k
    (async_layer.arriving k w, acknowledged (hdr_type (ack_header ack)) (pubrec_refused ack) i (outgoing k w)) [] w w'"
proof -
  define type where "type = hdr_type (ack_header ack)"
  define out where "out = acknowledged type (pubrec_refused ack) i (outgoing k w)"
  obtain ackrc where r: "ack_reason ack = Some ackrc" using assms(4) by blast
  obtain rc pub w1 where w1: "(if type = PUBCOMP then MQTTProtocol_handlePubcomps (default_store dir) ack s True w
        else if type = PUBREC then MQTTProtocol_handlePubrecs (default_store dir) ack s True w
        else MQTTProtocol_handlePubacks (default_store dir) ack s True w) = Some (rc, pub, w1)"
      "async_layer.ack_step {#} s k pub out w w1"
    using ack_outcome [OF assms(1-3) type_def] assms(5) unfolding type_def [symmetric] out_def by blast
  define w2 where "w2 = (case m of None \<Rightarrow> w1
      | Some h \<Rightarrow> if type \<noteq> PUBREC \<or> 128 \<le> ackrc then response_done h i ackrc w1 else w1)"
  have "async_layer.quiet w1 w2"
    unfolding w2_def by (simp add: response_done_quiet async_layer.quiet_refl split: option.split)
  from async_layer.ack_step_quiet [OF w1(2) this] obtain w3 where
      w3: "MQTTProtocol_removePublication pub w2 = Some w3" "async_layer.ack_step {#} s k NULL out w w3"
    by (rule release_ack_step)
  have "handle_ack (default_store dir) ack s m w = Some (rc, w3)"
    unfolding handle_ack_def type_def [symmetric] Let_def assms(3) r bind.simps w1(1) prod.case w2_def [symmetric] w3(1)
    by simp
  then show ?thesis using ack_packet_step [OF w3(2)] unfolding out_def type_def by blast
qed

lemma handlePingresps_step:
  assumes "flow_inv {#} w" "client_of s k w"
  shows "\<exists>rc w'. MQTTProtocol_handlePingresps s w = Some (rc, w') \<and> packet_step s k (exchanges_of k w) [] w w'"
proof -
  obtain w0 where f: "find_client s w = Some (k, w0)" "async_layer.quiet w w0"
    using async_layer.find_quiet [OF assms(2)] by blast
  define w1 where "w1 = upd_client k (\<lambda>c. c\<lparr>ping_outstanding := False\<rparr>) w0"
  have "messages_kept w0 w1" unfolding w1_def by (rule upd_client_kept) simp_all
  then have "async_layer.quiet w0 w1" unfolding w1_def by (rule async_layer.upd_client_quiet) simp
  then have "async_layer.quiet w w1" using async_layer.quiet_trans [OF f(2)] by blast
  then show ?thesis
    using quiet_packet_step [OF assms] by (simp add: MQTTProtocol_handlePingresps_def f(1) w1_def)
qed

text \<open>Every packet that is handled has its effect, and no more.\<close>

lemma handle_pack_step:
  assumes "flow_inv {#} w" "client_of s k w" "packet_ok pack"
    and e: "packet_effect pack (exchanges_of k w) = (x, ms)"
  shows "\<exists>rc' left w'. handle_pack (default_store dir) (async_app dir closing) pack s m rc w = Some (rc', left, w')
    \<and> packet_step s k x ms w w'"
proof -
  have stay: "packet_step s k (exchanges_of k w) [] w w"
    using quiet_packet_step [OF assms(1,2) async_layer.quiet_refl] .
  show ?thesis
  proof (cases pack)
    case (Publish_packet p)
    then obtain t where t: "pu_topic p = Ptr t" "publish_payload p \<noteq> None"
      using assms(3) by (auto simp: packet_ok_def intro: cptr.exhaust [of "pu_topic p"])
    obtain pend where r: "receive_publish (hdr_qos (pu_header p)) (pu_MQTTVersion p \<ge> MQTTVERSION_5) (pu_msgId p)
             (content_of p) (content_of (received_packet p)) (async_layer.arriving k w) = (pend, ms)"
        "x = (pend, outgoing k w)"
      using e Publish_packet by (auto simp: exchanges_of_def split: prod.splits)
    show ?thesis
      using async_layer.handlePublishes_step [OF assms(1,2) t r(1), of dir closing] arrive_packet_step r(2)
      by (fastforce simp: handle_pack_def Publish_packet)
  next
    case (Ack_packet ack)
    show ?thesis
    proof (cases "hdr_type (ack_header ack) \<in> {PUBACK, PUBREC, PUBREL, PUBCOMP}")
      case True
      then obtain i where i: "ack_msgId ack = Some i" "ack_reason ack \<noteq> None"
        using assms(3) Ack_packet by (auto simp: packet_ok_def)
      show ?thesis
      proof (cases "hdr_type (ack_header ack) = PUBREL")
        case rel: True
        then have x: "x = ((async_layer.arriving k w)(i := None), outgoing k w)"
            "ms = (case async_layer.arriving k w i of Some (Some c) \<Rightarrow> [c] | _ \<Rightarrow> [])"
          using e Ack_packet i(1) by (simp_all add: exchanges_of_def)
        show ?thesis
          using async_layer.handlePubrels_step [OF assms(1,2) i(1), of dir closing] arrive_packet_step rel x
          by (fastforce simp: handle_pack_def Ack_packet)
      next
        case False
        then have t: "hdr_type (ack_header ack) \<in> {PUBACK, PUBCOMP, PUBREC}" using True by blast
        have x: "x = (async_layer.arriving k w, acknowledged (hdr_type (ack_header ack)) (pubrec_refused ack) i (outgoing k w))"
            "ms = []"
          using e Ack_packet i(1) False by (simp_all add: exchanges_of_def)
        show ?thesis
          using handle_ack_step [OF assms(1,2) i t, of dir m] t unfolding x
          by (fastforce simp: handle_pack_def Ack_packet)
      qed
    next
      case False
      then have "handle_pack (default_store dir) (async_app dir closing) pack s m rc w = Some (rc, Some pack, w)"
        by (simp add: handle_pack_def Ack_packet)
      moreover have "x = exchanges_of k w" "ms = []"
        using e Ack_packet False by (auto simp: exchanges_of_def acknowledged_def split: option.splits)
      ultimately show ?thesis using stay by simp
    qed
  next
    case (Header_only header)
    then have "x = exchanges_of k w" "ms = []" using e by simp_all
    then show ?thesis
      using stay handlePingresps_step [OF assms(1,2)] by (auto simp: handle_pack_def Header_only)
  qed (use e stay in \<open>auto simp: handle_pack_def\<close>)
qed

section \<open>Runs\<close>

fun handle_packs ::
    "'z async_scheme persist_api \<Rightarrow> 'z async_scheme application \<Rightarrow> int \<Rightarrow> nat option \<Rightarrow> packet list
     \<Rightarrow> 'z async_scheme \<Rightarrow> 'z async_scheme option" where
  "handle_packs per app sock m [] w = Some w"
| "handle_packs per app sock m (p # ps) w =
     (case handle_pack per app p sock m TCPSOCKET_COMPLETE w of
        None \<Rightarrow> None
      | Some (rc, left, w1) \<Rightarrow> handle_packs per app sock m ps w1)"

lemma handle_packs_step:
  assumes "flow_inv {#} w" "client_of s k w" "\<forall>p \<in> set ps. packet_ok p"
    and "packets_effect ps (exchanges_of k w) = (x, ms)"
  shows "\<exists>w'. handle_packs (default_store dir) (async_app dir closing) s m ps w = Some w' \<and> packet_step s k x ms w w'"
  using assms
proof (induction ps arbitrary: w ms)
  case Nil
  then show ?case using quiet_packet_step [OF Nil(1,2) async_layer.quiet_refl] by simp
next
  case (Cons p ps)
  obtain x1 ms1 ms2 where e: "packet_effect p (exchanges_of k w) = (x1, ms1)" "packets_effect ps x1 = (x, ms2)" "ms = ms1 @ ms2"
    using Cons.prems(4) by (auto split: prod.splits)
  have "packet_ok p" using Cons.prems(3) by simp
  from handle_pack_step [OF Cons.prems(1,2) this e(1)] obtain rc left w1 where
      w1: "handle_pack (default_store dir) (async_app dir closing) p s m TCPSOCKET_COMPLETE w = Some (rc, left, w1)"
        "packet_step s k x1 ms1 w w1" by blast
  then have i: "flow_inv {#} w1" "client_of s k w1" "exchanges_of k w1 = x1" by (simp_all add: packet_step_def)
  have "\<exists>w'. handle_packs (default_store dir) (async_app dir closing) s m ps w1 = Some w' \<and> packet_step s k x ms2 w1 w'"
    using Cons.IH [OF i(1,2)] Cons.prems(3) e(2) i(3) by simp
  then show ?case using w1(1) packet_step_trans [OF w1(2)] e(3) by fastforce
qed

section \<open>Exactly once\<close>

text \<open>The content of a message with QoS 2 and an identifier, and its packets.\<close>

definition qos2_content :: "int \<Rightarrow> content \<Rightarrow> bool" where
  "qos2_content i c = (case c of (t, l, m) \<Rightarrow> pm_qos m = 2 \<and> pm_msgid m = i)"

datatype exchange = Published | Released

definition exchange_of :: "int \<Rightarrow> packet \<Rightarrow> exchange option" where
  "exchange_of i pack = (case pack of
       Publish_packet p \<Rightarrow> if hdr_qos (pu_header p) = 2 \<and> pu_msgId p = i then Some Published else None
     | Ack_packet ack \<Rightarrow> if hdr_type (ack_header ack) = PUBREL \<and> ack_msgId ack = Some i then Some Released else None
     | _ \<Rightarrow> None)"

definition copy_of :: "publish_packet \<Rightarrow> int \<Rightarrow> packet \<Rightarrow> bool" where
  "copy_of p i pack = (case pack of
       Publish_packet q \<Rightarrow> hdr_qos (pu_header q) = 2 \<and> pu_msgId q = i \<longrightarrow> received_packet q = received_packet p
     | _ \<Rightarrow> True)"

text \<open>What is held for an identifier is a message with that identifier.\<close>

definition pend_ok :: "(int \<Rightarrow> content option option) \<Rightarrow> bool" where
  "pend_ok pend \<longleftrightarrow> (\<forall>i c. pend i = Some (Some c) \<longrightarrow> qos2_content i c)"

lemma message_of_simps [simp]:
  "pm_qos (message_of p b) = int (hdr_qos (pu_header p))" "pm_msgid (message_of p b) = pu_msgId p"
  by (simp_all add: message_of_def)

lemma qos2_content_of: "qos2_content i (content_of p) \<longleftrightarrow> hdr_qos (pu_header p) = 2 \<and> pu_msgId p = i"
  by (auto simp: qos2_content_def content_of_def)

lemma hdr_qos_less: "hdr_qos h < 4"
proof -
  have "drop_bit 1 h AND 3 = take_bit 2 (drop_bit 1 h)" by (simp add: take_bit_eq_mask mask_eq_exp_minus_1)
  then show ?thesis by (simp add: hdr_qos_def take_bit_eq_mod unat_mod_distrib)
qed

lemma received_packet_qos [simp]:
  "hdr_qos (pu_header (received_packet p)) = hdr_qos (pu_header p)"
  "pu_MQTTVersion (received_packet p) = pu_MQTTVersion p"
  using hdr_qos_less [of "pu_header p"] by (simp_all add: received_packet_def)

definition pending_content :: "publish_packet \<Rightarrow> content option" where
  "pending_content p = (if pu_MQTTVersion p \<ge> MQTTVERSION_5 then None else Some (content_of (received_packet p)))"

lemma effect_pend_ok:
  assumes "packet_effect pack (pend, out) = ((pend', out'), ms)" "pend_ok pend"
  shows "pend_ok pend'"
  unfolding pend_ok_def
proof (intro allI impI)
  fix j c assume j: "pend' j = Some (Some c)"
  have old: "qos2_content j c" if "pend j = Some (Some c)" using assms(2) that unfolding pend_ok_def by blast
  show "qos2_content j c"
  proof (cases pack)
    case (Publish_packet p)
    have "qos2_content (pu_msgId p) (content_of (received_packet p))" if "hdr_qos (pu_header p) = 2"
      using that by (simp add: qos2_content_of)
    then show ?thesis using assms(1) j old Publish_packet by (auto simp: receive_publish_def split: if_splits)
  qed (use assms(1) j old in \<open>auto split: option.splits if_splits\<close>)
qed

lemma effect_other:
  assumes "packet_effect pack (pend, out) = ((pend', out'), ms)" "pend_ok pend" "exchange_of i pack = None"
  shows "pend' i = pend i" "filter (qos2_content i) ms = []"
proof -
  have "pend' i = pend i \<and> filter (qos2_content i) ms = []"
  proof (cases pack)
    case (Publish_packet p)
    then show ?thesis
      using assms by (auto simp: receive_publish_def exchange_of_def qos2_content_of split: if_splits)
  next
    case (Ack_packet ack)
    have "\<not> qos2_content i c" if "pend j = Some (Some c)" "j \<noteq> i" for j c
      using assms(2) that unfolding pend_ok_def qos2_content_def by (auto split: prod.splits)
    then show ?thesis
      using assms Ack_packet by (auto simp: exchange_of_def split: option.splits if_splits)
  qed (use assms in auto)
  then show "pend' i = pend i" "filter (qos2_content i) ms = []" by blast+
qed

lemma effect_published:
  assumes "packet_effect pack (pend, out) = ((pend', out'), ms)" "exchange_of i pack = Some Published" "copy_of p i pack"
  shows "pend' i = Some (pending_content p)"
    "filter (qos2_content i) ms
      = (if pu_MQTTVersion p \<ge> MQTTVERSION_5 \<and> pend i = None then [content_of (received_packet p)] else [])"
proof -
  obtain q where q: "pack = Publish_packet q" "hdr_qos (pu_header q) = 2" "pu_msgId q = i"
    using assms(2) by (auto simp: exchange_of_def split: packet.splits if_splits)
  then have r: "received_packet q = received_packet p" using assms(3) by (simp add: copy_of_def)
  then have v: "pu_MQTTVersion q = pu_MQTTVersion p" "hdr_qos (pu_header p) = 2" "pu_msgId p = i"
    using q(2,3) received_packet_qos received_packet_simps(2) by metis+
  show "pend' i = Some (pending_content p)"
    "filter (qos2_content i) ms
      = (if pu_MQTTVersion p \<ge> MQTTVERSION_5 \<and> pend i = None then [content_of (received_packet p)] else [])"
    using assms(1) q r v by (auto simp: receive_publish_def pending_content_def qos2_content_of split: if_splits)
qed

lemma effect_released:
  assumes "packet_effect pack (pend, out) = ((pend', out'), ms)" "pend_ok pend" "exchange_of i pack = Some Released"
  shows "pend' i = None" "filter (qos2_content i) ms = (case pend i of Some (Some c) \<Rightarrow> [c] | _ \<Rightarrow> [])"
  using assms by (auto simp: exchange_of_def pend_ok_def split: packet.splits if_splits option.splits)

lemma packets_effect_Cons:
  assumes "packets_effect (pack # ps) (pend, out) = (x, ms)" "pend_ok pend"
  obtains pend' out' ms1 ms2 where "packet_effect pack (pend, out) = ((pend', out'), ms1)" "pend_ok pend'"
    "packets_effect ps (pend', out') = (x, ms2)" "ms = ms1 @ ms2"
  using assms effect_pend_ok by (auto split: prod.splits)

text \<open>The three stages of an exchange: released, published and not yet started.\<close>

lemma run_released:
  assumes "packets_effect ps (pend, out) = (x, ms)" "pend_ok pend" "pend i = None"
    "List.map_filter (exchange_of i) ps = replicate b Released"
  shows "filter (qos2_content i) ms = []"
  using assms
proof (induction ps arbitrary: pend out ms b)
  case (Cons pack ps)
  from Cons.prems(1,2) obtain pend' out' ms1 ms2 where e: "packet_effect pack (pend, out) = ((pend', out'), ms1)"
      "pend_ok pend'" "packets_effect ps (pend', out') = (x, ms2)" "ms = ms1 @ ms2"
    by (rule packets_effect_Cons)
  show ?case
  proof (cases "exchange_of i pack")
    case None
    then have "pend' i = None" "filter (qos2_content i) ms1 = []"
      using effect_other [OF e(1) Cons.prems(2) None] Cons.prems(3) by simp_all
    then show ?thesis using Cons.IH [OF e(3,2)] Cons.prems(4) None e(4) by (simp add: map_filter_simps)
  next
    case (Some r)
    then obtain b' where b: "r = Released" "List.map_filter (exchange_of i) ps = replicate b' Released"
      using Cons.prems(4) by (cases b) (simp_all add: map_filter_simps)
    then have r: "exchange_of i pack = Some Released" using Some by simp
    from effect_released [OF e(1) Cons.prems(2) r] have "pend' i = None" "filter (qos2_content i) ms1 = []"
      using Cons.prems(3) by simp_all
    then show ?thesis using Cons.IH [OF e(3,2) _ b(2)] e(4) by simp
  qed
qed simp

lemma run_published:
  assumes "packets_effect ps (pend, out) = (x, ms)" "pend_ok pend" "pend i = Some (pending_content p)"
    "List.map_filter (exchange_of i) ps = replicate a Published @ replicate (Suc b) Released"
    "\<forall>q \<in> set ps. copy_of p i q"
  shows "filter (qos2_content i) ms = (case pending_content p of None \<Rightarrow> [] | Some c \<Rightarrow> [c])"
  using assms
proof (induction ps arbitrary: pend out ms a)
  case Nil
  then show ?case by (simp add: map_filter_simps)
next
  case (Cons pack ps)
  from Cons.prems(1,2) obtain pend' out' ms1 ms2 where e: "packet_effect pack (pend, out) = ((pend', out'), ms1)"
      "pend_ok pend'" "packets_effect ps (pend', out') = (x, ms2)" "ms = ms1 @ ms2"
    by (rule packets_effect_Cons)
  have cp: "copy_of p i pack" "\<forall>q \<in> set ps. copy_of p i q" using Cons.prems(5) by simp_all
  show ?case
  proof (cases "exchange_of i pack")
    case None
    then have "pend' i = Some (pending_content p)" "filter (qos2_content i) ms1 = []"
      using effect_other [OF e(1) Cons.prems(2) None] Cons.prems(3) by simp_all
    then show ?thesis using Cons.IH [OF e(3,2)] Cons.prems(4) None cp(2) e(4) by (simp add: map_filter_simps)
  next
    case (Some r)
    show ?thesis
    proof (cases a)
      case 0
      then have r: "exchange_of i pack = Some Released" "List.map_filter (exchange_of i) ps = replicate b Released"
        using Cons.prems(4) Some by (simp_all add: map_filter_simps)
      note d = effect_released [OF e(1) Cons.prems(2) r(1)]
      have "filter (qos2_content i) ms2 = []" using run_released [OF e(3,2) d(1) r(2)] .
      then show ?thesis using d(2) Cons.prems(3) e(4) by (simp split: option.splits)
    next
      case (Suc a')
      then have r: "exchange_of i pack = Some Published"
          "List.map_filter (exchange_of i) ps = replicate a' Published @ replicate (Suc b) Released"
        using Cons.prems(4) Some by (simp_all add: map_filter_simps)
      note d = effect_published [OF e(1) r(1) cp(1)]
      then have "filter (qos2_content i) ms1 = []" using Cons.prems(3) by simp
      then show ?thesis using Cons.IH [OF e(3,2) d(1) r(2) cp(2)] e(4) by simp
    qed
  qed
qed

lemma run_exactly_once:
  assumes "packets_effect ps (pend, out) = (x, ms)" "pend_ok pend" "pend i = None"
    "List.map_filter (exchange_of i) ps = replicate (Suc a) Published @ replicate (Suc b) Released"
    "\<forall>q \<in> set ps. copy_of p i q"
  shows "filter (qos2_content i) ms = [content_of (received_packet p)]"
  using assms
proof (induction ps arbitrary: pend out ms)
  case Nil
  then show ?case by (simp add: map_filter_simps)
next
  case (Cons pack ps)
  from Cons.prems(1,2) obtain pend' out' ms1 ms2 where e: "packet_effect pack (pend, out) = ((pend', out'), ms1)"
      "pend_ok pend'" "packets_effect ps (pend', out') = (x, ms2)" "ms = ms1 @ ms2"
    by (rule packets_effect_Cons)
  have cp: "copy_of p i pack" "\<forall>q \<in> set ps. copy_of p i q" using Cons.prems(5) by simp_all
  show ?case
  proof (cases "exchange_of i pack")
    case None
    then have "pend' i = None" "filter (qos2_content i) ms1 = []"
      using effect_other [OF e(1) Cons.prems(2) None] Cons.prems(3) by simp_all
    then show ?thesis using Cons.IH [OF e(3,2)] Cons.prems(4) None cp(2) e(4) by (simp add: map_filter_simps)
  next
    case (Some r)
    then have r: "exchange_of i pack = Some Published"
        "List.map_filter (exchange_of i) ps = replicate a Published @ replicate (Suc b) Released"
      using Cons.prems(4) by (simp_all add: map_filter_simps)
    note d = effect_published [OF e(1) r(1) cp(1)]
    from run_published [OF e(3,2) d(1) r(2) cp(2)] show ?thesis
      using d(2) Cons.prems(3) e(4) by (simp add: pending_content_def)
  qed
qed

text \<open>What the protocol holds of messages that are being received.\<close>

lemma arriving_pend_ok:
  assumes "flow_inv E w" "k < length (items (clients w))"
  shows "pend_ok (async_layer.arriving k w)"
proof -
  have "qos2_content i c" if a: "async_layer.arriving k w i = Some (Some c)" for i c
  proof -
    obtain m where m: "by_id (items (inboundMsgs (client_at k w))) i = Some m" "async_layer.holds (pub_heap w) m = Some c"
      using a by (auto simp: async_layer.arriving_def)
    have "m_msgid m = i" using m(1) by (auto simp: by_id_def find_Some_iff)
    moreover have "m_qos m = 2"
      using flow_invD(1) [OF assms] async_layer.by_id_set [OF m(1)] by (auto simp: inbound_ok_def)
    ultimately show ?thesis
      using m(2) by (auto simp: async_layer.holds_def qos2_content_of message_publish_def split: if_splits)
  qed
  then show ?thesis by (simp add: pend_ok_def)
qed

section \<open>Packets from the wire\<close>

lemma publish_ok:
  assumes "MQTTPacket_publish v h data = Some (Ptr pack)"
  shows "packet_ok pack"
proof -
  have "publish_payload p \<noteq> None" if "pu_payload p = Ptr b" "pu_payloadlen p = length b" for p b
    using that by (simp add: publish_payload_def)
  then show ?thesis
    using assms by (auto simp: MQTTPacket_publish_def packet_ok_def publish_payload_def split: bind_splits if_splits prod.splits option.splits)
qed

lemma parsed_ok:
  assumes "new_packets (hdr_type h) = Some f" "f v h data = Some (Ptr pack)"
  shows "packet_ok pack"
proof -
  consider "f = MQTTPacket_publish" | "f = MQTTPacket_ack" | "f = MQTTPacket_connack" | "f = MQTTPacket_suback"
    | "f = MQTTPacket_unsuback" | "f = MQTTPacket_header_only"
    using assms(1) by (auto simp: new_packets_def split: if_splits)
  then show ?thesis
  proof cases
    case 1
    then show ?thesis using publish_ok assms(2) by blast
  next
    case 2
    then show ?thesis
      using assms(2) by (auto simp: MQTTPacket_ack_def Let_def packet_ok_def ack_reason_def
          split: bind_splits if_splits prod.splits option.splits)
  qed (use assms(2) in \<open>auto simp: MQTTPacket_connack_def MQTTPacket_suback_def MQTTPacket_unsuback_def
      MQTTPacket_header_only_def packet_ok_def split: bind_splits if_splits prod.splits option.splits\<close>)
qed

section \<open>A state to compute with\<close>

lemma sample_async_ok:
  "flow_inv {#} (sample_async [sample_client] [sample_handle])" "client_of 5 0 (sample_async [sample_client] [sample_handle])"
  by (simp_all add: flow_inv_def pub_inv_def all_refs_def client_refs_def cur_ok_def l_empty_def inbound_ok_def
      outbound_ok_def sample_client_def client_of_def client_at_def sample_handles_def)

definition sample_qos2 :: "bool \<Rightarrow> packet" where
  "sample_qos2 dup = Publish_packet (sample_publish\<lparr>pu_header := mk_header PUBLISH (of_bool dup) 2 0\<rparr>)"

definition sample_ack :: "nat \<Rightarrow> int \<Rightarrow> packet" where
  "sample_ack type i = Ack_packet \<lparr>ack_header = ack_header_byte type False, ack_msgId = Some i, ack_rc = Some 0,
     ack_MQTTVersion = 5, ack_properties = Some MQTTProperties_initializer\<rparr>"

section \<open>Properties\<close>



text \<open>C2. A run of incoming packets implements the exchanges of the protocol: the acknowledgements move the
  outgoing messages through their phases, a \<open>PUBLISH\<close> and a \<open>PUBREL\<close> begin and end the exchange of an
  incoming message, and what is delivered to the application, by the callback or through the queue, is
  what the exchanges say, in their order. Nothing happens to other clients.\<close>

theorem run_implements_exchanges:
  assumes "flow_inv {#} w" "client_of s k w" "\<forall>p \<in> set ps. packet_ok p"
  shows "\<exists>w'. handle_packs (default_store dir) (async_app dir closing) s m ps w = Some w'
    \<and> exchanges_of k w' = fst (packets_effect ps (exchanges_of k w))
    \<and> deliveries k w' = deliveries k w @ snd (packets_effect ps (exchanges_of k w))
    \<and> (\<forall>i < length (items (clients w)). i \<noteq> k \<longrightarrow> exchanges_of i w' = exchanges_of i w \<and> deliveries i w' = deliveries i w)"
  using handle_packs_step [OF assms prod.collapse [symmetric]] unfolding packet_step_def by blast

lemma run_implements_exchanges_witness:
  "\<exists>w'. handle_packs (default_store [46]) (async_app [46] (\<lambda>k w. Some w)) 5 (Some 0)
       [sample_qos2 False, sample_ack PUBREL 300] (sample_async [sample_client] [sample_handle]) = Some w'
     \<and> map (\<lambda>(t, l, m). pm_payload m) (deliveries 0 w') = [[1, 2, 3]]"
proof -
  let ?w = "sample_async [sample_client] [sample_handle]"
  let ?ps = "[sample_qos2 False, sample_ack PUBREL 300]"
  have ok: "\<forall>p \<in> set ?ps. packet_ok p" by code_simp
  have x: "exchanges_of 0 ?w = (\<lambda>_. None, \<lambda>_. None)"
    by (simp add: exchanges_of_def async_layer.arriving_def outgoing_def client_at_def sample_client_def l_empty_def
        fun_eq_iff)
  have d: "deliveries 0 ?w = []" by (simp add: deliveries_def arrived_def client_at_def sample_client_def l_empty_def)
  have "map (\<lambda>(t, l, m). pm_payload m) (snd (packets_effect ?ps (\<lambda>_. None, \<lambda>_. None))) = [[1, 2, 3]]"
    by code_simp
  then show ?thesis
    using run_implements_exchanges [OF sample_async_ok ok, of "[46]" "\<lambda>k w. Some w" "Some 0"] unfolding x d by auto
qed

text \<open>C1. A message with QoS 2 is delivered exactly once: however often its \<open>PUBLISH\<close> and then its \<open>PUBREL\<close>
  are repeated, and whatever other packets come in between, in both versions of the protocol.\<close>

theorem qos2_exactly_once:
  assumes "flow_inv {#} w" "client_of s k w" "\<forall>q \<in> set ps. packet_ok q" "fst (exchanges_of k w) i = None"
    and "List.map_filter (exchange_of i) ps = replicate (Suc a) Published @ replicate (Suc b) Released"
    and "\<forall>q \<in> set ps. copy_of p i q"
  shows "\<exists>w' new. handle_packs (default_store dir) (async_app dir closing) s m ps w = Some w'
    \<and> deliveries k w' = deliveries k w @ new \<and> filter (qos2_content i) new = [content_of (received_packet p)]"
proof -
  obtain pend out where x: "exchanges_of k w = (pend, out)" by fastforce
  obtain y ms where e: "packets_effect ps (pend, out) = (y, ms)" by fastforce
  have "pend_ok pend" "pend i = None"
    using arriving_pend_ok [OF assms(1) client_of_less [OF assms(2)]] x assms(4) by (simp_all add: exchanges_of_def)
  then have "filter (qos2_content i) ms = [content_of (received_packet p)]"
    using run_exactly_once [OF e _ _ assms(5,6)] by blast
  moreover obtain w' where "handle_packs (default_store dir) (async_app dir closing) s m ps w = Some w'"
      "packet_step s k y ms w w'"
    using handle_packs_step [OF assms(1-3) e [folded x]] by blast
  ultimately show ?thesis unfolding packet_step_def by blast
qed

lemma qos2_exactly_once_witness:
  "\<exists>w' new. handle_packs (default_store [46]) (async_app [46] (\<lambda>k w. Some w)) 5 (Some 0)
       [sample_qos2 False, sample_ack PUBACK 7, sample_qos2 True, sample_ack PUBREL 300, sample_ack PUBREL 300]
       (sample_async [sample_client] [sample_handle]) = Some w'
     \<and> deliveries 0 w' = new \<and> map (\<lambda>(t, l, m). pm_payload m) (filter (qos2_content 300) new) = [[1, 2, 3]]"
proof -
  let ?w = "sample_async [sample_client] [sample_handle]"
  let ?p = "sample_publish\<lparr>pu_header := mk_header PUBLISH 0 2 0\<rparr>"
  let ?ps = "[sample_qos2 False, sample_ack PUBACK 7, sample_qos2 True, sample_ack PUBREL 300, sample_ack PUBREL 300]"
  have ok: "\<forall>q \<in> set ?ps. packet_ok q" by code_simp
  have x: "fst (exchanges_of 0 ?w) 300 = None"
    by (simp add: exchanges_of_def async_layer.arriving_def client_at_def sample_client_def l_empty_def)
  have d: "deliveries 0 ?w = []" by (simp add: deliveries_def arrived_def client_at_def sample_client_def l_empty_def)
  have f: "List.map_filter (exchange_of 300) ?ps = replicate (Suc 1) Published @ replicate (Suc 1) Released" by code_simp
  have c: "\<forall>q \<in> set ?ps. copy_of ?p 300 q" by code_simp
  have "(case content_of (received_packet ?p) of (t, l, m) \<Rightarrow> pm_payload m) = [1, 2, 3]" by code_simp
  then show ?thesis
    using qos2_exactly_once [OF sample_async_ok ok x f c, of "[46]" "\<lambda>k w. Some w" "Some 0"] unfolding d by auto
qed

end
