(* ===== verification/AsyncThreads.thy ===== *)
theory AsyncThreads
  imports AsyncProcess AsyncIncoming
begin

text \<open>
  The two threads of \<open>MqttC/MQTTAsyncUtils.c\<close>: \<open>MQTTAsync_cycle\<close> waits for a socket, continues a connection
  or reads a packet, and \<open>MQTTAsync_receiveThread\<close> deals with its result; \<open>MQTTAsync_sendThread\<close> processes the
  queue. A round of a thread is one step of the program.

  The results of the two calls of \<open>poll\<close> and the bound on the writes that are continued are arguments, as
  in the theory of sockets. The variables that are local to \<open>main\<close> threads and the wait for a condition
  have no effect on the state.
\<close>

section \<open>Continuing a connection\<close>

abbreviation (input) SSL_FATAL :: int where "SSL_FATAL \<equiv> -3"

text \<open>The version of the protocol is set when it is missing.\<close>

definition fix_version :: "nat \<Rightarrow> 'z async_scheme \<Rightarrow> 'z async_scheme" where
  "fix_version h w =
     (let cmd = connect (handle_at h w); v = c_MQTTVersion (handle_client h w)
      in if version_of cmd = MQTTVERSION_DEFAULT
         then upd_handle h (\<lambda>m. m\<lparr>connect := set_conn (currentURI_of cmd)
                (if v = MQTTVERSION_DEFAULT then MQTTVERSION_3_1_1 else v) cmd\<rparr>) w
         else w)"

definition connecting_uri :: "nat \<Rightarrow> 'z async_scheme \<Rightarrow> bytes option" where
  "connecting_uri h w =
     (let m = handle_at h w; n = currentURI_of (connect m)
      in if serverURIs m = [] then Some (serverURI m)
         else if n < length (serverURIs m) then Some (fst (strip_scheme (serverURIs m ! n))) else None)"

definition send_connect ::
    "'z async_scheme persist_api \<Rightarrow> nat \<Rightarrow> 'z async_scheme \<Rightarrow> (int \<times> 'z async_scheme) option" where
  "send_connect per h w =
     (let m = handle_at h w; k = h_c m
      in MQTTPacket_send_connect per k (version_of (connect m)) (connectProps m) (willProps m)
           (set_state k WAIT_FOR_CONNACK w))"

text \<open>The connection has been made: the proxy and the websocket are next, or the \<open>CONNECT\<close> packet.\<close>

definition tcp_completed ::
    "'z async_scheme persist_api \<Rightarrow> 'z async_scheme net_api \<Rightarrow> bytes \<Rightarrow> nat \<Rightarrow> 'z async_scheme
     \<Rightarrow> (int \<times> 'z async_scheme) option" where
  "tcp_completed per api uri h w = do {
     let k = h_c (handle_at h w);
     (rc, w1) \<leftarrow> connect_proxied api uri k w;
     if rc = SOCKET_ERROR then Some (rc, w1)
     else if h_websocket (handle_at h w1) then connect_websocket api uri k (set_state k WEBSOCKET_IN_PROGRESS w1)
     else send_connect per h w1 }"

definition tcp_progress ::
    "'z async_scheme persist_api \<Rightarrow> 'z async_scheme net_api \<Rightarrow> bytes \<Rightarrow> nat \<Rightarrow> 'z async_scheme
     \<Rightarrow> (int \<times> 'z async_scheme) option" where
  "tcp_progress per api uri h w =
     (case os_socket_error api (socket (c_net (handle_client h w))) w of (error, w1) \<Rightarrow>
        if error \<noteq> 0 then Some (error, w1) else tcp_completed per api uri h w1)"

definition websocket_progress ::
    "'z async_scheme persist_api \<Rightarrow> nat \<Rightarrow> 'z async_scheme \<Rightarrow> (int \<times> 'z async_scheme) option" where
  "websocket_progress per h w = do {
     (rc, net, w1) \<leftarrow> WebSocket_upgrade (c_net (handle_client h w)) w;
     let w2 = upd_handle_client h (\<lambda>c. c\<lparr>c_net := net\<rparr>) w1;
     if rc = SOCKET_ERROR \<or> rc = TCPSOCKET_INTERRUPTED then Some (rc, w2) else send_connect per h w2 }"

definition MQTTAsync_connecting ::
    "'z async_scheme persist_api \<Rightarrow> 'z async_scheme net_api \<Rightarrow> nat \<Rightarrow> 'z async_scheme
     \<Rightarrow> (int \<times> 'z async_scheme) option" where
  "MQTTAsync_connecting per api h w = do {
     let w1 = fix_version h w;
     uri \<leftarrow> connecting_uri h w1;
     let state = connect_state (handle_client h w1);
     (rc, w2) \<leftarrow> (if state = TCP_IN_PROGRESS then tcp_progress per api uri h w1
                 else if state = WEBSOCKET_IN_PROGRESS then websocket_progress per h w1
                 else Some (-1, w1));
     let state2 = connect_state (handle_client h w2);
     if rc \<noteq> 0 \<and> rc \<noteq> TCPSOCKET_INTERRUPTED \<and> state2 \<noteq> SSL_IN_PROGRESS \<and> state2 \<noteq> WEBSOCKET_IN_PROGRESS
        \<or> rc = SSL_FATAL
     then map_option (\<lambda>w3. (rc, w3)) (nextOrClose per h MQTTASYNC_FAILURE w2)
     else Some (rc, w2) }"

section \<open>One round of the cycle\<close>

text \<open>The callbacks of the socket layer, which note when they are undefined.\<close>

definition callback :: "('z async_scheme \<Rightarrow> 'z async_scheme option) \<Rightarrow> 'z async_scheme \<Rightarrow> 'z async_scheme" where
  "callback f w =
     (if callback_failed w then w else case f w of Some w1 \<Rightarrow> w1 | None \<Rightarrow> w\<lparr>callback_failed := True\<rparr>)"

definition get_ready_socket ::
    "'z async_scheme persist_api \<Rightarrow> nat \<Rightarrow> (pollfd list \<Rightarrow> int \<times> pollfd list) \<Rightarrow> (pollfd list \<Rightarrow> int \<times> pollfd list)
     \<Rightarrow> 'z async_scheme \<Rightarrow> (int \<times> int \<times> 'z async_scheme) option" where
  "get_ready_socket per fuel poll_write poll_read w = do {
     (sock, rc, w1) \<leftarrow> Socket_getReadySocket (\<lambda>s. callback (MQTTProtocol_writeAvailable per s))
        (\<lambda>s rc. callback (MQTTAsync_writeComplete s rc)) (\<lambda>s. MQTTAsync_writeContinue s) fuel poll_write poll_read w;
     if callback_failed w1 then None else Some (sock, rc, w1) }"

text \<open>What is done for a socket: the code, the packet that was read and the state.\<close>

definition serve_socket ::
    "'z async_scheme persist_api \<Rightarrow> 'z async_scheme net_api \<Rightarrow> nat \<Rightarrow> int \<Rightarrow> 'z async_scheme
     \<Rightarrow> (int \<times> packet cptr \<times> 'z async_scheme) option" where
  "serve_socket per api h sock w = do {
     let k = h_c (handle_at h w);
     let c = client_at k w;
     (rc, pack, w1) \<leftarrow>
       (if connect_state c \<in> {TCP_IN_PROGRESS, SSL_IN_PROGRESS, WEBSOCKET_IN_PROGRESS}
        then map_option (\<lambda>(rc, w1). (rc, NULL, w1)) (MQTTAsync_connecting per api h w)
        else map_option (\<lambda>(rc, pack, net, w1). (rc, pack, upd_client k (\<lambda>c. c\<lparr>c_net := net\<rparr>) w1))
               (MQTTPacket_Factory per (c_MQTTVersion c) (c_net c) w));
     w2 \<leftarrow> (if connect_state (client_at k w1) = WAIT_FOR_CONNACK \<and> rc = SOCKET_ERROR
           then nextOrClose per h MQTTASYNC_FAILURE w1 else Some w1);
     Some (rc, pack, w2) }"

definition cycle_socket ::
    "'z async_scheme persist_api \<Rightarrow> 'z async_scheme net_api \<Rightarrow> int \<Rightarrow> 'z async_scheme
     \<Rightarrow> (int \<times> packet option \<times> 'z async_scheme) option" where
  "cycle_socket per api sock w =
     (case find_handle (clientSockCompare sock w) w of
        (None, w1) \<Rightarrow> Some (0, None, w1)
      | (Some h, w1) \<Rightarrow> do {
          (rc, pack, w2) \<leftarrow> serve_socket per api h sock w1;
          (case pack of
             NULL \<Rightarrow> Some (rc, None, w2)
           | Ptr p \<Rightarrow> handle_pack per (async_application per) p sock (Some h) rc w2) })"

text \<open>The socket, the code and the packet that is left to the caller.\<close>

definition MQTTAsync_cycle ::
    "'z async_scheme persist_api \<Rightarrow> 'z async_scheme net_api \<Rightarrow> nat \<Rightarrow> (pollfd list \<Rightarrow> int \<times> pollfd list)
     \<Rightarrow> (pollfd list \<Rightarrow> int \<times> pollfd list) \<Rightarrow> 'z async_scheme
     \<Rightarrow> (int \<times> int \<times> packet option \<times> 'z async_scheme) option" where
  "MQTTAsync_cycle per api fuel poll_write poll_read w = do {
     (sock, rc1, w1) \<leftarrow> get_ready_socket per fuel poll_write poll_read w;
     let w2 = (if \<not> tostop w1 \<and> sock = 0 then os_usleep api 100000 w1 else w1);
     (rc, pack, w3) \<leftarrow> (if sock > 0 \<and> rc1 = 0 then cycle_socket per api sock w2 else Some (rc1, None, w2));
     w4 \<leftarrow> MQTTAsync_retry per w3;
     Some (sock, rc, pack, w4) }"

section \<open>The receive thread\<close>

text \<open>A queued message is offered to the application again.\<close>

definition deliver_queued :: "'z async_scheme persist_api \<Rightarrow> nat \<Rightarrow> 'z async_scheme \<Rightarrow> 'z async_scheme" where
  "deliver_queued per h w =
     (let k = h_c (handle_at h w)
      in case items (messageQueue (client_at k w)) of
           [] \<Rightarrow> w
         | qe # _ \<Rightarrow>
             if \<not> cb_messageArrived (handle_at h w) then w
             else
               let len = (if int (length (cstr (topicName qe))) = topicLen qe then 0 else topicLen qe)
               in case MQTTAsync_deliverMessage h (topicName qe) len (qe_msg qe) w of (delivered, w1) \<Rightarrow>
                    if \<not> delivered then w1
                    else
                      let w2 = (if persistence (client_at k w1)
                                then snd (MQTTPersistence_unpersistQueueEntry per k qe w1) else w1)
                      in upd_client k (\<lambda>c. c\<lparr>messageQueue := l_remove_at 0 (messageQueue c)\<rparr>) w2)"

text \<open>Messages in flight are sent again on a new connection.\<close>

definition resend_inflight ::
    "'z async_scheme persist_api \<Rightarrow> nat \<Rightarrow> int \<Rightarrow> 'z async_scheme \<Rightarrow> (int \<times> 'z async_scheme) option" where
  "resend_inflight per k rc w =
     (if items (outboundMsgs (client_at k w)) = [] then Some (rc, w)
      else
        let w1 = upd_client k (\<lambda>c. c\<lparr>outboundMsgs := (outboundMsgs c)\<lparr>items :=
                   map (\<lambda>m. m\<lparr>lastTouch := 0\<rparr>) (items (outboundMsgs c))\<rparr>\<rparr>) w
        in map_option (\<lambda>w2. (if connected (client_at k w2) then rc else MQTTASYNC_DISCONNECTED, w2))
             (MQTTProtocol_retry per (async_application per) 0 True True w1))"

definition MQTTAsync_completeConnection ::
    "'z async_scheme persist_api \<Rightarrow> nat \<Rightarrow> connack_packet \<Rightarrow> 'z async_scheme \<Rightarrow> (int \<times> 'z async_scheme) option" where
  "MQTTAsync_completeConnection per h connack w =
     (let k = h_c (handle_at h w); rc = int (unat (ca_rc connack))
      in if connect_state (client_at k w) \<noteq> WAIT_FOR_CONNACK then Some (MQTTASYNC_FAILURE, w)
         else if rc \<noteq> MQTTASYNC_SUCCESS then Some (rc, w)
         else do {
           let w1 = upd_handle h (\<lambda>m. m\<lparr>retrying := False\<rparr>)
                     (upd_client k (\<lambda>c. c\<lparr>connected := True, good := True, connect_state := NOT_IN_PROGRESS\<rparr>) w);
           let c = client_at k w1;
           (rc1, w2) \<leftarrow>
             (if cleansession c \<or> cleanstart c
                 \<or> c_MQTTVersion c \<ge> MQTTVERSION_3_1_1 \<and> \<not> odd (unat (ca_flags connack))
              then MQTTAsync_cleanSession per k w1 else Some (rc, w1));
           resend_inflight per k rc1 w2 })"

text \<open>The address that the application is told it is connected to.\<close>

definition connected_uri :: "nat \<Rightarrow> 'z async_scheme \<Rightarrow> bytes option" where
  "connected_uri h w =
     (let m = handle_at h w; n = currentURI_of (connect m)
      in if onSuccess (connect m)
         then Some (if n < length (serverURIs m) then serverURIs m ! n else serverURI m)
         else if serverURIs m = [] then Some (serverURI m)
         else if n < length (serverURIs m) then Some (serverURIs m ! n) else None)"

definition call_connected :: "nat \<Rightarrow> connack_packet \<Rightarrow> 'z async_scheme \<Rightarrow> 'z async_scheme option" where
  "call_connected h connack w =
     (let cmd = connect (handle_at h w)
      in if \<not> onSuccess cmd \<and> \<not> onSuccess5 cmd then Some w
         else map_option (\<lambda>uri.
           upd_handle h (\<lambda>m. m\<lparr>connect :=
               (if onSuccess cmd then cmd\<lparr>onSuccess := False, onFailure := False\<rparr>
                else cmd\<lparr>onSuccess5 := False, onFailure5 := False\<rparr>)\<rparr>)
             (call_success h cmd 0 (Connect_data uri (version_of cmd) (odd (unat (ca_flags connack)))) w))
           (connected_uri h w))"

abbreviation (input) RECEIVE_MAXIMUM :: nat where "RECEIVE_MAXIMUM \<equiv> 33"

definition limit_inflight :: "nat \<Rightarrow> connack_packet \<Rightarrow> 'z async_scheme \<Rightarrow> 'z async_scheme option" where
  "limit_inflight h connack w =
     (if c_MQTTVersion (handle_client h w) < MQTTVERSION_5 then Some w
      else map_option (\<lambda>props.
        if MQTTProperties_hasProperty props RECEIVE_MAXIMUM
        then upd_handle_client h (\<lambda>c. c\<lparr>maxInflightMessages :=
               min (maxInflightMessages c) (MQTTProperties_getNumericValue props RECEIVE_MAXIMUM)\<rparr>) w
        else w)
        (ca_properties connack))"

definition receive_connack ::
    "'z async_scheme persist_api \<Rightarrow> nat \<Rightarrow> connack_packet \<Rightarrow> 'z async_scheme \<Rightarrow> 'z async_scheme option" where
  "receive_connack per h connack w = do {
     (rc, w1) \<leftarrow> MQTTAsync_completeConnection per h connack w;
     if rc = MQTTASYNC_SUCCESS
     then do {
       w2 \<leftarrow> call_connected h connack w1;
       limit_inflight h connack (if cb_connected (handle_at h w2) then log_event (Is_connected h) w2 else w2) }
     else nextOrClose per h rc w1 }"

text \<open>
  The callback of a subscription. The first return code is read when version 5 reports a success; without
  one the null pointer is followed.
\<close>

definition suback_callback :: "nat \<Rightarrow> command \<Rightarrow> suback_packet \<Rightarrow> 'z async_scheme \<Rightarrow> 'z async_scheme option" where
  "suback_callback h cmd sub w =
     (let qoss = map int (sa_qoss sub);
          success = log_event (Success h (cmd_context cmd) (token cmd) (Sub_data qoss)) w;
          failure = log_event (Failure h (cmd_context cmd) (token cmd) (hd qoss)) w
      in if c_MQTTVersion (handle_client h w) \<ge> MQTTVERSION_5
         then (if length qoss = 1 \<and> hd qoss \<ge> 128 then Some (if onFailure5 cmd then failure else w)
               else if onSuccess5 cmd then (if qoss = [] then None else Some success) else Some w)
         else Some (if length qoss = 1 \<and> hd qoss = 128 then if onFailure cmd then failure else w
                    else if onSuccess cmd then success else w))"

definition receive_suback ::
    "nat \<Rightarrow> suback_packet \<Rightarrow> 'z async_scheme \<Rightarrow> 'z async_scheme option" where
  "receive_suback h sub w = do {
     w2 \<leftarrow> (case take_response h (sa_msgId sub) w of
             (None, w1) \<Rightarrow> Some w1 | (Some q, w1) \<Rightarrow> suback_callback h (q_command q) sub w1);
     map_option snd (MQTTProtocol_handleSubacks (socket (c_net (handle_client h w2))) w2) }"

definition unsuback_callback :: "nat \<Rightarrow> command \<Rightarrow> unsuback_packet \<Rightarrow> 'z async_scheme \<Rightarrow> 'z async_scheme option" where
  "unsuback_callback h cmd unsub w =
     (if onSuccess cmd then Some (call_success h cmd (token cmd) No_data w)
      else if onSuccess5 cmd
      then (case ua_reasonCodes unsub of
              Ptr (c # cs) \<Rightarrow> Some (call_success h cmd (token cmd) (Sub_data (map int (c # cs))) w)
            | _ \<Rightarrow> None)
      else Some w)"

definition receive_unsuback ::
    "nat \<Rightarrow> unsuback_packet \<Rightarrow> 'z async_scheme \<Rightarrow> 'z async_scheme option" where
  "receive_unsuback h unsub w = do {
     w2 \<leftarrow> (case take_response h (ua_msgId unsub) w of
             (None, w1) \<Rightarrow> Some w1 | (Some q, w1) \<Rightarrow> unsuback_callback h (q_command q) unsub w1);
     map_option snd (MQTTProtocol_handleUnsubacks (socket (c_net (handle_client h w2))) w2) }"

definition receive_disconnect ::
    "'z async_scheme persist_api \<Rightarrow> nat \<Rightarrow> ack_packet \<Rightarrow> 'z async_scheme \<Rightarrow> 'z async_scheme option" where
  "receive_disconnect per h disc w = do {
     rc \<leftarrow> map_option (\<lambda>r. int (unat r)) (ack_rc disc);
     let w1 = (if cb_disconnected (handle_at h w) then log_event (Is_disconnected h rc) w else w);
     (_, w2) \<leftarrow> MQTTProtocol_handleDisconnects (socket (c_net (handle_client h w1))) w1;
     nextOrClose per h rc (upd_handle_client h (\<lambda>c. c\<lparr>connected := False\<rparr>) w2) }"

definition receive_packet ::
    "'z async_scheme persist_api \<Rightarrow> nat \<Rightarrow> packet \<Rightarrow> 'z async_scheme \<Rightarrow> 'z async_scheme option" where
  "receive_packet per h pack w =
     (case pack of
        Connack_packet connack \<Rightarrow> receive_connack per h connack w
      | Suback_packet sub \<Rightarrow> receive_suback h sub w
      | Unsuback_packet unsub \<Rightarrow> receive_unsuback h unsub w
      | Ack_packet disc \<Rightarrow> if hdr_type (ack_header disc) = DISCONNECT then receive_disconnect per h disc w else Some w
      | _ \<Rightarrow> Some w)"

text \<open>What the thread does with the result of the cycle.\<close>

definition receive_result ::
    "'z async_scheme persist_api \<Rightarrow> int \<Rightarrow> int \<Rightarrow> packet option \<Rightarrow> 'z async_scheme \<Rightarrow> 'z async_scheme option" where
  "receive_result per sock rc pack w =
     (if sock = 0 then Some w
      else case find_handle (clientSockCompare sock w) w of
        (None, w1) \<Rightarrow> Some w1
      | (Some h, w1) \<Rightarrow>
          if rc = SOCKET_ERROR then nextOrClose per h rc w1
          else
            let w2 = deliver_queued per h w1
            in case pack of None \<Rightarrow> Some w2 | Some p \<Rightarrow> receive_packet per h p w2)"

definition receive_round ::
    "'z async_scheme persist_api \<Rightarrow> 'z async_scheme net_api \<Rightarrow> nat \<Rightarrow> (pollfd list \<Rightarrow> int \<times> pollfd list)
     \<Rightarrow> (pollfd list \<Rightarrow> int \<times> pollfd list) \<Rightarrow> 'z async_scheme \<Rightarrow> 'z async_scheme option" where
  "receive_round per api fuel poll_write poll_read w = do {
     (sock, rc, pack, w1) \<leftarrow> MQTTAsync_cycle per api fuel poll_write poll_read w;
     if tostop w1 then Some (w1\<lparr>receiveThread_state := STOPPED\<rparr>) else receive_result per sock rc pack w1 }"

section \<open>The send thread\<close>

text \<open>Commands are processed until there is none that can be; the loop may not end.\<close>

partial_function (option) process_commands ::
    "'z async_scheme persist_api \<Rightarrow> 'z async_scheme net_api \<Rightarrow> 'z async_scheme \<Rightarrow> 'z async_scheme option" where
  "process_commands per api w =
     (if items (commands w) = [] then Some w
      else do {
        (found, w1) \<leftarrow> MQTTAsync_processCommand per api w;
        if found then process_commands per api w1 else Some w1 })"

definition send_round ::
    "'z async_scheme persist_api \<Rightarrow> 'z async_scheme net_api \<Rightarrow> 'z async_scheme \<Rightarrow> 'z async_scheme option" where
  "send_round per api w = do {
     w1 \<leftarrow> process_commands per api w;
     w2 \<leftarrow> MQTTAsync_checkTimeouts per w1;
     Some (if tostop w2 then w2\<lparr>sendThread_state := STOPPED\<rparr> else w2) }"

section \<open>Starting and stopping\<close>

definition is_active :: "'z async_scheme \<Rightarrow> handle \<Rightarrow> bool" where
  "is_active w m \<longleftrightarrow> connect_state (client_at (h_c m) w) > NOT_IN_PROGRESS \<or> connected (client_at (h_c m) w)"

definition threads_stopped :: "'z async_scheme \<Rightarrow> bool" where
  "threads_stopped w \<longleftrightarrow> sendThread_state w = STOPPED \<and> receiveThread_state w = STOPPED"

text \<open>
  The wait, at most 99 times, for the threads; \<open>others\<close> is what they do in the meantime.
\<close>

fun stop_loop :: "nat \<Rightarrow> ('z async_scheme \<Rightarrow> 'z async_scheme) \<Rightarrow> 'z async_scheme \<Rightarrow> 'z async_scheme" where
  "stop_loop 0 others w = w"
| "stop_loop (Suc n) others w = (if \<not> threads_stopped w \<and> tostop w then stop_loop n others (others w) else w)"

definition MQTTAsync_stop :: "('z async_scheme \<Rightarrow> 'z async_scheme) \<Rightarrow> 'z async_scheme \<Rightarrow> 'z async_scheme" where
  "MQTTAsync_stop others w =
     (if \<not> threads_stopped w \<and> (\<forall>m \<in> set (items (handles w)). \<not> is_active w m)
      then (stop_loop 99 others (w\<lparr>tostop := True\<rparr>))\<lparr>tostop := False\<rparr>
      else w)"

text \<open>What is freed is empty afterwards; the trace is not part of the state.\<close>

definition MQTTAsync_terminate :: "('z async_scheme \<Rightarrow> 'z async_scheme) \<Rightarrow> 'z async_scheme \<Rightarrow> 'z async_scheme" where
  "MQTTAsync_terminate others w =
     (let w1 = MQTTAsync_stop others w
      in if global_initialized w1 \<and> items (clients w1) = []
         then WebSocket_terminate (w1\<lparr>handles := l_empty, commands := l_empty, global_initialized := False\<rparr>)
         else w1)"

end
