(* ===== verification/AsyncApi.thy ===== *)
theory AsyncApi
  imports AsyncThreads Utf8
begin

text \<open>
  The functions of the asynchronous client that an application calls, \<open>MqttC/MQTTAsync.c\<close>, in the variants
  without \<open>OPENSSL\<close>.

  A handle is the position of its structure. Callbacks are given by whether they are set, and contexts by
  numbers; the structures of options hold their eyecatchers. A string is copied up to its NUL. \<open>None\<close> is
  undefined behaviour, such as following a null pointer, or a loop that does not end.
\<close>

section \<open>Creating a client\<close>

definition known_scheme :: "bytes \<Rightarrow> bool" where
  "known_scheme uri \<longleftrightarrow> has_stem URI_TCP uri \<or> has_stem URI_MQTT uri \<or> has_stem URI_WS uri"

text \<open>The checks of the arguments; the options are the eyecatcher and the other fields.\<close>

definition create_error :: "bytes cptr \<Rightarrow> bytes cptr \<Rightarrow> int \<Rightarrow> (bytes \<times> create_options) cptr \<Rightarrow> int" where
  "create_error uri client_id persistence_type options =
     (case (uri, client_id) of
        (Ptr u, Ptr c) \<Rightarrow>
          if \<not> MQTT_UTF8_validateString (Ptr c) then MQTTASYNC_BAD_UTF8_STRING
          else if cstr c = [] \<and> persistence_type = MQTTCLIENT_PERSISTENCE_DEFAULT then MQTTASYNC_PERSISTENCE_ERROR
          else if contains (ascii ''://'') (cstr u) \<and> \<not> known_scheme u then MQTTASYNC_BAD_PROTOCOL
          else (case options of
                  NULL \<Rightarrow> MQTTASYNC_SUCCESS
                | Ptr (struct_id, opts) \<Rightarrow>
                    if maxBufferedMessages opts \<le> 0 then MQTTASYNC_MAX_BUFFERED
                    else if struct_id \<noteq> ascii ''MQCO'' \<or> co_struct_version opts < 0 \<or> co_struct_version opts > 2
                    then MQTTASYNC_BAD_STRUCTURE else MQTTASYNC_SUCCESS)
      | _ \<Rightarrow> MQTTASYNC_NULL_PARAMETER)"

definition initialize_library :: "'z async_scheme \<Rightarrow> 'z async_scheme" where
  "initialize_library w =
     (if global_initialized w then w
      else (Socket_outInitialize (w\<lparr>clients := l_empty\<rparr>))
             \<lparr>handles := l_empty, commands := l_empty, global_initialized := True\<rparr>)"

text \<open>Structures that are cleared, with their strings and empty lists.\<close>

definition cleared_client :: "bytes \<Rightarrow> client" where
  "cleared_client client_id =
     \<lparr>clientID = cstr client_id, username = NULL, password = NULL, cleansession = False, cleanstart = False,
      connected = False, good = False, ping_outstanding = False, ping_due = False, connect_state = 0, ping_due_time = 0,
      c_net = \<lparr>socket = 0, lastSent = 0, lastReceived = 0, lastPing = 0, http_proxy = NULL, http_proxy_auth = NULL,
        websocket = False, websocket_key = NULL, httpHeaders = NULL\<rparr>,
      msgID = 0, keepAliveInterval = 0, retryInterval = 0, maxInflightMessages = 0, c_will = NULL, inboundMsgs = l_empty,
      outboundMsgs = l_empty, connect_count = 0, connect_sent = 0, messageQueue = l_empty, outboundQueue = l_empty,
      qentry_seqno = 0, phandle = [], persistence = False, beforeWrite = False, afterRead = False,
      c_MQTTVersion = MQTTVERSION_DEFAULT, sessionExpiry = 0, httpProxy = NULL, httpsProxy = NULL\<rparr>"

definition cleared_handle :: "nat \<Rightarrow> bytes \<Rightarrow> bool \<Rightarrow> handle" where
  "cleared_handle k uri ws =
     \<lparr>serverURI = uri, h_websocket = ws, h_c = k, cb_connectionLost = False, cb_messageArrived = False,
      cb_deliveryComplete = False, cb_connected = False, cb_disconnected = False, updateConnectOptions = None,
      connect = no_command, disconnect = no_command, pending_write = NULL, responses = l_empty, command_seqno = 0,
      createOptions = NULL, shouldBeConnected = False, noBufferedMessages = 0, automaticReconnect = False,
      minRetryInterval = 0, maxRetryInterval = 0, serverURIs = [], connectTimeout = 0, currentInterval = 0,
      currentIntervalBase = 0, lastConnectionFailedTime = 0, retrying = False, reconnectNow = False,
      connectProps = NULL, willProps = NULL\<rparr>"

text \<open>
  The handle and its client. The client is appended to \<open>bstate->clients\<close> at the end of the function, which
  nothing before searches; here it is there from the beginning.
\<close>

definition new_client ::
    "bytes \<Rightarrow> bytes \<Rightarrow> create_options cptr \<Rightarrow> 'z async_scheme \<Rightarrow> nat \<times> 'z async_scheme" where
  "new_client uri client_id options w =
     (let k = length (items (clients w)); h = length (items (handles w));
          (address, ws) = strip_scheme (cstr uri);
          version = (case options of NULL \<Rightarrow> MQTTVERSION_DEFAULT
                     | Ptr opts \<Rightarrow> if co_struct_version opts > 0 then co_MQTTVersion opts else MQTTVERSION_DEFAULT)
      in (h, w\<lparr>clients := l_append (clients w) (cleared_client client_id\<lparr>c_MQTTVersion := version\<rparr>),
               handles := l_append (handles w) (cleared_handle k address ws\<lparr>createOptions := options\<rparr>)\<rparr>))"

text \<open>Messages and commands are restored, unless the options say that they are dropped.\<close>

definition restore_client ::
    "'z async_scheme persist_api \<Rightarrow> nat \<Rightarrow> 'z async_scheme \<Rightarrow> (int \<times> 'z async_scheme) option" where
  "restore_client per h w = do {
     let k = h_c (handle_at h w);
     (rc, w1) \<leftarrow> MQTTPersistence_initialize per k (serverURI (handle_at h w)) w;
     let drop_all = (case createOptions (handle_at h w1) of
                NULL \<Rightarrow> False | Ptr opts \<Rightarrow> co_struct_version opts \<ge> 2 \<and> \<not> restoreMessages opts);
     if rc \<noteq> 0 then Some (rc, w1)
     else if drop_all then Some (rc, snd (MQTTAsync_unpersistCommandsAndMessages per k w1))
     else do {
       (_, w2) \<leftarrow> MQTTAsync_restoreCommands per h w1;
       (_, w3) \<leftarrow> MQTTPersistence_restoreMessageQueue per k w2;
       Some (rc, w3) } }"

text \<open>The code, the handle, the store of the client and the state.\<close>

definition MQTTAsync_createWithOptions ::
    "bytes cptr \<Rightarrow> bytes cptr \<Rightarrow> int \<Rightarrow> 'z async_scheme persist_context \<Rightarrow> (bytes \<times> create_options) cptr
     \<Rightarrow> 'z async_scheme \<Rightarrow> (int \<times> nat cptr \<times> 'z async_scheme persist_api cptr \<times> 'z async_scheme) option" where
  "MQTTAsync_createWithOptions uri client_id persistence_type persistence_context options w =
     (case (create_error uri client_id persistence_type options, uri, client_id) of
        (rc, Ptr u, Ptr c) \<Rightarrow>
          if rc \<noteq> MQTTASYNC_SUCCESS then Some (rc, NULL, NULL, w)
          else do {
            let opts = (case options of NULL \<Rightarrow> NULL | Ptr (_, opts) \<Rightarrow> Ptr opts);
            let (h, w1) = new_client u c opts (initialize_library w);
            (rc1, store) \<leftarrow> MQTTPersistence_create persistence_type persistence_context;
            let w2 = upd_handle_client h (\<lambda>c. c\<lparr>persistence := store \<noteq> NULL\<rparr>) w1;
            (rc2, w3) \<leftarrow> (case store of
                 Ptr per \<Rightarrow> if rc1 = 0 then restore_client per h w2 else Some (rc1, w2)
               | NULL \<Rightarrow> Some (rc1, w2));
            Some (rc2, Ptr h, store, w3) }
      | (rc, _) \<Rightarrow> Some (rc, NULL, NULL, w))"

definition MQTTAsync_create ::
    "bytes cptr \<Rightarrow> bytes cptr \<Rightarrow> int \<Rightarrow> 'z async_scheme persist_context \<Rightarrow> 'z async_scheme
     \<Rightarrow> (int \<times> nat cptr \<times> 'z async_scheme persist_api cptr \<times> 'z async_scheme) option" where
  "MQTTAsync_create uri client_id persistence_type persistence_context w =
     MQTTAsync_createWithOptions uri client_id persistence_type persistence_context NULL w"

section \<open>Destroying a client\<close>

text \<open>Removing a structure from its list moves the positions behind it; the references follow.\<close>

definition shifted :: "nat \<Rightarrow> nat \<Rightarrow> nat" where
  "shifted gone i = (if i > gone then i - 1 else i)"

definition remove_client :: "nat \<Rightarrow> 'z async_scheme \<Rightarrow> 'z async_scheme" where
  "remove_client k w =
     w\<lparr>clients := l_remove_at k (clients w),
       handles := (handles w)\<lparr>items := map (\<lambda>m. m\<lparr>h_c := shifted k (h_c m)\<rparr>) (items (handles w))\<rparr>\<rparr>"

definition shift_queued :: "nat \<Rightarrow> queued \<Rightarrow> queued" where
  "shift_queued h q = q\<lparr>q_client := shifted h (q_client q)\<rparr>"

definition remove_handle :: "nat \<Rightarrow> 'z async_scheme \<Rightarrow> 'z async_scheme" where
  "remove_handle h w =
     (let l = l_remove_at h (handles w)
      in w\<lparr>handles := l\<lparr>items := map (\<lambda>m. m\<lparr>responses := (responses m)
             \<lparr>items := map (shift_queued h) (items (responses m))\<rparr>\<rparr>) (items l)\<rparr>,
           commands := (commands w)\<lparr>items := map (shift_queued h) (items (commands w))\<rparr>\<rparr>)"

text \<open>\<open>others\<close> is what the threads do while \<open>MQTTAsync_stop\<close> waits for them.\<close>

definition MQTTAsync_destroy ::
    "'z async_scheme persist_api \<Rightarrow> ('z async_scheme \<Rightarrow> 'z async_scheme) \<Rightarrow> nat cptr \<Rightarrow> 'z async_scheme
     \<Rightarrow> 'z async_scheme option" where
  "MQTTAsync_destroy per others handle w =
     (case handle of
        NULL \<Rightarrow> Some w
      | Ptr h \<Rightarrow> do {
          let k = h_c (handle_at h w);
          w1 \<leftarrow> MQTTAsync_closeSession per k 0 NULL w;
          let w2 = MQTTAsync_freeResponses h (MQTTAsync_NULLPublishResponses h w1);
          let w3 = MQTTAsync_freeCommands h (MQTTAsync_NULLPublishCommands h w2);
          let w4 = MQTTAsync_emptyMessageQueue k (snd (MQTTPersistence_close per k w3));
          w5 \<leftarrow> MQTTProtocol_freeClient k w4;
          let w6 = remove_handle h (remove_client k w5);
          Some (if items (clients w6) = [] then MQTTAsync_terminate others w6 else w6) })"

section \<open>Connecting\<close>

record will_options =
  wo_struct_id :: bytes
  wo_struct_version :: int
  wo_topicName :: "bytes cptr"
  wo_message :: "bytes cptr"
  wo_retained :: bool
  wo_qos :: int
  wo_payload :: "bytes cptr"

text \<open>Of the options for TLS the eyecatcher and the version are left.\<close>

record connect_options =
  cn_struct_id :: bytes
  cn_struct_version :: int
  cn_keepAliveInterval :: int
  cn_cleansession :: bool
  cn_maxInflight :: int
  cn_will :: "will_options cptr"
  cn_username :: "bytes cptr"
  cn_password :: "bytes cptr"
  cn_connectTimeout :: int
  cn_retryInterval :: int
  cn_ssl :: "(bytes \<times> int) cptr"
  cn_onSuccess :: bool
  cn_onFailure :: bool
  cn_context :: nat
  cn_serverURIs :: "bytes list"
  cn_MQTTVersion :: int
  cn_automaticReconnect :: bool
  cn_minRetryInterval :: int
  cn_maxRetryInterval :: int
  cn_binarypwd :: "bytes cptr"
  cn_cleanstart :: bool
  cn_connectProperties :: "mprops cptr"
  cn_willProperties :: "mprops cptr"
  cn_onSuccess5 :: bool
  cn_onFailure5 :: bool
  cn_httpHeaders :: "(bytes \<times> bytes) list cptr"
  cn_httpProxy :: "bytes cptr"
  cn_httpsProxy :: "bytes cptr"

definition will_error :: "will_options \<Rightarrow> int" where
  "will_error wo =
     (if wo_struct_id wo \<noteq> ascii ''MQTW'' \<or> wo_struct_version wo \<notin> {0, 1} then MQTTASYNC_BAD_STRUCTURE
      else if wo_qos wo < 0 \<or> wo_qos wo > 2 then MQTTASYNC_BAD_QOS
      else case wo_topicName wo of
        NULL \<Rightarrow> MQTTASYNC_NULL_PARAMETER
      | Ptr t \<Rightarrow> if cstr t = [] then MQTTASYNC_0_LEN_WILL_TOPIC else MQTTASYNC_SUCCESS)"

definition bad_string :: "bytes cptr \<Rightarrow> bool" where
  "bad_string s \<longleftrightarrow> s \<noteq> NULL \<and> \<not> MQTT_UTF8_validateString s"

text \<open>The checks of the options, in their order.\<close>

definition version_error :: "client \<Rightarrow> connect_options \<Rightarrow> int" where
  "version_error c o1 =
     (let v5 = (cn_MQTTVersion o1 \<ge> MQTTVERSION_5)
      in if v5 \<and> c_MQTTVersion c < MQTTVERSION_5 then MQTTASYNC_WRONG_MQTT_VERSION
         else if bad_string (cn_username o1) \<or> bad_string (cn_password o1) then MQTTASYNC_BAD_UTF8_STRING
         else if v5 \<and> cn_struct_version o1 < 6 then MQTTASYNC_BAD_STRUCTURE
         else if v5 \<and> cn_cleansession o1 then MQTTASYNC_BAD_MQTT_OPTION
         else if \<not> v5 \<and> cn_struct_version o1 \<ge> 6
                 \<and> (cn_cleanstart o1 \<or> cn_onFailure5 o1 \<or> cn_onSuccess5 o1
                    \<or> cn_connectProperties o1 \<noteq> NULL \<or> cn_willProperties o1 \<noteq> NULL)
         then MQTTASYNC_BAD_MQTT_OPTION
         else MQTTASYNC_SUCCESS)"

definition connect_error :: "client \<Rightarrow> connect_options cptr \<Rightarrow> int" where
  "connect_error c options =
     (case options of
        NULL \<Rightarrow> MQTTASYNC_NULL_PARAMETER
      | Ptr o1 \<Rightarrow>
          if cn_struct_id o1 \<noteq> ascii ''MQTC'' \<or> cn_struct_version o1 < 0 \<or> cn_struct_version o1 > 8
          then MQTTASYNC_BAD_STRUCTURE
          else case (case cn_will o1 of NULL \<Rightarrow> MQTTASYNC_SUCCESS | Ptr wo \<Rightarrow> will_error wo) of rc \<Rightarrow>
            if rc \<noteq> MQTTASYNC_SUCCESS then rc
            else case (if cn_struct_version o1 = 0 then NULL else cn_ssl o1) of
                   Ptr (struct_id, version) \<Rightarrow>
                     if struct_id \<noteq> ascii ''MQTS'' \<or> version < 0 \<or> version > 5 then MQTTASYNC_BAD_STRUCTURE
                     else version_error c o1
                 | NULL \<Rightarrow> version_error c o1)"

text \<open>The callbacks are set, and the threads are started unless they are running.\<close>

definition started :: "thread_state \<Rightarrow> thread_state" where
  "started s = (if s = STARTING \<or> s = RUNNING then s else STARTING)"

definition start_threads :: "'z async_scheme \<Rightarrow> 'z async_scheme" where
  "start_threads w =
     w\<lparr>tostop := False, sendThread_state := started (sendThread_state w),
       receiveThread_state := started (receiveThread_state w)\<rparr>"

definition connect_callbacks :: "connect_options \<Rightarrow> command \<Rightarrow> command" where
  "connect_callbacks o1 cmd =
     (let cmd1 = cmd\<lparr>onSuccess := cn_onSuccess o1, onFailure := cn_onFailure o1, cmd_context := cn_context o1\<rparr>
      in if cn_struct_version o1 \<ge> 6 then cmd1\<lparr>onSuccess5 := cn_onSuccess5 o1, onFailure5 := cn_onFailure5 o1\<rparr> else cmd1)"

text \<open>The copy of the will; its payload is binary data, or the string of an older application.\<close>

definition will_of :: "will_options \<Rightarrow> will_message" where
  "will_of wo =
     \<lparr>w_topic = (case wo_topicName wo of NULL \<Rightarrow> [] | Ptr t \<Rightarrow> cstr t),
      w_payload = (case (if wo_struct_version wo = 1 then wo_payload wo else NULL) of
                     Ptr p \<Rightarrow> p
                   | NULL \<Rightarrow> (case wo_message wo of NULL \<Rightarrow> [] | Ptr m \<Rightarrow> cstr m)),
      w_retained = wo_retained wo, w_qos = nat (wo_qos wo)\<rparr>"

definition copied :: "bytes cptr \<Rightarrow> bytes cptr" where
  "copied s = (case s of NULL \<Rightarrow> NULL | Ptr t \<Rightarrow> Ptr (cstr t))"

text \<open>What is set before the options for TLS are refused.\<close>

definition set_client_options :: "connect_options \<Rightarrow> client \<Rightarrow> client" where
  "set_client_options o1 c =
     (let v = cn_struct_version o1;
          c1 = c\<lparr>keepAliveInterval := cn_keepAliveInterval o1, cleansession := cn_cleansession o1,
                 maxInflightMessages := cn_maxInflight o1,
                 c_MQTTVersion := (if v \<ge> 3 then cn_MQTTVersion o1 else MQTTVERSION_DEFAULT),
                 c_will := (case cn_will o1 of NULL \<Rightarrow> NULL | Ptr wo \<Rightarrow> Ptr (will_of wo))\<rparr>;
          c2 = (if v \<ge> 7 then c1\<lparr>c_net := (c_net c1)\<lparr>httpHeaders := cn_httpHeaders o1\<rparr>\<rparr> else c1)
      in if v \<ge> 8
         then c2\<lparr>httpProxy := (if cn_httpProxy o1 = NULL then httpProxy c2 else copied (cn_httpProxy o1)),
                 httpsProxy := (if cn_httpsProxy o1 = NULL then httpsProxy c2 else copied (cn_httpsProxy o1))\<rparr>
         else c2)"

definition set_retry_options :: "connect_options \<Rightarrow> handle \<Rightarrow> handle" where
  "set_retry_options o1 m =
     (if cn_struct_version o1 \<ge> 4
      then m\<lparr>automaticReconnect := cn_automaticReconnect o1, minRetryInterval := cn_minRetryInterval o1,
             maxRetryInterval := cn_maxRetryInterval o1\<rparr>
      else m)"

text \<open>What is set after that. The strings of the addresses may still have their schemes.\<close>

definition set_credentials :: "connect_options \<Rightarrow> client \<Rightarrow> client" where
  "set_credentials o1 c =
     c\<lparr>username := copied (cn_username o1),
       password := (if cn_password o1 \<noteq> NULL then copied (cn_password o1)
                    else if cn_struct_version o1 \<ge> 5 then cn_binarypwd o1 else NULL),
       retryInterval := cn_retryInterval o1\<rparr>"

definition set_handle_options :: "connect_options \<Rightarrow> handle \<Rightarrow> handle" where
  "set_handle_options o1 m =
     m\<lparr>shouldBeConnected := True, connectTimeout := cn_connectTimeout o1,
       serverURIs := (if cn_struct_version o1 \<ge> 2 then map cstr (cn_serverURIs o1) else []),
       connectProps := (if cn_struct_version o1 \<ge> 6 then map_cptr MQTTProperties_copy (cn_connectProperties o1) else NULL),
       willProps := (if cn_struct_version o1 \<ge> 6 then map_cptr MQTTProperties_copy (cn_willProperties o1) else NULL)\<rparr>"

abbreviation (input) SESSION_EXPIRY_INTERVAL :: nat where "SESSION_EXPIRY_INTERVAL \<equiv> 17"

definition set_session_options :: "connect_options \<Rightarrow> client \<Rightarrow> client" where
  "set_session_options o1 c =
     (if cn_struct_version o1 < 6 then c
      else
        let c1 = c\<lparr>cleanstart := cn_cleanstart o1\<rparr>
        in case cn_connectProperties o1 of
             NULL \<Rightarrow> c1
           | Ptr props \<Rightarrow>
               if MQTTProperties_hasProperty props SESSION_EXPIRY_INTERVAL
               then c1\<lparr>sessionExpiry := MQTTProperties_getNumericValue props SESSION_EXPIRY_INTERVAL\<rparr> else c1)"

definition connect_command :: "connect_options \<Rightarrow> command" where
  "connect_command o1 =
     no_command\<lparr>cmd_type := CONNECT, onSuccess := cn_onSuccess o1, onFailure := cn_onFailure o1,
                onSuccess5 := cn_onSuccess5 o1, onFailure5 := cn_onFailure5 o1, cmd_context := cn_context o1,
                details := Conn 0 0\<rparr>"

definition MQTTAsync_connect ::
    "'z async_scheme persist_api \<Rightarrow> nat \<Rightarrow> connect_options cptr \<Rightarrow> 'z async_scheme \<Rightarrow> (int \<times> 'z async_scheme) option" where
  "MQTTAsync_connect per h options w =
     (case (connect_error (handle_client h w) options, options) of
        (rc, Ptr o1) \<Rightarrow>
          if rc \<noteq> MQTTASYNC_SUCCESS then Some (rc, w)
          else
            let w1 = start_threads (upd_handle h (\<lambda>m. m\<lparr>connect := connect_callbacks o1 (connect m),
                                                       connectTimeout := cn_connectTimeout o1\<rparr>) w);
                w2 = setRetryLoopInterval (cn_keepAliveInterval o1) w1;
                w3 = upd_handle h (set_retry_options o1) (upd_handle_client h (set_client_options o1) w2)
            in if cn_struct_version o1 \<noteq> 0 \<and> cn_ssl o1 \<noteq> NULL then Some (MQTTASYNC_SSL_NOT_SUPPORTED, w3)
               else
                 let w4 = upd_handle_client h (set_session_options o1 \<circ> set_credentials o1) w3;
                     (conn, w5) = new_command h (connect_command o1) (upd_handle h (set_handle_options o1) w4)
                 in MQTTAsync_addCommand per conn w5
      | (rc, NULL) \<Rightarrow> Some (rc, w))"

definition MQTTAsync_reconnect ::
    "'z async_scheme persist_api \<Rightarrow> nat \<Rightarrow> 'z async_scheme \<Rightarrow> (int \<times> 'z async_scheme) option" where
  "MQTTAsync_reconnect per h w =
     (let m = handle_at h w
      in if automaticReconnect m
         then Some (if shouldBeConnected m
                    then (MQTTASYNC_SUCCESS, upd_handle h (\<lambda>m. m\<lparr>reconnectNow := True,
                            currentIntervalBase := minRetryInterval m, currentInterval := minRetryInterval m,
                            retrying := True\<rparr>) w)
                    else (MQTTASYNC_FAILURE, w))
         else
           let cmd = connect m;
               cmd1 = (if c_MQTTVersion (handle_client h w) = MQTTVERSION_DEFAULT then set_conn (currentURI_of cmd) 0 cmd else cmd)
           in case new_command h cmd1 w of (conn, w1) \<Rightarrow> MQTTAsync_addCommand per conn w1)"

section \<open>Requests\<close>

record response_options =
  ro_struct_version :: int
  ro_onSuccess :: bool
  ro_onFailure :: bool
  ro_context :: nat
  ro_token :: int
  ro_onSuccess5 :: bool
  ro_onFailure5 :: bool
  ro_properties :: mprops
  ro_subscribeOptions :: subscribe_options
  ro_subscribeOptionsList :: "subscribe_options list"

text \<open>
  The rounds of the search for an identifier that go through all of them: a search that takes longer
  does not end.
\<close>

abbreviation (input) ALL_IDS :: nat where "ALL_IDS \<equiv> 65536"

text \<open>The callbacks must be those of the version.\<close>

definition response_error :: "int \<Rightarrow> response_options cptr \<Rightarrow> int" where
  "response_error MQTTVersion response =
     (case response of
        NULL \<Rightarrow> MQTTASYNC_SUCCESS
      | Ptr r \<Rightarrow>
          if (if MQTTVersion \<ge> MQTTVERSION_5 then ro_struct_version r = 0 \<or> ro_onFailure r \<or> ro_onSuccess r
              else ro_struct_version r \<ge> 1 \<and> (ro_onFailure5 r \<or> ro_onSuccess5 r))
          then MQTTASYNC_BAD_MQTT_OPTION else MQTTASYNC_SUCCESS)"

text \<open>A command with the callbacks of the response, which gets the token.\<close>

definition response_command :: "int \<Rightarrow> response_options cptr \<Rightarrow> int \<Rightarrow> nat \<Rightarrow> details \<Rightarrow> command" where
  "response_command MQTTVersion response msgid type d =
     (let cmd = no_command\<lparr>cmd_type := type, token := msgid, details := d\<rparr>
      in case response of
           NULL \<Rightarrow> cmd
         | Ptr r \<Rightarrow>
             cmd\<lparr>onSuccess := ro_onSuccess r, onFailure := ro_onFailure r, onSuccess5 := ro_onSuccess5 r,
                 onFailure5 := ro_onFailure5 r, cmd_context := ro_context r,
                 cmd_properties := (if MQTTVersion \<ge> MQTTVERSION_5 then MQTTProperties_copy (ro_properties r)
                                    else MQTTProperties_initializer)\<rparr>)"

definition set_token :: "int \<Rightarrow> response_options cptr \<Rightarrow> response_options cptr" where
  "set_token msgid response = map_cptr (\<lambda>r. r\<lparr>ro_token := msgid\<rparr>) response"

text \<open>The first topic, or QoS, that is not valid decides; a list of QoSs that is too short is overrun.\<close>

fun topics_error :: "bytes cptr list \<Rightarrow> int list \<Rightarrow> int option" where
  "topics_error [] qos = Some MQTTASYNC_SUCCESS"
| "topics_error (t # ts) qos =
     (if \<not> MQTT_UTF8_validateString t then Some MQTTASYNC_BAD_UTF8_STRING
      else case qos of
        [] \<Rightarrow> None
      | q # qs \<Rightarrow> if q < 0 \<or> q > 2 then Some MQTTASYNC_BAD_QOS else topics_error ts qs)"

definition string_of :: "bytes cptr \<Rightarrow> bytes" where
  "string_of s = (case s of NULL \<Rightarrow> [] | Ptr t \<Rightarrow> cstr t)"

text \<open>Version 5 with more than one topic reads the response also when there is none.\<close>

definition option_count_error :: "int \<Rightarrow> nat \<Rightarrow> response_options cptr \<Rightarrow> bool option" where
  "option_count_error MQTTVersion n response =
     (if MQTTVersion \<ge> MQTTVERSION_5 \<and> n > 1
      then (case response of
              NULL \<Rightarrow> None
            | Ptr r \<Rightarrow> let m = length (ro_subscribeOptionsList r) in Some (n \<noteq> m \<and> m \<noteq> 0))
      else Some False)"

definition subscribe_details :: "int \<Rightarrow> bytes list \<Rightarrow> int list \<Rightarrow> response_options cptr \<Rightarrow> details" where
  "subscribe_details MQTTVersion topics qos response =
     (case (if MQTTVersion \<ge> MQTTVERSION_5 then response else NULL) of
        NULL \<Rightarrow> Sub topics qos no_options NULL
      | Ptr r \<Rightarrow>
          let n = length topics; given = ro_subscribeOptionsList r
          in Sub topics qos (ro_subscribeOptions r)
               (if n > 1 then Ptr (if given = [] then replicate n no_options else take n given) else NULL))"

text \<open>The code, the response with its token, and the state.\<close>

definition MQTTAsync_subscribeMany ::
    "'z async_scheme persist_api \<Rightarrow> nat cptr \<Rightarrow> bytes cptr list \<Rightarrow> int list \<Rightarrow> response_options cptr \<Rightarrow> 'z async_scheme
     \<Rightarrow> (int \<times> response_options cptr \<times> 'z async_scheme) option" where
  "MQTTAsync_subscribeMany per handle topic qos response w =
     (case handle of
        NULL \<Rightarrow> Some (MQTTASYNC_FAILURE, response, w)
      | Ptr h \<Rightarrow>
          if \<not> connected (handle_client h w) then Some (MQTTASYNC_DISCONNECTED, response, w)
          else do {
            rc \<leftarrow> topics_error topic qos;
            if rc \<noteq> MQTTASYNC_SUCCESS then Some (rc, response, w)
            else do {
              let v = c_MQTTVersion (handle_client h w);
              (msgid, w1) \<leftarrow> MQTTAsync_assignMsgId ALL_IDS h w;
              if msgid = 0 then Some (MQTTASYNC_NO_MORE_MSGIDS, response, w1)
              else do {
                bad \<leftarrow> option_count_error v (length topic) response;
                if bad \<or> response_error v response \<noteq> MQTTASYNC_SUCCESS then Some (MQTTASYNC_BAD_MQTT_OPTION, response, w1)
                else do {
                  let cmd = response_command v response msgid SUBSCRIBE
                              (subscribe_details v (map string_of topic) (take (length topic) qos) response);
                  let (sub, w2) = new_command h cmd w1;
                  (rc1, w3) \<leftarrow> MQTTAsync_addCommand per sub w2;
                  Some (rc1, set_token msgid response, w3) } } } })"

definition MQTTAsync_subscribe ::
    "'z async_scheme persist_api \<Rightarrow> nat cptr \<Rightarrow> bytes cptr \<Rightarrow> int \<Rightarrow> response_options cptr \<Rightarrow> 'z async_scheme
     \<Rightarrow> (int \<times> response_options cptr \<times> 'z async_scheme) option" where
  "MQTTAsync_subscribe per handle topic qos response w = MQTTAsync_subscribeMany per handle [topic] [qos] response w"

definition MQTTAsync_unsubscribeMany ::
    "'z async_scheme persist_api \<Rightarrow> nat cptr \<Rightarrow> bytes cptr list \<Rightarrow> response_options cptr \<Rightarrow> 'z async_scheme
     \<Rightarrow> (int \<times> response_options cptr \<times> 'z async_scheme) option" where
  "MQTTAsync_unsubscribeMany per handle topic response w =
     (case handle of
        NULL \<Rightarrow> Some (MQTTASYNC_FAILURE, response, w)
      | Ptr h \<Rightarrow>
          if \<not> connected (handle_client h w) then Some (MQTTASYNC_DISCONNECTED, response, w)
          else if \<not> list_all MQTT_UTF8_validateString topic then Some (MQTTASYNC_BAD_UTF8_STRING, response, w)
          else do {
            let v = c_MQTTVersion (handle_client h w);
            (msgid, w1) \<leftarrow> MQTTAsync_assignMsgId ALL_IDS h w;
            if msgid = 0 then Some (MQTTASYNC_NO_MORE_MSGIDS, response, w1)
            else if response_error v response \<noteq> MQTTASYNC_SUCCESS then Some (MQTTASYNC_BAD_MQTT_OPTION, response, w1)
            else do {
              let cmd = response_command v response msgid UNSUBSCRIBE (Unsub (map string_of topic));
              let (unsub, w2) = new_command h cmd w1;
              (rc1, w3) \<leftarrow> MQTTAsync_addCommand per unsub w2;
              Some (rc1, set_token msgid response, w3) } })"

definition MQTTAsync_unsubscribe ::
    "'z async_scheme persist_api \<Rightarrow> nat cptr \<Rightarrow> bytes cptr \<Rightarrow> response_options cptr \<Rightarrow> 'z async_scheme
     \<Rightarrow> (int \<times> response_options cptr \<times> 'z async_scheme) option" where
  "MQTTAsync_unsubscribe per handle topic response w = MQTTAsync_unsubscribeMany per handle [topic] response w"

text \<open>Whether a publication is taken while there is no connection.\<close>

definition may_send :: "nat \<Rightarrow> 'z async_scheme \<Rightarrow> bool" where
  "may_send h w \<longleftrightarrow>
     connected (handle_client h w)
     \<or> (case createOptions (handle_at h w) of
          NULL \<Rightarrow> False
        | Ptr opts \<Rightarrow> sendWhileDisconnected opts
            \<and> (shouldBeConnected (handle_at h w)
               \<or> co_struct_version opts \<ge> 2 \<and> allowDisconnectedSendAtAnyTime opts))"

definition refuses_more :: "nat \<Rightarrow> 'z async_scheme \<Rightarrow> bool" where
  "refuses_more h w =
     (case createOptions (handle_at h w) of
        NULL \<Rightarrow> False
      | Ptr opts \<Rightarrow> (co_struct_version opts < 2 \<or> \<not> deleteOldestMessages opts)
                    \<and> MQTTAsync_getNoBufferedMessages h w \<ge> maxBufferedMessages opts)"

text \<open>A message of QoS 0 has no identifier.\<close>

definition send_msgid :: "int \<Rightarrow> nat \<Rightarrow> 'z async_scheme \<Rightarrow> (int \<times> 'z async_scheme) option" where
  "send_msgid qos h w = (if qos > 0 then MQTTAsync_assignMsgId ALL_IDS h w else Some (0, w))"

definition MQTTAsync_send ::
    "'z async_scheme persist_api \<Rightarrow> nat cptr \<Rightarrow> bytes cptr \<Rightarrow> bytes \<Rightarrow> int \<Rightarrow> bool \<Rightarrow> response_options cptr
     \<Rightarrow> 'z async_scheme \<Rightarrow> (int \<times> response_options cptr \<times> 'z async_scheme) option" where
  "MQTTAsync_send per handle topic payload qos retained response w =
     (case handle of
        NULL \<Rightarrow> Some (MQTTASYNC_FAILURE, response, w)
      | Ptr h \<Rightarrow>
          if \<not> may_send h w then Some (MQTTASYNC_DISCONNECTED, response, w)
          else if \<not> MQTT_UTF8_validateString topic then Some (MQTTASYNC_BAD_UTF8_STRING, response, w)
          else if qos < 0 \<or> qos > 2 then Some (MQTTASYNC_BAD_QOS, response, w)
          else do {
            let v = c_MQTTVersion (handle_client h w);
            (msgid, w1) \<leftarrow> send_msgid qos h w;
            if qos > 0 \<and> msgid = 0 then Some (MQTTASYNC_NO_MORE_MSGIDS, response, w1)
            else if refuses_more h w1 then Some (MQTTASYNC_MAX_BUFFERED_MESSAGES, response, w1)
            else if response_error v response \<noteq> MQTTASYNC_SUCCESS then Some (MQTTASYNC_BAD_MQTT_OPTION, response, w1)
            else do {
              let cmd = response_command v response msgid PUBLISH
                          (Pub (Ptr (string_of topic)) (length payload) (Ptr payload) (nat qos) retained);
              let (pub, w2) = new_command h cmd w1;
              (rc1, w3) \<leftarrow> MQTTAsync_addCommand per pub w2;
              Some (rc1, set_token msgid response, w3) } })"

text \<open>The message is its eyecatcher and the other fields.\<close>

definition MQTTAsync_sendMessage ::
    "'z async_scheme persist_api \<Rightarrow> nat \<Rightarrow> bytes cptr \<Rightarrow> (bytes \<times> pers_message) cptr \<Rightarrow> response_options cptr
     \<Rightarrow> 'z async_scheme \<Rightarrow> (int \<times> response_options cptr \<times> 'z async_scheme) option" where
  "MQTTAsync_sendMessage per h topic message response w =
     (case message of
        NULL \<Rightarrow> Some (MQTTASYNC_NULL_PARAMETER, response, w)
      | Ptr (struct_id, mm) \<Rightarrow>
          if struct_id \<noteq> ascii ''MQTM'' \<or> struct_version mm \<notin> {0, 1} then Some (MQTTASYNC_BAD_STRUCTURE, response, w)
          else
            let response1 = (if c_MQTTVersion (handle_client h w) \<ge> MQTTVERSION_5
                             then map_cptr (\<lambda>r. r\<lparr>ro_properties := pm_properties mm\<rparr>) response else response)
            in MQTTAsync_send per (Ptr h) topic (pm_payload mm) (pm_qos mm) (pm_retained mm \<noteq> 0) response1 w)"

definition MQTTAsync_disconnect ::
    "'z async_scheme persist_api \<Rightarrow> nat cptr \<Rightarrow> (bytes \<times> disconnect_options) cptr \<Rightarrow> 'z async_scheme
     \<Rightarrow> (int \<times> 'z async_scheme) option" where
  "MQTTAsync_disconnect per handle options w =
     (case options of
        NULL \<Rightarrow> MQTTAsync_disconnect1 per handle NULL False w
      | Ptr (struct_id, opts) \<Rightarrow>
          if struct_id \<noteq> ascii ''MQTD'' \<or> do_struct_version opts < 0 \<or> do_struct_version opts > 1
          then Some (MQTTASYNC_BAD_STRUCTURE, w)
          else MQTTAsync_disconnect1 per handle (Ptr opts) False w)"

section \<open>What is pending\<close>

definition MQTTAsync_isConnected :: "nat cptr \<Rightarrow> 'z async_scheme \<Rightarrow> bool" where
  "MQTTAsync_isConnected handle w = (case handle of NULL \<Rightarrow> False | Ptr h \<Rightarrow> connected (handle_client h w))"

text \<open>A token is complete when neither a command nor a message in flight has it.\<close>

definition MQTTAsync_isComplete :: "nat cptr \<Rightarrow> int \<Rightarrow> 'z async_scheme \<Rightarrow> int" where
  "MQTTAsync_isComplete handle dt w =
     (case handle of
        NULL \<Rightarrow> MQTTASYNC_FAILURE
      | Ptr h \<Rightarrow>
          if \<exists>q \<in> set (items (commands w)). q_client q = h \<and> token (q_command q) = dt then MQTTASYNC_SUCCESS
          else if \<exists>m \<in> set (items (outboundMsgs (handle_client h w))). m_msgid m = dt then MQTTASYNC_SUCCESS
          else 1)"

text \<open>The loop that waits; \<open>others\<close> is what happens during a sleep of 100 ms. It may not end.\<close>

partial_function (option) wait_loop ::
    "('z async_scheme \<Rightarrow> 'z async_scheme) \<Rightarrow> nat \<Rightarrow> int \<Rightarrow> int \<Rightarrow> int \<Rightarrow> 'z async_scheme \<Rightarrow> (int \<times> 'z async_scheme) option" where
  "wait_loop others h dt timeout start w =
     (if MQTTTime_elapsed start w < timeout
      then
        let w1 = others w
        in if \<not> connected (handle_client h w1) then Some (MQTTASYNC_DISCONNECTED, w1)
           else if MQTTAsync_isComplete (Ptr h) dt w1 = 1 then Some (MQTTASYNC_SUCCESS, w1)
           else wait_loop others h dt timeout start w1
      else Some (MQTTASYNC_FAILURE, w))"

definition MQTTAsync_waitForCompletion ::
    "('z async_scheme \<Rightarrow> 'z async_scheme) \<Rightarrow> nat cptr \<Rightarrow> int \<Rightarrow> int \<Rightarrow> 'z async_scheme \<Rightarrow> (int \<times> 'z async_scheme) option" where
  "MQTTAsync_waitForCompletion others handle dt timeout w =
     (case handle of
        NULL \<Rightarrow> Some (MQTTASYNC_FAILURE, w)
      | Ptr h \<Rightarrow>
          if \<not> connected (handle_client h w) then Some (MQTTASYNC_DISCONNECTED, w)
          else if MQTTAsync_isComplete handle dt w = 1 then Some (MQTTASYNC_SUCCESS, w)
          else wait_loop others h dt timeout (clock w) w)"

text \<open>The tokens of the publications that wait and of the messages in flight, ended by -1.\<close>

definition pending_tokens :: "nat \<Rightarrow> 'z async_scheme \<Rightarrow> int list" where
  "pending_tokens h w =
     map (token \<circ> q_command) (filter (\<lambda>q. q_client q = h \<and> cmd_type (q_command q) = PUBLISH) (items (commands w)))
     @ map m_msgid (items (outboundMsgs (handle_client h w)))"

definition MQTTAsync_getPendingTokens :: "nat cptr \<Rightarrow> 'z async_scheme \<Rightarrow> int \<times> int list cptr" where
  "MQTTAsync_getPendingTokens handle w =
     (case handle of
        NULL \<Rightarrow> (MQTTASYNC_FAILURE, NULL)
      | Ptr h \<Rightarrow> (MQTTASYNC_SUCCESS, if pending_tokens h w = [] then NULL else Ptr (pending_tokens h w @ [-1])))"

section \<open>Callbacks\<close>

text \<open>A callback is set while no connection is being made or ended.\<close>

definition set_idle :: "(handle \<Rightarrow> handle) \<Rightarrow> nat cptr \<Rightarrow> 'z async_scheme \<Rightarrow> int \<times> 'z async_scheme" where
  "set_idle f handle w =
     (case handle of
        NULL \<Rightarrow> (MQTTASYNC_FAILURE, w)
      | Ptr h \<Rightarrow> if connect_state (handle_client h w) \<noteq> NOT_IN_PROGRESS then (MQTTASYNC_FAILURE, w)
                 else (MQTTASYNC_SUCCESS, upd_handle h f w))"

definition set_always :: "(nat \<Rightarrow> 'z async_scheme \<Rightarrow> 'z async_scheme) \<Rightarrow> nat cptr \<Rightarrow> 'z async_scheme \<Rightarrow> int \<times> 'z async_scheme" where
  "set_always f handle w =
     (case handle of NULL \<Rightarrow> (MQTTASYNC_FAILURE, w) | Ptr h \<Rightarrow> (MQTTASYNC_SUCCESS, f h w))"

definition MQTTAsync_setCallbacks :: "nat cptr \<Rightarrow> bool \<Rightarrow> bool \<Rightarrow> bool \<Rightarrow> 'z async_scheme \<Rightarrow> int \<times> 'z async_scheme" where
  "MQTTAsync_setCallbacks handle cl ma dc w =
     (if \<not> ma then (MQTTASYNC_FAILURE, w)
      else set_idle (\<lambda>m. m\<lparr>cb_connectionLost := cl, cb_messageArrived := ma, cb_deliveryComplete := dc\<rparr>) handle w)"

definition MQTTAsync_setConnectionLostCallback :: "nat cptr \<Rightarrow> bool \<Rightarrow> 'z async_scheme \<Rightarrow> int \<times> 'z async_scheme" where
  "MQTTAsync_setConnectionLostCallback handle cl w = set_idle (\<lambda>m. m\<lparr>cb_connectionLost := cl\<rparr>) handle w"

definition MQTTAsync_setMessageArrivedCallback :: "nat cptr \<Rightarrow> bool \<Rightarrow> 'z async_scheme \<Rightarrow> int \<times> 'z async_scheme" where
  "MQTTAsync_setMessageArrivedCallback handle ma w =
     (if \<not> ma then (MQTTASYNC_FAILURE, w) else set_idle (\<lambda>m. m\<lparr>cb_messageArrived := ma\<rparr>) handle w)"

definition MQTTAsync_setDeliveryCompleteCallback :: "nat cptr \<Rightarrow> bool \<Rightarrow> 'z async_scheme \<Rightarrow> int \<times> 'z async_scheme" where
  "MQTTAsync_setDeliveryCompleteCallback handle dc w = set_idle (\<lambda>m. m\<lparr>cb_deliveryComplete := dc\<rparr>) handle w"

definition MQTTAsync_setDisconnected :: "nat cptr \<Rightarrow> bool \<Rightarrow> 'z async_scheme \<Rightarrow> int \<times> 'z async_scheme" where
  "MQTTAsync_setDisconnected handle disconnected w = set_idle (\<lambda>m. m\<lparr>cb_disconnected := disconnected\<rparr>) handle w"

definition MQTTAsync_setConnected :: "nat cptr \<Rightarrow> bool \<Rightarrow> 'z async_scheme \<Rightarrow> int \<times> 'z async_scheme" where
  "MQTTAsync_setConnected handle connected_set w = set_idle (\<lambda>m. m\<lparr>cb_connected := connected_set\<rparr>) handle w"

definition MQTTAsync_setUpdateConnectOptions ::
    "nat cptr \<Rightarrow> (bytes cptr \<Rightarrow> bytes cptr \<Rightarrow> bool \<times> bytes cptr \<times> bytes cptr) option \<Rightarrow> 'z async_scheme
     \<Rightarrow> int \<times> 'z async_scheme" where
  "MQTTAsync_setUpdateConnectOptions handle changes w =
     set_always (\<lambda>h. upd_handle h (\<lambda>m. m\<lparr>updateConnectOptions := changes\<rparr>)) handle w"

definition MQTTAsync_setBeforePersistenceWrite :: "nat cptr \<Rightarrow> bool \<Rightarrow> 'z async_scheme \<Rightarrow> int \<times> 'z async_scheme" where
  "MQTTAsync_setBeforePersistenceWrite handle co w =
     set_always (\<lambda>h. upd_handle_client h (\<lambda>c. c\<lparr>beforeWrite := co\<rparr>)) handle w"

definition MQTTAsync_setAfterPersistenceRead :: "nat cptr \<Rightarrow> bool \<Rightarrow> 'z async_scheme \<Rightarrow> int \<times> 'z async_scheme" where
  "MQTTAsync_setAfterPersistenceRead handle co w =
     set_always (\<lambda>h. upd_handle_client h (\<lambda>c. c\<lparr>afterRead := co\<rparr>)) handle w"

section \<open>Messages for the codes\<close>

definition known_codes :: "(int \<times> bytes) list" where
  "known_codes =
     [(MQTTASYNC_SUCCESS, ascii ''Success''), (MQTTASYNC_FAILURE, ascii ''Failure''),
      (MQTTASYNC_PERSISTENCE_ERROR, ascii ''Persistence error''), (MQTTASYNC_DISCONNECTED, ascii ''Disconnected''),
      (-4, ascii ''Maximum in-flight messages amount reached''), (MQTTASYNC_BAD_UTF8_STRING, ascii ''Invalid UTF8 string''),
      (MQTTASYNC_NULL_PARAMETER, ascii ''Invalid (NULL) parameter''),
      (-7, ascii ''Topic containing NULL characters has been truncated''), (MQTTASYNC_BAD_STRUCTURE, ascii ''Bad structure''),
      (MQTTASYNC_BAD_QOS, ascii ''Invalid QoS value''), (MQTTASYNC_NO_MORE_MSGIDS, ascii ''Too many pending commands''),
      (MQTTASYNC_OPERATION_INCOMPLETE, ascii ''Operation discarded before completion''),
      (MQTTASYNC_MAX_BUFFERED_MESSAGES, ascii ''No more messages can be buffered''),
      (MQTTASYNC_SSL_NOT_SUPPORTED, ascii ''SSL is not supported''), (MQTTASYNC_BAD_PROTOCOL, ascii ''Invalid protocol scheme''),
      (MQTTASYNC_BAD_MQTT_OPTION, ascii ''Options for wrong MQTT version''),
      (MQTTASYNC_WRONG_MQTT_VERSION, ascii ''Client created for another version of MQTT''),
      (MQTTASYNC_0_LEN_WILL_TOPIC, ascii ''Zero length will topic on connect''),
      (MQTTASYNC_COMMAND_IGNORED, ascii ''Connect or disconnect command ignored''),
      (MQTTASYNC_MAX_BUFFERED, ascii ''maxBufferedMessages in the connect options must be >= 0'')]"

text \<open>The text for another code is cut off after 29 characters.\<close>

definition MQTTAsync_strerror :: "int \<Rightarrow> bytes" where
  "MQTTAsync_strerror rc =
     (case map_of known_codes rc of Some s \<Rightarrow> s | None \<Rightarrow> take 29 (ascii ''Unknown error code '' @ decimal rc))"

end
