(* ===== verification/AsyncIds.thy ===== *)
theory AsyncIds
  imports AsyncApi AsyncQueue
begin

text \<open>
  The identifiers of the asynchronous client are those that \<open>id_search\<close> promises, and with them a request
  of the application can be followed by its token until it is complete.
\<close>

section \<open>The search for an identifier of the asynchronous client\<close>

text \<open>The handle \<open>h\<close> and its client are there, and the cursors of their lists are inside them.\<close>

definition handle_ready :: "nat \<Rightarrow> 'z async_scheme \<Rightarrow> bool" where
  "handle_ready h w \<longleftrightarrow>
     h < length (items (handles w)) \<and> h_c (handle_at h w) < length (items (clients w))
     \<and> cur_ok (commands w) \<and> cur_ok (outboundMsgs (handle_client h w)) \<and> cur_ok (responses (handle_at h w))"

definition taken_ids :: "nat \<Rightarrow> 'z async_scheme \<Rightarrow> int set" where
  "taken_ids h w =
     (token \<circ> q_command) ` set (items (commands w)) \<union> m_msgid ` set (items (outboundMsgs (handle_client h w)))
     \<union> (token \<circ> q_command) ` set (items (responses (handle_at h w)))"

lemma client_irrelevant [simp]:
  "handles (upd_client k f w) = handles w" "commands (upd_client k f w) = commands w"
  "handle_at h (upd_client k f w) = handle_at h w" "next_command (upd_client k f w) = next_command w"
  "handles (upd_handle_client j f w) = handles w" "commands (upd_handle_client j f w) = commands w"
  "handle_at h (upd_handle_client j f w) = handle_at h w" "next_command (upd_handle_client j f w) = next_command w"
  "next_command (upd_handle j g w) = next_command w"
  "length (items (clients (upd_handle_client j f w))) = length (items (clients w))"
  by (simp_all add: upd_client_def upd_handle_def handle_at_def handle_client_def client_at_def upd_handle_client_def)

lemma handle_client_upd_client [simp]:
  "h_c (handle_at h w) < length (items (clients w)) \<Longrightarrow> handle_client h (upd_handle_client h f w) = f (handle_client h w)"
  by (simp add: upd_handle_client_def handle_client_def client_at_def upd_client_def handle_at_def)

text \<open>The searches set the lists to ones with the same elements.\<close>

definition set_lists ::
    "nat \<Rightarrow> queued clist \<Rightarrow> message clist \<Rightarrow> queued clist \<Rightarrow> 'z async_scheme \<Rightarrow> 'z async_scheme" where
  "set_lists h l1 l2 l3 w =
     upd_handle h (\<lambda>m. m\<lparr>responses := l3\<rparr>) (upd_handle_client h (\<lambda>c. c\<lparr>outboundMsgs := l2\<rparr>) (w\<lparr>commands := l1\<rparr>))"

definition same_lists :: "nat \<Rightarrow> 'z async_scheme \<Rightarrow> 'z async_scheme \<Rightarrow> bool" where
  "same_lists h w w' \<longleftrightarrow> handle_ready h w \<and>
     (\<exists>l1 l2 l3. items l1 = items (commands w) \<and> items l2 = items (outboundMsgs (handle_client h w))
        \<and> items l3 = items (responses (handle_at h w)) \<and> w' = set_lists h l1 l2 l3 w)"

lemma set_lists_simps:
  assumes "handle_ready h w"
  shows "commands (set_lists h l1 l2 l3 w) = l1" "handle_client h (set_lists h l1 l2 l3 w) = (handle_client h w)\<lparr>outboundMsgs := l2\<rparr>"
    "handle_at h (set_lists h l1 l2 l3 w) = (handle_at h w)\<lparr>responses := l3\<rparr>"
    "length (items (handles (set_lists h l1 l2 l3 w))) = length (items (handles w))"
    "length (items (clients (set_lists h l1 l2 l3 w))) = length (items (clients w))"
    "next_command (set_lists h l1 l2 l3 w) = next_command w"
  using assms by (simp_all add: set_lists_def handle_ready_def)

lemma set_lists_again: "set_lists h a b c (set_lists h l1 l2 l3 w) = set_lists h a b c w"
  if "handle_ready h w"
  using that by (simp add: set_lists_def upd_handle_def upd_handle_client_def upd_client_def handle_ready_def
      handle_at_def client_at_def)

lemma set_lists_self:
  "handle_ready h w \<Longrightarrow> set_lists h (commands w) (outboundMsgs (handle_client h w)) (responses (handle_at h w)) w = w"
  by (simp add: set_lists_def upd_handle_def upd_handle_client_def upd_client_def handle_ready_def
      handle_at_def client_at_def handle_client_def)

lemma handle_ready_set_lists:
  "handle_ready h w \<Longrightarrow> cur_ok l1 \<Longrightarrow> cur_ok l2 \<Longrightarrow> cur_ok l3 \<Longrightarrow> handle_ready h (set_lists h l1 l2 l3 w)"
  by (simp add: handle_ready_def set_lists_simps)

lemma same_listsD:
  assumes "same_lists h w w'"
  shows "items (commands w') = items (commands w)"
    "items (outboundMsgs (handle_client h w')) = items (outboundMsgs (handle_client h w))"
    "items (responses (handle_at h w')) = items (responses (handle_at h w))" "taken_ids h w' = taken_ids h w"
  using assms by (auto simp: same_lists_def set_lists_simps taken_ids_def)

lemma id_in_use_result:
  assumes w: "handle_ready h w" and r: "id_in_use i h w = (u, w')"
  shows "u \<longleftrightarrow> i \<in> taken_ids h w" "handle_ready h w'" "same_lists h w w'"
proof -
  have ok: "cur_ok (commands w)" "cur_ok (outboundMsgs (handle_client h w))" "cur_ok (responses (handle_at h w))"
    using w by (simp_all add: handle_ready_def)
  obtain f1 l1 where l1: "l_find (commands w) (cmdMessageIDCompare i) = (f1, l1)" by fastforce
  obtain f2 l2 where l2: "l_find (outboundMsgs (handle_client h w)) (messageIDCompare i) = (f2, l2)" by fastforce
  obtain f3 l3 where l3: "l_find (responses (handle_at h w)) (cmdMessageIDCompare i) = (f3, l3)" by fastforce
  let ?l2 = "if f1 = None then l2 else outboundMsgs (handle_client h w)"
  let ?l3 = "if f1 = None \<and> f2 = None then l3 else responses (handle_at h w)"
  have q: "fst (l_find l (cmdMessageIDCompare i)) = None \<longleftrightarrow> i \<notin> (token \<circ> q_command) ` set (items l)" if "cur_ok l" for l
    using l_find_None [OF that, of "cmdMessageIDCompare i"] by (auto simp: cmdMessageIDCompare_def)
  have f: "f1 = None \<longleftrightarrow> i \<notin> (token \<circ> q_command) ` set (items (commands w))"
      "f2 = None \<longleftrightarrow> i \<notin> m_msgid ` set (items (outboundMsgs (handle_client h w)))"
      "f3 = None \<longleftrightarrow> i \<notin> (token \<circ> q_command) ` set (items (responses (handle_at h w)))"
    using q [OF ok(1)] l_find_ids [OF ok(2), of i] q [OF ok(3)] unfolding l1 l2 l3 fst_conv .
  have c: "items l1 = items (commands w)" "items l2 = items (outboundMsgs (handle_client h w))"
      "items l3 = items (responses (handle_at h w))" "cur_ok l1" "cur_ok l2" "cur_ok l3"
    using ok items_l_find [of "commands w" "cmdMessageIDCompare i"] cur_ok_l_find [of "commands w" "cmdMessageIDCompare i"]
      items_l_find [of "outboundMsgs (handle_client h w)" "messageIDCompare i"]
      cur_ok_l_find [of "outboundMsgs (handle_client h w)" "messageIDCompare i"]
      items_l_find [of "responses (handle_at h w)" "cmdMessageIDCompare i"]
      cur_ok_l_find [of "responses (handle_at h w)" "cmdMessageIDCompare i"] l1 l2 l3
    by simp_all
  have "w' = set_lists h l1 ?l2 ?l3 w \<and> u = (f1 \<noteq> None \<or> f2 \<noteq> None \<or> f3 \<noteq> None)"
    using r w l1 l2 l3
    by (simp add: id_in_use_def Let_def handle_ready_def split: if_splits)
       (auto simp: set_lists_def upd_handle_def upd_handle_client_def upd_client_def handle_at_def client_at_def handle_client_def)
  then have w': "w' = set_lists h l1 ?l2 ?l3 w" "u = (f1 \<noteq> None \<or> f2 \<noteq> None \<or> f3 \<noteq> None)" by simp_all
  show "u \<longleftrightarrow> i \<in> taken_ids h w" using w'(2) f by (auto simp: taken_ids_def)
  show "handle_ready h w'" unfolding w'(1) using handle_ready_set_lists [OF w] c ok by simp
  show "same_lists h w w'" unfolding same_lists_def w'(1)
    by (rule conjI [OF w], rule exI [of _ l1], rule exI [of _ ?l2], rule exI [of _ ?l3]) (simp add: c)
qed

lemma same_lists_trans: "same_lists h w w' \<Longrightarrow> same_lists h w' w'' \<Longrightarrow> same_lists h w w''"
  unfolding same_lists_def by (elim conjE exE) (auto simp: set_lists_simps set_lists_again)

interpretation async_ids: id_search
  "\<lambda>i. id_in_use i h" "\<lambda>n start i. assign_loop n start i h" "taken_ids h" "handle_ready h" "same_lists h" for h
proof unfold_locales
  fix s t :: "'z async_scheme" and i u
  assume "handle_ready h s" "id_in_use i h s = (u, t)"
  from id_in_use_result [OF this] show "u \<longleftrightarrow> i \<in> taken_ids h s" "handle_ready h t" "same_lists h s t" .
qed (auto simp: Let_def same_listsD intro: same_lists_trans split: prod.split)

lemma finite_taken_ids [simp]: "finite (taken_ids h w)"
  by (simp add: taken_ids_def)

text \<open>What assigning an identifier yields when one is left.\<close>

lemma assignMsgId_result:
  assumes w: "handle_ready h w" "0 \<le> msgID (handle_client h w)" "msgID (handle_client h w) \<le> MAX_MSG_ID"
    and free: "card (taken_ids h w) < 65534"
  obtains i w1 where "MQTTAsync_assignMsgId ALL_IDS h w = Some (i, upd_handle_client h (\<lambda>c. c\<lparr>msgID := i\<rparr>) w1)"
    "same_lists h w w1" "handle_ready h w1" "1 \<le> i" "i \<le> MAX_MSG_ID" "i \<notin> taken_ids h w"
proof -
  let ?last = "msgID (handle_client h w)"
  have c: "card (taken_ids h w) < 65535" using free by simp
  obtain i w1 where i: "assign_loop ALL_IDS ?last (next_msgid ?last) h w = Some (i, w1)" "same_lists h w w1" "handle_ready h w1"
      "i \<noteq> 0 \<longrightarrow> 1 \<le> i \<and> i \<le> MAX_MSG_ID \<and> i \<notin> taken_ids h w"
      "i = 0 \<longrightarrow> (\<forall>j. 1 \<le> j \<and> j \<le> MAX_MSG_ID \<and> j \<noteq> ?last \<longrightarrow> j \<in> taken_ids h w)"
    by (rule async_ids.fresh_or_exhausted [OF w _ c, of ALL_IDS]) auto
  have "i \<noteq> 0"
  proof
    assume "i = 0"
    then have "{1..MAX_MSG_ID} - {?last} \<subseteq> taken_ids h w" using i(5) by auto
    then have "card ({1..MAX_MSG_ID} - {?last}) \<le> card (taken_ids h w)" by (rule card_mono [OF finite_taken_ids])
    moreover have "65534 \<le> card ({1..MAX_MSG_ID} - {?last})" using w by (simp add: card_Diff_singleton_if)
    ultimately show False using free by simp
  qed
  then show ?thesis using that [of i w1] i by (simp add: MQTTAsync_assignMsgId_def Let_def)
qed

section \<open>Following a publication\<close>

definition publication_of :: "nat \<Rightarrow> queued \<Rightarrow> bool" where
  "publication_of h q \<longleftrightarrow> q_client q = h \<and> cmd_type (q_command q) = PUBLISH"

definition make_room :: "nat \<Rightarrow> 'z async_scheme \<Rightarrow> queued list \<Rightarrow> queued list" where
  "make_room h w qs = (if buffer_full h w then without_first (publication_of h) qs else qs)"

text \<open>Commands that are added get new addresses.\<close>

definition addresses_ok :: "'z async_scheme \<Rightarrow> bool" where
  "addresses_ok w \<longleftrightarrow> distinct (map q_addr (items (commands w))) \<and> (\<forall>q \<in> set (items (commands w)). q_addr q < next_command w)"

lemma count_publish_plain:
  assumes "handle_ready h w" "\<not> persistence (handle_client h w)" "distinct (map q_addr (items (commands w)))"
  shows "items (commands (count_publish per h w)) = make_room h w (items (commands w))"
    "handle_client h (count_publish per h w) = handle_client h w"
proof -
  have f: "without_first P xs = xs" if "List.find P xs = None" for P :: "queued \<Rightarrow> bool" and xs
    using that by (induction xs) (auto split: if_splits)
  have P: "publication_of h = (\<lambda>q. q_client q = h \<and> cmd_type (q_command q) = PUBLISH)"
    by (simp add: fun_eq_iff publication_of_def)
  have d: "handle_client h (detach_command q w) = handle_client h w" for q by (simp add: detach_command_def)
  have "items (commands (count_publish per h w)) = make_room h w (items (commands w))
    \<and> handle_client h (count_publish per h w) = handle_client h w"
  proof (cases "buffer_full h w")
    case True
    then show ?thesis
      using items_detach [OF assms(3), of h] f [of "\<lambda>q. q_client q = h \<and> cmd_type (q_command q) = PUBLISH"] assms(2) d
      by (auto simp: count_publish_def make_room_def P Let_def first_publish_def split: option.splits)
  qed (simp add: count_publish_def make_room_def)
  then show "items (commands (count_publish per h w)) = make_room h w (items (commands w))"
    "handle_client h (count_publish per h w) = handle_client h w" by simp_all
qed

lemma addCommand_publish:
  assumes w: "handle_ready h w" "\<not> persistence (handle_client h w)" "distinct (map q_addr (items (commands w) @ [q]))"
    and q: "publication_of h q"
  obtains w' where "MQTTAsync_addCommand per q w = Some (MQTTASYNC_SUCCESS, w')"
    "items (commands w') = make_room h w (items (commands w) @ [q\<lparr>q_command := (q_command q)\<lparr>start_time := clock w\<rparr>\<rparr>])"
    "handle_client h w' = handle_client h w"
proof -
  define q1 where "q1 = q\<lparr>q_command := (q_command q)\<lparr>start_time := clock w\<rparr>\<rparr>"
  define w1 where "w1 = w\<lparr>commands := l_append (commands w) q1\<rparr>"
  have q1: "q_client q1 = h" "cmd_type (q_command q1) = PUBLISH" "q_addr q1 = q_addr q"
    using q by (simp_all add: q1_def publication_of_def)
  have s: "store_command per q1 w1 = Some (q1, False, w1)" using w(2) q1(1) by (simp add: store_command_def w1_def)
  have u: "w1\<lparr>commands := l_update (length (items (commands w))) (\<lambda>_. q1) (commands w1)\<rparr> = w1"
    by (simp add: w1_def l_update_def l_append_def)
  have r: "handle_ready h w1" "\<not> persistence (handle_client h w1)" "distinct (map q_addr (items (commands w1)))"
    using w q1(3) by (simp_all add: handle_ready_def w1_def)
  have e: "MQTTAsync_addCommand per q w = Some (MQTTASYNC_SUCCESS, count_publish per h w1)"
    using q s u by (simp add: MQTTAsync_addCommand_def Let_def publication_of_def q1_def [symmetric] w1_def [symmetric])
  have "buffer_full h w1 = buffer_full h w" by (simp add: buffer_full_eq w1_def)
  then have "items (commands (count_publish per h w1)) = make_room h w (items (commands w) @ [q1])"
    using count_publish_plain(1) [OF r] by (simp add: make_room_def w1_def)
  moreover have "handle_client h (count_publish per h w1) = handle_client h w"
    using count_publish_plain(2) [OF r] by (simp add: w1_def)
  ultimately show ?thesis using that [OF e] unfolding q1_def by blast
qed

lemma make_room_new:
  assumes "\<not> buffer_full h w \<or> (\<exists>r \<in> set qs. publication_of h r)"
  shows "q \<in> set (make_room h w (qs @ [q]))"
proof -
  have "q \<in> set (without_first P (qs @ [q]))" if "\<exists>r \<in> set qs. P r" for P using that by (induction qs) auto
  then show ?thesis using assms by (auto simp: make_room_def)
qed



end
