(* ===== verification/AsyncBuffer.thy ===== *)
theory AsyncBuffer
  imports AsyncIds
begin

text \<open>
  The buffer of publications: however commands are added, taken out and stored, the counter of a handle is
  the number of its publications in the queue, and does not exceed the limit the application has set.
\<close>

section \<open>Steps of the queue\<close>

text \<open>What the buffer depends on in the handles.\<close>

definition views :: "'z async_scheme \<Rightarrow> (int \<times> create_options cptr) list" where
  "views w = map (\<lambda>m. (noBufferedMessages m, createOptions m)) (items (handles w))"

text \<open>
  A step adds a new command, takes one out of the queue to carry it out, or is anything else that leaves the
  queue, the counters and the options alone.
\<close>

inductive queue_step :: "bytes \<Rightarrow> 'z async_scheme \<Rightarrow> 'z async_scheme \<Rightarrow> bool" for dir where
  added: "MQTTAsync_addCommand (default_store dir) q w = Some (rc, w') \<Longrightarrow> q_addr q \<notin> addresses w \<Longrightarrow> q_seqno q = 0
     \<Longrightarrow> queue_step dir w w'"
| taken: "q \<in> set (items (commands w)) \<Longrightarrow> take_command (default_store dir) q w = Some (q', w') \<Longrightarrow> queue_step dir w w'"
| elsewhere: "items (commands w') = items (commands w) \<Longrightarrow> views w' = views w \<Longrightarrow> queue_step dir w w'"

inductive_cases queue_stepE: "queue_step dir w w'"

definition buffered :: "nat \<Rightarrow> queued list \<Rightarrow> nat" where
  "buffered h qs = length (filter (publication_of h) qs)"

definition buffer_inv :: "'z async_scheme \<Rightarrow> bool" where
  "buffer_inv w \<longleftrightarrow> distinct (map q_addr (items (commands w)))
     \<and> (\<forall>h < length (views w). fst (views w ! h) = int (buffered h (items (commands w)))
          \<and> (\<forall>opts. snd (views w ! h) = Ptr opts \<longrightarrow> fst (views w ! h) \<le> maxBufferedMessages opts))"

section \<open>What the operations leave alone\<close>

lemma views_simps [simp]:
  "views (w\<lparr>commands := cs\<rparr>) = views w" "length (views w) = length (items (handles w))"
  by (simp_all add: views_def)

lemma views_cong: "handles w' = handles w \<Longrightarrow> views w' = views w"
  by (simp add: views_def)

lemma views_upd_handle:
  "views (upd_handle h f w) = (if h < length (items (handles w))
     then (views w)[h := (noBufferedMessages (f (handle_at h w)), createOptions (f (handle_at h w)))] else views w)"
  by (simp add: views_def upd_handle_def map_update list_update_beyond)

lemma views_at: "h < length (items (handles w)) \<Longrightarrow> views w ! h = (noBufferedMessages (handle_at h w), createOptions (handle_at h w))"
  by (simp add: views_def handle_at_def)

lemma views_upd_same [simp]:
  "(\<And>m. noBufferedMessages (f m) = noBufferedMessages m) \<Longrightarrow> (\<And>m. createOptions (f m) = createOptions m)
     \<Longrightarrow> views (upd_handle h f w) = views w"
  by (simp add: views_upd_handle views_at [symmetric])

lemma unpersistCommand_views:
  "views (snd (MQTTAsync_unpersistCommand (default_store dir) q w)) = views w"
  "commands (snd (MQTTAsync_unpersistCommand (default_store dir) q w)) = commands w"
  using same_disk_async(1,2) [OF disk_store.remove_frame [of w dir]]
  by (auto simp: MQTTAsync_unpersistCommand_def Let_def intro: views_cong split: prod.split)

lemma persistCommand_views:
  assumes "MQTTAsync_persistCommand (default_store dir) q w = Some (rc, q', w')"
  obtains n where "views w' = views w" "commands w' = commands w" "handle_client h w' = handle_client h w"
    "q' = q\<lparr>q_seqno := n\<rparr>" "n = q_seqno q \<or> \<not> snd (command_key (c_MQTTVersion (handle_client (q_client q) w)) n)"
proof -
  let ?h = "q_client q"
  let ?w1 = "upd_handle ?h count_up w"
  have w1: "views ?w1 = views w" "commands ?w1 = commands w" "handle_client h ?w1 = handle_client h w" for h by simp_all
  have q: "q = q\<lparr>q_seqno := q_seqno q\<rparr>" by simp
  let ?v5 = "c_MQTTVersion (handle_client ?h w) \<ge> MQTTVERSION_5"
  define n where "n = command_seqno (handle_at ?h ?w1)"
  obtain bufs where b: "command_buffers ?v5 (q_command q) = Some bufs"
    using assms by (cases "command_buffers ?v5 (q_command q)") (simp_all add: MQTTAsync_persistCommand_def Let_def)
  define rc0 where "rc0 = (if ?v5 \<and> bufs \<noteq> [] then fst (MQTTProperties_write (Ptr (cmd_properties (q_command q)))) else 0)"
  let ?props = "if ?v5 \<and> bufs \<noteq> [] then map_option (\<lambda>p. [p]) (property_buffer (cmd_properties (q_command q))) else Some []"
  obtain props where p: "?props = Some props"
    using assms b by (cases ?props) (simp_all add: MQTTAsync_persistCommand_def Let_def)
  obtain key toolong where c: "command_key (if bufs \<noteq> [] then c_MQTTVersion (handle_client ?h w) else 0) n = (key, toolong)"
    by fastforce
  have r: "(rc, q', w') = (if toolong then (rc0, q, ?w1)
       else if bufs \<noteq> []
       then (let (_, bufs1, w2) = (if beforeWrite (handle_client ?h w) then before_write (default_store dir) (bufs @ props) ?w1
                                   else (0, bufs @ props, ?w1));
                 (rc, w3) = pput (default_store dir) (phandle (handle_client ?h w)) key bufs1 w2
             in (rc, q\<lparr>q_seqno := n\<rparr>, w3))
       else (rc0, q, ?w1))"
    using assms unfolding MQTTAsync_persistCommand_def Let_def b bind.bind_lunit p n_def [symmetric] rc0_def [symmetric] c
    by simp
  show ?thesis
  proof (cases "toolong \<or> bufs = []")
    case True
    then have "(rc, q', w') = (rc0, q, ?w1)" using r by (cases toolong) simp_all
    then have "q' = q" "w' = ?w1" by simp_all
    then show ?thesis using that [of "q_seqno q"] w1 by simp
  next
    case False
    obtain x bufs1 w2 where b: "(if beforeWrite (handle_client ?h w) then before_write (default_store dir) (bufs @ props) ?w1
                                   else (0, bufs @ props, ?w1)) = (x, bufs1, w2)" by (rule prod_cases3)
    have s2: "same_but_disk ?w1 w2"
    proof (cases "beforeWrite (handle_client ?h w)")
      case True
      then have "before_write (default_store dir) (bufs @ props) ?w1 = (x, bufs1, w2)" using b by simp
      then show ?thesis using disk_store.before_write_frame [of ?w1 dir "bufs @ props"] by simp
    next
      case False
      then have "w2 = ?w1" using b by simp
      then show ?thesis by simp
    qed
    obtain rc3 w3 where put: "pput (default_store dir) (phandle (handle_client ?h w)) key bufs1 w2 = (rc3, w3)" by fastforce
    have "(rc, q', w') = (rc3, q\<lparr>q_seqno := n\<rparr>, w3)" using r False unfolding b Let_def by (simp add: put)
    then have e: "q' = q\<lparr>q_seqno := n\<rparr>" "w' = snd (pput (default_store dir) (phandle (handle_client ?h w)) key bufs1 w2)"
      unfolding put snd_conv by (blast dest: Pair_inject)+
    have "same_but_disk ?w1 w'" unfolding e(2) by (rule disk_store.same_trans [OF s2 disk_store.put_frame])
    from same_disk_async(1,2,7) [OF this] have "handles w' = handles ?w1" "commands w' = commands w"
        "handle_client h w' = handle_client h w" by simp_all
    moreover have "views w' = views w" using views_cong [OF calculation(1)] w1(1) by simp
    moreover have "\<not> snd (command_key (c_MQTTVersion (handle_client ?h w)) n)" using c False by simp
    ultimately show ?thesis by (intro that [of n]) (simp_all only: e(1) simp_thms)
  qed
qed

lemma store_command_views:
  assumes "store_command (default_store dir) q w = Some (q', left, w')" "q_seqno q = 0"
  shows "views w' = views w" "commands w' = commands w" "q_addr q' = q_addr q" "q_client q' = q_client q"
    "cmd_type (q_command q') = cmd_type (q_command q)" "\<not> left"
proof -
  have k: "\<not> snd (command_key v 0)" for v by (simp add: command_key_def) code_simp
  have "views w' = views w \<and> commands w' = commands w \<and> q_addr q' = q_addr q \<and> q_client q' = q_client q
      \<and> cmd_type (q_command q') = cmd_type (q_command q) \<and> \<not> left"
  proof (cases "\<not> persistence (handle_client (q_client q) w) \<or> skips_store q w")
    case True
    then show ?thesis using assms(1) by (auto simp: store_command_def)
  next
    case False
    then obtain rc q1 w1 where p: "MQTTAsync_persistCommand (default_store dir) q w = Some (rc, q1, w1)"
      and r: "(q', left, w') = (if cmd_type (q_command q1) = PUBLISH \<and> rc = 0
              then (case command_key (c_MQTTVersion (handle_client (q_client q1) w1)) (q_seqno q1) of (key, toolong) \<Rightarrow>
                      if toolong then (q1\<lparr>not_restored := True\<rparr>, True, w1)
                      else (q1\<lparr>not_restored := True, q_key := Ptr key, q_command := drop_content (q_command q1)\<rparr>, False, w1))
              else (q1, False, w1))"
      using assms(1) by (auto simp: store_command_def split: bind_splits)
    obtain n where n: "views w1 = views w" "commands w1 = commands w" "handle_client (q_client q) w1 = handle_client (q_client q) w"
      "q1 = q\<lparr>q_seqno := n\<rparr>" "n = q_seqno q \<or> \<not> snd (command_key (c_MQTTVersion (handle_client (q_client q) w)) n)"
      by (rule persistCommand_views [OF p])
    then show ?thesis using r assms(2) k [of "c_MQTTVersion (handle_client (q_client q) w)"]
      by (auto simp: drop_content_def split: if_splits prod.splits)
  qed
  then show "views w' = views w" "commands w' = commands w" "q_addr q' = q_addr q" "q_client q' = q_client q"
    "cmd_type (q_command q') = cmd_type (q_command q)" "\<not> left" by simp_all
qed

lemma reload_command_views:
  assumes "reload_command (default_store dir) q w = Some (q', w')"
  shows "views w' = views w" "commands w' = commands w"
proof -
  have "same_but_disk w w'"
  proof (cases "\<not> not_restored q")
    case True
    then show ?thesis using assms by (simp add: reload_command_def Let_def same_but_disk_refl)
  next
    case False
    then obtain key where key: "q_key q = Ptr key" using assms by (cases "q_key q") (auto simp: reload_command_def Let_def)
    let ?c = "handle_client (q_client q) w"
    obtain rc1 buf1 w1 where g: "pget (default_store dir) (phandle ?c) key w = (rc1, buf1, w1)" by (metis prod_cases3)
    obtain rc2 buf2 w2 where a: "(if rc1 = 0 \<and> afterRead ?c then after_read (default_store dir) buf1 w1 else (0, buf1, w1))
        = (rc2, buf2, w2)" by (metis prod_cases3)
    have "same_but_disk w w1" using disk_store.get_frame [of w dir "phandle ?c" key] g by simp
    moreover have "same_but_disk w1 w2"
      using disk_store.after_read_frame [of w1 dir buf1] a by (auto simp: same_but_disk_refl split: if_splits)
    ultimately have "same_but_disk w w2" by (rule disk_store.same_trans)
    moreover have "w' = w2" using assms key False g a
      by (auto simp: reload_command_def Let_def split: if_splits option.splits cptr.splits)
    ultimately show ?thesis by simp
  qed
  then show "views w' = views w" "commands w' = commands w" using same_disk_async(1,2) [of w w'] by (auto intro: views_cong)
qed

section \<open>Counting\<close>

lemma buffered_simps [simp]:
  "buffered h [] = 0" "buffered h (q # qs) = of_bool (publication_of h q) + buffered h qs"
  "buffered h (xs @ ys) = buffered h xs + buffered h ys"
  by (simp_all add: buffered_def)

lemma buffered_without_first:
  "\<exists>r \<in> set qs. publication_of h r \<Longrightarrow>
     int (buffered j (without_first (publication_of h) qs)) = int (buffered j qs) - of_bool (j = h)"
proof (induction qs)
  case (Cons r qs)
  have "publication_of j r \<longleftrightarrow> j = h" if "publication_of h r" using that by (auto simp: publication_of_def)
  then show ?case using Cons by (cases "publication_of h r") simp_all
qed simp

text \<open>Detaching does not depend on where the cursor is.\<close>

lemma l_unlink_key:
  assumes "distinct (map f (items l))"
  shows "items (snd (l_unlink l (\<lambda>x. f x = v))) = filter (\<lambda>x. f x \<noteq> v) (items l)"
proof (cases "cur_ok l")
  case False
  then have "items (snd (l_unlink l (\<lambda>x. f x = v))) = items (snd (l_unlink (l\<lparr>cur_pos := None\<rparr>) (\<lambda>x. f x = v)))"
    by (auto simp: l_unlink_def l_find_def cur_ok_def split: option.splits)
  also have "\<dots> = filter (\<lambda>x. f x \<noteq> v) (items l)"
    using l_unlink_filter [of "l\<lparr>cur_pos := None\<rparr>" f v] assms by (simp add: cur_ok_def)
  finally show ?thesis .
qed (rule l_unlink_filter [OF _ assms])

lemma detach_items:
  "distinct (map q_addr (items (commands w))) \<Longrightarrow>
     items (commands (detach_command q w)) = filter (\<lambda>r. q_addr r \<noteq> q_addr q) (items (commands w))"
  by (simp add: detach_command_def l_unlink_key)

lemma detach_rest [simp]: "views (detach_command q w) = views w" "handles (detach_command q w) = handles w"
  by (simp_all add: detach_command_def)

lemma buffered_detached:
  assumes "distinct (map q_addr qs)" "q \<in> set qs"
  shows "int (buffered j (filter (\<lambda>r. q_addr r \<noteq> q_addr q) qs)) = int (buffered j qs) - of_bool (publication_of j q)"
  using assms
proof (induction qs)
  case (Cons r qs)
  show ?case
  proof (cases "r = q")
    case True
    then have "filter (\<lambda>r. q_addr r \<noteq> q_addr q) qs = qs" using Cons.prems by (auto simp: filter_id_conv image_iff)
    then show ?thesis using True by simp
  next
    case False
    then have "q_addr r \<noteq> q_addr q" "q \<in> set qs" using Cons.prems by auto
    then show ?thesis using Cons by simp
  qed
qed simp

lemma first_publish_exists: "q \<in> set (items (commands w)) \<Longrightarrow> publication_of h q \<Longrightarrow> \<exists>r. first_publish h w = Some r"
  by (cases "first_publish h w") (auto simp: first_publish_def find_None_iff publication_of_def)

lemma full_views:
  "h < length (items (handles w)) \<Longrightarrow> buffer_full h w
     \<longleftrightarrow> (case snd (views w ! h) of NULL \<Rightarrow> False | Ptr opts \<Rightarrow> maxBufferedMessages opts \<le> fst (views w ! h))"
  by (simp add: buffer_full_def views_at split: cptr.split)

section \<open>The invariant\<close>

text \<open>The queue with one publication more than is counted.\<close>

lemma count_publish_inv:
  assumes d: "distinct (map q_addr (items (commands w)))" and q: "q \<in> set (items (commands w))" "publication_of h q"
    and v: "\<forall>j < length (views w). fst (views w ! j) = int (buffered j (items (commands w))) - of_bool (j = h)
          \<and> (\<forall>opts. snd (views w ! j) = Ptr opts \<longrightarrow> fst (views w ! j) \<le> maxBufferedMessages opts)"
  shows "buffer_inv (count_publish (default_store dir) h w)"
proof (cases "buffer_full h w")
  case True
  obtain r where r: "first_publish h w = Some r" using first_publish_exists [OF q] by blast
  let ?w = "count_publish (default_store dir) h w"
  have P: "publication_of h = (\<lambda>q. q_client q = h \<and> cmd_type (q_command q) = PUBLISH)"
    by (simp add: fun_eq_iff publication_of_def)
  have e: "commands ?w = commands (detach_command r w)" "views ?w = views w"
    using True r by (simp_all add: count_publish_def Let_def unpersistCommand_views)
  have it: "items (commands ?w) = without_first (publication_of h) (items (commands w))"
    unfolding e(1) P by (rule items_detach [OF d r])
  have n: "int (buffered j (without_first (publication_of h) (items (commands w)))) = int (buffered j (items (commands w))) - of_bool (j = h)"
    for j using buffered_without_first q by blast
  show ?thesis using v distinct_without_first [OF d] unfolding buffer_inv_def e(2) it n by fastforce
next
  case False
  let ?f = "\<lambda>m. m\<lparr>noBufferedMessages := noBufferedMessages m + 1\<rparr>"
  have e: "count_publish (default_store dir) h w = upd_handle h ?f w" using False by (simp add: count_publish_def)
  show ?thesis
  proof (cases "h < length (items (handles w))")
    case True
    have "fst (views w ! h) + 1 \<le> maxBufferedMessages opts" if "snd (views w ! h) = Ptr opts" for opts
      using False that full_views [OF True] by simp
    moreover have "views (upd_handle h ?f w) = (views w)[h := (fst (views w ! h) + 1, snd (views w ! h))]"
      using True by (simp add: views_upd_handle views_at)
    ultimately show ?thesis using v True d unfolding e buffer_inv_def
      by (auto simp: nth_list_update)
  next
    case out: False
    then have "upd_handle h ?f w = w" by (simp add: upd_handle_def list_update_beyond)
    then show ?thesis using v d out unfolding e buffer_inv_def by auto
  qed
qed

lemma added_inv:
  assumes inv: "buffer_inv w" and add: "MQTTAsync_addCommand (default_store dir) q w = Some (rc, w')"
    and new: "q_addr q \<notin> addresses w" "q_seqno q = 0"
  shows "buffer_inv w'"
proof -
  let ?h = "q_client q" and ?type = "cmd_type (q_command q)"
  define c where "c = (if ?type \<noteq> CONNECT \<or> connect_state (handle_client ?h w) = NOT_IN_PROGRESS
                     then q\<lparr>q_command := (q_command q)\<lparr>start_time := clock w\<rparr>\<rparr> else q)"
  have c: "q_addr c = q_addr q" "q_client c = ?h" "cmd_type (q_command c) = ?type" "q_seqno c = 0"
    using new(2) by (simp_all add: c_def)
  have d: "distinct (map q_addr (items (commands w)))" using inv by (simp add: buffer_inv_def)
  show ?thesis
  proof (cases "?type = CONNECT \<or> ?type = DISCONNECT \<and> is_internal (q_command c)")
    case True
    then have "Some (rc, w') = Some (if duplicate_command c w then (MQTTASYNC_COMMAND_IGNORED, w)
        else (MQTTASYNC_SUCCESS, w\<lparr>commands := l_insert (commands w) c (if items (commands w) = [] then None else Some 0)\<rparr>))"
      using add unfolding MQTTAsync_addCommand_def Let_def c_def [symmetric] by simp
    then have w': "w' = w \<or> w' = w\<lparr>commands := l_insert (commands w) c (if items (commands w) = [] then None else Some 0)\<rparr>"
      by (simp split: if_splits)
    have "\<not> publication_of j c" for j using True c(3) by (auto simp: publication_of_def)
    moreover have "items (l_insert (commands w) c (if items (commands w) = [] then None else Some 0)) = c # items (commands w)"
      by (simp add: l_insert_def l_append_def ins_nth_def)
    ultimately show ?thesis using w' inv new(1) c(1) by (auto simp: buffer_inv_def addresses_def)
  next
    case False
    define w1 where "w1 = w\<lparr>commands := l_append (commands w) c\<rparr>"
    have a: "store_command (default_store dir) c w1 \<bind> (\<lambda>(q1, left, w2).
        Some (MQTTASYNC_SUCCESS, if ?type = PUBLISH \<and> \<not> left
          then count_publish (default_store dir) ?h (w2\<lparr>commands := l_update (length (items (commands w))) (\<lambda>_. q1) (commands w2)\<rparr>)
          else w2\<lparr>commands := l_update (length (items (commands w))) (\<lambda>_. q1) (commands w2)\<rparr>)) = Some (rc, w')"
      using add unfolding MQTTAsync_addCommand_def Let_def c_def [symmetric] w1_def if_not_P [OF False] by simp
    then obtain q1 left w2 where s: "store_command (default_store dir) c w1 = Some (q1, left, w2)"
      by (cases "store_command (default_store dir) c w1") auto
    note f = store_command_views [OF s c(4)]
    define w3 where "w3 = w2\<lparr>commands := l_update (length (items (commands w))) (\<lambda>_. q1) (commands w2)\<rparr>"
    have w': "w' = (if ?type = PUBLISH then count_publish (default_store dir) ?h w3 else w3)"
      using a f(6) unfolding s w3_def by simp
    have it: "items (commands w3) = items (commands w) @ [q1]" "views w3 = views w"
      using f(1,2) by (simp_all add: w3_def w1_def l_update_def)
    have q1: "q_addr q1 = q_addr q" "publication_of j q1 \<longleftrightarrow> j = ?h \<and> ?type = PUBLISH" for j
      using f c by (auto simp: publication_of_def)
    have d3: "distinct (map q_addr (items (commands w3)))" using d new(1) q1(1) by (simp add: it addresses_def)
    show ?thesis
    proof (cases "?type = PUBLISH")
      case True
      have "buffer_inv (count_publish (default_store dir) ?h w3)"
      proof (rule count_publish_inv [OF d3])
        show "q1 \<in> set (items (commands w3))" "publication_of ?h q1" using it q1(2) True by simp_all
        show "\<forall>j < length (views w3). fst (views w3 ! j) = int (buffered j (items (commands w3))) - of_bool (j = ?h)
          \<and> (\<forall>opts. snd (views w3 ! j) = Ptr opts \<longrightarrow> fst (views w3 ! j) \<le> maxBufferedMessages opts)"
          using inv True unfolding it buffer_inv_def by (auto simp: q1(2))
      qed
      then show ?thesis using w' True by simp
    next
      case False
      then have "buffer_inv w3" using inv d3 unfolding buffer_inv_def it by (auto simp: q1(2))
      then show ?thesis using w' False by simp
    qed
  qed
qed

lemma taken_inv:
  assumes inv: "buffer_inv w" and q: "q \<in> set (items (commands w))"
    and take: "take_command (default_store dir) q w = Some (q', w')"
  shows "buffer_inv w'"
proof -
  let ?h = "q_client q"
  define w1 where "w1 = (if cmd_type (q_command q) = PUBLISH
      then upd_handle ?h (\<lambda>m. m\<lparr>noBufferedMessages := noBufferedMessages m - 1\<rparr>) w else w)"
  define w2 where "w2 = detach_command q w1"
  have d: "distinct (map q_addr (items (commands w)))" using inv by (simp add: buffer_inv_def)
  have w': "views w' = views w2 \<and> commands w' = commands w2"
  proof (cases "persistence (handle_client ?h w2)")
    case True
    then obtain w3 where "reload_command (default_store dir) q w2 = Some (q', w3)"
        "w' = snd (MQTTAsync_unpersistCommand (default_store dir) q' w3)"
      using take by (auto simp: take_command_def Let_def w1_def [symmetric] w2_def [symmetric])
    then show ?thesis using reload_command_views [of dir q w2 q' w3] by (simp add: unpersistCommand_views)
  next
    case False
    then show ?thesis using take by (simp add: take_command_def Let_def w1_def [symmetric] w2_def [symmetric])
  qed
  have it: "items (commands w2) = filter (\<lambda>r. q_addr r \<noteq> q_addr q) (items (commands w))"
    using d by (simp add: w2_def w1_def detach_items)
  have v: "views w2 ! j = (fst (views w ! j) - of_bool (publication_of j q), snd (views w ! j))"
    if "j < length (views w)" for j
    using that by (cases "j = ?h") (auto simp: w2_def w1_def views_upd_handle views_at [of ?h w] publication_of_def)
  have n: "length (views w2) = length (views w)" by (simp add: w2_def w1_def)
  have b: "int (buffered j (items (commands w2))) = int (buffered j (items (commands w))) - of_bool (publication_of j q)" for j
    unfolding it by (rule buffered_detached [OF d q])
  have "views w' = views w2" "commands w' = commands w2" using w' by simp_all
  then show ?thesis using inv unfolding buffer_inv_def
    by (auto simp: b v n [simplified] it [THEN arg_cong [where f = "map q_addr"]] distinct_map_filter)
qed

lemma elsewhere_inv:
  assumes "items (commands w') = items (commands w)" "views w' = views w" "buffer_inv w"
  shows "buffer_inv w'"
  using assms(3) unfolding buffer_inv_def assms(1,2) .

lemma queue_step_inv: "queue_step dir w w' \<Longrightarrow> buffer_inv w \<Longrightarrow> buffer_inv w'"
  by (elim queue_stepE) (rule added_inv taken_inv elsewhere_inv; assumption)+

text \<open>C5. While a client is in use (its commands have been restored, and it is not destroyed yet), whatever steps the
  queue takes, the counter of a handle is the number of the publications of this client
  that wait in the queue, and this number never exceeds the limit that the application has set: new
  publications make the oldest one leave, with a store and without one, and also when the store fails. Other
  commands and other clients are not counted.\<close>

theorem buffer_bounded:
  assumes start: "distinct (map q_addr (items (commands w)))"
      "\<forall>j < length (views w). fst (views w ! j) = int (buffered j (items (commands w)))
         \<and> (\<forall>opts. snd (views w ! j) = Ptr opts \<longrightarrow> fst (views w ! j) \<le> maxBufferedMessages opts)"
    and run: "(queue_step dir)\<^sup>*\<^sup>* w w'" and h: "h < length (items (handles w'))"
  shows "noBufferedMessages (handle_at h w') = int (length (filter (publication_of h) (items (commands w'))))
    \<and> (\<forall>opts. createOptions (handle_at h w') = Ptr opts
         \<longrightarrow> int (length (filter (publication_of h) (items (commands w')))) \<le> maxBufferedMessages opts)"
proof -
  have "buffer_inv w" using start by (auto simp: buffer_inv_def)
  with run have "buffer_inv w'" by (induction rule: rtranclp_induct) (auto intro: queue_step_inv)
  then have "fst (views w' ! h) = int (buffered h (items (commands w')))"
      "\<forall>opts. snd (views w' ! h) = Ptr opts \<longrightarrow> fst (views w' ! h) \<le> maxBufferedMessages opts"
    using h by (auto simp: buffer_inv_def)
  then show ?thesis using h by (simp add: views_at buffered_def)
qed

text \<open>A buffer for one publication that is full.\<close>

abbreviation (input) sample_publication :: "nat \<Rightarrow> queued" where
  "sample_publication n \<equiv> sample_queued PUBLISH (Pub (Ptr [97]) 1 (Ptr [3]) 1 False) n"

definition sample_buffer :: async where
  "sample_buffer = (sample_async [sample_client]
     [sample_handle\<lparr>createOptions := Ptr \<lparr>co_struct_version = 2, sendWhileDisconnected = True, maxBufferedMessages = 1,
        co_MQTTVersion = 4, allowDisconnectedSendAtAnyTime = True, deleteOldestMessages = True, restoreMessages = True,
        persistQoS0 = True\<rparr>, noBufferedMessages := 1\<rparr>])\<lparr>commands := \<lparr>items = [sample_publication 1], cur_pos = None\<rparr>\<rparr>"

lemma buffer_bounded_witness:
  "\<exists>w'. MQTTAsync_addCommand (default_store [46]) (sample_publication 2) sample_buffer = Some (0, w')
    \<and> noBufferedMessages (handle_at 0 w') \<le> 1"
proof -
  define q where "q = sample_publication 2"
  define q1 where "q1 = q\<lparr>q_command := (q_command q)\<lparr>start_time := 7000000\<rparr>\<rparr>"
  define w1 where "w1 = sample_buffer\<lparr>commands := l_append (commands sample_buffer) q1\<rparr>"
  have b: "clock sample_buffer = 7000000" "handles sample_buffer = handles w1" "length (items (handles sample_buffer)) = 1"
      "items (commands sample_buffer) = [sample_publication 1]" "\<not> persistence (handle_client 0 sample_buffer)"
      "noBufferedMessages (handle_at 0 sample_buffer) = 1"
    by (simp_all add: sample_buffer_def w1_def handle_client_def handle_at_def client_at_def sample_handle_def sample_client_def)
  obtain opts where o: "createOptions (handle_at 0 sample_buffer) = Ptr opts" "maxBufferedMessages opts = 1"
    by (simp add: sample_buffer_def handle_at_def)
  have q: "q_client q = 0" "cmd_type (q_command q) = PUBLISH" "q_addr q = 2" "q_seqno q = 0" "q_addr (sample_publication 1) = 1"
      "publication_of 0 (sample_publication 1)"
    by (simp_all add: q_def sample_queued_def no_queued_def no_command_def publication_of_def)
  have q1: "q_client q1 = 0" "cmd_type (q_command q1) = PUBLISH" using q by (simp_all add: q1_def)
  have "store_command (default_store [46]) q1 w1 = Some (q1, False, w1)" using b(5) q1(1) by (simp add: store_command_def w1_def)
  moreover have "w1\<lparr>commands := l_update (length (items (commands sample_buffer))) (\<lambda>_. q1) (commands w1)\<rparr> = w1"
    by (simp add: w1_def l_update_def l_append_def)
  ultimately have add: "MQTTAsync_addCommand (default_store [46]) q sample_buffer = Some (0, count_publish (default_store [46]) 0 w1)"
    using q(1,2) b(1) by (simp add: MQTTAsync_addCommand_def Let_def q1_def [symmetric] w1_def [symmetric])
  have full: "buffer_full 0 w1" using b(6) o by (simp add: buffer_full_def w1_def)
  obtain r where "first_publish 0 w1 = Some r"
    using first_publish_exists [of q1 w1 0] q1 by (auto simp: w1_def publication_of_def)
  then have h: "handles (count_publish (default_store [46]) 0 w1) = handles sample_buffer"
    using full b(2,5) by (simp add: count_publish_def Let_def w1_def detach_command_def)
  have start: "distinct (map q_addr (items (commands sample_buffer)))"
      "\<forall>j < length (views sample_buffer). fst (views sample_buffer ! j) = int (buffered j (items (commands sample_buffer)))
         \<and> (\<forall>opts. snd (views sample_buffer ! j) = Ptr opts \<longrightarrow> fst (views sample_buffer ! j) \<le> maxBufferedMessages opts)"
    using b(3,4,6) o q(6) by (simp_all add: views_at)
  have "queue_step [46] sample_buffer (count_publish (default_store [46]) 0 w1)"
    by (rule added [OF add]) (use q b(4) in \<open>simp_all add: addresses_def\<close>)
  then have "(queue_step [46])\<^sup>*\<^sup>* sample_buffer (count_publish (default_store [46]) 0 w1)" by (rule r_into_rtranclp)
  from buffer_bounded [OF start this, of 0] show ?thesis
    using add b(3) h o unfolding q_def by (simp add: handle_at_def)
qed

end
