(* ===== verification/AsyncRequests.thy ===== *)
theory AsyncRequests
  imports AsyncIds
begin

text \<open>
  The life of a request: the send thread takes the first command of a client that may send, an answer
  completes the request it belongs to, and what is left when the client is destroyed is reported as failed.
\<close>

section \<open>Requests to evaluate examples on\<close>

definition sample_requests :: "queued list" where
  "sample_requests =
     [sample_queued SUBSCRIBE (Sub [[97]] [1] no_options NULL) 1,
      (sample_queued SUBSCRIBE (Sub [[98]] [2] no_options NULL) 2)\<lparr>q_client := 1\<rparr>]"

definition sample_waiting_request :: queued where
  "sample_waiting_request =
     (sample_queued SUBSCRIBE (Sub [[97]] [1] no_options NULL) 7)
       \<lparr>q_command := no_command\<lparr>cmd_type := SUBSCRIBE, token := 7, onSuccess5 := True, onFailure := True\<rparr>\<rparr>"

definition sample_suback :: "nat list \<Rightarrow> suback_packet" where
  "sample_suback codes = \<lparr>sa_header = 144, sa_msgId = 7, sa_MQTTVersion = 4, sa_properties = None, sa_qoss = codes\<rparr>"

text \<open>A client of version 5 that waits for an answer.\<close>

definition sample_waiting :: async where
  "sample_waiting =
     sample_async [sample_client\<lparr>c_MQTTVersion := 5\<rparr>]
       [sample_handle\<lparr>responses := \<lparr>items = [sample_waiting_request], cur_pos = None\<rparr>\<rparr>]"

lemma sample_waiting_simps:
  "handle_at 0 sample_waiting = sample_handle\<lparr>responses := \<lparr>items = [sample_waiting_request], cur_pos = None\<rparr>\<rparr>"
  "handle_client 0 sample_waiting = sample_client\<lparr>c_MQTTVersion := 5\<rparr>" "events sample_waiting = []"
  "clients sample_waiting = \<lparr>items = [sample_client\<lparr>c_MQTTVersion := 5\<rparr>], cur_pos = None\<rparr>"
  "h_c sample_handle = 0" "outboundMsgs sample_client = l_empty" "commands sample_waiting = l_empty"
  "length (items (handles sample_waiting)) = 1"
  by (simp_all add: sample_waiting_def handle_at_def handle_client_def client_at_def sample_handle_def sample_client_def)

lemma sample_waiting_ready: "handle_ready 0 sample_waiting"
  unfolding handle_ready_def sample_waiting_simps by (simp add: sample_waiting_simps) (simp add: cur_ok_def)

section \<open>Which command is sent next\<close>

lemma noPendingWrites_result:
  assumes "cur_ok (write_pending w)"
  obtains l where "Socket_noPendingWrites s w = (s \<notin> set (items (write_pending w)), w\<lparr>write_pending := l\<rparr>)"
    "items l = items (write_pending w)" "cur_ok l"
proof -
  obtain r l where f: "l_find (write_pending w) ((=) s) = (r, l)" by fastforce
  have "r = None \<longleftrightarrow> s \<notin> set (items (write_pending w))" using l_find_None [OF assms, of "(=) s"] f by auto
  moreover have "items l = items (write_pending w)" "cur_ok l"
    using items_l_find [of "write_pending w" "(=) s"] cur_ok_l_find [OF assms, of "(=) s"] f by simp_all
  ultimately show ?thesis using that f by (simp add: Socket_noPendingWrites_def)
qed

text \<open>The conditions on which a command is sent.\<close>

definition may_go :: "queued \<Rightarrow> 'z async_scheme \<Rightarrow> bool" where
  "may_go q w \<longleftrightarrow>
     (let c = handle_client (q_client q) w
      in (cmd_type (q_command q) \<in> {CONNECT, DISCONNECT}
          \<or> connected c \<and> connect_state c = NOT_IN_PROGRESS \<and> socket (c_net c) \<notin> set (items (write_pending w)))
         \<and> \<not> flow_blocked q w)"

text \<open>The first command of every client, in their order.\<close>

fun first_commands :: "queued list \<Rightarrow> queued list" where
  "first_commands [] = []"
| "first_commands (q # qs) = q # filter (\<lambda>r. q_client r \<noteq> q_client q) (first_commands qs)"

lemma cursor_irrelevant [simp]:
  "handle_client h (w\<lparr>write_pending := l\<rparr>) = handle_client h w"
  "flow_blocked q (w\<lparr>write_pending := l\<rparr>) = flow_blocked q w"
  by (simp_all add: handle_client_def handle_at_def client_at_def flow_blocked_def)

lemma may_proceed_result:
  assumes "cur_ok (write_pending w)"
  obtains ok l where "may_proceed q w = (ok, w\<lparr>write_pending := l\<rparr>)" "items l = items (write_pending w)" "cur_ok l"
    "ok \<and> \<not> flow_blocked q w \<longleftrightarrow> may_go q w"
proof -
  let ?c = "handle_client (q_client q) w"
  have self: "w\<lparr>write_pending := write_pending w\<rparr> = w" by simp
  show ?thesis
  proof (cases "cmd_type (q_command q) \<in> {CONNECT, DISCONNECT} \<or> \<not> (connected ?c \<and> connect_state ?c = NOT_IN_PROGRESS)")
    case True
    then have "may_proceed q w = (cmd_type (q_command q) \<in> {CONNECT, DISCONNECT}, w\<lparr>write_pending := write_pending w\<rparr>)"
      unfolding may_proceed_def Let_def by auto
    then show ?thesis by (rule that) (use True assms in \<open>auto simp: may_go_def Let_def\<close>)
  next
    case False
    obtain l where "Socket_noPendingWrites (socket (c_net ?c)) w
        = (socket (c_net ?c) \<notin> set (items (write_pending w)), w\<lparr>write_pending := l\<rparr>)"
      "items l = items (write_pending w)" "cur_ok l" by (rule noPendingWrites_result [OF assms])
    note l = this
    have "may_proceed q w = (socket (c_net ?c) \<notin> set (items (write_pending w)), w\<lparr>write_pending := l\<rparr>)"
      using l(1) False unfolding may_proceed_def Let_def by auto
    then show ?thesis by (rule that) (use False l in \<open>auto simp: may_go_def Let_def\<close>)
  qed
qed

lemma may_go_cursor [simp]: "items l = items (write_pending w) \<Longrightarrow> may_go q (w\<lparr>write_pending := l\<rparr>) = may_go q w"
  by (simp add: may_go_def)

lemma select_find:
  assumes "cur_ok (write_pending w)"
  shows "\<exists>l. items l = items (write_pending w)
    \<and> select_command ign cmds w
      = (List.find (\<lambda>q. may_go q w) (filter (\<lambda>q. q_client q \<notin> set ign) (first_commands cmds)), w\<lparr>write_pending := l\<rparr>)"
  using assms
proof (induction cmds arbitrary: ign w)
  case (Cons q qs)
  obtain ok l where m: "may_proceed q w = (ok, w\<lparr>write_pending := l\<rparr>)" "items l = items (write_pending w)" "cur_ok l"
    "ok \<and> \<not> flow_blocked q w \<longleftrightarrow> may_go q w" by (rule may_proceed_result [OF Cons.prems, of q])
  let ?w = "w\<lparr>write_pending := l\<rparr>"
  have c: "cur_ok (write_pending ?w)" using m(3) by simp
  have ign: "filter (\<lambda>r. q_client r \<notin> set ign) (filter (\<lambda>r. q_client r \<noteq> q_client q) rs)
      = filter (\<lambda>r. q_client r \<notin> set ign) rs" if "q_client q \<in> set ign" for rs
    using that by (induction rs) auto
  have add: "filter (\<lambda>r. q_client r \<notin> set (ign @ [q_client q])) rs
      = filter (\<lambda>r. q_client r \<notin> set ign) (filter (\<lambda>r. q_client r \<noteq> q_client q) rs)" for rs
    by (induction rs) auto
  have go: "(\<lambda>q. may_go q ?w) = (\<lambda>q. may_go q w)" using m(2) by (simp add: fun_eq_iff)
  show ?case
  proof (cases "q_client q \<in> set ign")
    case True
    then show ?thesis using Cons.IH [OF Cons.prems, of ign] ign [OF True, of "first_commands qs"] by (simp del: filter_filter)
  next
    case out: False
    show ?thesis
    proof (cases "may_go q w")
      case True
      then show ?thesis using out m by auto
    next
      case False
      then have "select_command ign (q # qs) w = select_command (ign @ [q_client q]) qs ?w" using out m by auto
      then show ?thesis using Cons.IH [OF c, of "ign @ [q_client q]"] out False m(2) add go by auto
    qed
  qed
qed auto

lemma find_first_commands:
  "List.find P (first_commands cmds) = Some q \<Longrightarrow>
     \<exists>pre post. cmds = pre @ q # post \<and> (\<forall>r \<in> set pre. q_client r \<noteq> q_client q) \<and> P q \<and> (\<forall>r \<in> set (first_commands pre). \<not> P r)"
proof (induction cmds arbitrary: P)
  case (Cons c cmds)
  show ?case
  proof (cases "P c")
    case True
    then show ?thesis using Cons.prems by (intro exI [of _ "[]"] exI [of _ cmds]) auto
  next
    case False
    let ?P = "\<lambda>q. q_client q \<noteq> q_client c \<and> P q"
    have "List.find P (filter Q qs) = List.find (\<lambda>q. Q q \<and> P q) qs" for Q and qs :: "queued list"
      by (induction qs) auto
    then have "List.find ?P (first_commands cmds) = Some q" using Cons.prems False by simp
    from Cons.IH [OF this] obtain pre post where "cmds = pre @ q # post" "\<forall>r \<in> set pre. q_client r \<noteq> q_client q"
      "?P q" "\<forall>r \<in> set (first_commands pre). \<not> ?P r" by blast
    then show ?thesis using False by (intro exI [of _ "c # pre"] exI [of _ post]) auto
  qed
qed simp

text \<open>C7. The command that \<open>MQTTAsync_processCommand\<close> chooses is the first one of its client, so that the commands
  of a client are carried out in their order, and it may be sent: it connects or disconnects, or its
  client is connected with nothing left to write, and a window for messages in flight is open. Every client
  that has commands before it has to wait; when no command is chosen every client has to wait. Nothing but
  the cursor of the list of pending writes is changed.\<close>

theorem select_first:
  assumes "cur_ok (write_pending w)"
  shows "(case fst (select_command [] cmds w) of
      Some q \<Rightarrow> \<exists>pre post. cmds = pre @ q # post \<and> (\<forall>r \<in> set pre. q_client r \<noteq> q_client q) \<and> may_go q w
                  \<and> (\<forall>r \<in> set (first_commands pre). \<not> may_go r w)
    | None \<Rightarrow> \<forall>r \<in> set (first_commands cmds). \<not> may_go r w)
    \<and> (\<exists>l. items l = items (write_pending w) \<and> snd (select_command [] cmds w) = w\<lparr>write_pending := l\<rparr>)"
proof -
  obtain l where "items l = items (write_pending w)"
      "select_command [] cmds w = (List.find (\<lambda>q. may_go q w) (first_commands cmds), w\<lparr>write_pending := l\<rparr>)"
    using select_find [OF assms, of "[]" cmds] by auto
  then show ?thesis
    using find_first_commands [of "\<lambda>q. may_go q w" cmds]
    by (auto split: option.splits simp: find_None_iff)
qed

lemma select_first_witness:
  "\<exists>q. fst (select_command [] sample_requests (sample_async [sample_client\<lparr>connected := False\<rparr>, sample_client]
      [sample_handle, sample_handle\<lparr>h_c := 1\<rparr>])) = Some q \<and> q_client q = 1"
proof -
  let ?w = "sample_async [sample_client\<lparr>connected := False\<rparr>, sample_client] [sample_handle, sample_handle\<lparr>h_c := 1\<rparr>]"
  obtain q1 q2 where cmds: "sample_requests = [q1, q2]" "q_client q1 = 0" "q_client q2 = 1"
      "cmd_type (q_command q1) = SUBSCRIBE" "cmd_type (q_command q2) = SUBSCRIBE"
    by (simp add: sample_requests_def sample_queued_def no_queued_def)
  have p: "write_pending ?w = l_empty" by (simp add: sample_async_def disk.defs sample_disk_def protocol.defs sample_protocol_defs)
  have c: "handle_client 0 ?w = sample_client\<lparr>connected := False\<rparr>" "handle_client 1 ?w = sample_client"
    by (simp_all add: handle_client_def handle_at_def client_at_def sample_handle_def)
  define w where "w = ?w"
  have "connected sample_client" "connect_state sample_client = 0" "maxInflightMessages sample_client = 10"
      "items (outboundMsgs sample_client) = []" by (simp_all add: sample_client_def)
  then have go: "\<not> may_go q1 ?w" "may_go q2 ?w"
    using cmds c p by (simp_all add: may_go_def flow_blocked_def Let_def)
  have ok: "cur_ok (write_pending w)" unfolding w_def p by simp
  have go: "\<not> may_go q1 w" "may_go q2 w" unfolding w_def by (rule go)+
  have "\<exists>q. fst (select_command [] sample_requests w) = Some q \<and> q_client q = 1"
  proof (cases "fst (select_command [] sample_requests w)")
    case None
    have "q2 \<in> set (first_commands sample_requests)" unfolding cmds(1) using cmds(2,3) by simp
    then show ?thesis using select_first [OF ok, of sample_requests] None go(2) by auto
  next
    case (Some q)
    then obtain pre post where "[q1, q2] = pre @ q # post" "may_go q w"
      using select_first [OF ok, of sample_requests] unfolding cmds(1) by auto
    then have "q = q2" using go(1) by (auto simp: Cons_eq_append_conv)
    then show ?thesis using Some cmds(3) by simp
  qed
  then show ?thesis by (simp only: w_def)
qed

section \<open>The answer to a subscription\<close>

text \<open>
  What the application is told. A single subscription that the server refuses is a failure; version 5 has
  more codes for it.
\<close>

definition refused :: "int \<Rightarrow> suback_packet \<Rightarrow> bool" where
  "refused version sub \<longleftrightarrow> length (sa_qoss sub) = 1
     \<and> (if version \<ge> MQTTVERSION_5 then 128 \<le> hd (sa_qoss sub) else hd (sa_qoss sub) = 128)"

definition suback_report :: "nat \<Rightarrow> int \<Rightarrow> command \<Rightarrow> suback_packet \<Rightarrow> event list" where
  "suback_report h version cmd sub =
     (if refused version sub
      then (if (if version \<ge> MQTTVERSION_5 then onFailure5 cmd else onFailure cmd)
            then [Failure h (cmd_context cmd) (token cmd) (int (hd (sa_qoss sub)))] else [])
      else (if (if version \<ge> MQTTVERSION_5 then onSuccess5 cmd else onSuccess cmd)
            then [Success h (cmd_context cmd) (token cmd) (Sub_data (map int (sa_qoss sub)))] else []))"

lemma log_event_simps [simp]:
  "events (log_event e w) = events w @ [e]" "commands (log_event e w) = commands w" "clients (log_event e w) = clients w"
  "handle_at h (log_event e w) = handle_at h w" "handle_client h (log_event e w) = handle_client h w"
  by (simp_all add: log_event_def handle_at_def handle_client_def client_at_def)

lemma call_failure_simps [simp]:
  "commands (call_failure h c t rc w) = commands w" "handles (call_failure h c t rc w) = handles w"
  "handle_at j (call_failure h c t rc w) = handle_at j w"
  by (simp_all add: call_failure_def log_event_def handle_at_def)

lemma handleSubacks_own:
  assumes "h_c (handle_at h w) < length (items (clients w))" "cur_ok (clients w)"
  obtains l where "MQTTProtocol_handleSubacks (socket (c_net (handle_client h w))) w = Some (TCPSOCKET_COMPLETE, w\<lparr>clients := l\<rparr>)"
proof -
  let ?P = "clientSocketCompare (socket (c_net (handle_client h w)))"
  have "handle_client h w \<in> set (items (clients w))" using assms(1) by (simp add: handle_client_def client_at_def)
  moreover have "?P (handle_client h w)" by (simp add: clientSocketCompare_def)
  ultimately have "fst (l_find (clients w) ?P) \<noteq> None" using l_find_None [OF assms(2), of ?P] by blast
  then obtain k l where "l_find (clients w) ?P = (Some k, l)" by (cases "l_find (clients w) ?P") auto
  then show ?thesis using that [of l] by (simp add: MQTTProtocol_handleSubacks_def find_client_def)
qed

lemma suback_callback_result:
  assumes "sa_qoss sub \<noteq> []"
  obtains w' where "suback_callback h cmd sub w = Some w'" "events w' = events w @ suback_report h (c_MQTTVersion (handle_client h w)) cmd sub"
    "w' = w\<lparr>events := events w'\<rparr>"
proof -
  have hd: "hd (map int (sa_qoss sub)) = int (hd (sa_qoss sub))" using assms by (cases "sa_qoss sub") simp_all
  have i: "(128 \<le> int n) = (128 \<le> n)" "(int n = 128) = (n = 128)" for n by simp_all
  show ?thesis
    using that [of "w\<lparr>events := events w @ suback_report h (c_MQTTVersion (handle_client h w)) cmd sub\<rparr>"] assms
    by (auto simp: suback_callback_def suback_report_def refused_def Let_def hd i log_event_def)
qed

lemma take_response_first:
  assumes "cur_ok (responses (handle_at h w))" "distinct (map q_addr (items (responses (handle_at h w))))"
    and "h < length (items (handles w))"
    and "items (responses (handle_at h w)) = pre @ q # post" "\<forall>r \<in> set pre. token (q_command r) \<noteq> i" "token (q_command q) = i"
  obtains l where "take_response h i w = (Some q, upd_handle h (\<lambda>m. m\<lparr>responses := l\<rparr>) w)" "items l = pre @ post"
proof -
  have f: "List.find (\<lambda>q. token (q_command q) = i) (pre @ q # post) = Some q"
    using assms(5,6) by (induction pre) auto
  let ?l = "snd (l_unlink (responses (handle_at h w)) (\<lambda>r. q_addr r = q_addr q))"
  have d: "q_addr q \<notin> q_addr ` set pre" "q_addr q \<notin> q_addr ` set post" using assms(2) assms(4) by auto
  then have "filter (\<lambda>r. q_addr r \<noteq> q_addr q) pre = pre" "filter (\<lambda>r. q_addr r \<noteq> q_addr q) post = post"
    by (auto simp: filter_id_conv image_iff)
  then have "filter (\<lambda>r. q_addr r \<noteq> q_addr q) (pre @ q # post) = pre @ post" by simp
  then have "items ?l = pre @ post" using l_unlink_filter [OF assms(1,2), of "q_addr q"] assms(4) by simp
  then show ?thesis using that [of ?l] f assms(4) by (simp add: take_response_def upd_handle_def)
qed

lemma upd_handle_responses [simp]:
  "events (upd_handle h f w) = events w" "commands (upd_handle h f w) = commands w" "clients (upd_handle h f w) = clients w"
  by (simp_all add: upd_handle_def)

text \<open>C9. A SUBACK completes the request with its identifier. The first response with this token leaves the list
  of responses, the others stay, the application is told once about the codes of the packet by the callback
  that is set for success or failure, and no command is touched.\<close>

theorem suback_completes:
  assumes w: "handle_ready h w" "cur_ok (clients w)" "distinct (map q_addr (items (responses (handle_at h w))))"
    and r: "items (responses (handle_at h w)) = pre @ q # post" "\<forall>r \<in> set pre. token (q_command r) \<noteq> sa_msgId sub"
      "token (q_command q) = sa_msgId sub"
    and codes: "sa_qoss sub \<noteq> []"
  shows "\<exists>w'. receive_suback h sub w = Some w' \<and> items (responses (handle_at h w')) = pre @ post
    \<and> events w' = events w @ suback_report h (c_MQTTVersion (handle_client h w)) (q_command q) sub
    \<and> commands w' = commands w"
proof -
  have ok: "h < length (items (handles w))" "cur_ok (responses (handle_at h w))" "h_c (handle_at h w) < length (items (clients w))"
    using w(1) by (simp_all add: handle_ready_def)
  obtain l where l: "take_response h (sa_msgId sub) w = (Some q, upd_handle h (\<lambda>m. m\<lparr>responses := l\<rparr>) w)" "items l = pre @ post"
    by (rule take_response_first [OF ok(2) w(3) ok(1) r])
  define w1 where "w1 = upd_handle h (\<lambda>m. m\<lparr>responses := l\<rparr>) w"
  have a1: "handle_at h w1 = (handle_at h w)\<lparr>responses := l\<rparr>" using ok(1) by (simp add: w1_def handle_at_def upd_handle_def)
  have c1: "handle_client h w1 = handle_client h w" by (simp add: handle_client_def a1) (simp add: w1_def client_at_def)
  obtain w2 where w2: "suback_callback h (q_command q) sub w1 = Some w2"
      "events w2 = events w1 @ suback_report h (c_MQTTVersion (handle_client h w1)) (q_command q) sub" "w2 = w1\<lparr>events := events w2\<rparr>"
    by (rule suback_callback_result [OF codes])
  have a2: "handle_at h w2 = handle_at h w1" "clients w2 = clients w" "commands w2 = commands w"
    by (subst w2(3), simp add: handle_at_def w1_def)+
  obtain l3 where "MQTTProtocol_handleSubacks (socket (c_net (handle_client h w2))) w2 = Some (TCPSOCKET_COMPLETE, w2\<lparr>clients := l3\<rparr>)"
    by (rule handleSubacks_own [of h w2]) (use ok(3) w(2) a1 a2 in simp_all)
  moreover have "handle_at h (w2\<lparr>clients := l3\<rparr>) = handle_at h w1" using a2(1) by (simp add: handle_at_def)
  ultimately show ?thesis
    using l w2(1,2) a1 a2(3) c1 by (simp add: receive_suback_def w1_def [symmetric]) (simp add: w1_def)
qed

lemma suback_completes_witness:
  "\<exists>w'. receive_suback 0 (sample_suback [1]) sample_waiting = Some w' \<and> items (responses (handle_at 0 w')) = []
    \<and> events w' = [Success 0 0 7 (Sub_data [1])]"
proof -
  have "sa_msgId (sample_suback [1]) = 7" "sa_qoss (sample_suback [1]) = [1]" by (simp_all add: sample_suback_def)
  moreover have "cur_ok (clients sample_waiting)" by (simp add: sample_waiting_simps cur_ok_def)
  ultimately show ?thesis
    using suback_completes [OF sample_waiting_ready, of "[]" sample_waiting_request "[]" "sample_suback [1]"]
    by (auto simp: sample_waiting_simps suback_report_def refused_def sample_waiting_request_def sample_queued_def
        no_queued_def no_command_def)
qed



section \<open>Requests that are left\<close>

text \<open>What \<open>MQTTAsync_destroy\<close> does with the requests of a client, and the callback for one of them.\<close>

abbreviation fail_requests :: "nat \<Rightarrow> 'z async_scheme \<Rightarrow> 'z async_scheme" where
  "fail_requests h w \<equiv>
     MQTTAsync_freeCommands h (MQTTAsync_NULLPublishCommands h (MQTTAsync_freeResponses h (MQTTAsync_NULLPublishResponses h w)))"

definition incomplete :: "nat \<Rightarrow> queued \<Rightarrow> event list" where
  "incomplete h q =
     (if onFailure (q_command q) \<or> onFailure5 (q_command q)
      then [Failure h (cmd_context (q_command q)) (token (q_command q)) MQTTASYNC_OPERATION_INCOMPLETE] else [])"

lemma incomplete_null_publish [simp]:
  "incomplete h (null_publish q) = incomplete h q" "q_addr (null_publish q) = q_addr q" "q_client (null_publish q) = q_client q"
  by (simp_all add: incomplete_def null_publish_def)

lemma call_failure_events [simp]:
  "call_failure h (q_command q) (token (q_command q)) MQTTASYNC_OPERATION_INCOMPLETE w = w\<lparr>events := events w @ incomplete h q\<rparr>"
  by (simp add: call_failure_def incomplete_def log_event_def)

lemma fail_all_events: "fail_all h qs w = w\<lparr>events := events w @ concat (map (incomplete h) qs)\<rparr>"
  by (induction qs arbitrary: w) (simp_all add: fail_all_def)

lemma freeCommands_run:
  assumes "cur_ok (commands w)" "distinct (map q_addr (items (commands w)))"
  obtains l where "MQTTAsync_freeCommands h w
      = w\<lparr>commands := l, events := events w @ concat (map (incomplete h) (filter (\<lambda>q. q_client q = h) (items (commands w))))\<rparr>"
    "items l = filter (\<lambda>q. q_client q \<noteq> h) (items (commands w))"
proof -
  let ?step = "\<lambda>q w. call_failure h (q_command q) (token (q_command q)) MQTTASYNC_OPERATION_INCOMPLETE (detach_command q w)"
  have run: "\<exists>l. fold ?step qs w = w\<lparr>commands := l, events := events w @ concat (map (incomplete h) qs)\<rparr>
      \<and> items l = filter (\<lambda>r. q_addr r \<notin> q_addr ` set qs) (items (commands w))"
    if "cur_ok (commands w)" "distinct (map q_addr (items (commands w)))" for qs and w :: "'a async_scheme"
    using that
  proof (induction qs arbitrary: w)
    case (Cons q qs)
    let ?l = "snd (l_unlink (commands w) (\<lambda>r. q_addr r = q_addr q))"
    let ?w = "?step q w"
    have i: "items ?l = filter (\<lambda>r. q_addr r \<noteq> q_addr q) (items (commands w))" by (rule l_unlink_filter [OF Cons.prems])
    have w1: "?w = w\<lparr>commands := ?l, events := events w @ incomplete h q\<rparr>" by (simp add: detach_command_def)
    have c: "cur_ok (commands ?w)" "distinct (map q_addr (items (commands ?w)))"
      unfolding w1 using Cons.prems i by (simp_all add: distinct_map_filter)
    obtain l where "fold ?step qs ?w = ?w\<lparr>commands := l, events := events ?w @ concat (map (incomplete h) qs)\<rparr>"
        "items l = filter (\<lambda>r. q_addr r \<notin> q_addr ` set qs) (items (commands ?w))"
      using Cons.IH [OF c] by blast
    then show ?case using i w1 by (intro exI [of _ l]) (auto simp: detach_command_def intro!: filter_cong)
  qed (auto intro!: exI [of _ "commands w" for w :: "'a async_scheme"])
  have "filter (\<lambda>r. q_addr r \<notin> q_addr ` set (filter (\<lambda>q. q_client q = h) (items (commands w)))) (items (commands w))
      = filter (\<lambda>q. q_client q \<noteq> h) (items (commands w))"
    using assms(2) by (auto intro!: filter_cong simp: distinct_map dest: inj_onD)
  then show ?thesis using run [OF assms, of "filter (\<lambda>q. q_client q = h) (items (commands w))"] that
    by (auto simp: MQTTAsync_freeCommands_def)
qed



end
