(* ===== verification/AsyncRetry.thy ===== *)
theory AsyncRetry
  imports AsyncSession AsyncQueue
begin

text \<open>
  Retrying to connect: the interval between attempts doubles up to its limit, and is varied by a sixth or a
  fifth.
\<close>

section \<open>The random variation\<close>

lemma jitter_loop_bound: "jitter_loop limit rs k = Some y \<Longrightarrow> 0 \<le> fst y \<and> fst y < limit"
  by (rule jitter_loop.raw_induct [of "\<lambda>limit rs k y. 0 \<le> fst y \<and> fst y < limit"]) (auto split: if_splits)

lemma jitter_loop_returns:
  assumes "k \<le> j" "int (rs j) < limit"
  shows "\<exists>r k'. jitter_loop limit rs k = Some (r, k')"
  using assms
proof (induction "j - k" arbitrary: k)
  case 0
  then show ?case by (simp add: jitter_loop.simps)
next
  case (Suc n)
  then have "n = j - Suc k" "Suc k \<le> j" by simp_all
  from Suc.hyps(1) [OF this Suc.prems(2)] show ?case by (subst jitter_loop.simps) simp
qed

text \<open>The smallest and the largest interval.\<close>

definition min_sleep :: "int \<Rightarrow> int \<Rightarrow> int" where "min_sleep base minInterval = (max minInterval base * 5) div 6"
definition max_sleep :: "int \<Rightarrow> int \<Rightarrow> int" where "max_sleep base maxInterval = (min maxInterval base * 6) div 5"

lemma sdiv_nonneg: "0 \<le> a \<Longrightarrow> 0 < b \<Longrightarrow> (a :: int) sdiv b = a div b"
  by (cases "a = 0") (simp_all add: signed_divide_int_def)

lemma randomJitter_result:
  assumes i: "0 \<le> base" "0 \<le> minInterval" "0 \<le> maxInterval" "max_sleep base maxInterval < INT_MAX"
    and rs: "\<exists>j \<ge> rands w. rand_plan w j < 2 ^ 30"
  obtains v k where "MQTTAsync_randomJitter base minInterval maxInterval w = Some (v, w\<lparr>rands := k\<rparr>)"
    "min_sleep base minInterval \<le> v" "v \<le> max (min_sleep base minInterval) (max_sleep base maxInterval)"
proof -
  define lo where "lo = min_sleep base minInterval"
  define hi where "hi = max_sleep base maxInterval"
  define range where "range = hi - lo + 1"
  define buckets where "buckets = RAND_MAX div range"
  have lo: "(max minInterval base * 5) sdiv 6 = lo" "0 \<le> lo" using i by (simp_all add: lo_def min_sleep_def sdiv_nonneg)
  have hi: "(min maxInterval base * 6) sdiv 5 = hi" "hi < INT_MAX" using i by (simp_all add: hi_def max_sleep_def sdiv_nonneg)
  show ?thesis
  proof (cases "lo \<ge> hi")
    case True
    then have "MQTTAsync_randomJitter base minInterval maxInterval w = Some (lo, w\<lparr>rands := rands w\<rparr>)"
      using lo hi by (simp add: MQTTAsync_randomJitter_def Let_def)
    then show ?thesis by (rule that) (simp_all add: lo_def)
  next
    case False
    then have r: "1 \<le> range" "range \<le> INT_MAX" using lo hi by (simp_all add: range_def)
    have m: "RAND_MAX = buckets * range + RAND_MAX mod range" "RAND_MAX mod range < range"
      using r by (simp_all add: buckets_def)
    have b: "1 \<le> buckets" using r by (simp add: buckets_def pos_imp_zdiv_pos_iff int_one_le_iff_zero_less)
    have half: "2 ^ 30 \<le> buckets * range"
    proof -
      have "range \<le> buckets * range" using b r mult_right_mono [of 1 buckets range] by simp
      moreover have "(2 :: int) ^ 30 \<le> p" if "RAND_MAX = p + q" "q < r" "r \<le> p" for p q r :: int using that by simp
      ultimately show ?thesis using m by blast
    qed
    obtain j where j: "rands w \<le> j" "rand_plan w j < 2 ^ 30" using rs by blast
    then have "int (rand_plan w j) < int (2 ^ 30)" by (simp only: of_nat_less_iff)
    also have "\<dots> = 2 ^ 30" by simp
    finally have "int (rand_plan w j) < buckets * range" using half by (rule less_le_trans)
    then obtain x k where x: "jitter_loop (buckets * range) (rand_plan w) (rands w) = Some (x, k)"
      using jitter_loop_returns [OF j(1)] by blast
    have xb: "0 \<le> x" "x < buckets * range" using jitter_loop_bound [OF x] by simp_all
    have "MQTTAsync_randomJitter base minInterval maxInterval w = Some (lo + x div buckets, w\<lparr>rands := k\<rparr>)"
      using False lo hi r x xb b by (simp add: MQTTAsync_randomJitter_def Let_def range_def [symmetric] sdiv_nonneg buckets_def [symmetric])
    moreover have "x div buckets < range"
    proof (rule ccontr)
      assume "\<not> x div buckets < range"
      then have "buckets * range \<le> buckets * (x div buckets)" using b by (intro mult_left_mono) simp_all
      moreover have "buckets * (x div buckets) \<le> x" using b mult_div_mod_eq [of buckets x] pos_mod_sign [of buckets x] by linarith
      ultimately show False using xb by linarith
    qed
    ultimately show ?thesis using that [of "lo + x div buckets" k] xb b
      by (simp add: lo_def [symmetric] hi_def [symmetric] pos_imp_zdiv_nonneg_iff range_def)
  qed
qed

section \<open>A sequence of failed attempts\<close>

fun fail_attempts :: "nat \<Rightarrow> nat \<Rightarrow> 'z async_scheme \<Rightarrow> 'z async_scheme option" where
  "fail_attempts 0 h w = Some w"
| "fail_attempts (Suc n) h w = do { w1 \<leftarrow> fail_attempts n h w; MQTTAsync_startConnectRetry h w1 }"

text \<open>A handle that connects again by itself, with a generator that keeps returning small numbers.\<close>

definition retries :: "nat \<Rightarrow> 'z async_scheme \<Rightarrow> bool" where
  "retries h w \<longleftrightarrow>
     h < length (items (handles w)) \<and> automaticReconnect (handle_at h w) \<and> shouldBeConnected (handle_at h w)
     \<and> (\<forall>i. \<exists>j \<ge> i. rand_plan w j < 2 ^ 30)"

lemma startConnectRetry_result:
  assumes r: "retries h w" and b: "b = (if retrying (handle_at h w) then min (currentIntervalBase (handle_at h w) * 2) maxR else minR)"
    and m: "minRetryInterval (handle_at h w) = minR" "maxRetryInterval (handle_at h w) = maxR"
      "0 \<le> minR" "minR \<le> b" "b \<le> maxR" "(maxR * 6) div 5 < INT_MAX"
  obtains w' v where "MQTTAsync_startConnectRetry h w = Some w'" "retries h w'" "retrying (handle_at h w')"
    "minRetryInterval (handle_at h w') = minR" "maxRetryInterval (handle_at h w') = maxR"
    "currentIntervalBase (handle_at h w') = b" "currentInterval (handle_at h w') = v" "b * 5 div 6 \<le> v" "v \<le> b * 6 div 5"
proof -
  have mx: "max minR b = b" "min maxR b = b" using m by simp_all
  have i: "0 \<le> b" "0 \<le> maxR" using m by simp_all
  have "b * 6 div 5 \<le> maxR * 6 div 5" using m by (simp add: zdiv_mono1)
  then have hi: "max_sleep b maxR < INT_MAX" using m unfolding max_sleep_def mx by simp
  obtain v k where v: "MQTTAsync_randomJitter b minR maxR w = Some (v, w\<lparr>rands := k\<rparr>)"
      "min_sleep b minR \<le> v" "v \<le> max (min_sleep b minR) (max_sleep b maxR)"
    by (rule randomJitter_result [OF i(1) m(3) i(2) hi]) (use r in \<open>auto simp: retries_def\<close>)
  define m1 where "m1 = (handle_at h w)\<lparr>lastConnectionFailedTime := clock w, currentIntervalBase := b, retrying := True\<rparr>"
  define w' where "w' = upd_handle h (\<lambda>_. m1\<lparr>currentInterval := v\<rparr>) (w\<lparr>rands := k\<rparr>)"
  have run: "MQTTAsync_startConnectRetry h w = Some w'"
    using r m v(1) b by (simp add: MQTTAsync_startConnectRetry_def Let_def retries_def m1_def w'_def cong: if_cong)
  have h: "handle_at h w' = m1\<lparr>currentInterval := v\<rparr>" using r by (simp add: w'_def retries_def)
  have lens: "length (items (handles w')) = length (items (handles w))" "rand_plan w' = rand_plan w"
    by (simp_all add: w'_def upd_handle_def)
  have r': "retries h w'" unfolding retries_def h lens using r unfolding retries_def by (simp add: m1_def)
  have q: "b * 5 div 6 \<le> b * 6 div 5"
  proof -
    have "b * 5 div 6 \<le> b * 6 div 6" using i by (intro zdiv_mono1) simp_all
    also have "\<dots> = b * 5 div 5" by simp
    also have "\<dots> \<le> b * 6 div 5" using i by (intro zdiv_mono1) simp_all
    finally show ?thesis .
  qed
  have vb: "b * 5 div 6 \<le> v" using v(2) unfolding min_sleep_def mx .
  have vb2: "v \<le> b * 6 div 5" using v(3) unfolding min_sleep_def max_sleep_def mx max.absorb2 [OF q] .
  show ?thesis
    by (rule that [OF run r']) (use vb vb2 in \<open>simp_all add: h m1_def m(1,2)\<close>)
qed



end
