(* ===== verification/Addresses.thy ===== *)
theory Addresses
  imports Connect
begin

text \<open>
  Setting up a connection does what it is meant to: an address is taken apart into host, port and path, the
  credentials of a proxy are decoded, and the answer that opens a websocket is checked.
\<close>

section \<open>Addresses are taken apart correctly\<close>

lemma strchr_None [simp]: "c \<notin> set s \<Longrightarrow> strchr c s = None"
  by (simp add: strchr_def)

lemma strchr_append: "c \<notin> set s \<Longrightarrow> strchr c (s @ c # t) = Some (length s)"
proof -
  assume "c \<notin> set s"
  then have "takeWhile (\<lambda>x. x \<noteq> c) s = s" by (auto simp: takeWhile_eq_all_conv)
  then show ?thesis by (simp add: strchr_def takeWhile_tail)
qed

lemma strrchr_None [simp]: "c \<notin> set s \<Longrightarrow> strrchr c s = None"
  by (simp add: strrchr_def)

lemma strrchr_append: "c \<notin> set t \<Longrightarrow> strrchr c (s @ c # t) = Some (length s)"
  using strchr_append [of c "rev t" "rev s"] by (simp add: strrchr_def)

text \<open>A host is a name or the literal of an IPv6 address, which is written in brackets.\<close>

datatype host = Name bytes | Literal6 bytes

definition host_text :: "host \<Rightarrow> bytes" where
  "host_text hs = (case hs of Name n \<Rightarrow> n | Literal6 a \<Rightarrow> [91] @ a @ [93])"

definition host_ok :: "host \<Rightarrow> bool" where
  "host_ok hs = (case hs of Name n \<Rightarrow> n \<noteq> [] \<and> set n \<inter> {0, 47, 58, 91, 93} = {} | Literal6 a \<Rightarrow> set a \<inter> {0, 47, 91, 93} = {})"

definition plain_host :: "host \<Rightarrow> bytes" where
  "plain_host hs = (case hs of Name n \<Rightarrow> n | Literal6 a \<Rightarrow> a)"

definition port_text :: "int option \<Rightarrow> bytes" where
  "port_text port = (case port of None \<Rightarrow> [] | Some p \<Rightarrow> [58] @ decimal p)"

definition path_ok :: "bytes \<Rightarrow> bool" where
  "path_ok path \<longleftrightarrow> path = [] \<or> hd path = 47 \<and> set path \<inter> {58, 93} = {}"

lemma strrchr_left:
  assumes "c \<notin> set t"
  shows "strrchr c (s @ t) = strrchr c s"
proof -
  have "takeWhile (\<lambda>x. x \<noteq> c) (rev t @ rev s) = rev t @ takeWhile (\<lambda>x. x \<noteq> c) (rev s)"
    using assms by (intro takeWhile_append2) auto
  then show ?thesis using assms by (auto simp: strrchr_def strchr_def)
qed

lemma strrchr_bound: "strrchr c s = Some i \<Longrightarrow> i < length s"
  by (cases s) (auto simp: strrchr_def strchr_def split: if_splits)

lemma strchr_left: "c \<notin> set s \<Longrightarrow> strchr c (s @ t) = map_option ((+) (length s)) (strchr c t)"
proof -
  assume "c \<notin> set s"
  then have "takeWhile (\<lambda>x. x \<noteq> c) (s @ t) = s @ takeWhile (\<lambda>x. x \<noteq> c) t" by (intro takeWhile_append2) auto
  then show ?thesis using \<open>c \<notin> set s\<close> by (simp add: strchr_def)
qed

lemma decimal_chars: "0 \<le> port \<Longrightarrow> c \<in> set (decimal port) \<Longrightarrow> is_digit c"
  using dec_digits_digits by (auto simp: decimal_def)

lemma atoi_decimal:
  assumes "0 \<le> port" "port < 2147483648" "path = [] \<or> hd path = 47"
  shows "atoi (decimal port @ path) = Some port"
proof -
  obtain x xs where x: "dec_digits (nat port) = x # xs" using dec_digits_ne by (cases "dec_digits (nat port)") auto
  have "is_digit x" using dec_digits_digits [of x "nat port"] x by simp
  then have n: "48 \<le> unat x" "unat x \<le> 57" by (simp_all add: is_digit_def word_le_nat_alt)
  then have c: "x \<notin> {32, 9, 10, 11, 12, 13}" "x \<noteq> 45" "x \<noteq> 43" by auto
  let ?P = "\<lambda>d :: byte. 48 \<le> unat d \<and> unat d \<le> 57"
  have "takeWhile ?P path = []" using assms(3) by (cases path) auto
  moreover have "\<forall>d \<in> set (x # xs). ?P d" using dec_digits_digits [of _ "nat port"] unfolding x is_digit_def by blast
  ultimately have "takeWhile ?P ((x # xs) @ path) = x # xs" "takeWhile ?P (x # xs) = x # xs"
    using takeWhile_append2 [of "x # xs" ?P path] takeWhile_append2 [of "x # xs" ?P "[]"] by simp_all
  then have "digits_value ((x # xs) @ path) = nat port" using digits_value_dec [of "nat port"] unfolding x digits_value_def by simp
  then have "atoi ((x # xs) @ path) = Some port" using assms c by (simp add: atoi_def Let_def)
  then show ?thesis using x assms by (simp add: decimal_def)
qed

lemma host_text_facts:
  assumes "host_ok hs"
  shows "host_text hs \<noteq> []" "47 \<notin> set (host_text hs)" "0 \<notin> set (plain_host hs)"
  using assms by (auto simp: host_ok_def host_text_def plain_host_def split: host.splits)

lemma path_start: "path_ok path \<Longrightarrow> strchr 47 path = (if path = [] then None else Some 0)"
  by (cases path) (auto simp: path_ok_def strchr_def)

lemma port_chars:
  assumes "case port of None \<Rightarrow> True | Some p \<Rightarrow> 0 \<le> p"
  shows "47 \<notin> set (port_text port)" "93 \<notin> set (port_text port)" "port = Some p \<Longrightarrow> 58 \<notin> set (decimal p)"
  using assms decimal_chars by (fastforce simp: port_text_def is_digit_def split: option.splits)+

text \<open>Where the port begins.\<close>

lemma colon_found:
  assumes "host_ok hs" "path_ok path" "case port of None \<Rightarrow> True | Some p \<Rightarrow> 0 \<le> p"
    and uri: "uri = host_text hs @ port_text port @ path"
  shows "(if uri \<noteq> [] \<and> hd uri = 91 \<and> (case (strrchr 58 uri, strrchr 93 uri) of
            (_, None) \<Rightarrow> False | (None, Some _) \<Rightarrow> True | (Some c, Some b) \<Rightarrow> c < b) then None else strrchr 58 uri)
    = (case port of None \<Rightarrow> None | Some _ \<Rightarrow> Some (length (host_text hs)))"
proof (cases port)
  case None
  have p: "58 \<notin> set path" "93 \<notin> set path" using assms(2) by (auto simp: path_ok_def)
  show ?thesis
  proof (cases hs)
    case (Name n)
    then have "58 \<notin> set uri" using assms(1) p None by (auto simp: host_ok_def host_text_def uri port_text_def)
    then show ?thesis using None by simp
  next
    case (Literal6 a)
    have u: "uri = (91 # a) @ 93 # path" by (simp add: uri Literal6 host_text_def None port_text_def)
    have b: "strrchr 93 uri = Some (length a + 1)" unfolding u using strrchr_append [OF p(2), of "91 # a"] by simp
    have "c < length a + 1" if "strrchr 58 uri = Some c" for c
    proof -
      have "uri = (91 # a) @ (93 # path)" "58 \<notin> set (93 # path)" using u p(1) by simp_all
      then have "strrchr 58 (91 # a) = Some c" using that strrchr_left by metis
      then show ?thesis using strrchr_bound by fastforce
    qed
    then show ?thesis using b None u by (auto split: option.splits)
  qed
next
  case (Some q)
  have p: "58 \<notin> set (decimal q @ path)" "93 \<notin> set (port_text port @ path)"
    using assms(2,3) port_chars(2,3) [OF assms(3)] Some by (auto simp: path_ok_def)
  have u: "uri = host_text hs @ 58 # (decimal q @ path)" by (simp add: uri Some port_text_def)
  have c: "strrchr 58 uri = Some (length (host_text hs))" unfolding u by (rule strrchr_append [OF p(1)])
  have "\<not> (uri \<noteq> [] \<and> hd uri = 91 \<and> (case (strrchr 58 uri, strrchr 93 uri) of
      (_, None) \<Rightarrow> False | (None, Some _) \<Rightarrow> True | (Some c, Some b) \<Rightarrow> c < b))"
  proof (cases hs)
    case (Name n)
    then have "n \<noteq> []" "91 \<notin> set n" using assms(1) by (simp_all add: host_ok_def)
    then show ?thesis by (cases n) (simp_all add: u Name host_text_def)
  next
    case (Literal6 a)
    have "uri = (91 # a) @ 93 # (port_text port @ path)" by (simp add: uri Literal6 host_text_def)
    then have "strrchr 93 uri = Some (length a + 1)" using strrchr_append [OF p(2), of "91 # a"] by simp
    then show ?thesis using c by (simp add: Literal6 host_text_def)
  qed
  then show ?thesis using c Some by simp
qed



section \<open>The credentials of a proxy\<close>

text \<open>Characters that stand for themselves, or as two hexadecimal digits.\<close>

definition hex_digit :: "nat \<Rightarrow> byte" where
  "hex_digit n = of_nat (if n < 10 then 48 + n else 55 + n)"

definition percent_encode :: "(byte \<Rightarrow> bool) \<Rightarrow> bytes \<Rightarrow> bytes" where
  "percent_encode plain s =
     concat (map (\<lambda>c. if plain c then [c] else [37, hex_digit (unat c div 16), hex_digit (unat c mod 16)]) s)"

lemma hex_digit_ok: "n < 16 \<Longrightarrow> hex_value (hex_digit n) = Some n"
proof -
  have "\<forall>n < 16. hex_value (hex_digit n) = Some n" by code_simp
  then show "n < 16 \<Longrightarrow> hex_value (hex_digit n) = Some n" by blast
qed

lemma special_loop_encoded:
  assumes "\<forall>c. plain c \<longrightarrow> c \<noteq> 64 \<and> c \<noteq> 37"
  shows "special_loop (percent_encode plain s @ 64 # rest) p n
    = Some (p @ s, n + (length (percent_encode plain s) - length s))"
proof (induction s arbitrary: p n)
  case Nil
  then show ?case by (subst special_loop.simps) (simp add: percent_encode_def)
next
  case (Cons c s)
  have u: "unat c < 256" using unsigned_less [of c, where ?'a = nat] by simp
  have h: "hex_value (hex_digit (unat c div 16)) = Some (unat c div 16)" "hex_value (hex_digit (unat c mod 16)) = Some (unat c mod 16)"
    using u by (intro hex_digit_ok; simp)+
  have c: "(of_nat (16 * (unat c div 16) + unat c mod 16) :: byte) = c" by (simp only: mult_div_mod_eq) simp
  have l: "length s \<le> length (percent_encode plain s)" for s by (induction s) (simp_all add: percent_encode_def)
  show ?case
  proof (cases "plain c")
    case True
    then have e: "percent_encode plain (c # s) = c # percent_encode plain s" by (simp add: percent_encode_def)
    show ?thesis unfolding e using Cons.IH assms True by (subst special_loop.simps) simp
  next
    case False
    then have e: "percent_encode plain (c # s) = 37 # hex_digit (unat c div 16) # hex_digit (unat c mod 16) # percent_encode plain s"
      by (simp add: percent_encode_def)
    show ?thesis unfolding e using l [of s]
      by (subst special_loop.simps) (simp add: Cons.IH h c del: of_nat_add of_nat_mult)
  qed
qed

lemma code_no_nul: "0 \<notin> set (code inp)"
proof -
  have "\<forall>i \<in> set [0..<65]. encode_char (of_nat i) \<noteq> 0" by code_simp
  then have e: "encode_char c \<noteq> 0" if "unat c \<le> 64" for c
    using that by (auto dest!: bspec [of _ _ "unat c"])
  have l: "unat c \<le> 64" if "c < 64" for c :: byte using that by (simp add: word_less_nat_alt)
  show ?thesis
    by (induction inp rule: code.induct [case_names three none one two])
      (use e l code_group_less in \<open>fastforce+\<close>)
qed

lemma cut_encoded:
  assumes "\<forall>c. plain c \<longrightarrow> c \<noteq> 64"
  shows "64 \<notin> set (percent_encode plain s)"
proof -
  have "hex_digit n \<noteq> 64" if "n < 16" for n
  proof -
    have "\<forall>n < 16. hex_digit n \<noteq> 64" by code_simp
    then show ?thesis using that by blast
  qed
  moreover have "unat c div 16 < 16" for c :: byte using unsigned_less [of c, where ?'a = nat] by simp
  ultimately show ?thesis using assms by (auto simp: percent_encode_def)
qed

lemma contains_prefix: "contains p (p @ s)"
proof -
  have "take (length p) (p @ s) = p" by simp
  then show ?thesis by (cases "p @ s") simp_all
qed

text \<open>C26. The setting of a proxy is taken apart into credentials and address: whatever the credentials are, when
  the characters that are not plain are written as \<open>%\<close> and two hexadecimal digits, the value for the header
  \<open>Proxy-authorization\<close> is the Base64 code of the credentials, which decodes to them.\<close>

theorem proxy_credentials:
  assumes "\<forall>c. plain c \<longrightarrow> c \<noteq> 64 \<and> c \<noteq> 37" "cred \<noteq> []" "length cred < 2 ^ 29"
  shows "\<exists>auth. MQTTProtocol_setHTTPProxy (pref @ percent_encode plain cred @ [64] @ address) pref = Some (address, Ptr auth)
    \<and> Base64_decode (length cred) auth = Some (length cred, cred)"
proof -
  let ?e = "percent_encode plain cred"
  define source where "source = ?e @ 64 # address"
  have l: "length s \<le> length (percent_encode plain s)" for s by (induction s) (simp_all add: percent_encode_def)
  have pos: "strchr 64 source = Some (length ?e)" "length ?e \<noteq> 0" "drop (length ?e + 1) source = address"
    using strchr_append [OF cut_encoded] assms(1) l [of cred] assms(2) by (auto simp: source_def)
  have sp: "MQTTProtocol_specialChars source = Some (cred, length ?e - length cred)"
    using special_loop_encoded [OF assms(1), of cred address "[]" 0] by (simp add: source_def MQTTProtocol_specialChars_def)
  have n: "length ?e - (length ?e - length cred) = length cred" using l [of cred] by simp
  have c: "unat (Base64_encodeLength (of_nat (length cred))) = length (code cred)" by (rule encodeLength_code [OF assms(3)])
  have "encode_loop (length (code cred) + 1) cred 0 [] = (length (code cred), code cred)"
    using encode_loop_code [of "[]" cred "length (code cred) + 1"] by simp
  then have b: "Base64_encode (length (code cred) + 1) cred = (length (code cred), code cred @ [0])"
    by (simp add: Base64_encode_def)
  have k: "cstr (code cred @ [0]) = code cred"
  proof -
    have "takeWhile (\<lambda>b. b \<noteq> 0) (code cred) = code cred" using code_no_nul [of cred] by (auto simp: takeWhile_eq_all_conv)
    then show ?thesis by (simp add: cstr_def takeWhile_tail)
  qed
  have "contains pref (pref @ source)" by (rule contains_prefix)
  then have "MQTTProtocol_setHTTPProxy (pref @ source) pref = Some (address, Ptr (code cred))"
    using pos sp n b k by (simp add: MQTTProtocol_setHTTPProxy_def Let_def c)
  moreover have "Base64_decode (length cred) (code cred) = Some (length cred, cred)"
    using decode_code [of "[]" cred] by (simp add: Base64_decode_def)
  ultimately show ?thesis unfolding source_def by auto
qed

lemma proxy_credentials_witness:
  "\<exists>auth. MQTTProtocol_setHTTPProxy (ascii ''http://u%40x:p@proxy:8080'') (ascii ''http://'') = Some (ascii ''proxy:8080'', Ptr auth)
    \<and> Base64_decode 5 auth = Some (5, ascii ''u@x:p'')"
proof -
  let ?plain = "\<lambda>c :: byte. c \<noteq> 64 \<and> c \<noteq> 37"
  have e: "ascii ''http://'' @ percent_encode ?plain (ascii ''u@x:p'') @ [64] @ ascii ''proxy:8080'' = ascii ''http://u%40x:p@proxy:8080''"
    by code_simp
  have l: "length (ascii ''u@x:p'') = 5" "ascii ''u@x:p'' \<noteq> []" by code_simp+
  have p: "\<forall>c. ?plain c \<longrightarrow> c \<noteq> 64 \<and> c \<noteq> 37" by simp
  show ?thesis
    using proxy_credentials [of ?plain "ascii ''u@x:p''" "ascii ''http://''" "ascii ''proxy:8080''", OF p l(2)] unfolding e l(1) by simp
qed

text \<open>C31. A \<open>%\<close> in the credentials that two hexadecimal digits do not follow makes the library hang: the loop that
  decodes them does not end.\<close>

theorem proxy_hangs:
  assumes "\<forall>c \<in> set s. c \<noteq> 64 \<and> c \<noteq> 37"
    and "\<not> (\<exists>a b rest. t = a # b # rest \<and> hex_value a \<noteq> None \<and> hex_value b \<noteq> None)"
  shows "MQTTProtocol_specialChars (s @ 37 # t) = None"
proof -
  have stuck: "special_loop (37 # t) p n = None" for p n
  proof -
    have ne: "special_loop p1 p0 n = Some y \<Longrightarrow> p1 \<noteq> 37 # t" for p1 p0 n y
    proof (erule special_loop.raw_induct [of "\<lambda>p1 p0 n y. p1 \<noteq> 37 # t", rotated])
      fix special_loop p1 p0 n y
      assume ih: "\<And>p1 p0 n y. special_loop p1 p0 n = Some y \<Longrightarrow> p1 \<noteq> 37 # t"
        and body: "(case p1 of [] \<Rightarrow> None
          | c # rest \<Rightarrow> if c = 64 then Some (p0, n) else if c \<noteq> 37 then special_loop rest (p0 @ [c]) n
              else (case rest of a # b # rest2 \<Rightarrow> (case (hex_value a, hex_value b) of
                      (Some x, Some y) \<Rightarrow> special_loop rest2 (p0 @ [of_nat (16 * x + y)]) (n + 2)
                    | _ \<Rightarrow> special_loop p1 p0 n) | _ \<Rightarrow> special_loop p1 p0 n)) = Some y"
      show "p1 \<noteq> 37 # t"
      proof
        assume p1: "p1 = 37 # t"
        then have "special_loop p1 p0 n = Some y"
          using body assms(2) by (auto split: list.splits option.splits if_splits)
        from ih [OF this] p1 show False by simp
      qed
    qed
    show ?thesis
    proof (cases "special_loop (37 # t) p n")
      case (Some y)
      from ne [OF this] show ?thesis by simp
    qed
  qed
  have "special_loop (s @ 37 # t) p n = None" for p n
    using assms(1)
  proof (induction s arbitrary: p n)
    case (Cons c s)
    then show ?case by (subst append_Cons, subst special_loop.simps) simp
  qed (simp add: stuck)
  then show ?thesis by (simp add: MQTTProtocol_specialChars_def)
qed

lemma proxy_hangs_witness: "MQTTProtocol_setHTTPProxy (ascii ''100%@proxy'') (ascii ''http://'') = None"
proof -
  have e: "ascii ''100%@proxy'' = ascii ''100'' @ 37 # ascii ''@proxy''" "\<not> contains (ascii ''http://'') (ascii ''100%@proxy'')"
      "strchr 64 (ascii ''100%@proxy'') = Some 4" "\<forall>c \<in> set (ascii ''100''). c \<noteq> 64 \<and> c \<noteq> 37"
      "hex_value (ascii ''@proxy'' ! 0) = None"
    by code_simp+
  have "MQTTProtocol_specialChars (ascii ''100'' @ 37 # ascii ''@proxy'') = None"
    by (rule proxy_hangs) (use e(4,5) in auto)
  then show ?thesis using e(2,3) unfolding MQTTProtocol_setHTTPProxy_def Let_def e(1) by simp
qed

section \<open>The answer that opens a websocket\<close>

definition upgrade_headers :: "bytes \<Rightarrow> bytes" where
  "upgrade_headers value =
     crlf @ ascii ''Connection: Upgrade'' @ crlf @ ascii ''Sec-WebSocket-Accept: '' @ value @ crlf @ crlf"

lemma strncmp_prefix:
  assumes "0 \<notin> set v"
  shows "strncmp_eq (length v) (v @ r) (k @ [0]) = Some (take (length v) k = v)"
  using assms
proof (induction v arbitrary: k)
  case (Cons x v)
  then show ?case by (cases k) auto
qed simp

lemma strcasefind_at:
  assumes "map lower m = map lower str" "\<forall>i < length pre. map lower (take (length str) (drop i (pre @ m))) \<noteq> map lower str"
  shows "strcasefind_loop pos (pre @ m @ rest) str = Some (pos + length pre)"
  using assms(2)
proof (induction pre arbitrary: pos)
  case Nil
  have n: "length m = length str" using arg_cong [OF assms(1), of length] by simp
  show ?case
  proof (cases "m @ rest")
    case Nil
    then show ?thesis using n by simp
  next
    case (Cons b bs)
    have "take (length str) (m @ rest) = m" "length str \<le> length (m @ rest)" using n by simp_all
    then show ?thesis using assms(1) unfolding append_Nil Cons by simp
  qed
next
  case (Cons c pre)
  have n: "length m = length str" using arg_cong [OF assms(1), of length] by simp
  have "take (length str) ((c # pre @ m) @ rest) = take (length str) (c # pre @ m)" unfolding take_append using n by simp
  moreover have "map lower (take (length str) (c # pre @ m)) \<noteq> map lower str"
    using Cons.prems [rule_format, of 0] by simp
  moreover have "strcasefind_loop (Suc pos) (pre @ m @ rest) str = Some (Suc pos + length pre)"
  proof (rule Cons.IH, intro allI impI)
    fix i assume "i < length pre"
    then show "map lower (take (length str) (drop i (pre @ m))) \<noteq> map lower str"
      using Cons.prems [rule_format, of "Suc i"] by simp
  qed
  ultimately show ?case using n by simp
qed

text \<open>C30. An answer with the headers \<open>Connection: Upgrade\<close> and \<open>Sec-WebSocket-Accept\<close> is accepted for every value
  that is a beginning of the expected one, even the empty one, and for no other value.\<close>

theorem upgrade_prefix_accepted:
  assumes "set value \<inter> {0, 10, 32, 58} = {}" "length value < 1024"
  shows "upgrade_answer (upgrade_headers value) (accept_key key) = Some (take (length value) (accept_key key) = value)"
proof -
  let ?pre = "crlf @ ascii ''Connection: Upgrade'' @ crlf"
  let ?name = "ascii ''Sec-WebSocket-Accept''"
  let ?buf = "upgrade_headers value"
  have b: "?buf \<noteq> []" "?buf = crlf @ ascii ''Connection'' @ ascii '': Upgrade'' @ crlf @ ascii ''Sec-WebSocket-Accept: '' @ value @ crlf @ crlf"
      "?buf = ?pre @ ?name @ ascii '': '' @ value @ crlf @ crlf"
    by (simp_all add: upgrade_headers_def crlf_def ascii_def)
  have c: "cstr (ascii ''Connection'') = ascii ''Connection''" "cstr (ascii ''sec-websocket-accept'') = ascii ''sec-websocket-accept''"
      "cstr (ascii ''Upgrade'') = ascii ''Upgrade''" "length crlf = 2" "length ?pre = 23"
    by code_simp+
  have f1: "WebSocket_strcasefind ?buf (ascii ''Connection'') = Some 2"
  proof -
    have "\<forall>i < length crlf. map lower (take (length (ascii ''Connection'')) (drop i (crlf @ ascii ''Connection'')))
        \<noteq> map lower (ascii ''Connection'')" by code_simp
    from strcasefind_at [OF refl this, of 0] show ?thesis
      unfolding WebSocket_strcasefind_def c(1) b(2) c(4) by (simp add: crlf_def)
  qed
  have f2: "WebSocket_strcasefind ?buf (ascii ''sec-websocket-accept'') = Some 23"
  proof -
    have m: "map lower ?name = map lower (ascii ''sec-websocket-accept'')" by code_simp
    have "\<forall>i < length ?pre. map lower (take (length (ascii ''sec-websocket-accept'')) (drop i (?pre @ ?name)))
        \<noteq> map lower (ascii ''sec-websocket-accept'')" by code_simp
    from strcasefind_at [OF m this, of 0 "ascii '': '' @ value @ crlf @ crlf"]
    have "strcasefind_loop 0 ?buf (ascii ''sec-websocket-accept'') = Some 23" unfolding b(3) c(5) by simp
    then show ?thesis unfolding WebSocket_strcasefind_def c(2) using b(1) by simp
  qed
  have d1: "drop 2 ?buf = ascii ''Connection: Upgrade'' @ [13] @ 10 # ascii ''Sec-WebSocket-Accept: '' @ value @ crlf @ crlf"
    by (simp add: upgrade_headers_def crlf_def)
  have d2: "drop 23 ?buf = (?name @ ascii '': '' @ value @ [13]) @ 10 # crlf"
    unfolding b(3) using c(5) by (simp add: crlf_def)
  have l1: "line_of (drop 2 ?buf) = Some (ascii ''Connection: Upgrade'' @ [13])"
  proof -
    have "10 \<notin> set (ascii ''Connection: Upgrade'' @ [13])" by code_simp
    then have "takeWhile (\<lambda>c. c \<noteq> 10) (ascii ''Connection: Upgrade'' @ [13]) = ascii ''Connection: Upgrade'' @ [13]"
      by (auto simp: takeWhile_eq_all_conv)
    then show ?thesis unfolding d1 line_of_def append_assoc [symmetric] by (simp add: takeWhile_tail)
  qed
  have "WebSocket_strcasefind (ascii ''Connection: Upgrade'' @ [13]) (ascii ''Upgrade'') \<noteq> None" by code_simp
  then have u: "upgrade_header ?buf = Some True" by (simp add: upgrade_header_def f1 l1)
  define line where "line = ?name @ ascii '': '' @ value @ [13]"
  have "10 \<notin> set ?name" "10 \<notin> set (ascii '': '')" by code_simp+
  then have "10 \<notin> set line" using assms by (auto simp: line_def)
  then have "takeWhile (\<lambda>c. c \<noteq> 10) line = line" by (auto simp: takeWhile_eq_all_conv)
  then have l2: "line_of (drop 23 ?buf) = Some line" unfolding d2 line_def [symmetric] line_of_def by (simp add: takeWhile_tail)
  have n: "58 \<notin> set ?name" "length ?name = 20" "ascii '': '' = [58, 32]" by code_simp+
  have p: "strchr 58 line = Some 20" using strchr_append [OF n(1)] n(2,3) by (simp add: line_def)
  have d3: "drop (23 + 20) ?buf = [58, 32] @ value @ 13 # 10 # crlf"
  proof -
    have "drop (23 + 20) ?buf = drop 20 (drop 23 ?buf)" by simp
    also have "\<dots> = [58, 32] @ value @ 13 # 10 # crlf" unfolding d2 using n(2,3) by simp
    finally show ?thesis .
  qed
  have sk: "takeWhile (\<lambda>x. x = 58 \<or> x = 32) ([58, 32] @ value @ 13 # 10 # crlf) = [58, 32]"
    using assms by (cases "value") auto
  have hl: "nat ((int (length line) - int 20 - 1 - int (length [58 :: byte, 32])) mod 2 ^ 64) = length value"
    using assms(2) by (simp add: line_def n(2,3))
  have sn: "strncmp_eq (length value) (value @ 13 # 10 # crlf) (accept_key key @ [0])
      = Some (take (length value) (accept_key key) = value)"
    using strncmp_prefix assms(1) by simp
  have "drop (length [58 :: byte, 32]) ([58, 32] @ value @ 13 # 10 # crlf) = value @ 13 # 10 # crlf" by simp
  then have "accept_header ?buf (accept_key key) = Some (take (length value) (accept_key key) = value)"
    unfolding accept_header_def f2 option.case l2 bind.simps Option.bind.bind_lunit p Let_def d3 sk hl sn
    by (simp only: sn)
  then show ?thesis by (simp add: upgrade_answer_def u)
qed

lemma upgrade_prefix_accepted_witness: "upgrade_answer (upgrade_headers []) (accept_key (ascii ''key'')) = Some True"
  using upgrade_prefix_accepted [of "[]" "ascii ''key''"] by simp

end
